(* ===== verification/Prelude.thy ===== *)
theory Prelude
  imports Main "HOL-Library.Word"
begin

text \<open>
  Shared vocabulary of the development: the parts of the C++ standard library the
  sources lean on (searching and slicing of \<open>std::string_view\<close>, \<open>std::tolower\<close> in the
  C locale, \<open>std::from_chars\<close>), the result type of \<open>include/uvpp/protocols/result.hpp\<close>,
  generic lemmas on lists, and two interfaces (locales) that several components implement:
  an association store and a machine with an invariant.

  A C++ \<open>char\<close> is an 8-bit \<open>char\<close>; a \<open>std::string\<close> or \<open>std::string_view\<close> is a
  \<open>string\<close>. A position returned by a \<open>find\<close> member is a \<open>nat option\<close>, with \<open>None\<close> for
  \<open>std::string_view::npos\<close>.
\<close>

named_theorems sv_simps \<open>rewriting for the string-view operations\<close>
named_theorems invariant_intros \<open>preservation of component invariants\<close>

section \<open>Errors and results\<close>

text \<open>\<open>uvp::error\<close> carries a code of the component and a detail string;
  \<open>uvp::result<T>\<close> is a variant of a value and an error.\<close>

datatype 'c error = Error (code: 'c) (detail: string)

type_synonym ('c, 'a) result = "'c error + 'a"

definition has_value :: "('c, 'a) result \<Rightarrow> bool" where
  "has_value r = (case r of Inl _ \<Rightarrow> False | Inr _ \<Rightarrow> True)"

text \<open>\<open>value()\<close> and \<open>error()\<close> throw \<open>std::logic_error\<close> on the wrong alternative.\<close>

definition result_value :: "('c, 'a) result \<Rightarrow> string + 'a" where
  "result_value r = (case r of Inr x \<Rightarrow> Inr x | Inl _ \<Rightarrow> Inl ''uvp::result has no value'')"

definition result_error :: "('c, 'a) result \<Rightarrow> string + 'c error" where
  "result_error r = (case r of Inl e \<Rightarrow> Inr e | Inr _ \<Rightarrow> Inl ''uvp::result has no error'')"

lemma has_value_simps [simp]:
  "has_value (Inr x)"
  "\<not> has_value (Inl e)"
  by (simp_all add: has_value_def)

section \<open>Searching lists\<close>

text \<open>The first index whose element satisfies a predicate.\<close>

fun index_of :: "('a \<Rightarrow> bool) \<Rightarrow> 'a list \<Rightarrow> nat option" where
  "index_of P [] = None"
| "index_of P (x # xs) = (if P x then Some 0 else map_option Suc (index_of P xs))"

lemma index_of_None_iff: "index_of P xs = None \<longleftrightarrow> (\<forall>x \<in> set xs. \<not> P x)"
  by (induction xs) auto

lemma index_of_append [simp]:
  "(\<forall>y \<in> set pre. \<not> P y) \<Longrightarrow> P x \<Longrightarrow> index_of P (pre @ x # post) = Some (length pre)"
  by (induction pre) auto

lemma index_of_skip:
  "(\<forall>y \<in> set pre. \<not> P y) \<Longrightarrow>
    index_of P (pre @ post) = map_option ((+) (length pre)) (index_of P post)"
proof (induction pre)
  case Nil
  then show ?case by (simp add: option.map_ident)
next
  case (Cons a pre)
  then show ?case by (cases "index_of P post") simp_all
qed

lemma index_of_map: "index_of P (map f xs) = index_of (\<lambda>x. P (f x)) xs"
  by (induction xs) auto

lemma index_of_SomeD:
  "index_of P xs = Some i \<Longrightarrow>
    i < length xs \<and> P (xs ! i) \<and> (\<forall>y \<in> set (take i xs). \<not> P y)"
  by (induction xs arbitrary: i) (auto split: if_splits)

lemma index_of_split:
  assumes "index_of P xs = Some i"
  obtains pre x post where "xs = pre @ x # post" and "length pre = i" and "P x"
    and "\<forall>y \<in> set pre. \<not> P y" and "take i xs = pre" and "drop (Suc i) xs = post"
proof -
  from index_of_SomeD [OF assms] have i: "i < length xs" "P (xs ! i)"
    "\<forall>y \<in> set (take i xs). \<not> P y" by auto
  from i(1) have "xs = take i xs @ xs ! i # drop (Suc i) xs"
    by (rule id_take_nth_drop)
  with i show thesis by (intro that [of "take i xs" "xs ! i" "drop (Suc i) xs"]) auto
qed

section \<open>String views\<close>

definition sv_find :: "char \<Rightarrow> string \<Rightarrow> nat option" where
  "sv_find c s = index_of (\<lambda>x. x = c) s"

definition sv_find_from :: "char \<Rightarrow> string \<Rightarrow> nat \<Rightarrow> nat option" where
  "sv_find_from c s off = map_option ((+) off) (index_of (\<lambda>x. x = c) (drop off s))"

definition sv_rfind :: "char \<Rightarrow> string \<Rightarrow> nat option" where
  "sv_rfind c s = map_option (\<lambda>i. length s - Suc i) (index_of (\<lambda>x. x = c) (rev s))"

definition sv_find_first_of :: "string \<Rightarrow> string \<Rightarrow> nat option" where
  "sv_find_first_of s cs = index_of (\<lambda>x. x \<in> set cs) s"

text \<open>\<open>substr(pos, n)\<close> clips at the end; \<open>substr(pos)\<close> is \<open>drop pos\<close>.\<close>

definition sv_substr :: "string \<Rightarrow> nat \<Rightarrow> nat \<Rightarrow> string" where
  "sv_substr s pos n = take n (drop pos s)"

text \<open>\<open>substr(0, pos)\<close> where \<open>pos\<close> may be \<open>npos\<close>.\<close>

definition sv_until :: "string \<Rightarrow> nat option \<Rightarrow> string" where
  "sv_until s pos = (case pos of None \<Rightarrow> s | Some i \<Rightarrow> take i s)"

definition starts_with :: "string \<Rightarrow> string \<Rightarrow> bool" where
  "starts_with s p = (take (length p) s = p)"

text \<open>\<open>find(pattern, offset)\<close> for a string pattern.\<close>

fun find_str_aux :: "string \<Rightarrow> string \<Rightarrow> nat \<Rightarrow> nat option" where
  "find_str_aux p [] i = (if p = [] then Some i else None)"
| "find_str_aux p (x # xs) i =
     (if starts_with (x # xs) p then Some i else find_str_aux p xs (Suc i))"

definition sv_find_str :: "string \<Rightarrow> string \<Rightarrow> nat \<Rightarrow> nat option" where
  "sv_find_str p s off = (if length s < off then None else find_str_aux p (drop off s) off)"

lemma starts_with_append [simp, sv_simps]: "starts_with (p @ s) p"
  by (simp add: starts_with_def)

lemma starts_withE:
  assumes "starts_with s p"
  obtains t where "s = p @ t"
proof -
  from assms have "s = p @ drop (length p) s"
    by (metis append_take_drop_id starts_with_def)
  then show thesis by (rule that)
qed

lemma starts_with_iff: "starts_with s p \<longleftrightarrow> (\<exists>t. s = p @ t)"
  by (auto elim: starts_withE)

lemma sv_find_None [simp, sv_simps]: "sv_find c s = None \<longleftrightarrow> c \<notin> set s"
  by (auto simp: sv_find_def index_of_None_iff)

lemma sv_find_absent [simp, sv_simps]: "c \<notin> set s \<Longrightarrow> sv_find c s = None"
  by simp

lemma sv_find_append [simp, sv_simps]:
  "c \<notin> set pre \<Longrightarrow> sv_find c (pre @ c # post) = Some (length pre)"
  unfolding sv_find_def by (rule index_of_append) auto

lemma sv_find_split:
  assumes "sv_find c s = Some i"
  obtains pre post where "s = pre @ c # post" "length pre = i" "c \<notin> set pre"
    "take i s = pre" "drop (Suc i) s = post"
  using assms unfolding sv_find_def by (elim index_of_split) auto

lemma sv_find_optional:
  "c \<notin> set s \<Longrightarrow>
     sv_find c (s @ (if b then c # t else [])) = (if b then Some (length s) else None)"
  by simp

lemma sv_find_cut:
  obtains pre post where
    "sv_find c s = None \<and> pre = s \<and> post = [] \<or>
     (\<exists>i. sv_find c s = Some i \<and> take i s = pre \<and> drop (Suc i) s = post)"
    "c \<notin> set pre" "set pre \<union> set post \<subseteq> set s" "\<exists>t. s = pre @ t \<and> (t = [] \<or> hd t = c)"
proof (cases "sv_find c s")
  case None
  then show thesis by (intro that [of s "[]"]) auto
next
  case (Some i)
  then obtain pre post where "s = pre @ c # post" "c \<notin> set pre" "take i s = pre" "drop (Suc i) s = post"
    by (rule sv_find_split)
  with Some show thesis by (intro that [of pre post]) auto
qed

lemma sv_find_less: "sv_find c s = Some i \<Longrightarrow> i < length s"
  unfolding sv_find_def by (drule index_of_SomeD) simp

lemma sv_rfind_None [simp, sv_simps]: "sv_rfind c s = None \<longleftrightarrow> c \<notin> set s"
  by (auto simp: sv_rfind_def index_of_None_iff)

lemma sv_rfind_absent [simp, sv_simps]: "c \<notin> set s \<Longrightarrow> sv_rfind c s = None"
  by simp

lemma sv_rfind_append [simp, sv_simps]:
  "c \<notin> set post \<Longrightarrow> sv_rfind c (pre @ c # post) = Some (length pre)"
proof -
  assume "c \<notin> set post"
  then have "\<forall>y \<in> set (rev post). y \<noteq> c" by auto
  then have "index_of (\<lambda>x. x = c) (rev post @ c # rev pre) = Some (length (rev post))"
    by (rule index_of_append) simp
  then show ?thesis by (simp add: sv_rfind_def)
qed

lemma sv_rfind_split:
  assumes "sv_rfind c s = Some i"
  obtains pre post where "s = pre @ c # post" "length pre = i" "c \<notin> set post"
    "take i s = pre" "drop (Suc i) s = post"
proof -
  from assms obtain j where j: "index_of (\<lambda>x. x = c) (rev s) = Some j" and i: "i = length s - Suc j"
    by (auto simp: sv_rfind_def index_of_None_iff)
  from j obtain pre x post where r: "rev s = pre @ x # post" "x = c" "\<forall>y \<in> set pre. y \<noteq> c"
      "length pre = j"
    by (rule index_of_split)
  from r(1) have s: "s = rev post @ c # rev pre"
    by (metis r(2) append.assoc append_Cons append_Nil rev.simps(2) rev_append rev_rev_ident)
  moreover have "length (rev post) = i" using i r(4) s by simp
  ultimately show thesis using r(3) by (intro that [of "rev post" "rev pre"]) auto
qed

lemma sv_find_first_of_None [simp, sv_simps]:
  "sv_find_first_of s cs = None \<longleftrightarrow> set s \<inter> set cs = {}"
  by (auto simp: sv_find_first_of_def index_of_None_iff)

lemma sv_find_first_of_absent [simp, sv_simps]:
  "set s \<inter> set cs = {} \<Longrightarrow> sv_find_first_of s cs = None"
  by simp

lemma sv_find_first_of_append [sv_simps]:
  "set pre \<inter> set cs = {} \<Longrightarrow> c \<in> set cs \<Longrightarrow>
    sv_find_first_of (pre @ c # post) cs = Some (length pre)"
  unfolding sv_find_first_of_def by (rule index_of_append) auto

lemma sv_find_first_of_split:
  assumes "sv_find_first_of s cs = Some i"
  obtains pre c post where "s = pre @ c # post" "length pre = i" "c \<in> set cs"
    "set pre \<inter> set cs = {}" "take i s = pre" "drop i s = c # post"
proof -
  from assms obtain pre x post where "s = pre @ x # post" "length pre = i" "x \<in> set cs"
      "\<forall>y \<in> set pre. y \<notin> set cs"
    unfolding sv_find_first_of_def by (rule index_of_split)
  then show thesis by (intro that [of pre x post]) auto
qed

text \<open>Reference definition: the fields of a string between separators.\<close>

fun split_on :: "char \<Rightarrow> string \<Rightarrow> string list" where
  "split_on c [] = [[]]"
| "split_on c (x # xs) =
     (if x = c then [] # split_on c xs
      else case split_on c xs of [] \<Rightarrow> [[x]] | s # ss \<Rightarrow> (x # s) # ss)"

lemma split_on_not_Nil [simp]: "split_on c s \<noteq> []"
  by (induction s) (auto split: list.split)

lemma split_on_absent [simp]: "c \<notin> set s \<Longrightarrow> split_on c s = [s]"
  by (induction s) auto

lemma split_on_append [simp]: "c \<notin> set s \<Longrightarrow> split_on c (s @ c # t) = s # split_on c t"
  by (induction s) auto

lemma split_on_sv_find:
  "split_on c s = (case sv_find c s of
      None \<Rightarrow> [s] | Some i \<Rightarrow> take i s # split_on c (drop (Suc i) s))"
proof (cases "sv_find c s")
  case None
  then show ?thesis by simp
next
  case (Some i)
  then obtain pre post where "s = pre @ c # post" "c \<notin> set pre" "take i s = pre"
      "drop (Suc i) s = post"
    by (rule sv_find_split)
  with Some show ?thesis by simp
qed

lemma split_on_no_separator: "x \<in> set (split_on c s) \<Longrightarrow> c \<notin> set x"
  by (induction s arbitrary: x) (auto split: if_splits list.splits)

section \<open>Characters\<close>

text \<open>The value of a \<open>char\<close> read as an \<open>unsigned char\<close>.\<close>

abbreviation ord :: "char \<Rightarrow> int" where
  "ord c \<equiv> of_char c"

text \<open>\<open>std::tolower\<close> in the C locale changes the letters \<open>A\<close> to \<open>Z\<close> only.\<close>

definition tolower :: "char \<Rightarrow> char" where
  "tolower c = (if 65 \<le> ord c \<and> ord c \<le> 90 then char_of (ord c + 32) else c)"

lemma ord_bounds [simp]: "0 \<le> ord c" "ord c < 256"
  using of_char_mod_256 [of c, where 'a = int] by (metis pos_mod_sign zero_less_numeral)
    (metis of_char_mod_256 pos_mod_bound zero_less_numeral)

lemma ord_char_of [simp]: "ord (char_of n) = n mod 256"
  by simp

lemma ord_tolower: "ord (tolower c) = (if 65 \<le> ord c \<and> ord c \<le> 90 then ord c + 32 else ord c)"
  by (simp add: tolower_def)

lemma tolower_tolower [simp]: "tolower (tolower c) = tolower c"
  by (simp add: tolower_def)

lemma ord_eqI: "ord c = ord d \<Longrightarrow> c = d"
  by (metis char_of_char)

lemma tolower_fixed: "ord c < 65 \<or> 90 < ord c \<Longrightarrow> tolower c = c"
  by (auto simp: tolower_def)

text \<open>A character outside the letters has no other preimage under \<open>tolower\<close>.\<close>

lemma tolower_eq_iff:
  assumes "ord d < 65 \<or> 122 < ord d \<or> (90 < ord d \<and> ord d < 97)"
  shows "tolower c = d \<longleftrightarrow> c = d"
proof
  assume "tolower c = d"
  then have "ord (tolower c) = ord d" by simp
  with assms show "c = d" by (auto simp: ord_tolower split: if_splits intro: ord_eqI)
next
  assume "c = d"
  with assms show "tolower c = d" by (auto intro: tolower_fixed)
qed

section \<open>Decimal numbers\<close>

definition is_digit :: "char \<Rightarrow> bool" where
  "is_digit c \<longleftrightarrow> 48 \<le> ord c \<and> ord c \<le> 57"

fun digits_value :: "int \<Rightarrow> string \<Rightarrow> int" where
  "digits_value n [] = n"
| "digits_value n (c # cs) = digits_value (10 * n + (ord c - 48)) cs"

text \<open>
  \<open>std::from_chars\<close> into an \<open>unsigned int\<close>, together with the callers' test that the whole
  range was consumed (\<open>ptr == last\<close>): a non-empty run of digits whose value fits 32 bits.
  Into an \<open>int\<close>, a single leading minus sign is accepted as well.
\<close>

definition from_chars_unsigned :: "string \<Rightarrow> int option" where
  "from_chars_unsigned s =
     (if s \<noteq> [] \<and> list_all is_digit s \<and> digits_value 0 s < 4294967296
      then Some (digits_value 0 s) else None)"

definition from_chars_int :: "string \<Rightarrow> int option" where
  "from_chars_int s =
     (case s of
        [] \<Rightarrow> None
      | c # cs \<Rightarrow>
          if c = CHR ''-'' then
            (if cs \<noteq> [] \<and> list_all is_digit cs \<and> digits_value 0 cs \<le> 2147483648
             then Some (- digits_value 0 cs) else None)
          else
            (if list_all is_digit s \<and> digits_value 0 s < 2147483648
             then Some (digits_value 0 s) else None))"

lemma digits_value_nonneg: "0 \<le> n \<Longrightarrow> list_all is_digit s \<Longrightarrow> 0 \<le> digits_value n s"
  by (induction s arbitrary: n) (auto simp: is_digit_def)

section \<open>Interface: an association store\<close>

text \<open>
  Several classes of the sources keep an ordered vector of name/value pairs and answer a
  lookup with the first entry whose name is the same, under an equivalence of their own
  (\<open>http::headers\<close> ignores case, \<open>http::route_params\<close> does not).
\<close>

locale assoc_store =
  fixes same :: "'k \<Rightarrow> 'k \<Rightarrow> bool"
    and mem :: "'m \<Rightarrow> 'k \<Rightarrow> bool"
    and lookup :: "'m \<Rightarrow> 'k \<Rightarrow> 'v"
    and put :: "'m \<Rightarrow> 'k \<Rightarrow> 'v \<Rightarrow> 'm"
    and absent :: 'v
  assumes same_refl: "same k k"
    and same_sym: "same k k' \<Longrightarrow> same k' k"
    and same_trans: "same k k' \<Longrightarrow> same k' k'' \<Longrightarrow> same k k''"
    and lookup_put_same: "same k k' \<Longrightarrow> lookup (put m k v) k' = v"
    and lookup_put_other: "\<not> same k k' \<Longrightarrow> lookup (put m k v) k' = lookup m k'"
    and mem_put: "mem (put m k v) k' \<longleftrightarrow> same k k' \<or> mem m k'"
    and lookup_absent: "\<not> mem m k \<Longrightarrow> lookup m k = absent"
begin

lemma lookup_put: "lookup (put m k v) k' = (if same k k' then v else lookup m k')"
  by (simp add: lookup_put_same lookup_put_other)

lemma lookup_put_put: "same k k2 \<Longrightarrow> lookup (put (put m k v) k2 w) k' = lookup (put m k w) k'"
  using same_trans [of k k2 k'] same_trans [OF same_sym, of k k2 k'] by (auto simp: lookup_put)

lemma lookup_put_commute:
  "\<not> same k k2 \<Longrightarrow> lookup (put (put m k v) k2 w) k' = lookup (put (put m k2 w) k v) k'"
  using same_trans [OF _ same_sym, of k k' k2] by (auto simp: lookup_put)

text \<open>After a sequence of \<open>put\<close>s a lookup gives the last value put under the name.\<close>

lemma lookup_puts:
  "lookup (foldl (\<lambda>m (k, v). put m k v) m kvs) k' =
     (case find (\<lambda>(k, v). same k k') (rev kvs) of
        None \<Rightarrow> lookup m k' | Some (k, v) \<Rightarrow> v)"
proof (induction kvs rule: rev_induct)
  case Nil
  then show ?case by simp
next
  case (snoc kv kvs)
  then show ?case by (cases kv) (auto simp: lookup_put)
qed

lemma mem_puts:
  "mem (foldl (\<lambda>m (k, v). put m k v) m kvs) k' \<longleftrightarrow>
     (\<exists>(k, v) \<in> set kvs. same k k') \<or> mem m k'"
proof (induction kvs rule: rev_induct)
  case Nil
  then show ?case by simp
next
  case (snoc kv kvs)
  then show ?case by (cases kv) (auto simp: mem_put)
qed

end

section \<open>Numbers in text\<close>

text \<open>\<open>std::to_string\<close> and \<open>std::hex\<close> on an unsigned value, and a reader for both.\<close>

definition digit_char :: "nat \<Rightarrow> char" where
  "digit_char d = char_of (if d < 10 then 48 + d else 87 + d)"

fun print_number :: "nat \<Rightarrow> nat \<Rightarrow> string" where
  "print_number b n = (if n < b \<or> b < 2 then [digit_char n] else print_number b (n div b) @ [digit_char (n mod b)])"

declare print_number.simps [simp del]

definition digit_of :: "char \<Rightarrow> nat option" where
  "digit_of c =
     (let v = (of_char c :: nat)
      in if 48 \<le> v \<and> v \<le> 57 then Some (v - 48) else if 97 \<le> v \<and> v \<le> 102 then Some (v - 87) else None)"

definition add_digit :: "nat \<Rightarrow> nat option \<Rightarrow> char \<Rightarrow> nat option" where
  "add_digit b acc c =
     (case (acc, digit_of c) of (Some a, Some d) \<Rightarrow> if d < b then Some (b * a + d) else None | _ \<Rightarrow> None)"

definition read_number :: "nat \<Rightarrow> string \<Rightarrow> nat option" where
  "read_number b s = (if s = [] then None else foldl (add_digit b) (Some 0) s)"

lemma add_digit_Some: "digit_of c = Some d \<Longrightarrow> d < b \<Longrightarrow> add_digit b (Some a) c = Some (b * a + d)"
  by (simp add: add_digit_def)

lemma digit_of_digit_char: "d < 16 \<Longrightarrow> digit_of (digit_char d) = Some d"
  by (simp add: digit_of_def digit_char_def Let_def)

lemma number_nonempty [simp]: "print_number b n \<noteq> []"
  by (subst print_number.simps) simp

lemma read_number_number:
  assumes "2 \<le> b" and "b \<le> 16"
  shows "read_number b (print_number b n) = Some n"
proof -
  have "foldl (add_digit b) (Some 0) (print_number b n) = Some n" using assms
  proof (induction b n rule: print_number.induct)
    case (1 b n)
    have d: "digit_of (digit_char (n mod b)) = Some (n mod b)"
    proof (rule digit_of_digit_char)
      have "n mod b < b" using 1 by (intro mod_less_divisor) simp
      then show "n mod b < 16" using 1(3) by (rule less_le_trans)
    qed
    show ?case
    proof (cases "n < b")
      case True
      then show ?thesis using 1 by (subst print_number.simps) (simp add: add_digit_Some digit_of_digit_char)
    next
      case False
      then show ?thesis using 1 d by (subst print_number.simps) (simp add: add_digit_Some)
    qed
  qed
  then show ?thesis by (simp add: read_number_def)
qed

lemma number_digits: "2 \<le> b \<Longrightarrow> b \<le> 16 \<Longrightarrow> c \<in> set (print_number b n) \<Longrightarrow> digit_of c \<noteq> None"
proof (induction b n rule: print_number.induct)
  case (1 b n)
  have "d < b \<Longrightarrow> digit_of (digit_char d) = Some d" for d using 1 by (intro digit_of_digit_char) simp
  with 1 show ?case by (subst (asm) (2) print_number.simps) (auto split: if_splits)
qed

section \<open>Interface: a machine with an invariant\<close>

text \<open>
  A component driven by callbacks is a state and a step per callback. What a step keeps,
  every finite sequence of callbacks keeps.
\<close>

locale inv_machine =
  fixes step :: "'s \<Rightarrow> 'e \<Rightarrow> 's"
    and inv :: "'s \<Rightarrow> bool"
  assumes step_inv: "inv s \<Longrightarrow> inv (step s e)"
begin

lemma run_inv: "inv s \<Longrightarrow> inv (foldl step s es)"
  by (induction es arbitrary: s) (simp_all add: step_inv)

end

text \<open>A machine that, once stopped, ignores every further callback.\<close>

locale stopping_machine = inv_machine +
  fixes stopped :: "'s \<Rightarrow> bool"
  assumes stopped_step: "inv s \<Longrightarrow> stopped s \<Longrightarrow> step s e = s"
begin

lemma stopped_run: "inv s \<Longrightarrow> stopped s \<Longrightarrow> foldl step s es = s"
  by (induction es arbitrary: s) (simp_all add: stopped_step)

lemma stopped_suffix: "inv s \<Longrightarrow> stopped (foldl step s es) \<Longrightarrow>
    foldl step s (es @ es') = foldl step s es"
  by (simp add: stopped_run run_inv)

end

end
