(* ===== verification/Url.thy ===== *)
theory Url
  imports Prelude
begin

text \<open>
  The URL module, \<open>src/url.cpp\<close> and \<open>include/uvpp/protocols/url.hpp\<close>: parsing of
  absolute URLs, resolution of a reference against a base, ports, origins and request
  targets. A \<open>url\<close> object is the record \<open>url\<close>; a failed parse is an \<open>url_errc\<close>.
\<close>

section \<open>Data\<close>

datatype url_errc =
    url_invalid
  | missing_scheme
  | unsupported_scheme
  | missing_host
  | invalid_port

datatype url_scheme_t = scheme_http | scheme_https | scheme_ws | scheme_wss | scheme_other

record url =
  href :: string
  scheme :: string
  username :: string
  password :: string
  host :: string
  hostname :: string
  port :: string
  path :: string
  query :: string
  fragment :: string
  has_authority :: bool
  ip_literal :: bool

definition empty_url :: url where
  "empty_url = \<lparr>href = [], scheme = [], username = [], password = [], host = [], hostname = [],
     port = [], path = [], query = [], fragment = [], has_authority = False, ip_literal = False\<rparr>"

definition has_credentials :: "url \<Rightarrow> bool" where
  "has_credentials u \<longleftrightarrow> username u \<noteq> [] \<or> password u \<noteq> []"

definition has_port :: "url \<Rightarrow> bool" where
  "has_port u \<longleftrightarrow> port u \<noteq> []"

record url_authority_endpoint =
  ep_host :: string
  ep_port :: "16 word"
  ep_host_is_ip_literal :: bool

record origin =
  origin_scheme :: url_scheme_t
  origin_hostname :: string
  origin_port :: "16 word"

section \<open>Lexical helpers\<close>

fun url_error_message :: "url_errc \<Rightarrow> string" where
  "url_error_message url_invalid = ''invalid URL''"
| "url_error_message missing_scheme = ''URL scheme is missing''"
| "url_error_message unsupported_scheme = ''URL scheme is unsupported''"
| "url_error_message missing_host = ''URL host is missing''"
| "url_error_message invalid_port = ''URL port is invalid''"

definition make_url_error :: "url_errc \<Rightarrow> url_errc error" where
  "make_url_error c = Error c []"

definition is_ascii_alpha :: "char \<Rightarrow> bool" where
  "is_ascii_alpha c \<longleftrightarrow> (65 \<le> ord c \<and> ord c \<le> 90) \<or> (97 \<le> ord c \<and> ord c \<le> 122)"

definition is_scheme_char :: "char \<Rightarrow> bool" where
  "is_scheme_char c \<longleftrightarrow>
     is_ascii_alpha c \<or> is_digit c \<or> c = CHR ''+'' \<or> c = CHR ''-'' \<or> c = CHR ''.''"

definition lowercase :: "string \<Rightarrow> string" where
  "lowercase s = map tolower s"

fun valid_scheme :: "string \<Rightarrow> bool" where
  "valid_scheme [] = False"
| "valid_scheme (c # cs) = (is_ascii_alpha c \<and> list_all is_scheme_char cs)"

definition is_ascii_whitespace :: "char \<Rightarrow> bool" where
  "is_ascii_whitespace c \<longleftrightarrow>
     c \<in> {CHR '' '', CHR 0x09, CHR 0x0D, CHR 0x0A, CHR 0x0C}"

definition contains_ascii_whitespace :: "string \<Rightarrow> bool" where
  "contains_ascii_whitespace s \<longleftrightarrow> list_ex is_ascii_whitespace s"

text \<open>The loop of \<open>looks_like_ipv4_literal\<close> over what is left of the value, counting
  the parts; \<open>None\<close> is its early \<open>return false\<close>. The segment is converted to an \<open>int\<close>.\<close>

function ipv4_parts :: "string \<Rightarrow> nat \<Rightarrow> nat option" where
  "ipv4_parts rest parts =
     (let next = sv_find (CHR ''.'') rest;
          segment = sv_until rest next
      in if segment = [] \<or> length segment > 3 then None
         else case from_chars_int segment of
                None \<Rightarrow> None
              | Some number \<Rightarrow>
                  if number > 255 then None
                  else case next of
                         None \<Rightarrow> Some (Suc parts)
                       | Some i \<Rightarrow> ipv4_parts (drop (Suc i) rest) (Suc parts))"
  by pat_completeness auto
termination
proof (relation "measure (\<lambda>(rest, parts). length rest)")
  fix rest parts x xa xb xc
  assume "x = sv_find (CHR ''.'') rest" "x = Some xc"
  then have "xc < length rest" by (metis sv_find_less)
  then show "((drop (Suc xc) rest, Suc parts), rest, parts) \<in> measure (\<lambda>(rest, parts). length rest)"
    by simp
qed simp

declare ipv4_parts.simps [simp del]

definition looks_like_ipv4_literal :: "string \<Rightarrow> bool" where
  "looks_like_ipv4_literal value \<longleftrightarrow> value \<noteq> [] \<and> ipv4_parts value 0 = Some 4"

definition looks_like_ipv6_literal :: "string \<Rightarrow> bool" where
  "looks_like_ipv6_literal value \<longleftrightarrow> sv_find (CHR '':'') value \<noteq> None"

definition first_of_or_end :: "string \<Rightarrow> string \<Rightarrow> nat" where
  "first_of_or_end value chars =
     (case sv_find_first_of value chars of None \<Rightarrow> length value | Some p \<Rightarrow> p)"

definition has_absolute_scheme :: "string \<Rightarrow> bool" where
  "has_absolute_scheme value =
     (case sv_find (CHR '':'') value of
        None \<Rightarrow> False
      | Some scheme_end \<Rightarrow>
          scheme_end < first_of_or_end value ''/?#'' \<and> valid_scheme (take scheme_end value))"

definition parse_port :: "string \<Rightarrow> (url_errc, 16 word) result" where
  "parse_port value =
     (if value = [] then Inl (make_url_error invalid_port)
      else case from_chars_unsigned value of
             None \<Rightarrow> Inl (make_url_error invalid_port)
           | Some number \<Rightarrow>
               if number > 65535 then Inl (make_url_error invalid_port)
               else Inr (of_int number))"

section \<open>Authority\<close>

text \<open>The user-info part of \<open>parse_authority\<close>: the record with the credentials, and the
  remaining \<open>host_port\<close>.\<close>

definition parse_userinfo :: "string \<Rightarrow> url \<Rightarrow> url \<times> string" where
  "parse_userinfo authority parsed =
     (case sv_rfind (CHR ''@'') authority of
        None \<Rightarrow> (parsed, authority)
      | Some at \<Rightarrow>
          let userinfo = take at authority;
              host_port = drop (Suc at) authority
          in case sv_find (CHR '':'') userinfo of
               None \<Rightarrow> (parsed\<lparr>username := userinfo\<rparr>, host_port)
             | Some colon \<Rightarrow>
                 (parsed\<lparr>username := take colon userinfo, password := drop (Suc colon) userinfo\<rparr>,
                  host_port))"

text \<open>The host and port part; \<open>None\<close> is \<open>return false\<close>.\<close>

definition parse_bracket_host :: "string \<Rightarrow> url \<Rightarrow> url option" where
  "parse_bracket_host host_port parsed =
     (case sv_find (CHR '']'') host_port of
        None \<Rightarrow> None
      | Some close \<Rightarrow>
          let hostname_v = sv_substr host_port 1 (close - 1);
              parsed = parsed\<lparr>hostname := hostname_v, host := take (Suc close) host_port,
                              ip_literal := looks_like_ipv6_literal hostname_v\<rparr>;
              rest = drop (Suc close) host_port
          in if rest \<noteq> [] \<and> hd rest \<noteq> CHR '':'' then None
             else let parsed = (if rest \<noteq> [] then parsed\<lparr>port := tl rest\<rparr> else parsed)
                  in if hostname_v = [] then None else Some parsed)"

definition parse_plain_host :: "string \<Rightarrow> url \<Rightarrow> url option" where
  "parse_plain_host host_port parsed =
     (let parsed =
            (case sv_rfind (CHR '':'') host_port of
               None \<Rightarrow> parsed\<lparr>hostname := lowercase host_port\<rparr>
             | Some colon \<Rightarrow>
                 if sv_find (CHR '':'') host_port = Some colon
                 then parsed\<lparr>hostname := lowercase (take colon host_port),
                             port := drop (Suc colon) host_port\<rparr>
                 else parsed\<lparr>hostname := lowercase host_port\<rparr>);
          parsed = parsed\<lparr>host := hostname parsed,
                          ip_literal := looks_like_ipv4_literal (hostname parsed)\<rparr>
      in if hostname parsed = [] then None else Some parsed)"

definition parse_authority :: "string \<Rightarrow> url \<Rightarrow> url option" where
  "parse_authority authority parsed =
     (let (parsed, host_port) = parse_userinfo authority (parsed\<lparr>has_authority := True\<rparr>)
      in if host_port = [] then None
         else if hd host_port = CHR ''['' then parse_bracket_host host_port parsed
         else parse_plain_host host_port parsed)"

definition serialize_authority :: "url \<Rightarrow> string" where
  "serialize_authority u =
     (if has_credentials u
      then username u @ (if password u \<noteq> [] then CHR '':'' # password u else []) @ ''@''
      else [])
     @ host u @ (if has_port u then CHR '':'' # port u else [])"

section \<open>Parsing\<close>

text \<open>The reassembly of \<open>href_\<close> at the end of \<open>parse_absolute\<close>.\<close>

definition build_href :: "url \<Rightarrow> string" where
  "build_href u =
     scheme u @ '':''
     @ (if has_authority u then ''//'' @ serialize_authority u else [])
     @ path u
     @ (if query u \<noteq> [] then CHR ''?'' # query u else [])
     @ (if fragment u \<noteq> [] then CHR ''#'' # fragment u else [])"

text \<open>Everything after the authority: fragment, query and path, then the new \<open>href_\<close>.\<close>

definition parse_tail_fields :: "string \<Rightarrow> url \<Rightarrow> url" where
  "parse_tail_fields rest parsed =
     (let (parsed, rest) =
            (case sv_find (CHR ''#'') rest of
               None \<Rightarrow> (parsed, rest)
             | Some i \<Rightarrow> (parsed\<lparr>fragment := drop (Suc i) rest\<rparr>, take i rest));
          (parsed, rest) =
            (case sv_find (CHR ''?'') rest of
               None \<Rightarrow> (parsed, rest)
             | Some i \<Rightarrow> (parsed\<lparr>query := drop (Suc i) rest\<rparr>, take i rest))
      in parsed\<lparr>path := (if rest = [] \<and> has_authority parsed then ''/'' else rest)\<rparr>)"

definition parse_tail :: "string \<Rightarrow> url \<Rightarrow> url" where
  "parse_tail rest parsed =
     (let parsed = parse_tail_fields rest parsed in parsed\<lparr>href := build_href parsed\<rparr>)"

definition parse_absolute :: "string \<Rightarrow> (url_errc, url) result" where
  "parse_absolute input =
     (if input = [] \<or> contains_ascii_whitespace input then Inl (make_url_error url_invalid)
      else case sv_find (CHR '':'') input of
             None \<Rightarrow> Inl (make_url_error missing_scheme)
           | Some scheme_end \<Rightarrow>
               let parsed = empty_url\<lparr>scheme := lowercase (take scheme_end input)\<rparr>;
                   rest = drop (Suc scheme_end) input
               in if \<not> valid_scheme (scheme parsed) then Inl (make_url_error url_invalid)
                  else if starts_with rest ''//'' then
                    let rest = drop 2 rest;
                        authority_end = first_of_or_end rest ''/?#''
                    in case parse_authority (take authority_end rest) parsed of
                         None \<Rightarrow> Inl (make_url_error missing_host)
                       | Some parsed \<Rightarrow> Inr (parse_tail (drop authority_end rest) parsed)
                  else Inr (parse_tail rest parsed))"

definition parse_url :: "string \<Rightarrow> (url_errc, url) result" where
  "parse_url input = parse_absolute input"

text \<open>The reference string that \<open>parse_url(input, base)\<close> builds before parsing it.\<close>

definition resolve_reference :: "string \<Rightarrow> url \<Rightarrow> string" where
  "resolve_reference input base_value =
     (if starts_with input ''//'' then scheme base_value @ '':'' @ input
      else if starts_with input ''/'' then
        scheme base_value @ ''://'' @ serialize_authority base_value @ input
      else
        scheme base_value @ ''://'' @ serialize_authority base_value
        @ (case sv_rfind (CHR ''/'') (path base_value) of
             None \<Rightarrow> ''/''
           | Some slash \<Rightarrow> take (Suc slash) (path base_value))
        @ input)"

definition parse_url_base :: "string \<Rightarrow> string \<Rightarrow> (url_errc, url) result" where
  "parse_url_base input base =
     (if has_absolute_scheme input then parse_absolute input
      else case parse_absolute base of
             Inl e \<Rightarrow> Inl e
           | Inr base_value \<Rightarrow>
               if input = [] then Inr base_value
               else parse_absolute (resolve_reference input base_value))"

section \<open>Ports, targets and origins\<close>

definition scheme_id :: "url \<Rightarrow> url_scheme_t" where
  "scheme_id u =
     (if scheme u = ''http'' then scheme_http
      else if scheme u = ''https'' then scheme_https
      else if scheme u = ''ws'' then scheme_ws
      else if scheme u = ''wss'' then scheme_wss
      else scheme_other)"

definition explicit_port :: "url \<Rightarrow> 16 word option" where
  "explicit_port u =
     (if \<not> has_port u then None
      else case parse_port (port u) of Inl _ \<Rightarrow> None | Inr p \<Rightarrow> Some p)"

fun default_port :: "url_scheme_t \<Rightarrow> 16 word option" where
  "default_port scheme_http = Some 80"
| "default_port scheme_ws = Some 80"
| "default_port scheme_https = Some 443"
| "default_port scheme_wss = Some 443"
| "default_port scheme_other = None"

definition effective_port :: "url \<Rightarrow> (url_errc, 16 word) result" where
  "effective_port u =
     (if has_port u then parse_port (port u)
      else case default_port (scheme_id u) of
             None \<Rightarrow> Inl (make_url_error unsupported_scheme)
           | Some p \<Rightarrow> Inr p)"

definition host_is_ip_literal :: "url \<Rightarrow> bool" where
  "host_is_ip_literal u = ip_literal u"

definition origin_form_target :: "url \<Rightarrow> string" where
  "origin_form_target u =
     (if path u = [] then ''/'' else path u)
     @ (if query u \<noteq> [] then CHR ''?'' # query u else [])"

definition absolute_form_target :: "url \<Rightarrow> string" where
  "absolute_form_target u =
     scheme u @ '':''
     @ (if has_authority u then ''//'' @ serialize_authority u else [])
     @ origin_form_target u"

definition authority_endpoint :: "url \<Rightarrow> (url_errc, url_authority_endpoint) result" where
  "authority_endpoint u =
     (if \<not> has_authority u \<or> hostname u = [] then Inl (make_url_error missing_host)
      else case effective_port u of
             Inl e \<Rightarrow> Inl e
           | Inr p \<Rightarrow> Inr \<lparr>ep_host = hostname u, ep_port = p,
                           ep_host_is_ip_literal = host_is_ip_literal u\<rparr>)"

definition origin_from_url :: "url \<Rightarrow> (url_errc, origin) result" where
  "origin_from_url u =
     (if \<not> has_authority u \<or> hostname u = [] then Inl (make_url_error missing_host)
      else case effective_port u of
             Inl e \<Rightarrow> Inl e
           | Inr p \<Rightarrow> Inr \<lparr>origin_scheme = scheme_id u, origin_hostname = hostname u,
                           origin_port = p\<rparr>)"

section \<open>Lemmas on the helpers\<close>

text \<open>The delimiters of a URL are not letters, so lower-casing keeps their positions.\<close>

definition delimiter :: "char \<Rightarrow> bool" where
  "delimiter d \<longleftrightarrow> ord d < 65 \<or> 122 < ord d \<or> (90 < ord d \<and> ord d < 97)"

lemma delimiter_chars [simp]:
  "delimiter (CHR '':'')" "delimiter (CHR ''@'')" "delimiter (CHR ''/'')" "delimiter (CHR ''?'')"
  "delimiter (CHR ''#'')" "delimiter (CHR ''['')" "delimiter (CHR '']'')"
  "is_ascii_whitespace d \<Longrightarrow> delimiter d"
  by (auto simp: delimiter_def is_ascii_whitespace_def)

lemma tolower_delimiter: "delimiter d \<Longrightarrow> tolower c = d \<longleftrightarrow> c = d"
  by (rule tolower_eq_iff) (simp add: delimiter_def)

lemma delimiter_in_lowercase [simp]: "delimiter d \<Longrightarrow> d \<in> set (lowercase s) \<longleftrightarrow> d \<in> set s"
  by (auto simp: lowercase_def image_iff eq_commute [of d] tolower_delimiter)

lemma lowercase_lowercase [simp]: "lowercase (lowercase s) = lowercase s"
  by (simp add: lowercase_def)

lemma lowercase_eq_Nil [simp]: "lowercase s = [] \<longleftrightarrow> s = []"
  by (simp add: lowercase_def)

lemma lowercase_append [simp]: "lowercase (s @ t) = lowercase s @ lowercase t"
  by (simp add: lowercase_def)

lemma sv_find_lowercase: "delimiter d \<Longrightarrow> sv_find d (lowercase s) = sv_find d s"
  by (simp add: sv_find_def lowercase_def index_of_map tolower_delimiter)

lemma sv_rfind_lowercase: "delimiter d \<Longrightarrow> sv_rfind d (lowercase s) = sv_rfind d s"
  by (simp add: sv_rfind_def lowercase_def index_of_map tolower_delimiter rev_map)

lemma whitespace_lowercase:
  "contains_ascii_whitespace (lowercase s) \<longleftrightarrow> contains_ascii_whitespace s"
  by (induction s)
    (auto simp: contains_ascii_whitespace_def lowercase_def is_ascii_whitespace_def tolower_eq_iff)

lemma whitespace_append [simp]:
  "contains_ascii_whitespace (s @ t) \<longleftrightarrow> contains_ascii_whitespace s \<or> contains_ascii_whitespace t"
  "contains_ascii_whitespace (c # t) \<longleftrightarrow> is_ascii_whitespace c \<or> contains_ascii_whitespace t"
  "\<not> contains_ascii_whitespace []"
  by (auto simp: contains_ascii_whitespace_def)

lemma not_whitespace_chars [simp]:
  "\<not> is_ascii_whitespace (CHR '':'')" "\<not> is_ascii_whitespace (CHR ''@'')"
  "\<not> is_ascii_whitespace (CHR ''/'')" "\<not> is_ascii_whitespace (CHR ''?'')"
  "\<not> is_ascii_whitespace (CHR ''#'')"
  by (auto simp: is_ascii_whitespace_def)

lemma colon_not_scheme_char [simp]:
  "\<not> is_scheme_char (CHR '':'')" "\<not> is_ascii_alpha (CHR '':'')"
  by (simp_all add: is_scheme_char_def is_ascii_alpha_def is_digit_def)

lemma valid_scheme_no_colon: "valid_scheme s \<Longrightarrow> CHR '':'' \<notin> set s"
  by (cases s) (auto simp: list_all_iff)

lemma first_of_or_end_split:
  obtains pre post where "s = pre @ post" "first_of_or_end s cs = length pre"
    "set pre \<inter> set cs = {}" "post = [] \<or> hd post \<in> set cs"
    "take (first_of_or_end s cs) s = pre" "drop (first_of_or_end s cs) s = post"
proof (cases "sv_find_first_of s cs")
  case None
  then show thesis
    by (intro that [of s "[]"]) (auto simp: first_of_or_end_def)
next
  case (Some i)
  then obtain pre c post where "s = pre @ c # post" "length pre = i" "c \<in> set cs"
      "set pre \<inter> set cs = {}"
    by (rule sv_find_first_of_split)
  with Some show thesis
    by (intro that [of pre "c # post"]) (auto simp: first_of_or_end_def)
qed

lemma first_of_or_end_append:
  assumes "set pre \<inter> set cs = {}" and "post = [] \<or> hd post \<in> set cs"
  shows "first_of_or_end (pre @ post) cs = length pre"
proof (cases post)
  case Nil
  with assms show ?thesis by (simp add: first_of_or_end_def)
next
  case (Cons c t)
  with assms show ?thesis by (simp add: first_of_or_end_def sv_find_first_of_append)
qed

section \<open>Canonical form\<close>

definition single_colon :: "string \<Rightarrow> bool" where
  "single_colon s \<longleftrightarrow> (\<exists>c. sv_rfind (CHR '':'') s = Some c \<and> sv_find (CHR '':'') s = Some c)"

definition bracket_host_ok :: "url \<Rightarrow> bool" where
  "bracket_host_ok u \<longleftrightarrow>
     host u = ''['' @ hostname u @ '']'' \<and> CHR '']'' \<notin> set (hostname u) \<and>
     ip_literal u = looks_like_ipv6_literal (hostname u)"

definition plain_host_ok :: "url \<Rightarrow> bool" where
  "plain_host_ok u \<longleftrightarrow>
     host u = hostname u \<and> hd (hostname u) \<noteq> CHR ''['' \<and> lowercase (hostname u) = hostname u \<and>
     ip_literal u = looks_like_ipv4_literal (hostname u) \<and>
     (if port u = [] then \<not> single_colon (hostname u)
      else CHR '':'' \<notin> set (hostname u) \<union> set (port u))"

definition authority_ok :: "url \<Rightarrow> bool" where
  "authority_ok u \<longleftrightarrow>
     CHR '':'' \<notin> set (username u) \<and>
     set (username u @ password u @ host u @ port u) \<inter> set ''/?#'' = {} \<and>
     CHR ''@'' \<notin> set (host u) \<union> set (port u) \<and>
     hostname u \<noteq> [] \<and> (bracket_host_ok u \<or> plain_host_ok u)"

definition tail_string :: "url \<Rightarrow> string" where
  "tail_string u =
     path u @ (if query u \<noteq> [] then CHR ''?'' # query u else [])
     @ (if fragment u \<noteq> [] then CHR ''#'' # fragment u else [])"

definition no_authority :: "url \<Rightarrow> bool" where
  "no_authority u \<longleftrightarrow>
     username u = [] \<and> password u = [] \<and> host u = [] \<and> hostname u = [] \<and> port u = [] \<and>
     \<not> ip_literal u \<and> \<not> starts_with (tail_string u) ''//''"

text \<open>What every URL returned by the parser satisfies.\<close>

definition url_ok :: "url \<Rightarrow> bool" where
  "url_ok u \<longleftrightarrow>
     valid_scheme (scheme u) \<and> lowercase (scheme u) = scheme u \<and>
     href u = build_href u \<and> \<not> contains_ascii_whitespace (href u) \<and>
     set (path u) \<inter> set ''?#'' = {} \<and> CHR ''#'' \<notin> set (query u) \<and>
     (if has_authority u then authority_ok u \<and> (\<exists>p. path u = CHR ''/'' # p) else no_authority u)"

lemma build_href_tail:
  "build_href u = scheme u @ '':'' @ (if has_authority u then ''//'' @ serialize_authority u else [])
     @ tail_string u"
  by (simp add: build_href_def tail_string_def)

subsection \<open>A canonical URL parses to itself\<close>

lemma build_href_href: "build_href (u\<lparr>href := x\<rparr>) = build_href u"
  by (simp add: build_href_def serialize_authority_def has_credentials_def has_port_def)

lemma parse_tail_canonical:
  assumes "set (path u) \<inter> set ''?#'' = {}" "CHR ''#'' \<notin> set (query u)"
    and "has_authority u \<longrightarrow> path u \<noteq> []"
  shows "parse_tail (tail_string u) (u\<lparr>path := [], query := [], fragment := [], href := []\<rparr>) =
    u\<lparr>href := build_href u\<rparr>"
proof -
  have "CHR ''#'' \<notin> set (path u @ (if query u \<noteq> [] then CHR ''?'' # query u else []))"
    using assms by auto
  from sv_find_optional [OF this, of "fragment u \<noteq> []" "fragment u"]
  have s1: "sv_find (CHR ''#'') (tail_string u) = (if fragment u \<noteq> []
      then Some (length (path u @ (if query u \<noteq> [] then CHR ''?'' # query u else []))) else None)"
    by (simp add: tail_string_def)
  have s2: "sv_find (CHR ''?'') (path u @ (if query u \<noteq> [] then CHR ''?'' # query u else [])) =
      (if query u \<noteq> [] then Some (length (path u)) else None)"
    using assms by (intro sv_find_optional) auto
  have "parse_tail_fields (tail_string u) (u\<lparr>path := [], query := [], fragment := [], href := []\<rparr>) =
      u\<lparr>href := []\<rparr>"
    using assms(3) s1 s2 unfolding parse_tail_fields_def
    by (cases u; cases "fragment u = []"; cases "query u = []") (auto simp: tail_string_def)
  then show ?thesis by (simp add: parse_tail_def build_href_href)
qed

text \<open>The authority: credentials first, then the two forms of a host.\<close>

definition host_port_string :: "url \<Rightarrow> string" where
  "host_port_string u = host u @ (if has_port u then CHR '':'' # port u else [])"

lemma serialize_authority_host_port:
  "serialize_authority u =
     (if has_credentials u
      then username u @ (if password u \<noteq> [] then CHR '':'' # password u else []) @ ''@'' else [])
     @ host_port_string u"
  by (simp add: serialize_authority_def host_port_string_def)

lemma parse_userinfo_canonical:
  assumes "CHR '':'' \<notin> set (username u)" "CHR ''@'' \<notin> set (host u) \<union> set (port u)"
    and "username v = []" "password v = []"
  shows "parse_userinfo (serialize_authority u) v =
    (v\<lparr>username := username u, password := password u\<rparr>, host_port_string u)"
proof (cases "has_credentials u")
  case False
  then show ?thesis using assms
    by (auto simp: parse_userinfo_def serialize_authority_def host_port_string_def has_credentials_def
        split: option.split)
next
  case True
  let ?ui = "username u @ (if password u \<noteq> [] then CHR '':'' # password u else [])"
  have eq: "serialize_authority u = ?ui @ CHR ''@'' # host_port_string u"
    using True by (simp add: serialize_authority_host_port)
  have "CHR ''@'' \<notin> set (host_port_string u)" using assms by (auto simp: host_port_string_def)
  then have "sv_rfind (CHR ''@'') (serialize_authority u) = Some (length ?ui)"
    unfolding eq by (rule sv_rfind_append)
  moreover have "sv_find (CHR '':'') ?ui =
      (if password u \<noteq> [] then Some (length (username u)) else None)"
    by (rule sv_find_optional [OF assms(1)])
  ultimately show ?thesis
    using assms by (simp add: parse_userinfo_def eq)
qed

lemma parse_bracket_canonical:
  assumes "bracket_host_ok u" "hostname u \<noteq> []" "port v = []"
  shows "parse_bracket_host (host_port_string u) v =
    Some (v\<lparr>hostname := hostname u, host := host u, port := port u, ip_literal := ip_literal u\<rparr>)"
proof -
  have h: "host u = CHR ''['' # hostname u @ [CHR '']'']" "CHR '']'' \<notin> set (CHR ''['' # hostname u)"
    using assms by (auto simp: bracket_host_ok_def)
  have eq: "host_port_string u =
      (CHR ''['' # hostname u) @ CHR '']'' # (if has_port u then CHR '':'' # port u else [])"
    by (simp add: host_port_string_def h)
  have "sv_find (CHR '']'') (host_port_string u) = Some (length (CHR ''['' # hostname u))"
    unfolding eq using h(2) by (rule sv_find_append)
  then show ?thesis using assms h
    by (simp add: parse_bracket_host_def eq sv_substr_def bracket_host_ok_def has_port_def Let_def)
qed

lemma parse_plain_canonical:
  assumes "plain_host_ok u" "hostname u \<noteq> []" "port v = []"
  shows "parse_plain_host (host_port_string u) v =
    Some (v\<lparr>hostname := hostname u, host := host u, port := port u, ip_literal := ip_literal u\<rparr>)"
proof (cases "port u = []")
  case True
  then have "host_port_string u = hostname u" and "\<not> single_colon (hostname u)"
    using assms by (auto simp: host_port_string_def has_port_def plain_host_ok_def)
  then show ?thesis using assms True
    by (auto simp: parse_plain_host_def plain_host_ok_def single_colon_def split: option.split)
next
  case False
  then have eq: "host_port_string u = hostname u @ CHR '':'' # port u"
    and nc: "CHR '':'' \<notin> set (hostname u)" "CHR '':'' \<notin> set (port u)"
    using assms by (auto simp: host_port_string_def has_port_def plain_host_ok_def)
  then show ?thesis using assms
    by (simp add: parse_plain_host_def plain_host_ok_def)
qed

lemma hd_host_port_string:
  assumes "authority_ok u"
  shows "host_port_string u \<noteq> []"
    and "hd (host_port_string u) = CHR ''['' \<longleftrightarrow> bracket_host_ok u"
  using assms
  by (auto simp: authority_ok_def bracket_host_ok_def plain_host_ok_def host_port_string_def)

lemma parse_authority_canonical:
  assumes ok: "authority_ok u"
    and v: "username v = []" "password v = []" "port v = []"
  shows "parse_authority (serialize_authority u) v =
    Some (v\<lparr>has_authority := True, username := username u, password := password u,
            hostname := hostname u, host := host u, port := port u, ip_literal := ip_literal u\<rparr>)"
proof -
  have ui: "parse_userinfo (serialize_authority u) (v\<lparr>has_authority := True\<rparr>) =
      (v\<lparr>has_authority := True, username := username u, password := password u\<rparr>, host_port_string u)"
    using ok v by (subst parse_userinfo_canonical) (auto simp: authority_ok_def)
  show ?thesis
  proof (cases "bracket_host_ok u")
    case True
    then show ?thesis
      using ok v ui hd_host_port_string [OF ok]
      by (simp add: parse_authority_def parse_bracket_canonical authority_ok_def)
  next
    case False
    then have "plain_host_ok u" using ok by (simp add: authority_ok_def)
    then show ?thesis
      using ok v ui False hd_host_port_string [OF ok]
      by (simp add: parse_authority_def parse_plain_canonical authority_ok_def)
  qed
qed

lemma serialize_authority_chars:
  "authority_ok u \<Longrightarrow> set (serialize_authority u) \<inter> set ''/?#'' = {}"
  by (auto simp: serialize_authority_def authority_ok_def)

lemma hd_tail_string:
  "path u = CHR ''/'' # p \<Longrightarrow> hd (tail_string u) \<in> set ''/?#''"
  by (simp add: tail_string_def)

text \<open>A scheme and authority taken from a canonical URL, followed by any other tail.\<close>

lemma url_okD:
  assumes "url_ok u"
  shows "valid_scheme (scheme u)" "lowercase (scheme u) = scheme u" "href u = build_href u"
    and "\<not> contains_ascii_whitespace (href u)"
    and "set (path u) \<inter> set ''?#'' = {}" "CHR ''#'' \<notin> set (query u)"
    and "has_authority u \<Longrightarrow> authority_ok u" "has_authority u \<Longrightarrow> \<exists>p. path u = CHR ''/'' # p"
    and "\<not> has_authority u \<Longrightarrow> no_authority u"
  using assms unfolding url_ok_def by metis+

lemma parse_absolute_compose:
  assumes ok: "url_ok u" and h: "has_authority u"
    and rest: "rest = [] \<or> hd rest \<in> set ''/?#''" "\<not> contains_ascii_whitespace rest"
  shows "parse_absolute (scheme u @ ''://'' @ serialize_authority u @ rest) =
    Inr (parse_tail rest (u\<lparr>path := [], query := [], fragment := [], href := []\<rparr>))"
proof -
  let ?s = "scheme u @ CHR '':'' # ''//'' @ serialize_authority u @ rest"
  let ?v = "empty_url\<lparr>scheme := scheme u\<rparr>"
  note aok = url_okD(7) [OF ok h]
  have "\<not> contains_ascii_whitespace ?s"
    using url_okD(3,4) [OF ok] h rest(2) by (simp add: build_href_def)
  moreover have "sv_find (CHR '':'') ?s = Some (length (scheme u))"
    by (rule sv_find_append) (rule valid_scheme_no_colon [OF url_okD(1) [OF ok]])
  moreover have "first_of_or_end (serialize_authority u @ rest) ''/?#'' = length (serialize_authority u)"
    by (rule first_of_or_end_append [OF serialize_authority_chars [OF aok] rest(1)])
  moreover have "parse_authority (serialize_authority u) ?v =
      Some (u\<lparr>path := [], query := [], fragment := [], href := []\<rparr>)"
    using parse_authority_canonical [OF aok, of ?v] h by (cases u) (simp add: empty_url_def)
  ultimately show ?thesis
    using url_okD(1,2) [OF ok] by (simp add: parse_absolute_def starts_with_def Let_def)
qed

lemma parse_absolute_canonical:
  assumes ok: "url_ok u"
  shows "parse_absolute (href u) = Inr u"
proof -
  have tail: "parse_tail (tail_string u) (u\<lparr>path := [], query := [], fragment := [], href := []\<rparr>) = u"
    using url_okD [OF ok] by (subst parse_tail_canonical) auto
  have href: "href u = build_href u" by (rule url_okD(3) [OF ok])
  show ?thesis
  proof (cases "has_authority u")
    case True
    obtain p where p: "path u = CHR ''/'' # p" using url_okD(8) [OF ok True] by blast
    have "\<not> contains_ascii_whitespace (tail_string u)"
      using url_okD(3,4) [OF ok] by (simp add: build_href_tail)
    then show ?thesis
      using parse_absolute_compose [OF ok True, of "tail_string u"] p tail True
      by (simp add: href build_href_tail tail_string_def)
  next
    case False
    note na = url_okD(9) [OF ok False]
    have eq: "href u = scheme u @ CHR '':'' # tail_string u"
      using False by (simp add: href build_href_tail)
    have "sv_find (CHR '':'') (href u) = Some (length (scheme u))"
      unfolding eq by (rule sv_find_append) (rule valid_scheme_no_colon [OF url_okD(1) [OF ok]])
    moreover have "empty_url\<lparr>scheme := scheme u\<rparr> = u\<lparr>path := [], query := [], fragment := [], href := []\<rparr>"
      using False na by (cases u) (simp add: empty_url_def no_authority_def)
    ultimately show ?thesis
      using url_okD(1,2,4) [OF ok] tail na eq
      by (simp add: parse_absolute_def no_authority_def Let_def)
  qed
qed

subsection \<open>The parser returns canonical URLs\<close>

lemma parse_userinfo_cases:
  assumes "parse_userinfo a v = (p, hp)" "username v = []" "password v = []"
  obtains un pw where "p = v\<lparr>username := un, password := pw\<rparr>" "CHR '':'' \<notin> set un"
    "CHR ''@'' \<notin> set hp" "set un \<union> set pw \<union> set hp \<subseteq> set a"
proof (cases "sv_rfind (CHR ''@'') a")
  case None
  with assms show thesis
    by (intro that [of "[]" "[]"]) (auto simp: parse_userinfo_def)
next
  case (Some i)
  then obtain ui post where a: "a = ui @ CHR ''@'' # post" "CHR ''@'' \<notin> set post"
      "take i a = ui" "drop (Suc i) a = post"
    by (rule sv_rfind_split)
  show thesis
  proof (cases "sv_find (CHR '':'') ui")
    case None
    with assms Some a show thesis
      by (intro that [where un = ui and pw = "[]"]) (auto simp: parse_userinfo_def)
  next
    case colon: (Some j)
    then obtain un pw where "ui = un @ CHR '':'' # pw" "CHR '':'' \<notin> set un"
        "take j ui = un" "drop (Suc j) ui = pw"
      by (rule sv_find_split)
    with assms Some a colon show thesis
      by (intro that [where un = un and pw = pw]) (auto simp: parse_userinfo_def)
  qed
qed

lemma parse_bracket_cases:
  assumes "parse_bracket_host hp v = Some q" "hp \<noteq> []" "hd hp = CHR ''[''" "port v = []"
  obtains hn po where
    "q = v\<lparr>hostname := hn, host := ''['' @ hn @ '']'', port := po,
           ip_literal := looks_like_ipv6_literal hn\<rparr>"
    "hn \<noteq> []" "CHR '']'' \<notin> set hn" "set hn \<union> set '']'' \<union> set po \<subseteq> set hp"
proof -
  from assms(1) obtain close where c: "sv_find (CHR '']'') hp = Some close"
    by (auto simp: parse_bracket_host_def split: option.splits)
  then obtain pre rest where hp: "hp = pre @ CHR '']'' # rest" "length pre = close"
      "CHR '']'' \<notin> set pre"
    by (rule sv_find_split)
  from hp(1) assms(3) obtain hn where hn: "pre = CHR ''['' # hn" by (cases pre) auto
  have sub: "sv_substr hp 1 (close - 1) = hn" "take (Suc close) hp = ''['' @ hn @ '']''"
      "drop (Suc close) hp = rest"
    using hp hn by (auto simp: sv_substr_def)
  show thesis
  proof (cases rest)
    case Nil
    with assms(1,4) c sub hp hn show thesis
      by (intro that [of hn "[]"])
        (auto simp: parse_bracket_host_def Let_def split: if_splits)
  next
    case (Cons x po)
    with assms(1,4) c sub hp hn show thesis
      by (intro that [of hn po])
        (auto simp: parse_bracket_host_def Let_def split: if_splits)
  qed
qed

lemma single_colon_lowercase: "single_colon (lowercase s) = single_colon s"
  by (simp add: single_colon_def sv_find_lowercase sv_rfind_lowercase)

lemma no_colon_not_single: "CHR '':'' \<notin> set s \<Longrightarrow> \<not> single_colon s"
  by (simp add: single_colon_def)

lemma parse_plain_cases:
  assumes "parse_plain_host hp v = Some q" "hp \<noteq> []" "hd hp \<noteq> CHR ''[''" "port v = []"
  obtains hn po where
    "q = v\<lparr>hostname := lowercase hn, host := lowercase hn, port := po,
           ip_literal := looks_like_ipv4_literal (lowercase hn)\<rparr>"
    "hn \<noteq> []" "hd hn \<noteq> CHR ''[''" "set hn \<union> set po \<subseteq> set hp"
    "if po = [] then \<not> single_colon hn else CHR '':'' \<notin> set hn \<union> set po"
proof (cases "single_colon hp")
  case False
  with assms show thesis
    by (intro that [of hp "[]"])
      (auto simp: parse_plain_host_def single_colon_def Let_def split: option.splits if_splits)
next
  case True
  then obtain c where rf: "sv_rfind (CHR '':'') hp = Some c" and f: "sv_find (CHR '':'') hp = Some c"
    by (auto simp: single_colon_def)
  from f obtain hn po where hp: "hp = hn @ CHR '':'' # po" "length hn = c" "CHR '':'' \<notin> set hn"
    by (rule sv_find_split)
  from rf hp(1,2) have "CHR '':'' \<notin> set po" by (elim sv_rfind_split) simp
  with assms rf f hp show thesis
    by (intro that [of hn po])
      (auto simp: parse_plain_host_def Let_def no_colon_not_single split: if_splits)
qed

lemma parse_authority_cases:
  assumes "parse_authority a v = Some q"
    and v: "username v = []" "password v = []" "port v = []"
  obtains un pw hn h po ip where
    "q = v\<lparr>has_authority := True, username := un, password := pw, hostname := hn, host := h,
           port := po, ip_literal := ip\<rparr>"
    "CHR '':'' \<notin> set un" "CHR ''@'' \<notin> set h \<union> set po" "hn \<noteq> []"
    "bracket_host_ok q \<or> plain_host_ok q"
    "\<And>F. \<forall>d \<in> F. delimiter d \<Longrightarrow> set a \<inter> F = {} \<Longrightarrow> set (un @ pw @ h @ po) \<inter> F = {}"
proof -
  obtain p hp where ui: "parse_userinfo a (v\<lparr>has_authority := True\<rparr>) = (p, hp)"
    by fastforce
  obtain un pw where p: "p = v\<lparr>has_authority := True, username := un, password := pw\<rparr>"
      "CHR '':'' \<notin> set un" "CHR ''@'' \<notin> set hp" "set un \<union> set pw \<union> set hp \<subseteq> set a"
    using v by (auto intro: parse_userinfo_cases [OF ui])
  from assms(1) ui have ne: "hp \<noteq> []" by (auto simp: parse_authority_def split: if_splits)
  show thesis
  proof (cases "hd hp = CHR ''[''")
    case True
    with assms(1) ui ne have "parse_bracket_host hp p = Some q" by (simp add: parse_authority_def)
    then obtain hn po where q: "q = p\<lparr>hostname := hn, host := ''['' @ hn @ '']'', port := po,
          ip_literal := looks_like_ipv6_literal hn\<rparr>"
        "hn \<noteq> []" "CHR '']'' \<notin> set hn" "set hn \<union> set '']'' \<union> set po \<subseteq> set hp"
      using ne True v p by (elim parse_bracket_cases) auto
    have "CHR ''['' \<in> set hp" using ne True by (metis hd_in_set)
    with p q show thesis
      by (intro that [where un = un and pw = pw and hn = hn and h = "''['' @ hn @ '']''" and po = po])
        (auto simp: bracket_host_ok_def)
  next
    case False
    with assms(1) ui ne have "parse_plain_host hp p = Some q" by (simp add: parse_authority_def)
    then obtain hn po where q: "q = p\<lparr>hostname := lowercase hn, host := lowercase hn, port := po,
          ip_literal := looks_like_ipv4_literal (lowercase hn)\<rparr>"
        "hn \<noteq> []" "hd hn \<noteq> CHR ''[''" "set hn \<union> set po \<subseteq> set hp"
        "if po = [] then \<not> single_colon hn else CHR '':'' \<notin> set hn \<union> set po"
      using ne False v p by (elim parse_plain_cases) auto
    have "set hn \<union> set po \<subseteq> set a" using p(4) q(4) by blast
    moreover have "hd (lowercase hn) \<noteq> CHR ''[''"
      using q(2,3) by (cases hn) (auto simp: lowercase_def tolower_delimiter)
    ultimately show thesis using p q
      by (intro that [where un = un and pw = pw and hn = "lowercase hn" and h = "lowercase hn"
              and po = po])
        (auto simp: plain_host_ok_def single_colon_lowercase)
  qed
qed

lemma parse_tail_fields_cases:
  assumes p: "fragment p = []" "query p = []"
  obtains fr qu pa where
    "parse_tail_fields rest p = p\<lparr>fragment := fr, query := qu,
        path := (if pa = [] \<and> has_authority p then ''/'' else pa)\<rparr>"
    "CHR ''#'' \<notin> set pa \<union> set qu" "CHR ''?'' \<notin> set pa" "set fr \<union> set qu \<union> set pa \<subseteq> set rest"
    "\<exists>t. rest = pa @ t \<and> (t = [] \<or> hd t \<in> set ''?#'')"
proof -
  obtain r fr where r: "sv_find (CHR ''#'') rest = None \<and> r = rest \<and> fr = [] \<or>
      (\<exists>i. sv_find (CHR ''#'') rest = Some i \<and> take i rest = r \<and> drop (Suc i) rest = fr)"
      "CHR ''#'' \<notin> set r" "set r \<union> set fr \<subseteq> set rest"
      "\<exists>t. rest = r @ t \<and> (t = [] \<or> hd t = CHR ''#'')"
    by (rule sv_find_cut)
  obtain pa qu where q: "sv_find (CHR ''?'') r = None \<and> pa = r \<and> qu = [] \<or>
      (\<exists>i. sv_find (CHR ''?'') r = Some i \<and> take i r = pa \<and> drop (Suc i) r = qu)"
      "CHR ''?'' \<notin> set pa" "set pa \<union> set qu \<subseteq> set r"
      "\<exists>t. r = pa @ t \<and> (t = [] \<or> hd t = CHR ''?'')"
    by (rule sv_find_cut)
  have eq: "parse_tail_fields rest p = p\<lparr>fragment := fr, query := qu,
        path := (if pa = [] \<and> has_authority p then ''/'' else pa)\<rparr>"
    using r(1) q(1) p by (elim disjE exE conjE) (simp_all add: parse_tail_fields_def)
  have "\<exists>t. rest = pa @ t \<and> (t = [] \<or> hd t \<in> set ''?#'')"
    using r(4) q(4) by (elim exE conjE) (auto simp: hd_append)
  then show thesis
    using r(2,3) q(2,3) by (intro that [OF eq]) blast+
qed

lemma starts_with_double_slash_tail:
  assumes "starts_with (tail_string u) ''//''"
  shows "starts_with (path u) ''//''"
proof (cases "path u" rule: list.exhaust [case_names Nil Cons])
  case Nil
  with assms show ?thesis by (auto simp: tail_string_def starts_with_def split: if_splits)
next
  case (Cons a p)
  with assms show ?thesis
    by (cases p) (auto simp: tail_string_def starts_with_def split: if_splits)
qed

lemma whitespace_iff: "contains_ascii_whitespace s \<longleftrightarrow> set s \<inter> Collect is_ascii_whitespace \<noteq> {}"
  by (auto simp: contains_ascii_whitespace_def list_ex_iff)

text \<open>Assembling a canonical URL from an authority part and a tail.\<close>

lemma parse_tail_ok:
  assumes sch: "valid_scheme (scheme p)" "lowercase (scheme p) = scheme p"
    and f: "fragment p = []" "query p = []"
    and ws: "\<not> contains_ascii_whitespace (scheme p @ username p @ password p @ host p @ port p @ rest)"
    and auth: "has_authority p \<Longrightarrow> authority_ok p \<and> (rest = [] \<or> hd rest \<in> set ''/?#'')"
    and noauth: "\<not> has_authority p \<Longrightarrow>
       username p = [] \<and> password p = [] \<and> host p = [] \<and> hostname p = [] \<and> port p = [] \<and>
       \<not> ip_literal p \<and> \<not> starts_with rest ''//''"
  shows "url_ok (parse_tail rest p)"
proof -
  obtain fr qu pa where eq: "parse_tail_fields rest p = p\<lparr>fragment := fr, query := qu,
        path := (if pa = [] \<and> has_authority p then ''/'' else pa)\<rparr>" (is "_ = ?q")
    and cs: "CHR ''#'' \<notin> set pa \<union> set qu" "CHR ''?'' \<notin> set pa" "set fr \<union> set qu \<union> set pa \<subseteq> set rest"
    and t: "\<exists>t. rest = pa @ t \<and> (t = [] \<or> hd t \<in> set ''?#'')"
    using f by (rule parse_tail_fields_cases)
  let ?u = "?q\<lparr>href := build_href ?q\<rparr>"
  have u: "parse_tail rest p = ?u" by (simp add: parse_tail_def eq Let_def)
  have "\<not> contains_ascii_whitespace (href ?u)"
    using ws cs(3) by (auto simp: build_href_def serialize_authority_def whitespace_iff
        is_ascii_whitespace_def)
  moreover have "authority_ok ?u \<and> (\<exists>p. path ?u = CHR ''/'' # p)" if h: "has_authority p"
  proof -
    have "authority_ok ?u = authority_ok p"
      by (simp add: authority_ok_def bracket_host_ok_def plain_host_ok_def)
    moreover have "pa = [] \<or> hd pa = CHR ''/''"
      using auth [OF h] t cs by (cases pa) auto
    ultimately show ?thesis using auth [OF h] h by (cases pa) auto
  qed
  moreover have "no_authority ?u" if h: "\<not> has_authority p"
  proof -
    have "\<not> starts_with pa ''//''" using noauth [OF h] t by (auto simp: starts_with_iff)
    then have "\<not> starts_with (tail_string ?u) ''//''"
      using starts_with_double_slash_tail [of ?u] h by auto
    then show ?thesis using noauth [OF h] by (simp add: no_authority_def)
  qed
  ultimately show ?thesis
    using sch cs unfolding u url_ok_def by (auto simp: build_href_href)
qed

lemma parse_absolute_ok:
  assumes "parse_absolute s = Inr u"
  shows "url_ok u"
proof -
  from assms obtain i where i: "sv_find (CHR '':'') s = Some i"
    and ws: "\<not> contains_ascii_whitespace s"
    by (auto simp: parse_absolute_def split: if_splits option.splits)
  from i obtain sch rest where s: "s = sch @ CHR '':'' # rest" "take i s = sch" "drop (Suc i) s = rest"
    by (rule sv_find_split)
  let ?v = "empty_url\<lparr>scheme := lowercase sch\<rparr>"
  from assms i ws s have vs: "valid_scheme (lowercase sch)"
    by (auto simp: parse_absolute_def Let_def split: if_splits)
  have wsp: "\<not> contains_ascii_whitespace (lowercase sch)" "\<not> contains_ascii_whitespace rest"
    using ws by (simp_all add: s(1) whitespace_lowercase)
  show ?thesis
  proof (cases "starts_with rest ''//''")
    case False
    with assms i ws s vs have "u = parse_tail rest ?v"
      by (auto simp: parse_absolute_def Let_def split: if_splits)
    then show ?thesis using vs wsp False
      by (auto intro!: parse_tail_ok simp: empty_url_def)
  next
    case True
    obtain a t where at: "drop 2 rest = a @ t" "set a \<inter> set ''/?#'' = {}"
        "t = [] \<or> hd t \<in> set ''/?#''" "take (first_of_or_end (drop 2 rest) ''/?#'') (drop 2 rest) = a"
        "drop (first_of_or_end (drop 2 rest) ''/?#'') (drop 2 rest) = t"
      by (rule first_of_or_end_split)
    from assms i ws s vs True at obtain p where p: "parse_authority a ?v = Some p"
      and u: "u = parse_tail t p"
      by (auto simp: parse_absolute_def Let_def split: if_splits option.splits)
    obtain un pw hn h po ip where q: "p = ?v\<lparr>has_authority := True, username := un, password := pw,
          hostname := hn, host := h, port := po, ip_literal := ip\<rparr>"
        "CHR '':'' \<notin> set un" "CHR ''@'' \<notin> set h \<union> set po" "hn \<noteq> []"
        "bracket_host_ok p \<or> plain_host_ok p"
        "\<And>F. \<forall>d \<in> F. delimiter d \<Longrightarrow> set a \<inter> F = {} \<Longrightarrow> set (un @ pw @ h @ po) \<inter> F = {}"
      using p by (rule parse_authority_cases) (auto simp: empty_url_def)
    have "rest = take 2 rest @ a @ t" using at(1) by (metis append_take_drop_id)
    then have wat: "\<not> contains_ascii_whitespace a" "\<not> contains_ascii_whitespace t"
      using wsp(2) by (metis whitespace_append(1))+
    have "\<not> contains_ascii_whitespace (un @ pw @ h @ po)"
      using q(6) [of "Collect is_ascii_whitespace"] wat(1) by (auto simp: whitespace_iff)
    moreover have "authority_ok p"
      using q at(2) q(6) [of "set ''/?#''"] by (simp add: authority_ok_def)
    ultimately show ?thesis
      unfolding u using vs wsp wat at(3) q(1)
      by (intro parse_tail_ok) (auto simp: empty_url_def)
  qed
qed

section \<open>Ports\<close>

lemma parse_port_iff:
  "parse_port s = Inr p \<longleftrightarrow>
     s \<noteq> [] \<and> list_all is_digit s \<and> digits_value 0 s \<le> 65535 \<and> p = of_int (digits_value 0 s)"
  by (auto simp: parse_port_def from_chars_unsigned_def split: if_splits)

lemma uint_of_port: "0 \<le> n \<Longrightarrow> n \<le> 65535 \<Longrightarrow> uint (of_int n :: 16 word) = n"
  by (simp add: uint_word_of_int)

section \<open>Resolution\<close>

lemma slash_not_absolute: "starts_with s ''/'' \<Longrightarrow> \<not> has_absolute_scheme s"
  by (cases s) (auto simp: has_absolute_scheme_def starts_with_def first_of_or_end_def
      sv_find_first_of_def split: option.splits)

lemma parse_tail_frame:
  "scheme (parse_tail rest p) = scheme p" "username (parse_tail rest p) = username p"
  "password (parse_tail rest p) = password p" "host (parse_tail rest p) = host p"
  "hostname (parse_tail rest p) = hostname p" "port (parse_tail rest p) = port p"
  "has_authority (parse_tail rest p) = has_authority p" "ip_literal (parse_tail rest p) = ip_literal p"
  by (auto simp: parse_tail_def parse_tail_fields_def Let_def split: option.splits prod.splits)

lemma origin_from_url_cong:
  assumes "scheme u = scheme v" "hostname u = hostname v" "port u = port v"
    and "has_authority u = has_authority v"
  shows "origin_from_url u = origin_from_url v"
  using assms
  by (simp add: origin_from_url_def effective_port_def has_port_def scheme_id_def split: sum.split)

text \<open>A reference that is neither absolute nor of the form \<open>//authority\<close> only replaces the
  part after the authority of its base.\<close>

lemma resolve_reference_shape:
  assumes "url_ok b" "has_authority b" "\<not> starts_with input ''//''" "\<not> contains_ascii_whitespace input"
  obtains rest where
    "resolve_reference input b = scheme b @ ''://'' @ serialize_authority b @ rest"
    "rest = [] \<or> hd rest \<in> set ''/?#''" "\<not> contains_ascii_whitespace rest"
proof (cases "starts_with input ''/''")
  case True
  then have "input \<noteq> [] \<and> hd input = CHR ''/''" by (auto elim: starts_withE)
  with True assms show thesis by (intro that [of input]) (auto simp: resolve_reference_def)
next
  case False
  obtain p where p: "path b = CHR ''/'' # p" using url_okD(8) [OF assms(1,2)] by blast
  then obtain i where i: "sv_rfind (CHR ''/'') (path b) = Some i"
    by (cases "sv_rfind (CHR ''/'') (path b)") auto
  have "\<not> contains_ascii_whitespace (path b)"
    using url_okD(3,4) [OF assms(1)] by (simp add: build_href_def)
  then have "\<not> contains_ascii_whitespace (take (Suc i) (path b))"
    by (metis append_take_drop_id whitespace_append(1))
  with False assms i p show thesis
    by (intro that [of "take (Suc i) (path b) @ input"]) (auto simp: resolve_reference_def)
qed

section \<open>Properties\<close>

text \<open>C34: whatever \<open>parse_url\<close> accepts is canonical: the scheme is a valid lower-case scheme,
  there is no white space anywhere, the path holds no \<open>?\<close> or \<open>#\<close> and the query no \<open>#\<close>, and
  with an authority the host is non-empty (lower case or bracketed), the path starts with a
  slash and no authority field holds a delimiter that would move its boundary.\<close>

theorem parse_url_canonical:
  "parse_url s = Inr u \<Longrightarrow> url_ok u"
  unfolding parse_url_def by (rule parse_absolute_ok)

theorem parse_url_canonical_witness:
  "\<exists>u. parse_url ''HTTP://u:p@Ex.org:80/a?b#c'' = Inr u \<and> url_ok u"
proof -
  have "has_value (parse_url ''HTTP://u:p@Ex.org:80/a?b#c'')" by code_simp
  then obtain u where "parse_url ''HTTP://u:p@Ex.org:80/a?b#c'' = Inr u"
    by (auto simp: has_value_def split: sum.splits)
  then show ?thesis using parse_url_canonical by blast
qed

text \<open>C15: printing and parsing again is the identity: the \<open>href\<close> of a parsed URL parses to
  the very same URL, in every field.\<close>

theorem parse_url_roundtrip:
  "parse_url s = Inr u \<Longrightarrow> parse_url (href u) = Inr u"
  unfolding parse_url_def by (intro parse_absolute_canonical parse_absolute_ok)

theorem parse_url_roundtrip_witness:
  "\<exists>u. parse_url ''HTTP://[::1]:/a?b'' = Inr u \<and> parse_url (href u) = Inr u"
proof -
  have "has_value (parse_url ''HTTP://[::1]:/a?b'')" by code_simp
  then obtain u where "parse_url ''HTTP://[::1]:/a?b'' = Inr u"
    by (auto simp: has_value_def split: sum.splits)
  then show ?thesis using parse_url_roundtrip by blast
qed

text \<open>\<open>effective_port\<close> on a URL with an explicit port succeeds exactly on a run of digits
  of value at most 65535, and then the 16-bit result is that value: no port wraps around.\<close>

theorem effective_port_explicit:
  assumes "port u \<noteq> []"
  shows "(list_all is_digit (port u) \<and> digits_value 0 (port u) \<le> 65535 \<longrightarrow>
           (\<exists>p. effective_port u = Inr p \<and> uint p = digits_value 0 (port u))) \<and>
         (\<not> (list_all is_digit (port u) \<and> digits_value 0 (port u) \<le> 65535) \<longrightarrow>
           effective_port u = Inl (make_url_error invalid_port))"
proof (intro conjI impI)
  assume h: "list_all is_digit (port u) \<and> digits_value 0 (port u) \<le> 65535"
  then have "parse_port (port u) = Inr (of_int (digits_value 0 (port u)))"
    using assms by (simp add: parse_port_iff)
  then show "\<exists>p. effective_port u = Inr p \<and> uint p = digits_value 0 (port u)"
    using assms h digits_value_nonneg [of 0 "port u"]
    by (simp add: effective_port_def has_port_def uint_of_port)
next
  assume "\<not> (list_all is_digit (port u) \<and> digits_value 0 (port u) \<le> 65535)"
  with assms show "effective_port u = Inl (make_url_error invalid_port)"
    by (auto simp: effective_port_def has_port_def parse_port_def from_chars_unsigned_def)
qed

theorem effective_port_explicit_witness:
  "\<exists>p. effective_port (empty_url\<lparr>port := ''00443''\<rparr>) = Inr p \<and> uint p = 443"
proof -
  have "port (empty_url\<lparr>port := ''00443''\<rparr>) \<noteq> []" by simp
  from effective_port_explicit [OF this] show ?thesis
    by (simp add: is_digit_def)
qed

text \<open>the request target derived from a parsed URL with an authority starts with a slash
  and holds no white space, CR, LF or \<open>#\<close>: it cannot split or extend a request line.\<close>

theorem origin_form_target_safe:
  assumes "parse_url s = Inr u" and "has_authority u"
  shows "starts_with (origin_form_target u) ''/'' \<and> \<not> contains_ascii_whitespace (origin_form_target u)
    \<and> CHR ''#'' \<notin> set (origin_form_target u)"
proof -
  have ok: "url_ok u" using assms(1) unfolding parse_url_def by (rule parse_absolute_ok)
  obtain p where "path u = CHR ''/'' # p" using url_okD(8) [OF ok assms(2)] by blast
  then show ?thesis
    using url_okD(3-6) [OF ok] by (auto simp: origin_form_target_def build_href_def starts_with_def)
qed

theorem origin_form_target_safe_witness:
  "\<exists>u. parse_url ''http://h?x=1#f'' = Inr u \<and> has_authority u \<and> starts_with (origin_form_target u) ''/''"
proof -
  have "case parse_url ''http://h?x=1#f'' of Inl _ \<Rightarrow> False | Inr u \<Rightarrow> has_authority u" by code_simp
  then obtain u where "parse_url ''http://h?x=1#f'' = Inr u" "has_authority u"
    by (auto split: sum.splits)
  then show ?thesis using origin_form_target_safe by blast
qed



text \<open>the IPv4 test accepts negative parts, because the segments are read into a signed
  integer: \<open>1.-2.3.4\<close> is classified as an IP literal.\<close>

theorem ipv4_literal_accepts_negative_parts:
  "\<exists>u. parse_url ''http://1.-2.3.4/'' = Inr u \<and> host_is_ip_literal u"
proof -
  have "case parse_url ''http://1.-2.3.4/'' of Inl _ \<Rightarrow> False | Inr u \<Rightarrow> host_is_ip_literal u"
    by code_simp
  then show ?thesis by (auto split: sum.splits)
qed

end
