(* ===== verification/Http_Types.thy ===== *)
theory Http_Types
  imports Prelude
begin

text \<open>
  The HTTP vocabulary: methods (\<open>src/http/method.cpp\<close>), status codes
  (\<open>src/http/status.cpp\<close>), error codes (\<open>src/http/error.cpp\<close>), the header container
  (\<open>src/http/headers.cpp\<close>) and the route parameters (\<open>src/http/route_params.cpp\<close>).
  The two containers are interpretations of the association-store interface.
\<close>

section \<open>Methods\<close>

datatype http_method =
    method_get | method_head | method_post | method_put | method_delete | method_connect
  | method_options | method_trace | method_patch | method_unknown

text \<open>The value of the enumerator, used as an array index by the router.\<close>

fun method_index :: "http_method \<Rightarrow> nat" where
  "method_index method_get = 0"
| "method_index method_head = 1"
| "method_index method_post = 2"
| "method_index method_put = 3"
| "method_index method_delete = 4"
| "method_index method_connect = 5"
| "method_index method_options = 6"
| "method_index method_trace = 7"
| "method_index method_patch = 8"
| "method_index method_unknown = 9"

fun method_to_string :: "http_method \<Rightarrow> string" where
  "method_to_string method_get = ''GET''"
| "method_to_string method_head = ''HEAD''"
| "method_to_string method_post = ''POST''"
| "method_to_string method_put = ''PUT''"
| "method_to_string method_delete = ''DELETE''"
| "method_to_string method_connect = ''CONNECT''"
| "method_to_string method_options = ''OPTIONS''"
| "method_to_string method_trace = ''TRACE''"
| "method_to_string method_patch = ''PATCH''"
| "method_to_string method_unknown = ''UNKNOWN''"

lemma method_index_inj: "method_index a = method_index b \<longleftrightarrow> a = b"
  by (cases a; cases b; simp)

section \<open>Status codes\<close>

text \<open>The enumerators of \<open>http::status\<close> with their values.\<close>

abbreviation status_ok :: int where "status_ok \<equiv> 200"
abbreviation status_bad_request :: int where "status_bad_request \<equiv> 400"
abbreviation status_payload_too_large :: int where "status_payload_too_large \<equiv> 413"
abbreviation status_unsupported_media_type :: int where "status_unsupported_media_type \<equiv> 415"

definition reason_phrase :: "int \<Rightarrow> string" where
  "reason_phrase value =
     (if value = 200 then ''OK''
      else if value = 201 then ''Created''
      else if value = 204 then ''No Content''
      else if value = 301 then ''Moved Permanently''
      else if value = 302 then ''Found''
      else if value = 304 then ''Not Modified''
      else if value = 400 then ''Bad Request''
      else if value = 401 then ''Unauthorized''
      else if value = 403 then ''Forbidden''
      else if value = 404 then ''Not Found''
      else if value = 405 then ''Method Not Allowed''
      else if value = 408 then ''Request Timeout''
      else if value = 409 then ''Conflict''
      else if value = 413 then ''Payload Too Large''
      else if value = 415 then ''Unsupported Media Type''
      else if value = 422 then ''Unprocessable Content''
      else if value = 429 then ''Too Many Requests''
      else if value = 502 then ''Bad Gateway''
      else if value = 503 then ''Service Unavailable''
      else if value = 500 then ''Internal Server Error''
      else if value = 501 then ''Not Implemented''
      else [])"

section \<open>Error codes\<close>

datatype errc =
    malformed_content_type
  | unsupported_media_type
  | multipart_missing_boundary
  | multipart_invalid_boundary
  | multipart_malformed_body
  | multipart_malformed_part_header
  | multipart_unexpected_end
  | multipart_limit_exceeded
  | client_invalid_url
  | client_unsupported_scheme
  | client_dns_failed
  | client_connect_failed
  | client_tls_failed
  | client_malformed_response
  | client_header_limit_exceeded
  | client_body_limit_exceeded
  | client_cancelled
  | client_timeout
  | client_request_body_failed
  | client_redirect_failed
  | client_proxy_failed

fun errc_message :: "errc \<Rightarrow> string" where
  "errc_message malformed_content_type = ''malformed content type''"
| "errc_message unsupported_media_type = ''unsupported media type''"
| "errc_message multipart_missing_boundary = ''multipart boundary is missing''"
| "errc_message multipart_invalid_boundary = ''multipart boundary is invalid''"
| "errc_message multipart_malformed_body = ''multipart body is malformed''"
| "errc_message multipart_malformed_part_header = ''multipart part header is malformed''"
| "errc_message multipart_unexpected_end = ''multipart body ended unexpectedly''"
| "errc_message multipart_limit_exceeded = ''multipart limit exceeded''"
| "errc_message client_invalid_url = ''HTTP client URL is invalid''"
| "errc_message client_unsupported_scheme = ''HTTP client URL scheme is unsupported''"
| "errc_message client_dns_failed = ''HTTP client DNS resolution failed''"
| "errc_message client_connect_failed = ''HTTP client connection failed''"
| "errc_message client_tls_failed = ''HTTP client TLS handshake failed''"
| "errc_message client_malformed_response = ''HTTP client response is malformed''"
| "errc_message client_header_limit_exceeded = ''HTTP client response header limit exceeded''"
| "errc_message client_body_limit_exceeded = ''HTTP client response body limit exceeded''"
| "errc_message client_cancelled = ''HTTP client request was cancelled''"
| "errc_message client_timeout = ''HTTP client request timed out''"
| "errc_message client_request_body_failed = ''HTTP client request body failed''"
| "errc_message client_redirect_failed = ''HTTP client redirect failed''"
| "errc_message client_proxy_failed = ''HTTP client proxy failed''"

section \<open>Headers\<close>

type_synonym headers = "(string \<times> string) list"

definition names_equal :: "string \<Rightarrow> string \<Rightarrow> bool" where
  "names_equal lhs rhs =
     (if length lhs \<noteq> length rhs then False
      else list_all (\<lambda>(left, right). tolower left = tolower right) (zip lhs rhs))"

definition headers_add :: "headers \<Rightarrow> string \<Rightarrow> string \<Rightarrow> headers" where
  "headers_add h name value = h @ [(name, value)]"

text \<open>\<open>set\<close> overwrites the value of the first entry of that name and keeps its spelling;
  without one it appends, as \<open>add\<close> does.\<close>

fun headers_set :: "headers \<Rightarrow> string \<Rightarrow> string \<Rightarrow> headers" where
  "headers_set [] name value = headers_add [] name value"
| "headers_set ((n, v) # h) name value =
     (if names_equal n name then (n, value) # h else (n, v) # headers_set h name value)"

fun headers_get :: "headers \<Rightarrow> string \<Rightarrow> string" where
  "headers_get [] name = []"
| "headers_get ((n, v) # h) name = (if names_equal n name then v else headers_get h name)"

fun headers_contains :: "headers \<Rightarrow> string \<Rightarrow> bool" where
  "headers_contains [] name = False"
| "headers_contains ((n, v) # h) name = (names_equal n name \<or> headers_contains h name)"

lemma names_equal_iff: "names_equal l r \<longleftrightarrow> map tolower l = map tolower r"
proof (cases "length l = length r")
  case True
  then have "list_all (\<lambda>(a, b). tolower a = tolower b) (zip l r) \<longleftrightarrow> map tolower l = map tolower r"
    by (induction l r rule: list_induct2) auto
  with True show ?thesis by (simp add: names_equal_def)
next
  case False
  then show ?thesis by (auto simp: names_equal_def dest: map_eq_imp_length_eq)
qed

lemma headers_get_set:
  "headers_get (headers_set h k v) k' = (if names_equal k k' then v else headers_get h k')"
  by (induction h k v rule: headers_set.induct) (auto simp: headers_add_def names_equal_iff)

lemma headers_contains_set:
  "headers_contains (headers_set h k v) k' \<longleftrightarrow> names_equal k k' \<or> headers_contains h k'"
  by (induction h k v rule: headers_set.induct) (auto simp: headers_add_def names_equal_iff)

lemma headers_get_absent: "\<not> headers_contains h k \<Longrightarrow> headers_get h k = []"
  by (induction h k rule: headers_get.induct) auto

interpretation header_store: assoc_store names_equal headers_contains headers_get headers_set "[]"
  by unfold_locales
    (auto simp: names_equal_iff headers_get_set headers_contains_set headers_get_absent)

text \<open>\<open>add\<close> never changes what an existing name maps to.\<close>

lemma headers_get_add:
  "headers_get (headers_add h n v) k =
     (if headers_contains h k then headers_get h k else if names_equal n k then v else [])"
  by (induction h k rule: headers_get.induct) (auto simp: headers_add_def)

lemma headers_contains_add:
  "headers_contains (headers_add h n v) k \<longleftrightarrow> headers_contains h k \<or> names_equal n k"
  by (induction h k rule: headers_contains.induct) (auto simp: headers_add_def)

lemma length_headers_add [simp]: "length (headers_add h n v) = Suc (length h)"
  by (simp add: headers_add_def)

lemma length_headers_set:
  "length (headers_set h n v) = (if headers_contains h n then length h else Suc (length h))"
  by (induction h n v rule: headers_set.induct) (auto simp: headers_add_def)

section \<open>Route parameters\<close>

type_synonym route_params = "(string \<times> string) list"

fun params_set :: "route_params \<Rightarrow> string \<Rightarrow> string \<Rightarrow> route_params" where
  "params_set [] name value = [(name, value)]"
| "params_set ((n, v) # ps) name value =
     (if n = name then (n, value) # ps else (n, v) # params_set ps name value)"

fun params_get :: "route_params \<Rightarrow> string \<Rightarrow> string" where
  "params_get [] name = []"
| "params_get ((n, v) # ps) name = (if n = name then v else params_get ps name)"

lemma params_get_set: "params_get (params_set ps k v) k' = (if k = k' then v else params_get ps k')"
  by (induction ps k v rule: params_set.induct) auto

lemma fst_params_set: "fst ` set (params_set ps k v) = insert k (fst ` set ps)"
  by (induction ps k v rule: params_set.induct) (auto simp: image_iff)

lemma params_get_absent: "k \<notin> fst ` set ps \<Longrightarrow> params_get ps k = []"
  by (induction ps k rule: params_get.induct) auto

lemma distinct_params_set: "distinct (map fst ps) \<Longrightarrow> distinct (map fst (params_set ps k v))"
proof (induction ps k v rule: params_set.induct)
  case (2 n v ps k w)
  then show ?case using fst_params_set [of ps k w] by auto
qed simp

interpretation param_store: assoc_store "(=)" "\<lambda>ps k. k \<in> fst ` set ps" params_get params_set "[]"
  by unfold_locales (auto simp: params_get_set fst_params_set params_get_absent)

section \<open>Properties\<close>

text \<open>after any sequence of \<open>headers::set\<close> calls, \<open>get\<close> returns the value of the last
  call whose name agrees up to ASCII case, and the earlier value when there was none.\<close>

theorem headers_get_after_sets:
  "headers_get (foldl (\<lambda>h (n, v). headers_set h n v) h kvs) name =
     (case find (\<lambda>(n, v). names_equal n name) (rev kvs) of
        None \<Rightarrow> headers_get h name | Some (n, v) \<Rightarrow> v)"
  by (rule header_store.lookup_puts)

end
