(* ===== verification/Route_Path.thy ===== *)
theory Route_Path
  imports Http_Types
begin

text \<open>
  Paths as the router sees them, \<open>src/http/route_path.cpp\<close> with
  \<open>src/http/detail/url_encoding.hpp\<close>: splitting at slashes and percent-decoding of each
  segment.
\<close>

section \<open>Percent decoding\<close>

definition hex_value :: "char \<Rightarrow> int" where
  "hex_value c =
     (if 48 \<le> ord c \<and> ord c \<le> 57 then ord c - 48
      else if 97 \<le> ord c \<and> ord c \<le> 102 then ord c - 97 + 10
      else if 65 \<le> ord c \<and> ord c \<le> 70 then ord c - 65 + 10
      else -1)"

text \<open>The byte of two hexadecimal digits: \<open>(high << 4) | low\<close> for nibbles.\<close>

definition hex_byte :: "int \<Rightarrow> int \<Rightarrow> char" where
  "hex_byte high low = char_of (16 * high + low)"

fun decode_path_segment :: "string \<Rightarrow> string option" where
  "decode_path_segment [] = Some []"
| "decode_path_segment (c # cs) =
     (if c \<noteq> CHR ''%'' then map_option ((#) c) (decode_path_segment cs)
      else case cs of
             h # l # rest \<Rightarrow>
               if hex_value h < 0 \<or> hex_value l < 0 then None
               else map_option ((#) (hex_byte (hex_value h) (hex_value l)))
                      (decode_path_segment rest)
           | _ \<Rightarrow> None)"

section \<open>Route paths\<close>

datatype route_path_matching = raw_matching | percent_decoded_segments

record route_path =
  raw_segments :: "string list"
  decoded_segments :: "string list"
  valid :: bool

definition empty_route_path :: route_path where
  "empty_route_path = \<lparr>raw_segments = [], decoded_segments = [], valid = True\<rparr>"

definition segments :: "route_path \<Rightarrow> route_path_matching \<Rightarrow> string list" where
  "segments p matching = (if matching = raw_matching then raw_segments p else decoded_segments p)"

text \<open>The loop of \<open>parse_route_path\<close> over what is left of the path.\<close>

function parse_route_loop :: "string \<Rightarrow> route_path \<Rightarrow> route_path" where
  "parse_route_loop rest parsed =
     (let next = sv_find (CHR ''/'') rest;
          segment = sv_until rest next;
          continue = (\<lambda>parsed. case next of
                        None \<Rightarrow> parsed
                      | Some i \<Rightarrow> parse_route_loop (drop (Suc i) rest) parsed)
      in if segment \<noteq> [] then
           (case decode_path_segment segment of
              None \<Rightarrow> parsed\<lparr>valid := False\<rparr>
            | Some decoded \<Rightarrow>
                continue (parsed\<lparr>raw_segments := raw_segments parsed @ [segment],
                                 decoded_segments := decoded_segments parsed @ [decoded]\<rparr>))
         else continue parsed)"
  by pat_completeness auto
termination
proof (relation "measure (\<lambda>(rest, parsed). length rest)")
  fix rest :: string and parsed parsed' :: route_path and x i
  assume "x = sv_find (CHR ''/'') rest" "x = Some i"
  then have "i < length rest" by (metis sv_find_less)
  then show "((drop (Suc i) rest, parsed'), rest, parsed) \<in> measure (\<lambda>(rest, parsed). length rest)"
    by simp
qed simp

declare parse_route_loop.simps [simp del]

definition parse_route_path :: "string \<Rightarrow> route_path" where
  "parse_route_path path = parse_route_loop path empty_route_path"

text \<open>\<open>join_route_segments(segments, first)\<close> joins the segments from \<open>first\<close> on.\<close>

fun join_slash :: "string list \<Rightarrow> string" where
  "join_slash [] = []"
| "join_slash [s] = s"
| "join_slash (s # t # ss) = s @ CHR ''/'' # join_slash (t # ss)"

definition join_route_segments :: "string list \<Rightarrow> nat \<Rightarrow> string" where
  "join_route_segments segs first = join_slash (drop first segs)"

section \<open>Reference definitions\<close>

text \<open>The non-empty fields between slashes, and the longest prefix of them that decodes.\<close>

definition path_segments :: "string \<Rightarrow> string list" where
  "path_segments path = filter (\<lambda>s. s \<noteq> []) (split_on (CHR ''/'') path)"

definition decodable :: "string \<Rightarrow> bool" where
  "decodable s \<longleftrightarrow> decode_path_segment s \<noteq> None"

definition decoded :: "string \<Rightarrow> string" where
  "decoded s = (case decode_path_segment s of None \<Rightarrow> [] | Some d \<Rightarrow> d)"

text \<open>A percent encoder that escapes the characters of \<open>P\<close> and the percent sign.\<close>

definition hex_digit :: "int \<Rightarrow> char" where
  "hex_digit n = (if n < 10 then char_of (48 + n) else char_of (55 + n))"

definition pct_encode :: "(char \<Rightarrow> bool) \<Rightarrow> string \<Rightarrow> string" where
  "pct_encode P s = concat (map (\<lambda>c.
     if c = CHR ''%'' \<or> P c then [CHR ''%'', hex_digit (ord c div 16), hex_digit (ord c mod 16)]
     else [c]) s)"

section \<open>Lemmas\<close>

lemma hex_value_hex_digit: "0 \<le> n \<Longrightarrow> n < 16 \<Longrightarrow> hex_value (hex_digit n) = n"
  by (auto simp: hex_value_def hex_digit_def)

lemma hex_byte_ord: "hex_byte (ord c div 16) (ord c mod 16) = c"
proof -
  have "16 * (ord c div 16) + ord c mod 16 = ord c" by simp
  then show ?thesis by (simp add: hex_byte_def del: mult_div_mod_eq)
qed

lemma ord_nibbles: "0 \<le> ord c div 16" "ord c div 16 < 16" "0 \<le> ord c mod 16" "ord c mod 16 < 16"
proof -
  have "0 \<le> ord c" "ord c < 256" by (rule ord_bounds)+
  then show "0 \<le> ord c div 16" "ord c div 16 < 16" "0 \<le> ord c mod 16" "ord c mod 16 < 16"
    by presburger+
qed

lemma decode_escaped:
  "decode_path_segment (CHR ''%'' # hex_digit (ord c div 16) # hex_digit (ord c mod 16) # t) =
     map_option ((#) c) (decode_path_segment t)"
proof -
  have "\<not> ord c div 16 < 0" "\<not> ord c mod 16 < 0" using ord_nibbles [of c] by (simp_all add: not_less)
  then show ?thesis by (simp add: hex_value_hex_digit ord_nibbles hex_byte_ord)
qed

lemma decode_plain: "CHR ''%'' \<notin> set s \<Longrightarrow> decode_path_segment s = Some s"
  by (induction s) auto

lemma length_decode: "decode_path_segment s = Some d \<Longrightarrow> length d \<le> length s"
  by (induction s arbitrary: d rule: decode_path_segment.induct)
    (auto split: if_splits list.splits, fastforce)

lemma path_segments_unfold:
  "path_segments s =
     (let next = sv_find (CHR ''/'') s; segment = sv_until s next
      in (if segment \<noteq> [] then [segment] else []) @
         (case next of None \<Rightarrow> [] | Some i \<Rightarrow> path_segments (drop (Suc i) s)))"
  unfolding path_segments_def
  by (subst split_on_sv_find) (simp add: sv_until_def Let_def split: option.split)

lemma parse_route_loop_spec:
  "valid parsed \<Longrightarrow>
   parse_route_loop rest parsed =
     parsed\<lparr>raw_segments := raw_segments parsed @ takeWhile decodable (path_segments rest),
       decoded_segments :=
         decoded_segments parsed @ map decoded (takeWhile decodable (path_segments rest)),
       valid := list_all decodable (path_segments rest)\<rparr>"
proof (induction "length rest" arbitrary: rest parsed rule: less_induct)
  case less
  have IH: "parse_route_loop (drop (Suc i) rest) p =
      p\<lparr>raw_segments := raw_segments p @ takeWhile decodable (path_segments (drop (Suc i) rest)),
        decoded_segments := decoded_segments p @
          map decoded (takeWhile decodable (path_segments (drop (Suc i) rest))),
        valid := list_all decodable (path_segments (drop (Suc i) rest))\<rparr>"
    if "sv_find (CHR ''/'') rest = Some i" "valid p" for i p
    using less.hyps [OF _ that(2), of "drop (Suc i) rest"] sv_find_less [OF that(1)] by simp
  show ?case
    using less.prems
    by (subst parse_route_loop.simps, subst (1 2 3) path_segments_unfold)
      (auto simp: Let_def IH decodable_def decoded_def split: option.split)
qed

section \<open>Properties\<close>

text \<open>\<open>parse_route_path\<close> collects, in order, the non-empty fields between slashes together
  with their percent-decoded forms, up to the first field that does not decode; the path is
  valid exactly when every field decodes.\<close>

theorem parse_route_path_segments:
  "parse_route_path path =
     \<lparr>raw_segments = takeWhile decodable (path_segments path),
      decoded_segments = map decoded (takeWhile decodable (path_segments path)),
      valid = list_all decodable (path_segments path)\<rparr>"
  unfolding parse_route_path_def
  by (subst parse_route_loop_spec) (simp_all add: empty_route_path_def)

text \<open>decoding inverts percent encoding, whatever set of bytes the encoder escapes.\<close>

theorem decode_path_segment_encode:
  "decode_path_segment (pct_encode P s) = Some s"
proof (induction s)
  case Nil
  then show ?case by (simp add: pct_encode_def)
next
  case (Cons c s)
  then show ?case
    using decode_escaped [of c "pct_encode P s"] decode_escaped [of "CHR ''%''" "pct_encode P s"]
    by (auto simp: pct_encode_def simp del: decode_path_segment.simps(2))
      (simp add: pct_encode_def)
qed

end
