(* ===== verification/Router.thy ===== *)
theory Router
  imports Route_Path
begin

text \<open>
  The segment trie of \<open>src/http/router.cpp\<close> and \<open>include/uvpp/protocols/http/router.hpp\<close>.
  As in the code the trie is a vector of nodes that refer to each other by index, and a
  registration walks it from node 0, appending nodes on the way. Handlers, hooks and
  exception handlers are opaque callables the router only stores and hands out; the model
  names them by numbers. An operation that throws returns the message of its
  \<open>std::invalid_argument\<close> next to the state it leaves behind, since the trie may already have
  grown when the exception is raised. An \<open>std::unordered_map\<close> is an association list with
  distinct keys.
\<close>

section \<open>Data\<close>

type_synonym handler = nat

datatype body_mode =
    body_none | body_bytes | body_text | body_json | body_stream | body_multipart_stream
  | body_multipart_form

record route_target =
  rt_body :: body_mode
  rt_max_body_bytes :: nat
  rt_body_timeout :: int
  rt_handler :: handler
  rt_pattern :: string

record named_child =
  child_name :: string
  child_node :: nat

record trie_node =
  static_children :: "(string \<times> nat) list"
  parameter_child :: "named_child option"
  wildcard_child :: "named_child option"
  targets :: "route_target option list"
  on_request_hooks :: "handler list"
  pre_handler_hooks :: "handler list"
  on_response_hooks :: "handler list"
  not_found_handler :: "handler option"
  exception_handler :: "handler option"

definition method_count :: nat where
  "method_count = method_index method_unknown + 1"

definition empty_node :: trie_node where
  "empty_node = \<lparr>static_children = [], parameter_child = None, wildcard_child = None,
     targets = replicate method_count None, on_request_hooks = [], pre_handler_hooks = [],
     on_response_hooks = [], not_found_handler = None, exception_handler = None\<rparr>"

record router =
  nodes :: "trie_node list"
  route_count :: nat
  matching :: route_path_matching

definition new_router :: "route_path_matching \<Rightarrow> router" where
  "new_router m = \<lparr>nodes = [empty_node], route_count = 0, matching = m\<rparr>"

section \<open>Patterns and prefixes\<close>

fun strip_trailing_slashes :: "string \<Rightarrow> string" where
  "strip_trailing_slashes [] = []"
| "strip_trailing_slashes [c] = [c]"
| "strip_trailing_slashes (c # d # s) =
     (if last (d # s) = CHR ''/'' then strip_trailing_slashes (butlast (c # d # s))
      else c # d # s)"

definition normalize_group_prefix :: "string \<Rightarrow> string" where
  "normalize_group_prefix prefix =
     (if prefix = [] \<or> prefix = ''/'' then []
      else strip_trailing_slashes
             ((if hd prefix \<noteq> CHR ''/'' then ''/'' else []) @ prefix))"

definition join_route_pattern :: "string \<Rightarrow> string \<Rightarrow> string" where
  "join_route_pattern prefix pattern =
     (let normalized_prefix = normalize_group_prefix prefix
      in if normalized_prefix = [] then
           (if pattern = [] then ''/''
            else if hd pattern = CHR ''/'' then pattern
            else CHR ''/'' # pattern)
         else if pattern = [] \<or> pattern = ''/'' then normalized_prefix
         else normalized_prefix @ (if hd pattern \<noteq> CHR ''/'' then ''/'' else []) @ pattern)"

definition route_segment_name :: "string \<Rightarrow> string" where
  "route_segment_name segment = tl segment"

section \<open>Growing the trie\<close>

text \<open>What the branches of \<open>add_route\<close> and \<open>ensure_prefix_node\<close> do for a missing child:
  append an empty node, then store its index in the parent.\<close>

definition attach_static :: "trie_node list \<Rightarrow> nat \<Rightarrow> string \<Rightarrow> trie_node list" where
  "attach_static ns i s =
     (let child_index = length ns; ns = ns @ [empty_node]
      in ns[i := (ns ! i)\<lparr>static_children := static_children (ns ! i) @ [(s, child_index)]\<rparr>])"

definition attach_parameter :: "trie_node list \<Rightarrow> nat \<Rightarrow> string \<Rightarrow> trie_node list" where
  "attach_parameter ns i name =
     (let child_index = length ns; ns = ns @ [empty_node]
      in ns[i := (ns ! i)\<lparr>parameter_child :=
                   Some \<lparr>child_name = name, child_node = child_index\<rparr>\<rparr>])"

definition attach_wildcard :: "trie_node list \<Rightarrow> nat \<Rightarrow> string \<Rightarrow> trie_node list" where
  "attach_wildcard ns i name =
     (let child_index = length ns; ns = ns @ [empty_node]
      in ns[i := (ns ! i)\<lparr>wildcard_child :=
                   Some \<lparr>child_name = name, child_node = child_index\<rparr>\<rparr>])"

text \<open>The segment loop of \<open>add_route\<close>, over the raw segments paired with the segments of the
  matching mode: the nodes it leaves, and the index of the terminal node or the exception.\<close>

fun add_route_walk ::
  "trie_node list \<Rightarrow> nat \<Rightarrow> (string \<times> string) list \<Rightarrow> trie_node list \<times> (string + nat)" where
  "add_route_walk ns node_index [] = (ns, Inr node_index)"
| "add_route_walk ns node_index ((segment, route_segment) # rest) =
     (if segment \<noteq> [] \<and> hd segment = CHR ''*'' then
        (let name = route_segment_name segment
         in if name = [] then (ns, Inl ''HTTP route wildcard must be named'')
            else if rest \<noteq> [] then (ns, Inl ''HTTP route wildcard must be the final segment'')
            else case wildcard_child (ns ! node_index) of
                   Some w \<Rightarrow>
                     if child_name w \<noteq> name
                     then (ns, Inl ''HTTP route wildcard conflicts with an existing wildcard route'')
                     else (ns, Inr (child_node w))
                 | None \<Rightarrow> (attach_wildcard ns node_index name, Inr (length ns)))
      else if segment \<noteq> [] \<and> hd segment = CHR '':'' then
        (let name = route_segment_name segment
         in if name = [] then (ns, Inl ''HTTP route parameter must be named'')
            else case parameter_child (ns ! node_index) of
                   Some p \<Rightarrow>
                     if child_name p \<noteq> name
                     then (ns, Inl ''HTTP route parameter conflicts with an existing parameter route'')
                     else add_route_walk ns (child_node p) rest
                 | None \<Rightarrow> add_route_walk (attach_parameter ns node_index name) (length ns) rest)
      else case map_of (static_children (ns ! node_index)) route_segment of
             Some child \<Rightarrow> add_route_walk ns child rest
           | None \<Rightarrow> add_route_walk (attach_static ns node_index route_segment) (length ns) rest)"

definition add_route ::
  "http_method \<Rightarrow> string \<Rightarrow> body_mode \<Rightarrow> nat \<Rightarrow> int \<Rightarrow> handler \<Rightarrow> router \<Rightarrow> router \<times> (string + unit)" where
  "add_route method_value pattern body max_body_bytes body_timeout handler r =
     (if method_index method_value \<ge> method_count
      then (r, Inl ''HTTP route method is out of range'')
      else
        let normalized_pattern = join_route_pattern [] pattern;
            parsed_pattern = parse_route_path normalized_pattern
        in if \<not> valid parsed_pattern
           then (r, Inl ''HTTP route pattern contains invalid percent encoding'')
           else
             let (ns, walked) = add_route_walk (nodes r) 0
                   (zip (raw_segments parsed_pattern) (segments parsed_pattern (matching r)))
             in case walked of
                  Inl message \<Rightarrow> (r\<lparr>nodes := ns\<rparr>, Inl message)
                | Inr node_index \<Rightarrow>
                    if targets (ns ! node_index) ! method_index method_value \<noteq> None
                    then (r\<lparr>nodes := ns\<rparr>,
                          Inl ''HTTP route already registered for this method and pattern'')
                    else
                      (r\<lparr>nodes := ns[node_index := (ns ! node_index)\<lparr>targets :=
                             (targets (ns ! node_index))[method_index method_value :=
                               Some \<lparr>rt_body = body, rt_max_body_bytes = max_body_bytes,
                                     rt_body_timeout = body_timeout, rt_handler = handler,
                                     rt_pattern = normalized_pattern\<rparr>]\<rparr>],
                         route_count := route_count r + 1\<rparr>, Inr ()))"

text \<open>The segment loop of \<open>ensure_prefix_node\<close>.\<close>

fun prefix_walk ::
  "trie_node list \<Rightarrow> nat \<Rightarrow> (string \<times> string) list \<Rightarrow> trie_node list \<times> (string + nat)" where
  "prefix_walk ns node_index [] = (ns, Inr node_index)"
| "prefix_walk ns node_index ((segment, prefix_segment) # rest) =
     (if segment \<noteq> [] \<and> hd segment = CHR ''*''
      then (ns, Inl ''HTTP route group wildcard prefixes are not supported'')
      else if segment \<noteq> [] \<and> hd segment = CHR '':'' then
        (let name = route_segment_name segment
         in if name = [] then (ns, Inl ''HTTP route group parameter must be named'')
            else case parameter_child (ns ! node_index) of
                   Some p \<Rightarrow>
                     if child_name p \<noteq> name
                     then (ns,
                       Inl ''HTTP route group parameter conflicts with an existing parameter route'')
                     else prefix_walk ns (child_node p) rest
                 | None \<Rightarrow> prefix_walk (attach_parameter ns node_index name) (length ns) rest)
      else case map_of (static_children (ns ! node_index)) prefix_segment of
             Some child \<Rightarrow> prefix_walk ns child rest
           | None \<Rightarrow> prefix_walk (attach_static ns node_index prefix_segment) (length ns) rest)"

definition ensure_prefix_node :: "string \<Rightarrow> router \<Rightarrow> router \<times> (string + nat)" where
  "ensure_prefix_node prefix r =
     (let parsed_prefix = parse_route_path prefix
      in if \<not> valid parsed_prefix
         then (r, Inl ''HTTP route group prefix contains invalid percent encoding'')
         else let (ns, walked) = prefix_walk (nodes r) 0
                    (zip (raw_segments parsed_prefix) (segments parsed_prefix (matching r)))
              in (r\<lparr>nodes := ns\<rparr>, walked))"

definition update_node :: "nat \<Rightarrow> (trie_node \<Rightarrow> trie_node) \<Rightarrow> router \<Rightarrow> router" where
  "update_node i f r = r\<lparr>nodes := (nodes r)[i := f (nodes r ! i)]\<rparr>"

definition with_prefix_node ::
  "string \<Rightarrow> (trie_node \<Rightarrow> trie_node) \<Rightarrow> router \<Rightarrow> router \<times> (string + unit)" where
  "with_prefix_node prefix f r =
     (case ensure_prefix_node prefix r of
        (r, Inl message) \<Rightarrow> (r, Inl message)
      | (r, Inr i) \<Rightarrow> (update_node i f r, Inr ()))"

definition add_on_request_hook :: "string \<Rightarrow> handler \<Rightarrow> router \<Rightarrow> router \<times> (string + unit)" where
  "add_on_request_hook prefix hook =
     with_prefix_node prefix (\<lambda>n. n\<lparr>on_request_hooks := on_request_hooks n @ [hook]\<rparr>)"

definition add_pre_handler_hook :: "string \<Rightarrow> handler \<Rightarrow> router \<Rightarrow> router \<times> (string + unit)" where
  "add_pre_handler_hook prefix hook =
     with_prefix_node prefix (\<lambda>n. n\<lparr>pre_handler_hooks := pre_handler_hooks n @ [hook]\<rparr>)"

definition add_on_response_hook :: "string \<Rightarrow> handler \<Rightarrow> router \<Rightarrow> router \<times> (string + unit)" where
  "add_on_response_hook prefix hook =
     with_prefix_node prefix (\<lambda>n. n\<lparr>on_response_hooks := on_response_hooks n @ [hook]\<rparr>)"

definition add_not_found_handler :: "string \<Rightarrow> handler \<Rightarrow> router \<Rightarrow> router \<times> (string + unit)" where
  "add_not_found_handler prefix h =
     with_prefix_node prefix (\<lambda>n. n\<lparr>not_found_handler := Some h\<rparr>)"

definition add_exception_handler :: "string \<Rightarrow> handler \<Rightarrow> router \<Rightarrow> router \<times> (string + unit)" where
  "add_exception_handler prefix h =
     with_prefix_node prefix (\<lambda>n. n\<lparr>exception_handler := Some h\<rparr>)"

section \<open>Matching\<close>

text \<open>The reference arguments of \<open>match_node\<close>: what a descent has collected.\<close>

record match_state =
  ms_params :: route_params
  ms_on_request :: "handler list"
  ms_pre_handler :: "handler list"
  ms_on_response :: "handler list"
  ms_exception :: "handler option"

definition empty_match :: match_state where
  "empty_match = \<lparr>ms_params = [], ms_on_request = [], ms_pre_handler = [], ms_on_response = [],
     ms_exception = None\<rparr>"

text \<open>Entering a node collects its hooks and replaces the exception handler by its own.\<close>

definition enter_node :: "trie_node \<Rightarrow> match_state \<Rightarrow> match_state" where
  "enter_node node st =
     st\<lparr>ms_on_request := ms_on_request st @ on_request_hooks node,
        ms_pre_handler := ms_pre_handler st @ pre_handler_hooks node,
        ms_on_response := ms_on_response st @ on_response_hooks node,
        ms_exception := (case exception_handler node of
                           None \<Rightarrow> ms_exception st | Some h \<Rightarrow> Some h)\<rparr>"

definition set_param :: "string \<Rightarrow> string \<Rightarrow> match_state \<Rightarrow> match_state" where
  "set_param name value st = st\<lparr>ms_params := params_set (ms_params st) name value\<rparr>"

text \<open>The wildcard branch: the child's own target with the joined tail as parameter.\<close>

definition match_wildcard ::
  "trie_node list \<Rightarrow> named_child \<Rightarrow> nat \<Rightarrow> string list \<Rightarrow> match_state \<Rightarrow>
     (route_target \<times> match_state) option" where
  "match_wildcard ns w method_ix segs st =
     (let st = (if child_name w \<noteq> [] then set_param (child_name w) (join_route_segments segs 0) st
                else st);
          wildcard_node = ns ! child_node w;
          st = enter_node wildcard_node st
      in case targets wildcard_node ! method_ix of
           None \<Rightarrow> None
         | Some target \<Rightarrow> Some (target, st))"

text \<open>\<open>match_node\<close> on the segments from \<open>segment_index\<close> on. A branch that returns \<open>nullptr\<close>
  works on copies of the collected values, so the next branch starts from the same state.\<close>

fun match_node ::
  "trie_node list \<Rightarrow> nat \<Rightarrow> nat \<Rightarrow> string list \<Rightarrow> match_state \<Rightarrow>
     (route_target \<times> match_state) option" where
  "match_node ns node_index method_ix [] st =
     (let node = ns ! node_index; st = enter_node node st
      in case targets node ! method_ix of
           Some target \<Rightarrow> Some (target, st)
         | None \<Rightarrow>
             (case wildcard_child node of
                None \<Rightarrow> None
              | Some w \<Rightarrow> match_wildcard ns w method_ix [] st))"
| "match_node ns node_index method_ix (segment # rest) st =
     (let node = ns ! node_index; st = enter_node node st;
          static_match =
            (case map_of (static_children node) segment of
               None \<Rightarrow> None
             | Some child \<Rightarrow> match_node ns child method_ix rest st);
          parameter_match =
            (case parameter_child node of
               None \<Rightarrow> None
             | Some p \<Rightarrow> match_node ns (child_node p) method_ix rest
                           (set_param (child_name p) segment st));
          wildcard_match =
            (case wildcard_child node of
               None \<Rightarrow> None
             | Some w \<Rightarrow> match_wildcard ns w method_ix (segment # rest) st)
      in case static_match of
           Some m \<Rightarrow> Some m
         | None \<Rightarrow> (case parameter_match of Some m \<Rightarrow> Some m | None \<Rightarrow> wildcard_match))"

record match_result =
  mr_handler :: "handler option"
  mr_body :: body_mode
  mr_max_body_bytes :: nat
  mr_body_timeout :: int
  mr_pattern :: string
  mr_invalid_path :: bool
  mr_state :: match_state

definition no_match :: match_result where
  "no_match = \<lparr>mr_handler = None, mr_body = body_none, mr_max_body_bytes = 0, mr_body_timeout = 0,
     mr_pattern = [], mr_invalid_path = False, mr_state = empty_match\<rparr>"

definition router_match_path :: "router \<Rightarrow> http_method \<Rightarrow> route_path \<Rightarrow> match_result" where
  "router_match_path r method_value p =
     (if \<not> valid p then no_match\<lparr>mr_invalid_path := True\<rparr>
      else if method_index method_value \<ge> method_count then no_match
      else case match_node (nodes r) 0 (method_index method_value) (segments p (matching r))
                  empty_match of
             None \<Rightarrow> no_match
           | Some (target, st) \<Rightarrow>
               \<lparr>mr_handler = Some (rt_handler target), mr_body = rt_body target,
                mr_max_body_bytes = rt_max_body_bytes target,
                mr_body_timeout = rt_body_timeout target, mr_pattern = rt_pattern target,
                mr_invalid_path = False, mr_state = st\<rparr>)"

definition router_match :: "router \<Rightarrow> http_method \<Rightarrow> string \<Rightarrow> match_result" where
  "router_match r method_value path = router_match_path r method_value (parse_route_path path)"

definition router_find :: "router \<Rightarrow> http_method \<Rightarrow> string \<Rightarrow> handler option" where
  "router_find r method_value path = mr_handler (router_match r method_value path)"

definition routed_methods :: "http_method list" where
  "routed_methods =
     [method_get, method_head, method_post, method_put, method_delete, method_connect,
      method_options, method_trace, method_patch]"

definition allowed_methods_path :: "router \<Rightarrow> route_path \<Rightarrow> http_method list" where
  "allowed_methods_path r p =
     filter (\<lambda>m. method_index m < method_count \<and>
                 match_node (nodes r) 0 (method_index m) (segments p (matching r)) empty_match \<noteq> None)
       routed_methods"

definition allowed_methods :: "router \<Rightarrow> string \<Rightarrow> http_method list" where
  "allowed_methods r path =
     (let p = parse_route_path path in if \<not> valid p then [] else allowed_methods_path r p)"

section \<open>Fallbacks\<close>

record fallback_result =
  fb_not_found :: "handler option"
  fb_exception :: "handler option"
  fb_params :: route_params

definition empty_fallback :: fallback_result where
  "empty_fallback = \<lparr>fb_not_found = None, fb_exception = None, fb_params = []\<rparr>"

definition remember_fallback :: "trie_node \<Rightarrow> route_params \<Rightarrow> fallback_result \<Rightarrow> fallback_result" where
  "remember_fallback node params result =
     (let result = (case not_found_handler node of
                      None \<Rightarrow> result
                    | Some h \<Rightarrow> result\<lparr>fb_not_found := Some h, fb_params := params\<rparr>)
      in case exception_handler node of
           None \<Rightarrow> result
         | Some h \<Rightarrow> result\<lparr>fb_exception := Some h\<rparr>)"

fun fallback_walk ::
  "trie_node list \<Rightarrow> nat \<Rightarrow> string list \<Rightarrow> route_params \<Rightarrow> fallback_result \<Rightarrow> fallback_result" where
  "fallback_walk ns node_index [] params result = result"
| "fallback_walk ns node_index (segment # rest) params result =
     (let node = ns ! node_index
      in case map_of (static_children node) segment of
           Some child \<Rightarrow>
             fallback_walk ns child rest params (remember_fallback (ns ! child) params result)
         | None \<Rightarrow>
             (case parameter_child node of
                Some p \<Rightarrow>
                  (let params = params_set params (child_name p) segment
                   in fallback_walk ns (child_node p) rest params
                        (remember_fallback (ns ! child_node p) params result))
              | None \<Rightarrow>
                  (case wildcard_child node of
                     None \<Rightarrow> result
                   | Some w \<Rightarrow>
                       (let params = (if child_name w \<noteq> []
                                      then params_set params (child_name w)
                                             (join_route_segments (segment # rest) 0)
                                      else params)
                        in remember_fallback (ns ! child_node w) params result))))"

definition fallback_path :: "router \<Rightarrow> route_path \<Rightarrow> fallback_result" where
  "fallback_path r p =
     fallback_walk (nodes r) 0 (segments p (matching r)) []
       (remember_fallback (nodes r ! 0) [] empty_fallback)"

definition router_fallback :: "router \<Rightarrow> string \<Rightarrow> fallback_result" where
  "router_fallback r path =
     (let p = parse_route_path path in if \<not> valid p then empty_fallback else fallback_path r p)"

section \<open>Matching one pattern\<close>

text \<open>\<open>route_pattern_matches\<close>, used for upgrade routes: the loop over the pattern's raw
  segments paired with its segments in the matching mode.\<close>

fun pattern_loop ::
  "(string \<times> string) list \<Rightarrow> string list \<Rightarrow> route_params \<Rightarrow> bool \<times> route_params" where
  "pattern_loop [] path_segs params = (path_segs = [], params)"
| "pattern_loop ((raw_segment, pattern_segment) # rest) path_segs params =
     (if raw_segment \<noteq> [] \<and> hd raw_segment = CHR ''*'' then
        (let name = route_segment_name raw_segment
         in (rest = [],
             if name \<noteq> [] then params_set params name (join_route_segments path_segs 0) else params))
      else case path_segs of
             [] \<Rightarrow> (False, params)
           | segment # path_rest \<Rightarrow>
               if raw_segment \<noteq> [] \<and> hd raw_segment = CHR '':'' then
                 (let name = route_segment_name raw_segment
                  in pattern_loop rest path_rest
                       (if name \<noteq> [] then params_set params name segment else params))
               else if pattern_segment \<noteq> segment then (False, params)
               else pattern_loop rest path_rest params)"

definition route_pattern_matches ::
  "route_path \<Rightarrow> route_path \<Rightarrow> route_path_matching \<Rightarrow> route_params \<Rightarrow> bool \<times> route_params" where
  "route_pattern_matches pattern p m params =
     (if \<not> valid pattern \<or> \<not> valid p then (False, params)
      else pattern_loop (zip (raw_segments pattern) (segments pattern m)) (segments p m) params)"

end
