(* ===== verification/Router_Spec.thy ===== *)
theory Router_Spec
  imports Router
begin

text \<open>
  What the router promises. A trie stands for a partial map from a method and a pattern
  (a list of labels) to a target; registration refines insertion into that map, and matching
  returns the target of the most specific pattern that matches the path.
\<close>

section \<open>Abstraction\<close>

datatype pat_seg = Lit string | Par string | Wild string

definition label_of :: "string \<times> string \<Rightarrow> pat_seg" where
  "label_of rs =
     (if fst rs \<noteq> [] \<and> hd (fst rs) = CHR ''*'' then Wild (tl (fst rs))
      else if fst rs \<noteq> [] \<and> hd (fst rs) = CHR '':'' then Par (tl (fst rs))
      else Lit (snd rs))"

definition named_edge :: "named_child option \<Rightarrow> string \<Rightarrow> nat option" where
  "named_edge c x = (case c of None \<Rightarrow> None
     | Some c \<Rightarrow> if child_name c = x then Some (child_node c) else None)"

fun edge :: "trie_node \<Rightarrow> pat_seg \<Rightarrow> nat option" where
  "edge n (Lit s) = map_of (static_children n) s"
| "edge n (Par x) = named_edge (parameter_child n) x"
| "edge n (Wild x) = named_edge (wildcard_child n) x"

fun follow :: "trie_node list \<Rightarrow> nat \<Rightarrow> pat_seg list \<Rightarrow> nat option" where
  "follow ns i [] = Some i"
| "follow ns i (l # p) = (case edge (ns ! i) l of None \<Rightarrow> None | Some j \<Rightarrow> follow ns j p)"

text \<open>The routes of a trie: method index and pattern to target.\<close>

definition trie_routes :: "trie_node list \<Rightarrow> nat \<Rightarrow> pat_seg list \<Rightarrow> route_target option" where
  "trie_routes ns m p = (case follow ns 0 p of None \<Rightarrow> None | Some j \<Rightarrow> targets (ns ! j) ! m)"

definition routes :: "router \<Rightarrow> http_method \<Rightarrow> pat_seg list \<Rightarrow> route_target option" where
  "routes r m p = trie_routes (nodes r) (method_index m) p"

text \<open>The labels a pattern string stands for.\<close>

definition pattern_labels :: "route_path_matching \<Rightarrow> string \<Rightarrow> pat_seg list" where
  "pattern_labels m pattern =
     (let p = parse_route_path (join_route_pattern [] pattern)
      in map label_of (zip (raw_segments p) (segments p m)))"

subsection \<open>Well-formed tries\<close>

definition edges_forward :: "trie_node list \<Rightarrow> bool" where
  "edges_forward ns \<longleftrightarrow> (\<forall>i < length ns. \<forall>l j. edge (ns ! i) l = Some j \<longrightarrow> i < j \<and> j < length ns)"

definition edges_unique :: "trie_node list \<Rightarrow> bool" where
  "edges_unique ns \<longleftrightarrow>
     (\<forall>i < length ns. \<forall>i' < length ns. \<forall>l l' j.
        edge (ns ! i) l = Some j \<and> edge (ns ! i') l' = Some j \<longrightarrow> i = i' \<and> l = l')"

text \<open>The node vector is a tree rooted at 0: every edge leads to a later node inside the
  vector, every node has one incoming edge at most, and every node has a slot per method.\<close>

definition wf_trie :: "trie_node list \<Rightarrow> bool" where
  "wf_trie ns \<longleftrightarrow> ns \<noteq> [] \<and> edges_forward ns \<and> edges_unique ns \<and>
     (\<forall>i < length ns. length (targets (ns ! i)) = method_count)"

lemma edges_forwardD:
  "edges_forward ns \<Longrightarrow> i < length ns \<Longrightarrow> edge (ns ! i) l = Some j \<Longrightarrow> i < j \<and> j < length ns"
  unfolding edges_forward_def by blast

lemma follow_ConsE:
  assumes "follow ns i (l # p) = Some j"
  obtains k where "edge (ns ! i) l = Some k" "follow ns k p = Some j"
  using assms by (simp split: option.splits)

lemma follow_forward:
  "edges_forward ns \<Longrightarrow> i < length ns \<Longrightarrow> follow ns i p = Some j \<Longrightarrow> i \<le> j \<and> j < length ns"
proof (induction p arbitrary: i)
  case (Cons l p)
  obtain k where k: "edge (ns ! i) l = Some k" "follow ns k p = Some j"
    using Cons.prems(3) by (rule follow_ConsE)
  have "i < k \<and> k < length ns" using edges_forwardD [OF Cons.prems(1,2) k(1)] .
  with Cons.IH [OF Cons.prems(1) _ k(2)] show ?case by simp
qed simp

lemma follow_append:
  "follow ns i (p @ q) = (case follow ns i p of None \<Rightarrow> None | Some j \<Rightarrow> follow ns j q)"
  by (induction p arbitrary: i) (simp_all split: option.split)

lemma follow_snocE:
  assumes "edges_forward ns" "i < length ns" "follow ns i (p @ [l]) = Some j"
  obtains k where "follow ns i p = Some k" "k < length ns" "edge (ns ! k) l = Some j" "i < j"
proof -
  obtain k where k: "follow ns i p = Some k" "edge (ns ! k) l = Some j"
    using assms(3) by (simp add: follow_append split: option.splits)
  have "i \<le> k \<and> k < length ns" using follow_forward [OF assms(1,2) k(1)] .
  moreover from this have "k < j" using edges_forwardD [OF assms(1) _ k(2)] by simp
  ultimately show thesis using that k by simp
qed

text \<open>Distinct patterns lead to distinct nodes.\<close>

lemma follow_inj:
  assumes "edges_forward ns" "edges_unique ns" "ns \<noteq> []"
  shows "follow ns 0 p = Some j \<Longrightarrow> follow ns 0 q = Some j \<Longrightarrow> p = q"
proof (induction p arbitrary: q j rule: rev_induct)
  case Nil
  have pos: "0 < length ns" using assms(3) by simp
  show ?case
  proof (cases q rule: rev_cases)
    case (snoc q' l)
    with Nil follow_snocE [OF assms(1) pos, of q' l j] show ?thesis by auto
  qed simp
next
  case (snoc l p)
  have pos: "0 < length ns" using assms(3) by simp
  obtain i where i: "follow ns 0 p = Some i" "i < length ns" "edge (ns ! i) l = Some j" "0 < j"
    using follow_snocE [OF assms(1) pos snoc.prems(1)] .
  show ?case
  proof (cases q rule: rev_cases)
    case Nil
    with snoc.prems(2) i(4) show ?thesis by simp
  next
    case q: (snoc q' l')
    obtain i' where i': "follow ns 0 q' = Some i'" "i' < length ns" "edge (ns ! i') l' = Some j"
      using follow_snocE [OF assms(1) pos] snoc.prems(2) q by metis
    have "i = i' \<and> l = l'" using i(2,3) i'(2,3) assms(2) unfolding edges_unique_def by blast
    with snoc.IH [OF i(1), of q'] i'(1) q show ?thesis by simp
  qed
qed

subsection \<open>Attaching a node\<close>

fun set_edge :: "trie_node \<Rightarrow> pat_seg \<Rightarrow> nat \<Rightarrow> trie_node" where
  "set_edge n (Lit s) j = n\<lparr>static_children := static_children n @ [(s, j)]\<rparr>"
| "set_edge n (Par x) j = n\<lparr>parameter_child := Some \<lparr>child_name = x, child_node = j\<rparr>\<rparr>"
| "set_edge n (Wild x) j = n\<lparr>wildcard_child := Some \<lparr>child_name = x, child_node = j\<rparr>\<rparr>"

fun slot_free :: "trie_node \<Rightarrow> pat_seg \<Rightarrow> bool" where
  "slot_free n (Lit s) \<longleftrightarrow> map_of (static_children n) s = None"
| "slot_free n (Par x) \<longleftrightarrow> parameter_child n = None"
| "slot_free n (Wild x) \<longleftrightarrow> wildcard_child n = None"

definition attach :: "trie_node list \<Rightarrow> nat \<Rightarrow> pat_seg \<Rightarrow> trie_node list" where
  "attach ns i l = (ns @ [empty_node])[i := set_edge ((ns @ [empty_node]) ! i) l (length ns)]"

lemma attach_eqs:
  "attach_static ns i s = attach ns i (Lit s)"
  "attach_parameter ns i x = attach ns i (Par x)"
  "attach_wildcard ns i x = attach ns i (Wild x)"
  by (simp_all add: attach_def attach_static_def attach_parameter_def attach_wildcard_def Let_def)

text \<open>What a node holds besides its edges.\<close>

definition payload :: "trie_node \<Rightarrow> trie_node" where
  "payload n = n\<lparr>static_children := [], parameter_child := None, wildcard_child := None\<rparr>"

lemma payload_eqD:
  assumes "payload a = payload b"
  shows "targets a = targets b" "on_request_hooks a = on_request_hooks b"
    "pre_handler_hooks a = pre_handler_hooks b" "on_response_hooks a = on_response_hooks b"
    "not_found_handler a = not_found_handler b" "exception_handler a = exception_handler b"
  using assms by (cases a; cases b; simp add: payload_def)+

lemma payload_set_edge [simp]: "payload (set_edge n l j) = payload n"
  by (cases l) (simp_all add: payload_def)

lemma payload_empty_node: "payload empty_node = empty_node"
  by (simp add: payload_def empty_node_def)

lemma edge_empty_node [simp]: "edge empty_node l = None"
  by (cases l) (simp_all add: empty_node_def named_edge_def)

lemma edge_set_edge:
  "slot_free n l \<Longrightarrow> edge (set_edge n l j) l' = (if l' = l then Some j else edge n l')"
  by (cases l; cases l')
    (simp_all add: named_edge_def map_add_def split: option.split)

lemma slot_free_edge: "slot_free n l \<Longrightarrow> edge n l = None"
  by (cases l) (simp_all add: named_edge_def)

lemma length_attach [simp]: "length (attach ns i l) = Suc (length ns)"
  by (simp add: attach_def)

lemma attach_nth:
  assumes "i < length ns"
  shows "attach ns i l ! k =
    (if k = i then set_edge (ns ! i) l (length ns) else (ns @ [empty_node]) ! k)"
  using assms by (simp add: attach_def nth_append nth_list_update)

text \<open>A trie grown from another: the old nodes keep their contents and their edges, new edges
  lead to new nodes, and new nodes hold nothing.\<close>

definition extends :: "trie_node list \<Rightarrow> trie_node list \<Rightarrow> bool" where
  "extends ns ns' \<longleftrightarrow> length ns \<le> length ns' \<and>
     (\<forall>k < length ns. payload (ns' ! k) = payload (ns ! k)) \<and>
     (\<forall>k < length ns. \<forall>l j. edge (ns ! k) l = Some j \<longrightarrow> edge (ns' ! k) l = Some j) \<and>
     (\<forall>k < length ns. \<forall>l j. edge (ns' ! k) l = Some j \<longrightarrow> edge (ns ! k) l = Some j \<or> length ns \<le> j) \<and>
     (\<forall>k. length ns \<le> k \<longrightarrow> k < length ns' \<longrightarrow> payload (ns' ! k) = empty_node)"

lemma extendsD:
  assumes "extends ns ns'"
  shows "length ns \<le> length ns'"
    "k < length ns \<Longrightarrow> payload (ns' ! k) = payload (ns ! k)"
    "k < length ns \<Longrightarrow> edge (ns ! k) l = Some j \<Longrightarrow> edge (ns' ! k) l = Some j"
    "k < length ns \<Longrightarrow> edge (ns' ! k) l = Some j \<Longrightarrow> edge (ns ! k) l = Some j \<or> length ns \<le> j"
    "length ns \<le> k \<Longrightarrow> k < length ns' \<Longrightarrow> payload (ns' ! k) = empty_node"
  using assms by (simp_all add: extends_def)

lemma extends_refl [simp]: "extends ns ns"
  by (simp add: extends_def)

lemma extends_trans:
  assumes "extends a b" "extends b c"
  shows "extends a c"
  unfolding extends_def
proof (intro conjI allI impI)
  note ab = extendsD [OF assms(1)] and bc = extendsD [OF assms(2)]
  show len: "length a \<le> length c" using ab(1) bc(1) by simp
  fix k
  show "payload (c ! k) = payload (a ! k)" if "k < length a"
    using that ab(1) ab(2) [of k] bc(2) [of k] by simp
  show "edge (c ! k) l = Some j" if "k < length a" "edge (a ! k) l = Some j" for l j
    using that ab(1) ab(3) [of k l j] bc(3) [of k l j] by simp
  show "edge (a ! k) l = Some j \<or> length a \<le> j" if "k < length a" "edge (c ! k) l = Some j" for l j
    using that ab(1) ab(4) [of k l j] bc(4) [of k l j] by fastforce
  show "payload (c ! k) = empty_node" if "length a \<le> k" "k < length c"
    using that ab(5) [of k] bc(2) [of k] bc(5) [of k] by (cases "k < length b") auto
qed

lemma attach_extends:
  assumes "i < length ns" "slot_free (ns ! i) l"
  shows "extends ns (attach ns i l)"
  using assms unfolding extends_def
  by (auto simp: attach_nth edge_set_edge nth_append payload_empty_node less_Suc_eq
      slot_free_edge split: if_splits)

lemma attach_edge:
  "i < length ns \<Longrightarrow> slot_free (ns ! i) l \<Longrightarrow> edge (attach ns i l ! i) l = Some (length ns)"
  by (simp add: attach_nth edge_set_edge)

lemma attach_edgeE:
  assumes "i < length ns" "slot_free (ns ! i) l" "k < Suc (length ns)"
    "edge (attach ns i l ! k) l' = Some j"
  obtains "k < length ns" "edge (ns ! k) l' = Some j" | "k = i" "l' = l" "j = length ns"
proof (cases "k = i \<and> l' = l")
  case True
  with assms that(2) show thesis by (simp add: attach_nth edge_set_edge)
next
  case False
  with assms that(1) show thesis
    by (cases "k = i"; cases "k = length ns") (simp_all add: attach_nth edge_set_edge nth_append)
qed

lemma attach_wf:
  assumes wf: "wf_trie ns" and i: "i < length ns" "slot_free (ns ! i) l"
  shows "wf_trie (attach ns i l)"
  unfolding wf_trie_def
proof (intro conjI)
  have fwd: "edges_forward ns" and uniq: "edges_unique ns" using wf by (simp_all add: wf_trie_def)
  have below: "j < length ns" if "k < length ns" "edge (ns ! k) l' = Some j" for k l' j
    using edges_forwardD [OF fwd that] by simp
  show "attach ns i l \<noteq> []" by (simp add: attach_def)
  show "edges_forward (attach ns i l)"
    unfolding edges_forward_def length_attach
  proof (intro allI impI)
    fix k l' j assume "k < Suc (length ns)" "edge (attach ns i l ! k) l' = Some j"
    from attach_edgeE [OF i this] show "k < j \<and> j < Suc (length ns)"
    proof cases
      case 1
      with edges_forwardD [OF fwd 1] show ?thesis by simp
    next
      case 2
      with i(1) show ?thesis by simp
    qed
  qed
  show "edges_unique (attach ns i l)"
    unfolding edges_unique_def length_attach
  proof (intro allI impI, elim conjE)
    fix k k' l1 l2 j
    assume k: "k < Suc (length ns)" "k' < Suc (length ns)"
      and e: "edge (attach ns i l ! k) l1 = Some j" "edge (attach ns i l ! k') l2 = Some j"
    from attach_edgeE [OF i k(1) e(1)] show "k = k' \<and> l1 = l2"
    proof cases
      case 1
      with attach_edgeE [OF i k(2) e(2)] below uniq show ?thesis
        unfolding edges_unique_def by (metis nat_less_le)
    next
      case 2
      with attach_edgeE [OF i k(2) e(2)] below show ?thesis by (metis nat_less_le)
    qed
  qed
  show "\<forall>k < length (attach ns i l). length (targets (attach ns i l ! k)) = method_count"
  proof (intro allI impI)
    fix k assume "k < length (attach ns i l)"
    moreover have "targets (set_edge n l j) = targets n" for n j
      using payload_eqD(1) [OF payload_set_edge] .
    ultimately show "length (targets (attach ns i l ! k)) = method_count"
      using wf i by (auto simp: wf_trie_def attach_nth nth_append less_Suc_eq empty_node_def)
  qed
qed

lemma follow_extends:
  assumes "extends ns ns'" "edges_forward ns"
  shows "i < length ns \<Longrightarrow> follow ns i p = Some j \<Longrightarrow> follow ns' i p = Some j"
proof (induction p arbitrary: i)
  case (Cons l p)
  obtain k where k: "edge (ns ! i) l = Some k" "follow ns k p = Some j"
    using Cons.prems(2) by (rule follow_ConsE)
  have "k < length ns" using edges_forwardD [OF assms(2) Cons.prems(1) k(1)] by simp
  with Cons.IH [OF _ k(2)] extendsD(3) [OF assms(1) Cons.prems(1) k(1)] show ?case by simp
qed simp

lemma follow_extends_new:
  assumes ext: "extends ns ns'" and fwd': "edges_forward ns'"
  shows "i < length ns \<Longrightarrow> follow ns i p = None \<Longrightarrow> follow ns' i p = Some j \<Longrightarrow>
    length ns \<le> j \<and> j < length ns'"
proof (induction p arbitrary: i)
  case (Cons l p)
  have i': "i < length ns'" using Cons.prems(1) extendsD(1) [OF ext] by simp
  obtain k where k: "edge (ns' ! i) l = Some k" "follow ns' k p = Some j"
    using Cons.prems(3) by (rule follow_ConsE)
  have k': "k < length ns'" using edges_forwardD [OF fwd' i' k(1)] by simp
  show ?case
  proof (cases "k < length ns")
    case True
    with extendsD(4) [OF ext Cons.prems(1) k(1)] have "edge (ns ! i) l = Some k" by simp
    with Cons.prems(2) Cons.IH [OF True _ k(2)] show ?thesis by simp
  next
    case False
    with follow_forward [OF fwd' k' k(2)] show ?thesis by simp
  qed
qed simp

text \<open>Growing the trie registers nothing.\<close>

lemma trie_routes_extends:
  assumes ext: "extends ns ns'" and wf: "wf_trie ns" "wf_trie ns'" and m: "m < method_count"
  shows "trie_routes ns' m p = trie_routes ns m p"
proof -
  have fwd: "edges_forward ns" "edges_forward ns'" and pos: "0 < length ns"
    using wf by (simp_all add: wf_trie_def)
  show ?thesis
  proof (cases "follow ns 0 p")
    case (Some j)
    then have "follow ns' 0 p = Some j" using follow_extends [OF ext fwd(1) pos] by blast
    moreover have "j < length ns" using follow_forward [OF fwd(1) pos Some] by simp
    ultimately show ?thesis
      using Some payload_eqD(1) [OF extendsD(2) [OF ext]] by (simp add: trie_routes_def)
  next
    case None
    show ?thesis
    proof (cases "follow ns' 0 p")
      case (Some j)
      then have "payload (ns' ! j) = payload empty_node"
        using follow_extends_new [OF ext fwd(2) pos None] extendsD(5) [OF ext, of j]
        by (simp add: payload_empty_node)
      then have "targets (ns' ! j) = targets empty_node" by (rule payload_eqD(1))
      then have "targets (ns' ! j) ! m = None" using m by (simp add: empty_node_def)
      with None Some show ?thesis by (simp add: trie_routes_def)
    qed (simp add: None trie_routes_def)
  qed
qed

subsection \<open>Walks\<close>

text \<open>What a registration loop may do at a segment: stop with an exception, follow the edge
  of the segment's label, or attach a node where that label's slot is free.\<close>

locale trie_walk =
  fixes walk :: "trie_node list \<Rightarrow> nat \<Rightarrow> (string \<times> string) list \<Rightarrow> trie_node list \<times> (string + nat)"
  assumes walk_Nil: "walk ns i [] = (ns, Inr i)"
    and walk_Cons:
      "(\<exists>message. walk ns i (s # rest) = (ns, Inl message)) \<or>
       (\<exists>k. edge (ns ! i) (label_of s) = Some k \<and> walk ns i (s # rest) = walk ns k rest) \<or>
       (slot_free (ns ! i) (label_of s) \<and>
        walk ns i (s # rest) = walk (attach ns i (label_of s)) (length ns) rest)"
begin

lemma walk_grows:
  "wf_trie ns \<Longrightarrow> i < length ns \<Longrightarrow> walk ns i segs = (ns', res) \<Longrightarrow>
     wf_trie ns' \<and> extends ns ns' \<and> (\<forall>j. res = Inr j \<longrightarrow> follow ns' i (map label_of segs) = Some j)"
proof (induction segs arbitrary: ns i)
  case Nil
  then show ?case by (auto simp: walk_Nil)
next
  case (Cons s rest)
  from walk_Cons [of ns i s rest] consider
    (stop) message where "walk ns i (s # rest) = (ns, Inl message)"
  | (old) k where "edge (ns ! i) (label_of s) = Some k" "walk ns i (s # rest) = walk ns k rest"
  | (new) "slot_free (ns ! i) (label_of s)"
      "walk ns i (s # rest) = walk (attach ns i (label_of s)) (length ns) rest"
    by blast
  then show ?case
  proof cases
    case stop
    with Cons.prems show ?thesis by auto
  next
    case old
    have "k < length ns"
      using edges_forwardD [OF _ Cons.prems(2) old(1)] Cons.prems(1) by (simp add: wf_trie_def)
    with Cons.IH [OF Cons.prems(1)] Cons.prems(3) old
    have IH: "wf_trie ns'" "extends ns ns'"
      "\<forall>j. res = Inr j \<longrightarrow> follow ns' k (map label_of rest) = Some j" by simp_all
    with extendsD(3) [OF IH(2) Cons.prems(2) old(1)] show ?thesis by simp
  next
    case new
    let ?a = "attach ns i (label_of s)"
    have IH: "wf_trie ns'" "extends ?a ns'"
      "\<forall>j. res = Inr j \<longrightarrow> follow ns' (length ns) (map label_of rest) = Some j"
      using Cons.IH [OF attach_wf [OF Cons.prems(1,2) new(1)], of "length ns"] Cons.prems(3) new(2)
      by simp_all
    have "edge (ns' ! i) (label_of s) = Some (length ns)"
      by (rule extendsD(3) [OF IH(2) _ attach_edge [OF Cons.prems(2) new(1)]])
        (use Cons.prems(2) in simp)
    with IH extends_trans [OF attach_extends [OF Cons.prems(2) new(1)] IH(2)] show ?thesis by simp
  qed
qed

end

lemma label_of_simps:
  "label_of (s, t) = (if s \<noteq> [] \<and> hd s = CHR ''*'' then Wild (tl s)
     else if s \<noteq> [] \<and> hd s = CHR '':'' then Par (tl s) else Lit t)"
  by (simp add: label_of_def)

interpretation route_walk: trie_walk add_route_walk
proof
  show "add_route_walk ns i [] = (ns, Inr i)" for ns i by simp
  fix ns i and s :: "string \<times> string" and rest
  obtain a b where s: "s = (a, b)" by (cases s)
  show "(\<exists>message. add_route_walk ns i (s # rest) = (ns, Inl message)) \<or>
    (\<exists>k. edge (ns ! i) (label_of s) = Some k \<and>
         add_route_walk ns i (s # rest) = add_route_walk ns k rest) \<or>
    (slot_free (ns ! i) (label_of s) \<and>
     add_route_walk ns i (s # rest) = add_route_walk (attach ns i (label_of s)) (length ns) rest)"
    by (cases "parameter_child (ns ! i)"; cases "wildcard_child (ns ! i)";
        cases "map_of (static_children (ns ! i)) b"; cases "tl a = []"; cases "rest = []")
      (simp_all add: s label_of_simps route_segment_name_def attach_eqs named_edge_def)
qed

interpretation group_walk: trie_walk prefix_walk
proof
  show "prefix_walk ns i [] = (ns, Inr i)" for ns i by simp
  fix ns i and s :: "string \<times> string" and rest
  obtain a b where s: "s = (a, b)" by (cases s)
  show "(\<exists>message. prefix_walk ns i (s # rest) = (ns, Inl message)) \<or>
    (\<exists>k. edge (ns ! i) (label_of s) = Some k \<and>
         prefix_walk ns i (s # rest) = prefix_walk ns k rest) \<or>
    (slot_free (ns ! i) (label_of s) \<and>
     prefix_walk ns i (s # rest) = prefix_walk (attach ns i (label_of s)) (length ns) rest)"
    by (cases "parameter_child (ns ! i)"; cases "map_of (static_children (ns ! i)) b";
        cases "tl a = []")
      (simp_all add: s label_of_simps route_segment_name_def attach_eqs named_edge_def)
qed

section \<open>Registration refines map update\<close>

lemma method_index_bound [simp]: "method_index m < method_count" "\<not> method_count \<le> method_index m"
  by (cases m, simp_all add: method_count_def)+

text \<open>Replacing a node by one with the same edges keeps the shape of the trie.\<close>

lemma edge_update:
  "(\<And>l. edge n' l = edge (ns ! j) l) \<Longrightarrow> edge (ns[j := n'] ! k) l = edge (ns ! k) l"
  by (cases "j < length ns") (simp_all add: nth_list_update not_less list_update_beyond)

lemma follow_update:
  "(\<And>l. edge n' l = edge (ns ! j) l) \<Longrightarrow> follow (ns[j := n']) i q = follow ns i q"
  by (induction q arbitrary: i) (simp_all only: follow.simps edge_update split: option.split)

lemma wf_trie_update:
  assumes wf: "wf_trie ns" and edges: "\<And>l. edge n' l = edge (ns ! j) l"
    and targets: "j < length ns \<Longrightarrow> length (targets n') = length (targets (ns ! j))"
  shows "wf_trie (ns[j := n'])"
  unfolding wf_trie_def
proof (intro conjI)
  note edge' = edge_update [of n' ns j, OF edges]
  show "ns[j := n'] \<noteq> []" using wf by (simp add: wf_trie_def)
  show "edges_forward (ns[j := n'])"
    using wf unfolding wf_trie_def edges_forward_def edge' length_list_update by (elim conjE)
  show "edges_unique (ns[j := n'])"
    using wf unfolding wf_trie_def edges_unique_def edge' length_list_update by (elim conjE)
  show "\<forall>i < length (ns[j := n']). length (targets (ns[j := n'] ! i)) = method_count"
    using wf targets by (cases "j < length ns") (simp_all add: wf_trie_def nth_list_update)
qed

lemma trie_routes_update:
  assumes "\<And>l. edge n' l = edge (ns ! j) l" "targets n' = targets (ns ! j)"
  shows "trie_routes (ns[j := n']) m q = trie_routes ns m q"
  using assms(2)
  by (cases "j < length ns")
    (simp_all add: trie_routes_def follow_update [OF assms(1)] nth_list_update not_less
      list_update_beyond split: option.split)

text \<open>The trie a registration stores its target in.\<close>

lemma trie_routes_set_target:
  assumes wf: "wf_trie ns" and j: "follow ns 0 p = Some j" and m: "m < method_count"
    and n': "n' = (ns ! j)\<lparr>targets := (targets (ns ! j))[m := t]\<rparr>"
  shows "wf_trie (ns[j := n'])"
    and "trie_routes (ns[j := n']) m' q = (if m' = m \<and> q = p then t else trie_routes ns m' q)"
proof -
  have wf': "ns \<noteq> []" "edges_forward ns" "edges_unique ns"
      "\<And>i. i < length ns \<Longrightarrow> length (targets (ns ! i)) = method_count"
    using wf by (simp_all add: wf_trie_def)
  have jl: "j < length ns" using follow_forward [OF wf'(2) _ j] wf'(1) by simp
  have edge': "edge n' l = edge (ns ! j) l" for l by (cases l) (simp_all add: n')
  show "wf_trie (ns[j := n'])"
    by (rule wf_trie_update [OF wf edge']) (simp add: n')
  show "trie_routes (ns[j := n']) m' q = (if m' = m \<and> q = p then t else trie_routes ns m' q)"
  proof (cases "follow ns 0 q")
    case (Some k)
    then have "k = j \<longleftrightarrow> q = p" using j follow_inj [OF wf'(2,3,1)] by auto
    moreover have "targets (ns[j := n'] ! k) ! m' =
        (if k = j \<and> m' = m then t else targets (ns ! k) ! m')"
      using jl m wf'(4) [OF jl] by (simp add: n' nth_list_update)
    ultimately show ?thesis
      using Some by (simp add: trie_routes_def follow_update [OF edge'])
  next
    case None
    with j show ?thesis by (auto simp: trie_routes_def follow_update [OF edge'])
  qed
qed

definition wf_router :: "router \<Rightarrow> bool" where
  "wf_router r \<longleftrightarrow> wf_trie (nodes r)"

lemma wf_new_router: "wf_router (new_router m)"
  by (simp add: wf_router_def new_router_def wf_trie_def edges_forward_def edges_unique_def
      less_Suc_eq) (simp add: empty_node_def)

lemma routes_new_router: "routes (new_router mode) m p = None"
  by (cases p) (simp_all add: routes_def trie_routes_def new_router_def,
      simp add: empty_node_def)

text \<open>What a registration leaves behind: a well-formed trie with the same path matching.\<close>

lemma add_route_cases:
  assumes wf: "wf_router r" and run: "add_route m pattern body mx tmo h r = (r', res)"
  obtains
    (rejected) message where "res = Inl message" "r' = r"
  | (partial) message where "res = Inl message" "route_count r' = route_count r"
      "matching r' = matching r" "wf_trie (nodes r')" "extends (nodes r) (nodes r')"
  | (stored) ns j where "res = Inr ()" "wf_trie ns" "extends (nodes r) ns"
      "follow ns 0 (pattern_labels (matching r) pattern) = Some j"
      "targets (ns ! j) ! method_index m = None"
      "r' = r\<lparr>nodes := ns[j := (ns ! j)\<lparr>targets := (targets (ns ! j))[method_index m :=
         Some \<lparr>rt_body = body, rt_max_body_bytes = mx, rt_body_timeout = tmo, rt_handler = h,
               rt_pattern = join_route_pattern [] pattern\<rparr>]\<rparr>], route_count := route_count r + 1\<rparr>"
proof -
  let ?p = "parse_route_path (join_route_pattern [] pattern)"
  let ?segs = "zip (raw_segments ?p) (segments ?p (matching r))"
  obtain ns walked where w: "add_route_walk (nodes r) 0 ?segs = (ns, walked)"
    by (cases "add_route_walk (nodes r) 0 ?segs")
  have wfr: "wf_trie (nodes r)" "0 < length (nodes r)"
    using wf by (simp_all add: wf_router_def wf_trie_def)
  note grows = route_walk.walk_grows [OF wfr w]
  note run' = run [unfolded add_route_def Let_def, simplified]
  show thesis
  proof (cases "valid ?p")
    case False
    with run' have "res = Inl ''HTTP route pattern contains invalid percent encoding''" "r' = r"
      by simp_all
    then show thesis by (rule rejected)
  next
    case True
    show thesis
    proof (cases "\<exists>j. walked = Inr j \<and> targets (ns ! j) ! method_index m = None")
      case False
      then obtain message where "res = Inl message" "r' = r\<lparr>nodes := ns\<rparr>"
        using True run' w by (cases walked) auto
      with grows show thesis by (intro partial) simp_all
    next
      case stores: True
      then obtain j where "walked = Inr j" "targets (ns ! j) ! method_index m = None" by blast
      with True run' w grows show thesis
        by (intro stored [of ns j]) (auto simp: pattern_labels_def Let_def)
    qed
  qed
qed

lemma routes_extends:
  "extends (nodes r) (nodes r') \<Longrightarrow> wf_router r \<Longrightarrow> wf_trie (nodes r') \<Longrightarrow>
     routes r' m p = routes r m p"
  by (simp add: routes_def wf_router_def trie_routes_extends)

text \<open>The target a registration stores.\<close>

definition new_target :: "string \<Rightarrow> body_mode \<Rightarrow> nat \<Rightarrow> int \<Rightarrow> handler \<Rightarrow> route_target" where
  "new_target pattern body mx tmo h =
     \<lparr>rt_body = body, rt_max_body_bytes = mx, rt_body_timeout = tmo, rt_handler = h,
      rt_pattern = join_route_pattern [] pattern\<rparr>"

lemma add_route_stored:
  assumes wf: "wf_router r" and run: "add_route m pattern body mx tmo h r = (r', Inr ())"
  shows "wf_router r' \<and> matching r' = matching r \<and> route_count r' = route_count r + 1 \<and>
    routes r m (pattern_labels (matching r) pattern) = None \<and>
    routes r' = (\<lambda>m' q. if m' = m \<and> q = pattern_labels (matching r) pattern
                         then Some (new_target pattern body mx tmo h) else routes r m' q)"
  using wf run
proof (cases rule: add_route_cases)
  case (stored ns j)
  let ?n = "(ns ! j)\<lparr>targets := (targets (ns ! j))[method_index m :=
              Some (new_target pattern body mx tmo h)]\<rparr>"
  have nodes: "nodes r' = ns[j := ?n]" using stored(6) by (simp add: new_target_def)
  have wfr: "wf_trie (nodes r)" using wf by (simp add: wf_router_def)
  have old: "trie_routes ns k q = trie_routes (nodes r) k q" if "k < method_count" for k q
    using trie_routes_extends [OF stored(3) wfr stored(2) that] .
  note set_target = trie_routes_set_target [OF stored(2,4) method_index_bound(1) refl,
      where t = "Some (new_target pattern body mx tmo h)"]
  have "routes r m (pattern_labels (matching r) pattern) = None"
    using stored(4,5) old [OF method_index_bound(1)] unfolding routes_def
    by (metis option.simps(5) trie_routes_def)
  moreover have "routes r' m' q = (if m' = m \<and> q = pattern_labels (matching r) pattern
      then Some (new_target pattern body mx tmo h) else routes r m' q)" for m' q
    by (simp add: routes_def nodes set_target(2) old method_index_inj)
  moreover have "wf_router r'" using set_target(1) by (simp add: wf_router_def nodes)
  moreover have "matching r' = matching r" "route_count r' = route_count r + 1"
    using stored(6) by simp_all
  ultimately show ?thesis by (simp add: fun_eq_iff)
qed simp_all

lemma add_route_rejected:
  assumes wf: "wf_router r" and run: "add_route m pattern body mx tmo h r = (r', Inl message)"
  shows "wf_router r' \<and> matching r' = matching r \<and> route_count r' = route_count r \<and>
    routes r' = routes r"
  using wf run
  by (cases rule: add_route_cases) (use wf in \<open>simp_all add: fun_eq_iff wf_router_def routes_extends\<close>)

text \<open>C5: Registering a route refines updating a finite map. From a well-formed router, a
  registration that succeeds adds exactly one entry, under its method and the labels of its
  normalised pattern, where there was none, and counts it; one that throws changes no route and
  no count, whatever nodes it has added. Both leave a well-formed router.\<close>

theorem add_route_refines:
  assumes "wf_router r"
  shows "case add_route m pattern body mx tmo h r of
      (r', Inr _) \<Rightarrow>
        wf_router r' \<and> matching r' = matching r \<and> route_count r' = route_count r + 1 \<and>
        routes r m (pattern_labels (matching r) pattern) = None \<and>
        routes r' = (\<lambda>m' q. if m' = m \<and> q = pattern_labels (matching r) pattern
                             then Some (new_target pattern body mx tmo h) else routes r m' q)
    | (r', Inl _) \<Rightarrow>
        wf_router r' \<and> matching r' = matching r \<and> route_count r' = route_count r \<and>
        routes r' = routes r"
  using add_route_stored [OF assms] add_route_rejected [OF assms]
  by (simp split: prod.split sum.split)

theorem add_route_refines_witness:
  "\<exists>r'. add_route method_get ''/a/:id'' body_none 0 0 7 (new_router raw_matching) = (r', Inr ()) \<and>
    wf_router r' \<and> route_count r' = 1 \<and>
    routes r' method_get [Lit ''a'', Par ''id''] = Some (new_target ''/a/:id'' body_none 0 0 7) \<and>
    routes r' method_get [Lit ''a''] = None"
proof -
  let ?r = "new_router raw_matching"
  have ok: "isl (snd (add_route method_get ''/a/:id'' body_none 0 0 7 ?r)) = False"
    by code_simp
  have labels: "pattern_labels (matching ?r) ''/a/:id'' = [Lit ''a'', Par ''id'']" by code_simp
  have count: "route_count ?r = 0" by (simp add: new_router_def)
  obtain r' where "add_route method_get ''/a/:id'' body_none 0 0 7 ?r = (r', Inr ())"
    using ok by (cases "add_route method_get ''/a/:id'' body_none 0 0 7 ?r";
        cases "snd (add_route method_get ''/a/:id'' body_none 0 0 7 ?r)") auto
  with add_route_refines [of ?r method_get "''/a/:id''" body_none 0 0 7, OF wf_new_router] labels count
  show ?thesis by (simp add: routes_new_router)
qed

section \<open>Matching\<close>

text \<open>Which paths a pattern matches, the parameters it then binds, and which of two matching
  patterns is the more specific one: the end of the pattern before a literal before a parameter
  before a wildcard, decided at the first difference.\<close>

fun pat_matches :: "pat_seg list \<Rightarrow> string list \<Rightarrow> bool" where
  "pat_matches [] segs \<longleftrightarrow> segs = []"
| "pat_matches (Wild x # p) segs \<longleftrightarrow> p = []"
| "pat_matches (Lit s # p) (seg # segs) \<longleftrightarrow> s = seg \<and> pat_matches p segs"
| "pat_matches (Par x # p) (seg # segs) \<longleftrightarrow> pat_matches p segs"
| "pat_matches (l # p) [] \<longleftrightarrow> False"

fun bindings :: "pat_seg list \<Rightarrow> string list \<Rightarrow> (string \<times> string) list" where
  "bindings (Wild x # p) segs = (if x = [] then [] else [(x, join_route_segments segs 0)])"
| "bindings (Par x # p) (seg # segs) = (x, seg) # bindings p segs"
| "bindings (Lit s # p) (seg # segs) = bindings p segs"
| "bindings p segs = []"

fun seg_rank :: "pat_seg \<Rightarrow> nat" where
  "seg_rank (Lit s) = 0"
| "seg_rank (Par x) = 1"
| "seg_rank (Wild x) = 2"

fun prefers :: "pat_seg list \<Rightarrow> pat_seg list \<Rightarrow> bool" where
  "prefers [] q \<longleftrightarrow> True"
| "prefers (l # p) [] \<longleftrightarrow> False"
| "prefers (l # p) (l' # q) \<longleftrightarrow>
     seg_rank l < seg_rank l' \<or> seg_rank l = seg_rank l' \<and> prefers p q"

text \<open>The nodes on the way of a pattern, and what a descent along them collects.\<close>

fun path_nodes :: "trie_node list \<Rightarrow> nat \<Rightarrow> pat_seg list \<Rightarrow> trie_node list" where
  "path_nodes ns i [] = [ns ! i]"
| "path_nodes ns i (l # p) =
     ns ! i # (case edge (ns ! i) l of None \<Rightarrow> [] | Some j \<Rightarrow> path_nodes ns j p)"

definition bind_all :: "route_params \<Rightarrow> (string \<times> string) list \<Rightarrow> route_params" where
  "bind_all params bs = fold (\<lambda>(k, v) ps. params_set ps k v) bs params"

definition last_handler :: "handler option \<Rightarrow> handler option list \<Rightarrow> handler option" where
  "last_handler h hs = fold (\<lambda>h acc. case h of None \<Rightarrow> acc | Some h \<Rightarrow> Some h) hs h"

definition collected :: "trie_node list \<Rightarrow> (string \<times> string) list \<Rightarrow> match_state \<Rightarrow> match_state" where
  "collected vs bs st =
     \<lparr>ms_params = bind_all (ms_params st) bs,
      ms_on_request = ms_on_request st @ concat (map on_request_hooks vs),
      ms_pre_handler = ms_pre_handler st @ concat (map pre_handler_hooks vs),
      ms_on_response = ms_on_response st @ concat (map on_response_hooks vs),
      ms_exception = last_handler (ms_exception st) (map exception_handler vs)\<rparr>"

lemma collected_collected:
  "collected vs bs (collected vs' bs' st) = collected (vs' @ vs) (bs' @ bs) st"
  by (simp add: collected_def bind_all_def last_handler_def)

lemma enter_node_collected: "enter_node n st = collected [n] [] st"
  by (simp add: collected_def enter_node_def last_handler_def bind_all_def)

lemma set_param_collected: "set_param x v st = collected [] [(x, v)] st"
  by (simp add: collected_def set_param_def last_handler_def bind_all_def)

lemmas collect_simps = collected_collected enter_node_collected set_param_collected

text \<open>A pattern that matches the segments and has a target, seen from a node.\<close>

definition serves ::
  "trie_node list \<Rightarrow> nat \<Rightarrow> nat \<Rightarrow> string list \<Rightarrow> pat_seg list \<Rightarrow> route_target \<Rightarrow> bool" where
  "serves ns i m segs p t \<longleftrightarrow>
     pat_matches p segs \<and> (\<exists>j. follow ns i p = Some j \<and> targets (ns ! j) ! m = Some t)"

lemma serves_Nil:
  "serves ns i m [] p t \<longleftrightarrow>
     p = [] \<and> targets (ns ! i) ! m = Some t \<or>
     (\<exists>w. wildcard_child (ns ! i) = Some w \<and> p = [Wild (child_name w)] \<and>
          targets (ns ! child_node w) ! m = Some t)"
proof (cases p)
  case (Cons l q)
  then show ?thesis
    by (cases l) (auto simp: serves_def named_edge_def split: option.splits if_splits)
qed (simp add: serves_def)

lemma serves_Cons:
  "serves ns i m (s # segs) p t \<longleftrightarrow>
     (\<exists>c q. map_of (static_children (ns ! i)) s = Some c \<and> p = Lit s # q \<and> serves ns c m segs q t) \<or>
     (\<exists>c q. parameter_child (ns ! i) = Some c \<and> p = Par (child_name c) # q \<and>
            serves ns (child_node c) m segs q t) \<or>
     (\<exists>w. wildcard_child (ns ! i) = Some w \<and> p = [Wild (child_name w)] \<and>
          targets (ns ! child_node w) ! m = Some t)"
proof (cases p)
  case (Cons l q)
  then show ?thesis
    by (cases l) (auto simp: serves_def named_edge_def split: option.splits if_splits)
qed (simp add: serves_def)

text \<open>What one call of \<open>match_node\<close> promises.\<close>

definition selects ::
  "trie_node list \<Rightarrow> nat \<Rightarrow> nat \<Rightarrow> string list \<Rightarrow> match_state \<Rightarrow>
     (route_target \<times> match_state) option \<Rightarrow> bool" where
  "selects ns i m segs st res \<longleftrightarrow>
     (case res of
        None \<Rightarrow> \<forall>p t. \<not> serves ns i m segs p t
      | Some (t, st') \<Rightarrow>
          \<exists>p. serves ns i m segs p t \<and> st' = collected (path_nodes ns i p) (bindings p segs) st \<and>
              (\<forall>q t'. serves ns i m segs q t' \<longrightarrow> prefers p q))"

lemma selectsI:
  "serves ns i m segs p t \<Longrightarrow> st' = collected (path_nodes ns i p) (bindings p segs) st \<Longrightarrow>
   (\<And>q t'. serves ns i m segs q t' \<Longrightarrow> prefers p q) \<Longrightarrow> selects ns i m segs st (Some (t, st'))"
  unfolding selects_def by auto

lemma selects_SomeE:
  assumes "selects ns i m segs st (Some (t, st'))"
  obtains p where "serves ns i m segs p t" "st' = collected (path_nodes ns i p) (bindings p segs) st"
    "\<forall>q t'. serves ns i m segs q t' \<longrightarrow> prefers p q"
  using assms unfolding selects_def by auto

lemma selects_None: "selects ns i m segs st None \<longleftrightarrow> (\<forall>p t. \<not> serves ns i m segs p t)"
  by (simp add: selects_def)

lemma match_wildcard_cases:
  "match_wildcard ns w m segs (enter_node (ns ! i) st) =
     (case targets (ns ! child_node w) ! m of
        None \<Rightarrow> None
      | Some t \<Rightarrow> Some (t, collected [ns ! i, ns ! child_node w] (bindings [Wild (child_name w)] segs) st))"
  by (simp add: match_wildcard_def Let_def collect_simps split: option.split)

lemma selects_end:
  "selects ns i m [] st (match_node ns i m [] st)"
proof (cases "targets (ns ! i) ! m")
  case (Some t)
  have "selects ns i m [] st (Some (t, enter_node (ns ! i) st))"
    by (rule selectsI [of _ _ _ _ "[]"]) (simp_all add: serves_Nil Some enter_node_collected)
  with Some show ?thesis by simp
next
  case none: None
  show ?thesis
  proof (cases "wildcard_child (ns ! i)")
    case None
    with none show ?thesis by (simp add: selects_None serves_Nil)
  next
    case (Some w)
    show ?thesis
    proof (cases "targets (ns ! child_node w) ! m")
      case None
      with none Some show ?thesis
        by (simp add: match_wildcard_cases selects_None serves_Nil)
    next
      case t: (Some t)
      have "selects ns i m [] st
          (Some (t, collected [ns ! i, ns ! child_node w] (bindings [Wild (child_name w)] []) st))"
        by (rule selectsI [of _ _ _ _ "[Wild (child_name w)]"])
          (use none Some t in \<open>auto simp: serves_Nil named_edge_def\<close>)
      with none Some t show ?thesis by (simp add: match_wildcard_cases)
    qed
  qed
qed

text \<open>The three branches at a segment, in the order the code tries them.\<close>

lemma selects_wildcard:
  assumes "\<And>p t. serves ns i m (s # segs) p t \<Longrightarrow> \<exists>x. p = [Wild x]"
  shows "selects ns i m (s # segs) st
    (case wildcard_child (ns ! i) of None \<Rightarrow> None
     | Some w \<Rightarrow> match_wildcard ns w m (s # segs) (enter_node (ns ! i) st))"
proof (cases "\<exists>w t. wildcard_child (ns ! i) = Some w \<and> targets (ns ! child_node w) ! m = Some t")
  case True
  then obtain w t where w: "wildcard_child (ns ! i) = Some w"
    "targets (ns ! child_node w) ! m = Some t" by blast
  have "selects ns i m (s # segs) st
      (Some (t, collected [ns ! i, ns ! child_node w] (bindings [Wild (child_name w)] (s # segs)) st))"
  proof (rule selectsI [of _ _ _ _ "[Wild (child_name w)]"])
    show "prefers [Wild (child_name w)] q" if "serves ns i m (s # segs) q t'" for q t'
      using assms [OF that] by auto
  qed (use w in \<open>simp_all add: serves_Cons named_edge_def\<close>)
  with w show ?thesis by (simp add: match_wildcard_cases)
next
  case False
  have "\<not> serves ns i m (s # segs) p t" for p t
  proof
    assume sv: "serves ns i m (s # segs) p t"
    obtain x where "p = [Wild x]" using assms [OF sv] by blast
    with sv False show False by (auto simp: serves_Cons)
  qed
  with False show ?thesis
    by (auto simp: selects_None match_wildcard_cases split: option.split)
qed

lemma selects_child:
  assumes e: "edge (ns ! i) l = Some c"
    and sub: "selects ns c m segs st' (Some (t, st''))"
    and st': "st' = collected [ns ! i] (case l of Par x \<Rightarrow> [(x, s)] | _ \<Rightarrow> []) st"
    and l: "l = Lit s \<or> (\<exists>x. l = Par x)"
    and best: "\<And>q t'. serves ns i m (s # segs) q t' \<Longrightarrow>
      (\<exists>q'. q = l # q' \<and> serves ns c m segs q' t') \<or> (\<exists>l' q'. q = l' # q' \<and> seg_rank l < seg_rank l')"
  shows "selects ns i m (s # segs) st (Some (t, st''))"
proof -
  obtain p where p: "serves ns c m segs p t"
    "st'' = collected (path_nodes ns c p) (bindings p segs) st'"
    "\<forall>q t'. serves ns c m segs q t' \<longrightarrow> prefers p q"
    using sub by (rule selects_SomeE)
  show ?thesis
  proof (rule selectsI [of _ _ _ _ "l # p"])
    show "serves ns i m (s # segs) (l # p) t"
      using p(1) e l by (auto simp: serves_def)
    show "st'' = collected (path_nodes ns i (l # p)) (bindings (l # p) (s # segs)) st"
      using l e by (auto simp: p(2) st' collected_collected)
    show "prefers (l # p) q" if "serves ns i m (s # segs) q t'" for q t'
      using best [OF that] p(3) by auto
  qed
qed

lemma match_node_selects:
  "selects ns i m segs st (match_node ns i m segs st)"
proof (induction segs arbitrary: i st)
  case Nil
  show ?case by (rule selects_end)
next
  case (Cons s segs)
  let ?n = "ns ! i" let ?st = "enter_node (ns ! i) st"
  let ?static = "case map_of (static_children ?n) s of None \<Rightarrow> None
    | Some c \<Rightarrow> match_node ns c m segs ?st"
  let ?param = "case parameter_child ?n of None \<Rightarrow> None
    | Some c \<Rightarrow> match_node ns (child_node c) m segs (set_param (child_name c) s ?st)"
  have static: "map_of (static_children ?n) s = None \<or>
      (\<exists>c. map_of (static_children ?n) s = Some c \<and> (\<forall>p t. \<not> serves ns c m segs p t))"
    if "?static = None"
    using that Cons.IH [of "the (map_of (static_children ?n) s)" ?st]
    by (cases "map_of (static_children ?n) s") (simp_all add: selects_None)
  have param: "parameter_child ?n = None \<or>
      (\<exists>c. parameter_child ?n = Some c \<and> (\<forall>p t. \<not> serves ns (child_node c) m segs p t))"
    if "?param = None"
    using that Cons.IH [of "child_node (the (parameter_child ?n))"
        "set_param (child_name (the (parameter_child ?n))) s ?st"]
    by (cases "parameter_child ?n") (simp_all add: selects_None)
  show ?case
  proof (cases ?static)
    case (Some r)
    then obtain c where c: "map_of (static_children ?n) s = Some c" "match_node ns c m segs ?st = Some r"
      by (auto split: option.splits)
    have "selects ns i m (s # segs) st (Some (fst r, snd r))"
      by (rule selects_child [where l = "Lit s" and c = c and st' = ?st])
        (use c Cons.IH [of c ?st] in \<open>auto simp: enter_node_collected serves_Cons\<close>)
    with Some show ?thesis by simp
  next
    case no_static: None
    note no_static' = static [OF no_static]
    show ?thesis
    proof (cases ?param)
      case (Some r)
      then obtain c where c: "parameter_child ?n = Some c"
        "match_node ns (child_node c) m segs (set_param (child_name c) s ?st) = Some r"
        by (auto split: option.splits)
      have "selects ns i m (s # segs) st (Some (fst r, snd r))"
        by (rule selects_child [where l = "Par (child_name c)" and c = "child_node c"
              and st' = "set_param (child_name c) s ?st"])
          (use c no_static' Cons.IH [of "child_node c" "set_param (child_name c) s ?st"]
            in \<open>auto simp: collect_simps serves_Cons named_edge_def\<close>)
      with no_static Some show ?thesis by simp
    next
      case no_param: None
      have "selects ns i m (s # segs) st
        (case wildcard_child ?n of None \<Rightarrow> None
         | Some w \<Rightarrow> match_wildcard ns w m (s # segs) ?st)"
        by (rule selects_wildcard)
          (use no_static' param [OF no_param] in \<open>auto simp: serves_Cons\<close>)
      with no_static no_param show ?thesis by (simp add: Let_def)
    qed
  qed
qed

text \<open>A route that matches a path and is preferred to every other registered route that does.\<close>

definition best_route ::
  "router \<Rightarrow> http_method \<Rightarrow> string list \<Rightarrow> pat_seg list \<Rightarrow> route_target \<Rightarrow> bool" where
  "best_route r m segs p t \<longleftrightarrow>
     pat_matches p segs \<and> routes r m p = Some t \<and>
     (\<forall>q. pat_matches q segs \<and> routes r m q \<noteq> None \<longrightarrow> prefers p q)"

lemma serves_routes:
  "serves (nodes r) 0 (method_index m) segs p t \<longleftrightarrow> pat_matches p segs \<and> routes r m p = Some t"
  by (auto simp: serves_def routes_def trie_routes_def split: option.splits)

text \<open>The result handed out for a target reached along a pattern: its own fields, the bound
  parameters, and the hooks and the innermost exception handler of the nodes on the way.\<close>

definition matched :: "router \<Rightarrow> pat_seg list \<Rightarrow> string list \<Rightarrow> route_target \<Rightarrow> match_result" where
  "matched r p segs t =
     \<lparr>mr_handler = Some (rt_handler t), mr_body = rt_body t,
      mr_max_body_bytes = rt_max_body_bytes t, mr_body_timeout = rt_body_timeout t,
      mr_pattern = rt_pattern t, mr_invalid_path = False,
      mr_state = collected (path_nodes (nodes r) 0 p) (bindings p segs) empty_match\<rparr>"

lemma match_node_best:
  "case match_node (nodes r) 0 (method_index m) segs st of
     None \<Rightarrow> \<forall>p. pat_matches p segs \<longrightarrow> routes r m p = None
   | Some (t, st') \<Rightarrow> \<exists>p. best_route r m segs p t \<and>
       st' = collected (path_nodes (nodes r) 0 p) (bindings p segs) st"
  using match_node_selects [of "nodes r" 0 "method_index m" segs st]
  unfolding selects_def serves_routes best_route_def
  by (fastforce split: option.split)

lemma match_node_None_iff:
  "match_node (nodes r) 0 (method_index m) segs st = None \<longleftrightarrow>
     (\<forall>p. pat_matches p segs \<longrightarrow> routes r m p = None)"
  using match_node_best [where r = r and m = m and segs = segs and st = st]
  by (auto simp: best_route_def split: option.splits prod.splits)

text \<open>The most specific matching route is unique.\<close>

lemma edge_par_unique: "edge n (Par x) = Some j \<Longrightarrow> edge n (Par y) = Some k \<Longrightarrow> x = y"
  by (auto simp: named_edge_def split: option.splits if_splits)

lemma edge_wild_unique: "edge n (Wild x) = Some j \<Longrightarrow> edge n (Wild y) = Some k \<Longrightarrow> x = y"
  by (auto simp: named_edge_def split: option.splits if_splits)

lemma prefers_antisym:
  "prefers p q \<Longrightarrow> prefers q p \<Longrightarrow> pat_matches p segs \<Longrightarrow> pat_matches q segs \<Longrightarrow>
   follow ns i p = Some j \<Longrightarrow> follow ns i q = Some k \<Longrightarrow> p = q"
proof (induction p q arbitrary: segs i rule: prefers.induct)
  case (1 q)
  then show ?case by (cases q) simp_all
next
  case (3 l p l' q)
  have rank: "seg_rank l = seg_rank l'" "prefers p q" "prefers q p"
    using "3.prems"(1,2) by auto
  obtain a b where ab: "edge (ns ! i) l = Some a" "follow ns a p = Some j"
      "edge (ns ! i) l' = Some b" "follow ns b q = Some k"
    using "3.prems"(5,6) by (blast elim: follow_ConsE)
  have l: "l = l'"
    using rank(1) "3.prems"(3,4) ab(1,3) edge_par_unique edge_wild_unique
    by (cases l; cases l'; cases segs) auto
  have "p = q"
  proof (cases "\<exists>x. l = Wild x")
    case True
    with l "3.prems"(3,4) show ?thesis by auto
  next
    case False
    then obtain s rest where "segs = s # rest" "pat_matches p rest" "pat_matches q rest"
      using l "3.prems"(3,4) by (cases l; cases segs) auto
    with "3.IH" [of rest b] rank ab l show ?thesis by simp
  qed
  with l show ?case by simp
qed simp

lemma best_route_unique:
  assumes "best_route r m segs p t" "best_route r m segs q t'"
  shows "p = q \<and> t = t'"
proof -
  have eq: "routes r m p = Some t" "routes r m q = Some t'" "pat_matches p segs" "pat_matches q segs"
    "prefers p q" "prefers q p" using assms by (auto simp: best_route_def)
  then obtain j k where "follow (nodes r) 0 p = Some j" "follow (nodes r) 0 q = Some k"
    by (auto simp: routes_def trie_routes_def split: option.splits)
  with eq prefers_antisym have "p = q" by blast
  with eq show ?thesis by simp
qed

text \<open>C1: Matching a path whose percent-encoding is valid returns the most specific registered
  route of the method that matches its segments, literal before parameter before wildcard at the
  first difference, with the parameters that route binds and the hooks of the nodes on its way;
  that route is unique. It returns an empty result exactly when no registered route matches.\<close>

theorem router_match_most_specific:
  assumes "valid (parse_route_path path)" "segs = segments (parse_route_path path) (matching r)"
  shows "(\<exists>p t. best_route r m segs p t \<and> router_match r m path = matched r p segs t \<and>
      (\<forall>q t'. best_route r m segs q t' \<longrightarrow> q = p \<and> t' = t)) \<or>
    (router_match r m path = no_match \<and> (\<forall>p. pat_matches p segs \<longrightarrow> routes r m p = None))"
proof (cases "match_node (nodes r) 0 (method_index m) segs empty_match")
  case None
  then have "router_match r m path = no_match"
    using assms by (simp add: router_match_def router_match_path_def)
  moreover have "\<forall>p. pat_matches p segs \<longrightarrow> routes r m p = None"
    using None match_node_None_iff by blast
  ultimately show ?thesis by blast
next
  case (Some found)
  obtain t st where found: "found = (t, st)" by (cases found)
  obtain p where p: "best_route r m segs p t"
      "st = collected (path_nodes (nodes r) 0 p) (bindings p segs) empty_match"
    using match_node_best [where r = r and m = m and segs = segs and st = empty_match] Some found
    by auto
  have "router_match r m path = matched r p segs t"
    using assms Some found p(2) by (simp add: router_match_def router_match_path_def matched_def)
  with p(1) best_route_unique show ?thesis by blast
qed

definition sample_router :: router where
  "sample_router =
     fst (add_route method_get ''/a/*rest'' body_none 0 0 2
       (fst (add_route method_get ''/a/:id'' body_none 0 0 1 (new_router raw_matching))))"

theorem router_match_most_specific_witness:
  "router_match sample_router method_get ''/a/b'' \<noteq> no_match \<and>
   (\<exists>p t. best_route sample_router method_get [''a'', ''b''] p t \<and>
     router_match sample_router method_get ''/a/b'' = matched sample_router p [''a'', ''b''] t)"
proof -
  have h: "mr_handler (router_match sample_router method_get ''/a/b'') = Some 1" by code_simp
  have "valid (parse_route_path ''/a/b'')" by code_simp
  moreover have "[''a'', ''b''] = segments (parse_route_path ''/a/b'') (matching sample_router)"
    by code_simp
  moreover have "router_match sample_router method_get ''/a/b'' \<noteq> no_match"
    using h by (auto simp: no_match_def)
  ultimately show ?thesis
    using router_match_most_specific [of "''/a/b''" "[''a'', ''b'']" sample_router method_get] by blast
qed

end
