(* ===== verification/Router_Run.thy ===== *)
theory Router_Run
  imports Router_Spec
begin

text \<open>
  Routers as they are built: sequences of registrations of routes, hooks and fallback handlers on
  a fresh router, with the invariant every such sequence keeps; what \<open>allowed_methods\<close> reports
  for them; the agreement of \<open>route_pattern_matches\<close> with the trie; and what a registration that
  throws leaves behind.
\<close>

section \<open>Hooks and fallback handlers\<close>

definition keeps_shape :: "(trie_node \<Rightarrow> trie_node) \<Rightarrow> bool" where
  "keeps_shape f \<longleftrightarrow> (\<forall>n. (\<forall>l. edge (f n) l = edge n l) \<and> targets (f n) = targets n)"

lemma keeps_shape_hooks [simp]:
  "keeps_shape (\<lambda>n. n\<lparr>on_request_hooks := a n\<rparr>)"
  "keeps_shape (\<lambda>n. n\<lparr>pre_handler_hooks := a n\<rparr>)"
  "keeps_shape (\<lambda>n. n\<lparr>on_response_hooks := a n\<rparr>)"
  "keeps_shape (\<lambda>n. n\<lparr>not_found_handler := b\<rparr>)"
  "keeps_shape (\<lambda>n. n\<lparr>exception_handler := b\<rparr>)"
  unfolding keeps_shape_def by (auto, case_tac [!] l) simp_all

lemma update_node_keeps:
  assumes "keeps_shape f"
  shows "wf_router r \<Longrightarrow> wf_router (update_node i f r)"
    and "routes (update_node i f r) = routes r"
    and "route_count (update_node i f r) = route_count r"
    and "matching (update_node i f r) = matching r"
  using assms
  by (auto simp: keeps_shape_def wf_router_def update_node_def routes_def fun_eq_iff
      trie_routes_update wf_trie_update)

lemma ensure_prefix_node_keeps:
  assumes wf: "wf_router r" and run: "ensure_prefix_node prefix r = (r', res)"
  shows "wf_router r' \<and> routes r' = routes r \<and> route_count r' = route_count r \<and>
    matching r' = matching r"
proof (cases "valid (parse_route_path prefix)")
  case True
  let ?segs = "zip (raw_segments (parse_route_path prefix)) (segments (parse_route_path prefix) (matching r))"
  obtain ns walked where w: "prefix_walk (nodes r) 0 ?segs = (ns, walked)"
    by (cases "prefix_walk (nodes r) 0 ?segs")
  have r': "r' = r\<lparr>nodes := ns\<rparr>" using run w True by (simp add: ensure_prefix_node_def Let_def)
  have "wf_trie (nodes r)" "0 < length (nodes r)"
    using wf by (simp_all add: wf_router_def wf_trie_def)
  from group_walk.walk_grows [OF this w] r' wf show ?thesis
    by (simp add: wf_router_def fun_eq_iff routes_extends)
next
  case False
  with assms show ?thesis by (simp add: ensure_prefix_node_def)
qed

lemma with_prefix_node_keeps:
  assumes f: "keeps_shape f" and wf: "wf_router r" and run: "with_prefix_node prefix f r = (r', res)"
  shows "wf_router r' \<and> routes r' = routes r \<and> route_count r' = route_count r \<and>
    matching r' = matching r"
proof -
  obtain r1 res1 where e: "ensure_prefix_node prefix r = (r1, res1)"
    by (cases "ensure_prefix_node prefix r")
  note keeps = ensure_prefix_node_keeps [OF wf e]
  show ?thesis
    using run keeps update_node_keeps [OF f]
    by (cases res1) (auto simp: with_prefix_node_def e)
qed

section \<open>Building a router\<close>

datatype router_op =
    Route http_method string body_mode nat int handler
  | On_request string handler
  | Pre_handler string handler
  | On_response string handler
  | Not_found string handler
  | On_exception string handler

fun apply_op :: "router \<Rightarrow> router_op \<Rightarrow> router \<times> (string + unit)" where
  "apply_op r (Route m pattern body mx tmo h) = add_route m pattern body mx tmo h r"
| "apply_op r (On_request prefix h) = add_on_request_hook prefix h r"
| "apply_op r (Pre_handler prefix h) = add_pre_handler_hook prefix h r"
| "apply_op r (On_response prefix h) = add_on_response_hook prefix h r"
| "apply_op r (Not_found prefix h) = add_not_found_handler prefix h r"
| "apply_op r (On_exception prefix h) = add_exception_handler prefix h r"

text \<open>A caller that survives an exception goes on with the router it left.\<close>

definition router_step :: "router \<Rightarrow> router_op \<Rightarrow> router" where
  "router_step r op = fst (apply_op r op)"

definition registered :: "router \<Rightarrow> (http_method \<times> pat_seg list) set" where
  "registered r = {(m, p). routes r m p \<noteq> None}"

definition router_inv :: "router \<Rightarrow> bool" where
  "router_inv r \<longleftrightarrow> wf_router r \<and> finite (registered r) \<and> card (registered r) = route_count r"

lemma router_inv_new: "router_inv (new_router mode)"
proof -
  have "registered (new_router mode) = {}" by (simp add: registered_def routes_new_router)
  moreover have "route_count (new_router mode) = 0" by (simp add: new_router_def)
  ultimately show ?thesis by (simp add: router_inv_def wf_new_router)
qed

lemma router_inv_cong:
  "router_inv r \<Longrightarrow> wf_router r' \<Longrightarrow> routes r' = routes r \<Longrightarrow> route_count r' = route_count r \<Longrightarrow>
   router_inv r'"
  by (simp add: router_inv_def registered_def)

lemma router_inv_add_route:
  assumes "router_inv r" "add_route m pattern body mx tmo h r = (r', res)"
  shows "router_inv r'"
proof (cases res)
  case (Inl message)
  with add_route_rejected [of r] assms router_inv_cong [of r r'] show ?thesis
    by (simp add: router_inv_def)
next
  case (Inr u)
  let ?k = "(m, pattern_labels (matching r) pattern)"
  have st: "wf_router r'" "route_count r' = route_count r + 1" "?k \<notin> registered r"
    "registered r' = insert ?k (registered r)"
    using add_route_stored [of r m pattern body mx tmo h r'] assms Inr
    by (auto simp: router_inv_def registered_def split: if_splits)
  with assms(1) show ?thesis by (simp add: router_inv_def)
qed

lemma router_inv_apply_op:
  assumes inv: "router_inv r" and run: "apply_op r op = (r', res)"
  shows "router_inv r'"
proof -
  have wf: "wf_router r" using inv by (simp add: router_inv_def)
  have hook: "router_inv r'" if "with_prefix_node prefix f r = (r', res)" "keeps_shape f" for prefix f
    using with_prefix_node_keeps [OF that(2) wf that(1)] router_inv_cong [OF inv] by blast
  show ?thesis
    using run hook router_inv_add_route [OF inv]
    by (cases op) (auto simp: add_on_request_hook_def add_pre_handler_hook_def
        add_on_response_hook_def add_not_found_handler_def add_exception_handler_def)
qed

interpretation router_build: inv_machine router_step router_inv
  by unfold_locales (metis router_inv_apply_op router_step_def prod.collapse)

text \<open>Whatever sequence of registrations runs on a fresh router, some of them throwing, the
  node vector stays a tree whose edges lead forward and in range with a target slot per method,
  and the route count is the number of registered pairs of method and pattern.\<close>

theorem router_build_invariant: "router_inv (foldl router_step (new_router mode) ops)"
  by (rule router_build.run_inv) (rule router_inv_new)

section \<open>Allowed methods\<close>

lemma routed_methods_set: "m \<in> set routed_methods \<longleftrightarrow> m \<noteq> method_unknown"
  by (cases m) (simp_all add: routed_methods_def)

lemma routed_methods_distinct: "distinct routed_methods"
  by (simp add: routed_methods_def)

text \<open>The methods reported for a 405 answer are, without repetition, exactly the known methods
  for which some registered pattern matches the path.\<close>

theorem allowed_methods_exact:
  "distinct (allowed_methods r path) \<and>
   (m \<in> set (allowed_methods r path) \<longleftrightarrow>
      m \<noteq> method_unknown \<and> valid (parse_route_path path) \<and>
      (\<exists>p. pat_matches p (segments (parse_route_path path) (matching r)) \<and> routes r m p \<noteq> None))"
proof -
  have "m \<in> set (allowed_methods_path r p) \<longleftrightarrow>
      m \<in> set routed_methods \<and>
      match_node (nodes r) 0 (method_index m) (segments p (matching r)) empty_match \<noteq> None" for p
    unfolding allowed_methods_path_def set_filter mem_Collect_eq by (simp only: method_index_bound simp_thms)
  then have mem: "m \<in> set (allowed_methods_path r p) \<longleftrightarrow>
      m \<noteq> method_unknown \<and> (\<exists>q. pat_matches q (segments p (matching r)) \<and> routes r m q \<noteq> None)" for p
    unfolding match_node_None_iff routed_methods_set by (simp only: not_all not_imp)
  have "distinct (allowed_methods_path r p)" for p
    unfolding allowed_methods_path_def by (rule distinct_filter [OF routed_methods_distinct])
  with mem show ?thesis
    unfolding allowed_methods_def Let_def
    by (cases "valid (parse_route_path path)") (simp_all only: simp_thms if_True if_False distinct.simps list.set empty_iff)
qed

section \<open>Single patterns\<close>

definition named_params :: "pat_seg list \<Rightarrow> bool" where
  "named_params p \<longleftrightarrow> Par [] \<notin> set p"

lemma pattern_loop_spec:
  "fst (pattern_loop pat segs params) = pat_matches (map label_of pat) segs \<and>
   (pat_matches (map label_of pat) segs \<and> named_params (map label_of pat) \<longrightarrow>
    snd (pattern_loop pat segs params) = bind_all params (bindings (map label_of pat) segs))"
proof (induction pat segs params rule: pattern_loop.induct)
  case (1 path_segs params)
  then show ?case by (simp add: bind_all_def)
next
  case (2 raw_segment pattern_segment rest path_segs params)
  show ?case
  proof (cases "raw_segment \<noteq> [] \<and> hd raw_segment = CHR ''*''")
    case True
    then show ?thesis by (simp add: label_of_simps route_segment_name_def bind_all_def)
  next
    case not_wild: False
    show ?thesis
    proof (cases path_segs)
      case Nil
      with not_wild show ?thesis by (auto simp: label_of_simps)
    next
      case (Cons seg path_rest)
      show ?thesis
      proof (cases "raw_segment \<noteq> [] \<and> hd raw_segment = CHR '':''")
        case True
        have "label_of (raw_segment, pattern_segment) = Par (tl raw_segment)"
          using True by (simp add: label_of_simps)
        with 2(1) [OF not_wild Cons True refl] True not_wild Cons show ?thesis
          by (auto simp: Let_def route_segment_name_def bind_all_def named_params_def)
      next
        case False
        have "label_of (raw_segment, pattern_segment) = Lit pattern_segment"
          using False not_wild by (simp add: label_of_simps)
        with 2(2) [OF not_wild Cons False] False not_wild Cons show ?thesis
          by (auto simp: named_params_def)
      qed
    qed
  qed
qed

text \<open>The test of one pattern against a path, used for upgrade routes, accepts exactly the
  paths the trie semantics of that pattern accepts, and for a pattern whose parameters are named
  it binds the same parameters.\<close>

theorem route_pattern_matches_agrees:
  assumes "valid pattern" "valid p" "named_params labels"
    "labels = map label_of (zip (raw_segments pattern) (segments pattern m))"
  shows "fst (route_pattern_matches pattern p m params) = pat_matches labels (segments p m) \<and>
    (pat_matches labels (segments p m) \<longrightarrow>
      snd (route_pattern_matches pattern p m params) = bind_all params (bindings labels (segments p m)))"
  using assms pattern_loop_spec by (simp add: route_pattern_matches_def)

theorem route_pattern_matches_agrees_witness:
  "let pattern = parse_route_path ''/chat/:room''; p = parse_route_path ''/chat/lobby''
   in fst (route_pattern_matches pattern p raw_matching []) \<and>
      params_get (snd (route_pattern_matches pattern p raw_matching [])) ''room'' = ''lobby''"
proof -
  let ?pattern = "parse_route_path ''/chat/:room''" and ?p = "parse_route_path ''/chat/lobby''"
  have a: "valid ?pattern" "valid ?p" by code_simp+
  have l: "[Lit ''chat'', Par ''room''] =
      map label_of (zip (raw_segments ?pattern) (segments ?pattern raw_matching))" by code_simp
  have n: "named_params [Lit ''chat'', Par ''room'']" by (simp add: named_params_def)
  have s: "segments ?p raw_matching = [''chat'', ''lobby'']" by code_simp
  have "params_get (bind_all [] [(''room'', ''lobby'')]) ''room'' = ''lobby''" by code_simp
  with route_pattern_matches_agrees [OF a n l, of "[]"] show ?thesis by (simp add: Let_def s)
qed

section \<open>Registrations that throw\<close>

text \<open>A registration that throws is not undone: after registering \<open>/a/:id/*\<close> fails because
  its wildcard has no name, the router holds no route, yet the valid pattern \<open>/a/:name\<close>, which a
  fresh router accepts, is rejected as conflicting with a parameter route.\<close>

theorem failed_registration_blocks_pattern:
  "let r = new_router raw_matching;
       (r', res) = add_route method_get ''/a/:id/*'' body_none 0 0 1 r
   in res = Inl ''HTTP route wildcard must be named'' \<and> route_count r' = 0 \<and>
      snd (add_route method_get ''/a/:name'' body_none 0 0 2 r) = Inr () \<and>
      snd (add_route method_get ''/a/:name'' body_none 0 0 2 r') =
        Inl ''HTTP route parameter conflicts with an existing parameter route''"
  by code_simp

end
