(* ===== verification/Router_Mount.thy ===== *)
theory Router_Mount
  imports Router_Run
begin

text \<open>
  Mounting a router below a prefix of another, \<open>router::mount\<close> of \<open>src/http/router.cpp\<close> with the functions it calls. The two
  routers are two vectors of nodes; the nodes of the mounted router are merged into those of the other, which appends the
  missing ones. A trie stands for a map from patterns to what its nodes hold, and mounting refines the union of two such maps.

  The recursion follows the edges of the mounted trie, so a bound of as many levels as it has nodes is enough for a
  trie whose edges lead forward, which every router has.
\<close>

section \<open>Merging tries\<close>

definition prefix_route_patterns :: "string \<Rightarrow> trie_node list \<Rightarrow> trie_node list" where
  "prefix_route_patterns prefix ns =
     (if prefix = [] then ns
      else map (\<lambda>n. n\<lparr>targets := map (map_option (\<lambda>t. t\<lparr>rt_pattern := join_route_pattern prefix (rt_pattern t)\<rparr>)) (targets n)\<rparr>) ns)"

definition first_error :: "string option list \<Rightarrow> string option" where
  "first_error es = (case dropWhile (\<lambda>e. e = None) es of [] \<Rightarrow> None | e # _ \<Rightarrow> e)"

definition validate_named ::
    "(nat \<Rightarrow> nat \<Rightarrow> string option) \<Rightarrow> string \<Rightarrow> named_child option \<Rightarrow> named_child option \<Rightarrow> string option" where
  "validate_named validate message destination source =
     (case (destination, source) of
        (Some d, Some s) \<Rightarrow> if child_name d \<noteq> child_name s then Some message else validate (child_node d) (child_node s)
      | _ \<Rightarrow> None)"

fun validate_mount_node :: "nat \<Rightarrow> trie_node list \<Rightarrow> trie_node list \<Rightarrow> nat \<Rightarrow> nat \<Rightarrow> string option" where
  "validate_mount_node 0 ns ms destination_index source_index = None"
| "validate_mount_node (Suc fuel) ns ms destination_index source_index =
     (let destination = ns ! destination_index;
          source = ms ! source_index
      in if list_ex (\<lambda>i. targets destination ! i \<noteq> None \<and> targets source ! i \<noteq> None) [0..<method_count]
         then Some ''HTTP mounted router conflicts with an existing route''
         else if not_found_handler destination \<noteq> None \<and> not_found_handler source \<noteq> None
         then Some ''HTTP mounted router not_found fallback conflicts with an existing fallback''
         else if exception_handler destination \<noteq> None \<and> exception_handler source \<noteq> None
         then Some ''HTTP mounted router exception fallback conflicts with an existing fallback''
         else first_error
           (map (\<lambda>(segment, source_child).
                case map_of (static_children destination) segment of
                  None \<Rightarrow> None
                | Some destination_child \<Rightarrow> validate_mount_node fuel ns ms destination_child source_child) (static_children source)
            @ [validate_named (validate_mount_node fuel ns ms)
                 ''HTTP mounted router parameter conflicts with an existing parameter route''
                 (parameter_child destination) (parameter_child source),
               validate_named (validate_mount_node fuel ns ms)
                 ''HTTP mounted router wildcard conflicts with an existing wildcard route''
                 (wildcard_child destination) (wildcard_child source)]))"

text \<open>What a node takes from the node that is merged into it, besides the children.\<close>

definition merge_payload :: "trie_node \<Rightarrow> trie_node \<Rightarrow> trie_node" where
  "merge_payload destination source =
     destination\<lparr>
       on_request_hooks := on_request_hooks destination @ on_request_hooks source,
       pre_handler_hooks := pre_handler_hooks destination @ pre_handler_hooks source,
       on_response_hooks := on_response_hooks destination @ on_response_hooks source,
       targets := map2 (\<lambda>d s. if s \<noteq> None then s else d) (targets destination) (targets source),
       not_found_handler := (if not_found_handler source \<noteq> None then not_found_handler source else not_found_handler destination),
       exception_handler := (if exception_handler source \<noteq> None then exception_handler source else exception_handler destination)\<rparr>"

text \<open>\<open>merge\<close> is the merge of the child of the source into the node of a given index.\<close>

definition move_mount_subtree :: "(nat \<Rightarrow> trie_node list \<Rightarrow> trie_node list) \<Rightarrow> trie_node list \<Rightarrow> trie_node list \<times> nat" where
  "move_mount_subtree merge ns =
     (let destination_index = length ns in (merge destination_index (ns @ [empty_node]), destination_index))"

definition merge_static ::
    "(nat \<Rightarrow> trie_node list \<Rightarrow> trie_node list) \<Rightarrow> nat \<Rightarrow> string \<Rightarrow> trie_node list \<Rightarrow> trie_node list" where
  "merge_static merge d segment ns =
     (case map_of (static_children (ns ! d)) segment of
        Some destination_child \<Rightarrow> merge destination_child ns
      | None \<Rightarrow>
          let (ns, destination_child) = move_mount_subtree merge ns
          in ns[d := (ns ! d)\<lparr>static_children := static_children (ns ! d) @ [(segment, destination_child)]\<rparr>])"

definition merge_parameter ::
    "(nat \<Rightarrow> trie_node list \<Rightarrow> trie_node list) \<Rightarrow> nat \<Rightarrow> string \<Rightarrow> trie_node list \<Rightarrow> trie_node list" where
  "merge_parameter merge d name ns =
     (case parameter_child (ns ! d) of
        Some c \<Rightarrow> merge (child_node c) ns
      | None \<Rightarrow>
          let (ns, destination_child) = move_mount_subtree merge ns
          in ns[d := (ns ! d)\<lparr>parameter_child := Some \<lparr>child_name = name, child_node = destination_child\<rparr>\<rparr>])"

definition merge_wildcard ::
    "(nat \<Rightarrow> trie_node list \<Rightarrow> trie_node list) \<Rightarrow> nat \<Rightarrow> string \<Rightarrow> trie_node list \<Rightarrow> trie_node list" where
  "merge_wildcard merge d name ns =
     (case wildcard_child (ns ! d) of
        Some c \<Rightarrow> merge (child_node c) ns
      | None \<Rightarrow>
          let (ns, destination_child) = move_mount_subtree merge ns
          in ns[d := (ns ! d)\<lparr>wildcard_child := Some \<lparr>child_name = name, child_node = destination_child\<rparr>\<rparr>])"

fun merge_mount_node :: "nat \<Rightarrow> trie_node list \<Rightarrow> nat \<Rightarrow> nat \<Rightarrow> trie_node list \<Rightarrow> trie_node list" where
  "merge_mount_node 0 ms destination_index source_index ns = ns"
| "merge_mount_node (Suc fuel) ms destination_index source_index ns =
     (let source = ms ! source_index;
          ns = ns[destination_index := merge_payload (ns ! destination_index) source];
          ns = fold (\<lambda>(segment, child). merge_static (\<lambda>k. merge_mount_node fuel ms k child) destination_index segment)
                 (static_children source) ns;
          ns = (case parameter_child source of
                  None \<Rightarrow> ns
                | Some c \<Rightarrow> merge_parameter (\<lambda>k. merge_mount_node fuel ms k (child_node c)) destination_index (child_name c) ns)
      in case wildcard_child source of
           None \<Rightarrow> ns
         | Some c \<Rightarrow> merge_wildcard (\<lambda>k. merge_mount_node fuel ms k (child_node c)) destination_index (child_name c) ns)"

text \<open>The destination, the mounted router, and the exception if there is one; \<open>same\<close> says whether they are one object.\<close>

definition mount :: "bool \<Rightarrow> string \<Rightarrow> router \<Rightarrow> router \<Rightarrow> (router \<times> router) \<times> (string + unit)" where
  "mount same prefix mounted r =
     (if same then ((r, mounted), Inl ''HTTP router cannot mount itself'')
      else if matching mounted \<noteq> matching r
      then ((r, mounted), Inl ''HTTP mounted router path matching mode conflicts with destination router'')
      else
        case ensure_prefix_node prefix r of
          (r, Inl message) \<Rightarrow> ((r, mounted), Inl message)
        | (r, Inr destination_index) \<Rightarrow>
            let fuel = length (nodes mounted)
            in case validate_mount_node fuel (nodes r) (nodes mounted) destination_index 0 of
                 Some message \<Rightarrow> ((r, mounted), Inl message)
               | None \<Rightarrow>
                   let ms = prefix_route_patterns (normalize_group_prefix prefix) (nodes mounted)
                   in ((r\<lparr>nodes := merge_mount_node fuel ms destination_index 0 (nodes r),
                         route_count := route_count r + route_count mounted\<rparr>,
                        mounted\<lparr>nodes := [empty_node], route_count := 0\<rparr>), Inr ()))"

section \<open>What a trie holds\<close>

definition node_at :: "trie_node list \<Rightarrow> nat \<Rightarrow> pat_seg list \<Rightarrow> trie_node option" where
  "node_at ns i q = map_option (\<lambda>j. payload (ns ! j)) (follow ns i q)"

text \<open>The children of a node with their labels, in the order in which they are merged.\<close>

definition named_kid :: "(string \<Rightarrow> pat_seg) \<Rightarrow> named_child option \<Rightarrow> (pat_seg \<times> nat) list" where
  "named_kid label c = (case c of None \<Rightarrow> [] | Some c \<Rightarrow> [(label (child_name c), child_node c)])"

definition kids :: "trie_node \<Rightarrow> (pat_seg \<times> nat) list" where
  "kids n = map (\<lambda>(s, j). (Lit s, j)) (static_children n) @ named_kid Par (parameter_child n) @ named_kid Wild (wildcard_child n)"

definition keys_distinct :: "trie_node list \<Rightarrow> bool" where
  "keys_distinct ns \<longleftrightarrow> (\<forall>i < length ns. distinct (map fst (static_children (ns ! i))))"

text \<open>The child in the place a label takes, whatever its name.\<close>

fun slot :: "trie_node \<Rightarrow> pat_seg \<Rightarrow> nat option" where
  "slot n (Lit s) = map_of (static_children n) s"
| "slot n (Par x) = map_option child_node (parameter_child n)"
| "slot n (Wild x) = map_option child_node (wildcard_child n)"

definition merge_label ::
    "(nat \<Rightarrow> trie_node list \<Rightarrow> trie_node list) \<Rightarrow> nat \<Rightarrow> pat_seg \<Rightarrow> trie_node list \<Rightarrow> trie_node list" where
  "merge_label g d l ns =
     (case slot (ns ! d) l of
        Some k \<Rightarrow> g k ns
      | None \<Rightarrow> let ms = g (length ns) (ns @ [empty_node]) in ms[d := set_edge (ms ! d) l (length ns)])"

lemma merge_branches:
  "merge_static g d s = merge_label g d (Lit s)"
  "merge_parameter g d x = merge_label g d (Par x)"
  "merge_wildcard g d x = merge_label g d (Wild x)"
  by (simp_all add: fun_eq_iff merge_static_def merge_parameter_def merge_wildcard_def merge_label_def
      move_mount_subtree_def Let_def split: option.split)

lemma merge_kids:
  "merge_mount_node (Suc fuel) ms d s ns =
     fold (\<lambda>(l, j). merge_label (\<lambda>k. merge_mount_node fuel ms k j) d l) (kids (ms ! s))
       (ns[d := merge_payload (ns ! d) (ms ! s)])"
  by (simp add: kids_def named_kid_def merge_branches fold_map comp_def case_prod_beta' Let_def split: option.split)

declare merge_mount_node.simps(2) [simp del] validate_mount_node.simps(2) [simp del]

lemma slot_None: "slot n l = None \<longleftrightarrow> slot_free n l"
  by (cases l) simp_all

lemma edge_slot: "edge n l = Some k \<Longrightarrow> slot n l = Some k"
  by (cases l) (auto simp: named_edge_def split: option.splits if_splits)

lemma edge_kids:
  assumes "distinct (map fst (static_children n))"
  shows "map_of (kids n) l = edge n l" and "distinct (map fst (kids n))"
proof -
  have inj: "map_of (map (\<lambda>(s, j). (Lit s, j)) xs) (Lit s) = map_of xs s"
      "map_of (map (\<lambda>(s, j). (Lit s, j)) xs) (Par x) = None" "map_of (map (\<lambda>(s, j). (Lit s, j)) xs) (Wild x) = None"
      for xs :: "(string \<times> nat) list" and s x by (induction xs) auto
  show "map_of (kids n) l = edge n l"
    by (cases l) (auto simp: kids_def named_kid_def named_edge_def inj map_add_def split: option.split)
  have "distinct (map (Lit \<circ> fst) (static_children n))"
    using assms by (simp add: distinct_map comp_inj_on_iff [symmetric] flip: map_map) (auto intro: inj_onI)
  then show "distinct (map fst (kids n))"
    by (auto simp: kids_def named_kid_def comp_def case_prod_beta split: option.split)
qed

section \<open>A subtree is merged before it is linked\<close>

text \<open>From the nodes at or above a bound, edges lead only to nodes at or above it.\<close>

definition closed_above :: "nat \<Rightarrow> trie_node list \<Rightarrow> bool" where
  "closed_above N ns \<longleftrightarrow> (\<forall>i l j. N \<le> i \<longrightarrow> i < length ns \<longrightarrow> edge (ns ! i) l = Some j \<longrightarrow> N \<le> j \<and> j < length ns)"

text \<open>An operation on a node above the bound that does not look at a node below it.\<close>

definition local_above :: "nat \<Rightarrow> nat \<Rightarrow> trie_node \<Rightarrow> (trie_node list \<Rightarrow> trie_node list) \<Rightarrow> trie_node list \<Rightarrow> bool" where
  "local_above N d x g ns \<longleftrightarrow>
     closed_above N (g ns) \<and> length ns \<le> length (g ns) \<and> g (ns[d := x]) = (g ns)[d := x]"

lemma edge_set_edge_cases: "edge (set_edge n l k) l' = Some j \<Longrightarrow> edge n l' = Some j \<or> j = k"
  by (cases l; cases l') (auto simp: named_edge_def map_add_def split: option.splits if_splits)

lemma slot_edge: "slot n l = Some k \<Longrightarrow> \<exists>l'. edge n l' = Some k"
proof (cases l)
  case (Par x)
  assume "slot n l = Some k"
  then show ?thesis using Par by (intro exI [of _ "Par (child_name (the (parameter_child n)))"]) (auto simp: named_edge_def)
next
  case (Wild x)
  assume "slot n l = Some k"
  then show ?thesis using Wild by (intro exI [of _ "Wild (child_name (the (wildcard_child n)))"]) (auto simp: named_edge_def)
qed (metis edge.simps(1) slot.simps(1))

lemma closed_aboveD:
  "closed_above N ns \<Longrightarrow> N \<le> i \<Longrightarrow> i < length ns \<Longrightarrow> edge (ns ! i) l = Some j \<Longrightarrow> N \<le> j \<and> j < length ns"
  unfolding closed_above_def by blast

lemma closed_above_update:
  assumes "closed_above N ns" and "k < length ns" "N \<le> k" and "\<And>l j. edge n l = Some j \<Longrightarrow> edge (ns ! k) l = Some j \<or> N \<le> j \<and> j < length ns"
  shows "closed_above N (ns[k := n])"
  unfolding closed_above_def
proof (intro allI impI)
  fix i l j
  assume i: "N \<le> i" "i < length (ns[k := n])" and e: "edge (ns[k := n] ! i) l = Some j"
  show "N \<le> j \<and> j < length (ns[k := n])"
  proof (cases "i = k")
    case True
    with e assms(2) have "edge n l = Some j" by simp
    then consider "edge (ns ! k) l = Some j" | "N \<le> j \<and> j < length ns" using assms(4) by blast
    then show ?thesis using closed_aboveD [OF assms(1,3,2)] by cases auto
  next
    case False
    with e have "edge (ns ! i) l = Some j" by simp
    then show ?thesis using closed_aboveD [OF assms(1) i(1)] i(2) by simp
  qed
qed

lemma closed_above_snoc:
  assumes "closed_above N ns"
  shows "closed_above N (ns @ [empty_node])"
  unfolding closed_above_def
proof (intro allI impI)
  fix i l j
  assume i: "N \<le> i" "i < length (ns @ [empty_node])" and e: "edge ((ns @ [empty_node]) ! i) l = Some j"
  then have "i < length ns" by (cases "i < length ns") (simp_all add: nth_append)
  then show "N \<le> j \<and> j < length (ns @ [empty_node])" using closed_aboveD [OF assms i(1), of l j] e by (simp add: nth_append)
qed

lemma merge_label_local:
  assumes g: "\<And>k ns. closed_above N ns \<Longrightarrow> N \<le> k \<Longrightarrow> k < length ns \<Longrightarrow> local_above N d x (g k) ns"
    and ns: "closed_above N ns" "N \<le> k" "k < length ns" and d: "d < N"
  shows "local_above N d x (merge_label g k l) ns"
proof (cases "slot (ns ! k) l")
  case (Some c)
  obtain l' where "edge (ns ! k) l' = Some c" using slot_edge [OF Some] by blast
  then have "N \<le> c" "c < length ns" using closed_aboveD [OF ns] by blast+
  moreover have "(ns[d := x]) ! k = ns ! k" using d ns by simp
  ultimately show ?thesis using g [OF ns(1)] Some by (simp add: local_above_def merge_label_def)
next
  case None
  let ?ns = "ns @ [empty_node]" and ?c = "length ns"
  have k: "k \<noteq> d" "N \<le> ?c" using d ns by simp_all
  have loc: "local_above N d x (g ?c) ?ns" using k by (intro g closed_above_snoc ns) simp_all
  have same: "(ns[d := x]) ! k = ns ! k" "ns[d := x] @ [empty_node] = ?ns[d := x]"
    using k d ns by (simp_all add: list_update_append)
  define m where "m = g ?c ?ns"
  have m: "closed_above N m" "Suc (length ns) \<le> length m" "g ?c (?ns[d := x]) = m[d := x]"
    using loc by (simp_all add: local_above_def m_def)
  have "merge_label g k l (ns[d := x]) = (m[d := x])[k := set_edge ((m[d := x]) ! k) l ?c]"
    using None same m(3) by (simp add: merge_label_def Let_def)
  also have "\<dots> = (m[k := set_edge (m ! k) l ?c])[d := x]" using k by (simp add: list_update_swap)
  finally have "merge_label g k l (ns[d := x]) = (merge_label g k l ns)[d := x]"
    using None by (simp add: merge_label_def m_def Let_def)
  moreover have "closed_above N (m[k := set_edge (m ! k) l ?c])"
    using m(2) ns k by (intro closed_above_update m(1)) (auto dest!: edge_set_edge_cases)
  ultimately show ?thesis using None m(2) by (simp add: local_above_def merge_label_def m_def Let_def)
qed

lemma edge_merge_payload [simp]: "edge (merge_payload n s) l = edge n l"
  by (cases l) (simp_all add: merge_payload_def)

lemma fold_merge_local:
  assumes "\<And>l j k ns. (l, j) \<in> set cs \<Longrightarrow> closed_above N ns \<Longrightarrow> N \<le> k \<Longrightarrow> k < length ns \<Longrightarrow> local_above N d x (g j k) ns"
    and "closed_above N ns" "N \<le> k" "k < length ns" "d < N"
  shows "local_above N d x (fold (\<lambda>(l, j). merge_label (g j) k l) cs) ns"
  using assms
proof (induction cs arbitrary: ns)
  case Nil
  then show ?case by (simp add: local_above_def)
next
  case (Cons c cs)
  obtain l j where c: "c = (l, j)" by (cases c)
  have first: "local_above N d x (merge_label (g j) k l) ns"
    using Cons.prems c by (intro merge_label_local) auto
  then have "local_above N d x (fold (\<lambda>(l, j). merge_label (g j) k l) cs) (merge_label (g j) k l ns)"
    using Cons.prems by (intro Cons.IH) (auto simp: local_above_def)
  with first show ?case by (simp add: c local_above_def)
qed

lemma merge_local:
  "closed_above N ns \<Longrightarrow> N \<le> k \<Longrightarrow> k < length ns \<Longrightarrow> d < N \<Longrightarrow> local_above N d x (merge_mount_node fuel ms k s) ns"
proof (induction fuel arbitrary: ns k s)
  case 0
  then show ?case by (simp add: local_above_def)
next
  case (Suc fuel)
  let ?n = "merge_payload (ns ! k) (ms ! s)"
  have closed: "closed_above N (ns[k := ?n])" using Suc.prems by (intro closed_above_update) auto
  have "local_above N d x (fold (\<lambda>(l, j). merge_label (\<lambda>k. merge_mount_node fuel ms k j) k l) (kids (ms ! s))) (ns[k := ?n])"
    using Suc.prems by (intro fold_merge_local Suc.IH closed) auto
  moreover have "(ns[d := x])[k := merge_payload (ns[d := x] ! k) (ms ! s)] = (ns[k := ?n])[d := x]"
    using Suc.prems by (simp add: list_update_swap)
  ultimately show ?case by (simp add: local_above_def merge_kids)
qed

text \<open>So a missing child may as well be attached first.\<close>

lemma merge_label_attach:
  assumes d: "d < length ns"
  shows "merge_label (\<lambda>k. merge_mount_node fuel ms k s) d l ns =
    (case slot (ns ! d) l of
       Some k \<Rightarrow> merge_mount_node fuel ms k s ns
     | None \<Rightarrow> merge_mount_node fuel ms (length ns) s (attach ns d l))"
proof -
  let ?N = "length ns" and ?ns = "ns @ [empty_node]"
  let ?m = "merge_mount_node fuel ms ?N s ?ns"
  have closed: "closed_above ?N ?ns" by (auto simp: closed_above_def nth_append less_Suc_eq)
  have loc: "local_above ?N d x (merge_mount_node fuel ms ?N s) ?ns" for x
    using d by (intro merge_local closed) simp_all
  have "?ns[d := ?ns ! d] = ?ns" by simp
  then have "?m = ?m[d := ?ns ! d]" using loc [of "?ns ! d"] unfolding local_above_def by metis
  moreover have "d < length ?m" using loc [of x] d by (simp add: local_above_def)
  ultimately have "?m ! d = ?ns ! d" by (metis nth_list_update_eq)
  then show ?thesis using loc [of "set_edge (?ns ! d) l ?N"]
    by (simp add: merge_label_def attach_def local_above_def Let_def split: option.split)
qed

section \<open>What a merged trie holds\<close>

definition mountable :: "trie_node list \<Rightarrow> bool" where
  "mountable ns \<longleftrightarrow> wf_trie ns \<and> keys_distinct ns"

text \<open>What two nodes in the same place become.\<close>

definition combine :: "trie_node option \<Rightarrow> trie_node option \<Rightarrow> trie_node option" where
  "combine a b =
     (case b of None \<Rightarrow> a | Some s \<Rightarrow> Some (merge_payload (case a of None \<Rightarrow> empty_node | Some d \<Rightarrow> d) s))"

fun same_slot :: "pat_seg \<Rightarrow> pat_seg \<Rightarrow> bool" where
  "same_slot (Lit a) (Lit b) \<longleftrightarrow> a = b"
| "same_slot (Par a) (Par b) \<longleftrightarrow> True"
| "same_slot (Wild a) (Wild b) \<longleftrightarrow> True"
| "same_slot l l' \<longleftrightarrow> False"

text \<open>Below a pattern of one trie and a node of the other, parameters and wildcards in the same place have the same name.\<close>

definition compatible :: "trie_node list \<Rightarrow> pat_seg list \<Rightarrow> trie_node list \<Rightarrow> nat \<Rightarrow> bool" where
  "compatible ns p ms s \<longleftrightarrow>
     (\<forall>q l l'. same_slot l l' \<longrightarrow> node_at ns 0 (p @ q @ [l]) \<noteq> None \<longrightarrow> node_at ms s (q @ [l']) \<noteq> None \<longrightarrow> l = l')"

lemma mountable_props:
  assumes "mountable ns"
  shows "ns \<noteq> []" "edges_forward ns" "edges_unique ns" "0 < length ns"
    and "\<And>i. i < length ns \<Longrightarrow> length (targets (ns ! i)) = method_count"
    and "\<And>i. i < length ns \<Longrightarrow> distinct (map fst (static_children (ns ! i)))"
  using assms by (auto simp: mountable_def wf_trie_def keys_distinct_def)

lemma node_at_append: "follow ns i p = Some j \<Longrightarrow> node_at ns i (p @ q) = node_at ns j q"
  by (simp add: node_at_def follow_append)

lemma node_at_Cons: "node_at ns i (l # q) = (case edge (ns ! i) l of None \<Rightarrow> None | Some j \<Rightarrow> node_at ns j q)"
  by (simp add: node_at_def split: option.split)

lemma node_at_Nil [simp]: "node_at ns i [] = Some (payload (ns ! i))"
  by (simp add: node_at_def)

lemma payload_merge_payload: "payload (merge_payload n s) = merge_payload (payload n) (payload s)"
  by (simp add: payload_def merge_payload_def)

lemma merge_payload_fields [simp]:
  "static_children (merge_payload n s) = static_children n" "length (targets (merge_payload n s)) = min (length (targets n)) (length (targets s))"
  by (simp_all add: merge_payload_def)

text \<open>The two steps of a merge: a node takes its part, or is attached.\<close>

lemma mountable_merge_payload:
  assumes ns: "mountable ns" and d: "d < length ns" and s: "length (targets n) = method_count"
  shows "mountable (ns[d := merge_payload (ns ! d) n])"
proof -
  have "wf_trie (ns[d := merge_payload (ns ! d) n])"
    using ns mountable_props(5) [OF ns] s by (intro wf_trie_update) (simp_all add: mountable_def)
  moreover have "keys_distinct (ns[d := merge_payload (ns ! d) n])"
    using mountable_props(6) [OF ns] d by (auto simp: keys_distinct_def nth_list_update)
  ultimately show ?thesis by (simp add: mountable_def)
qed

lemma node_at_merge_payload:
  assumes ns: "mountable ns" and p: "follow ns 0 p = Some d"
  shows "node_at (ns[d := merge_payload (ns ! d) n]) 0 q =
    (if q = p then Some (merge_payload (payload (ns ! d)) (payload n)) else node_at ns 0 q)"
proof -
  note wf = mountable_props [OF ns]
  have d: "d < length ns" using follow_forward [OF wf(2,4) p] by simp
  have follow: "follow (ns[d := merge_payload (ns ! d) n]) 0 q = follow ns 0 q" by (rule follow_update) simp
  show ?thesis
  proof (cases "follow ns 0 q")
    case (Some j)
    then have "j = d \<longleftrightarrow> q = p" using p follow_inj [OF wf(2,3,1)] by auto
    with Some d follow show ?thesis by (auto simp: node_at_def payload_merge_payload nth_list_update)
  next
    case None
    with p follow show ?thesis by (auto simp: node_at_def)
  qed
qed

lemma mountable_attach:
  assumes "mountable ns" "d < length ns" "slot_free (ns ! d) l"
  shows "mountable (attach ns d l)"
proof -
  have "distinct (map fst (static_children (attach ns d l ! i)))" if i: "i < Suc (length ns)" for i
  proof -
    have old: "distinct (map fst (static_children (ns ! i)))" if "i < length ns" using mountable_props(6) [OF assms(1) that] .
    have "distinct (map fst (static_children (set_edge (ns ! d) l (length ns))))"
      using mountable_props(6) [OF assms(1,2)] assms(3) by (cases l) (auto simp: map_of_eq_None_iff)
    with old i show ?thesis using assms(2) by (auto simp: attach_nth nth_append less_Suc_eq) (simp add: empty_node_def)
  qed
  with attach_wf assms show ?thesis by (simp add: mountable_def keys_distinct_def)
qed

lemma node_at_attach:
  assumes ns: "mountable ns" and p: "follow ns 0 p = Some d" and free: "slot_free (ns ! d) l"
  shows "node_at (attach ns d l) 0 q = (if q = p @ [l] then Some empty_node else node_at ns 0 q)"
    and "follow (attach ns d l) 0 (p @ [l]) = Some (length ns)"
proof -
  let ?a = "attach ns d l"
  note wf = mountable_props [OF ns]
  have d: "d < length ns" using follow_forward [OF wf(2,4) p] by simp
  note ext = attach_extends [OF d free]
  have a: "mountable ?a" using ns d free by (rule mountable_attach)
  note wfa = mountable_props [OF a]
  have pa: "follow ?a 0 p = Some d" using follow_extends [OF ext wf(2,4) p] .
  show new: "follow ?a 0 (p @ [l]) = Some (length ns)"
    using pa attach_edge [OF d free] by (simp add: follow_append)
  show "node_at ?a 0 q = (if q = p @ [l] then Some empty_node else node_at ns 0 q)"
  proof (cases "follow ns 0 q")
    case (Some j)
    then have j: "j < length ns" "follow ?a 0 q = Some j"
      using follow_forward [OF wf(2,4)] follow_extends [OF ext wf(2,4)] by auto
    then have "q \<noteq> p @ [l]" using new by auto
    with Some j extendsD(2) [OF ext j(1)] show ?thesis by (simp add: node_at_def)
  next
    case None
    show ?thesis
    proof (cases "follow ?a 0 q")
      case (Some j)
      then have "j = length ns" using follow_extends_new [OF ext wfa(2) wf(4) None] by auto
      then have "q = p @ [l]" using Some new follow_inj [OF wfa(2,3,1)] by simp
      with new extendsD(5) [OF ext, of "length ns"] show ?thesis by (simp add: node_at_def)
    next
      case none: None
      with None new show ?thesis by (auto simp: node_at_def)
    qed
  qed
qed

section \<open>Merging is union\<close>

text \<open>The trie after the node \<open>s\<close> of another has been merged into the place of the pattern \<open>p\<close>.\<close>

definition merged :: "trie_node list \<Rightarrow> trie_node list \<Rightarrow> pat_seg list \<Rightarrow> trie_node list \<Rightarrow> nat \<Rightarrow> bool" where
  "merged ns' ns p ms s \<longleftrightarrow>
     mountable ns' \<and> (\<forall>q j. follow ns 0 q = Some j \<longrightarrow> follow ns' 0 q = Some j) \<and>
     (\<forall>q. node_at ns' 0 (p @ q) = combine (node_at ns 0 (p @ q)) (node_at ms s q)) \<and>
     (\<forall>q. (\<nexists>q0. q = p @ q0) \<longrightarrow> node_at ns' 0 q = node_at ns 0 q)"

lemma mergedD:
  assumes "merged ns' ns p ms s"
  shows "mountable ns'" "follow ns 0 q = Some j \<Longrightarrow> follow ns' 0 q = Some j"
    "node_at ns' 0 (p @ q) = combine (node_at ns 0 (p @ q)) (node_at ms s q)"
    "\<nexists>q0. q = p @ q0 \<Longrightarrow> node_at ns' 0 q = node_at ns 0 q"
  using assms by (simp_all add: merged_def)

lemma slot_same: "slot n l = Some k \<Longrightarrow> \<exists>l'. same_slot l' l \<and> edge n l' = Some k"
proof (cases l)
  case (Par x)
  assume "slot n l = Some k"
  then show ?thesis using Par by (intro exI [of _ "Par (child_name (the (parameter_child n)))"]) (auto simp: named_edge_def)
next
  case (Wild x)
  assume "slot n l = Some k"
  then show ?thesis using Wild by (intro exI [of _ "Wild (child_name (the (wildcard_child n)))"]) (auto simp: named_edge_def)
qed (metis edge.simps(1) same_slot.simps(1) slot.simps(1))

lemma compatible_attach:
  assumes "mountable ns" "follow ns 0 p = Some d" "slot_free (ns ! d) l" "compatible ns (p @ [l]) ms j"
  shows "compatible (attach ns d l) (p @ [l]) ms j"
  using assms(4) unfolding compatible_def by (simp add: node_at_attach(1) [OF assms(1-3)])

text \<open>One child: it is merged into the child of that label, which is attached if there is none.\<close>

lemma merge_child_merged:
  assumes ih: "\<And>ns k. mountable ns \<Longrightarrow> follow ns 0 (p @ [l]) = Some k \<Longrightarrow> compatible ns (p @ [l]) ms j \<Longrightarrow>
      merged (merge_mount_node fuel ms k j ns) ns (p @ [l]) ms j"
    and ns: "mountable ns" "follow ns 0 p = Some d" and compat: "compatible ns (p @ [l]) ms j"
    and place: "\<And>l'. same_slot l' l \<Longrightarrow> node_at ns 0 (p @ [l']) \<noteq> None \<Longrightarrow> l' = l"
  shows "merged (merge_label (\<lambda>k. merge_mount_node fuel ms k j) d l ns) ns (p @ [l]) ms j"
proof -
  note wf = mountable_props [OF ns(1)]
  have d: "d < length ns" using follow_forward [OF wf(2,4) ns(2)] by simp
  show ?thesis
  proof (cases "slot (ns ! d) l")
    case (Some k)
    obtain l' where l': "same_slot l' l" "edge (ns ! d) l' = Some k" using slot_same [OF Some] by blast
    then have "node_at ns 0 (p @ [l']) \<noteq> None" by (simp add: node_at_append [OF ns(2)] node_at_Cons)
    with place l' have "edge (ns ! d) l = Some k" by blast
    then have "follow ns 0 (p @ [l]) = Some k" by (simp add: follow_append ns(2))
    then show ?thesis using ih [OF ns(1) _ compat] by (simp add: merge_label_attach [OF d] Some)
  next
    case None
    then have free: "slot_free (ns ! d) l" by (simp add: slot_None)
    let ?a = "attach ns d l"
    note at = node_at_attach [OF ns free]
    have m: "merged (merge_mount_node fuel ms (length ns) j ?a) ?a (p @ [l]) ms j"
      by (rule ih [OF mountable_attach [OF ns(1) d free] at(2) compatible_attach [OF ns free compat]])
    have gone: "node_at ns 0 (p @ [l]) = None"
      using slot_free_edge [OF free] by (simp add: node_at_append [OF ns(2)] node_at_Cons)
    have "combine (node_at ?a 0 ((p @ [l]) @ q)) (node_at ms j q) = combine (node_at ns 0 ((p @ [l]) @ q)) (node_at ms j q)" for q
      by (cases q) (simp_all add: at(1) gone combine_def)
    moreover have "follow ?a 0 q = Some i" if "follow ns 0 q = Some i" for q i
      using follow_extends [OF attach_extends [OF d free] wf(2,4) that] .
    moreover have "node_at ?a 0 q = node_at ns 0 q" if "\<nexists>q0. q = (p @ [l]) @ q0" for q using that by (auto simp: at(1))
    ultimately have "merged (merge_mount_node fuel ms (length ns) j ?a) ns (p @ [l]) ms j"
      using mergedD [OF m] unfolding merged_def by metis
    then show ?thesis by (simp add: merge_label_attach [OF d] None)
  qed
qed

text \<open>All children, one after another.\<close>

lemma fold_kids_merged:
  assumes "\<And>l j ns k. (l, j) \<in> set cs \<Longrightarrow> mountable ns \<Longrightarrow> follow ns 0 (p @ [l]) = Some k \<Longrightarrow> compatible ns (p @ [l]) ms j \<Longrightarrow>
      merged (merge_mount_node fuel ms k j ns) ns (p @ [l]) ms j"
    and "mountable ns" "follow ns 0 p = Some d" and "distinct (map fst cs)"
    and "\<And>l j. (l, j) \<in> set cs \<Longrightarrow> compatible ns (p @ [l]) ms j"
    and "\<And>l l' j. (l, j) \<in> set cs \<Longrightarrow> same_slot l' l \<Longrightarrow> node_at ns 0 (p @ [l']) \<noteq> None \<Longrightarrow> l' = l"
    and "\<And>l l'. l \<in> fst ` set cs \<Longrightarrow> l' \<in> fst ` set cs \<Longrightarrow> same_slot l l' \<Longrightarrow> l = l'"
    and "ns' = fold (\<lambda>(l, j). merge_label (\<lambda>k. merge_mount_node fuel ms k j) d l) cs ns"
  shows "mountable ns' \<and> (\<forall>q j. follow ns 0 q = Some j \<longrightarrow> follow ns' 0 q = Some j) \<and>
    (\<forall>l j q. (l, j) \<in> set cs \<longrightarrow> node_at ns' 0 (p @ l # q) = combine (node_at ns 0 (p @ l # q)) (node_at ms j q)) \<and>
    (\<forall>q. (\<forall>l \<in> fst ` set cs. \<forall>q0. q \<noteq> p @ l # q0) \<longrightarrow> node_at ns' 0 q = node_at ns 0 q)"
  using assms
proof (induction cs arbitrary: ns)
  case Nil
  then show ?case by simp
next
  case (Cons c cs)
  obtain l j where c: "c = (l, j)" by (cases c)
  define ns1 where "ns1 = merge_label (\<lambda>k. merge_mount_node fuel ms k j) d l ns"
  have first: "merged ns1 ns (p @ [l]) ms j"
    unfolding ns1_def
  proof (rule merge_child_merged)
    show "merged (merge_mount_node fuel ms k j ns) ns (p @ [l]) ms j"
      if "mountable ns" "follow ns 0 (p @ [l]) = Some k" "compatible ns (p @ [l]) ms j" for ns k
      using Cons.prems(1) [of l j] that by (simp add: c)
    show "l' = l" if "same_slot l' l" "node_at ns 0 (p @ [l']) \<noteq> None" for l'
      using Cons.prems(6) [of l j l'] that by (simp add: c)
  qed (use Cons.prems(2,3,5) in \<open>simp_all add: c\<close>)
  have same: "node_at ns1 0 (p @ l' # q) = node_at ns 0 (p @ l' # q)" if "l' \<noteq> l" for l' q
    using that by (intro mergedD(4) [OF first]) simp
  have apart: "l \<notin> fst ` set cs" using Cons.prems(4) by (simp add: c)
  have rest: "mountable ns' \<and> (\<forall>q j. follow ns1 0 q = Some j \<longrightarrow> follow ns' 0 q = Some j) \<and>
    (\<forall>l j q. (l, j) \<in> set cs \<longrightarrow> node_at ns' 0 (p @ l # q) = combine (node_at ns1 0 (p @ l # q)) (node_at ms j q)) \<and>
    (\<forall>q. (\<forall>l \<in> fst ` set cs. \<forall>q0. q \<noteq> p @ l # q0) \<longrightarrow> node_at ns' 0 q = node_at ns1 0 q)"
  proof (rule Cons.IH)
    fix l2 j2 assume in_cs: "(l2, j2) \<in> set cs"
    then have "l2 \<in> fst ` set cs" by force
    then have l2: "l2 \<noteq> l" "l2 \<in> fst ` set (c # cs)" "l \<in> fst ` set (c # cs)" using apart by (auto simp: c)
    show "compatible ns1 (p @ [l2]) ms j2"
      using Cons.prems(5) [of l2 j2] in_cs same [OF l2(1)] by (simp add: compatible_def)
    show "l' = l2" if "same_slot l' l2" "node_at ns1 0 (p @ [l']) \<noteq> None" for l'
    proof (cases "l' = l")
      case True
      with Cons.prems(7) [OF l2(3,2)] that(1) l2(1) show ?thesis by simp
    next
      case False
      with Cons.prems(6) [of l2 j2 l'] in_cs that same [OF False, of "[]"] show ?thesis by simp
    qed
    show "merged (merge_mount_node fuel ms k j2 ns) ns (p @ [l2]) ms j2"
      if "mountable ns" "follow ns 0 (p @ [l2]) = Some k" "compatible ns (p @ [l2]) ms j2" for ns k
      using Cons.prems(1) [of l2 j2] in_cs that by simp
  next
    show "distinct (map fst cs)" using Cons.prems(4) by (simp add: c)
    show "a = b" if "a \<in> fst ` set cs" "b \<in> fst ` set cs" "same_slot a b" for a b
      using Cons.prems(7) [of a b] that by simp
    show "mountable ns1" by (rule mergedD(1) [OF first])
    show "follow ns1 0 p = Some d" by (rule mergedD(2) [OF first Cons.prems(3)])
    show "ns' = fold (\<lambda>(l, j). merge_label (\<lambda>k. merge_mount_node fuel ms k j) d l) cs ns1"
      using Cons.prems(8) by (simp add: c ns1_def)
  qed
  have here: "node_at ns' 0 (p @ l # q) = combine (node_at ns 0 (p @ l # q)) (node_at ms j q)" for q
  proof -
    have "\<forall>l' \<in> fst ` set cs. \<forall>q0. p @ l # q \<noteq> p @ l' # q0" using apart by auto
    then have "node_at ns' 0 (p @ l # q) = node_at ns1 0 (p @ l # q)" using rest by blast
    then show ?thesis using mergedD(3) [OF first, of q] by simp
  qed
  have "node_at ns' 0 (p @ l2 # q) = combine (node_at ns 0 (p @ l2 # q)) (node_at ms j2 q)" if "(l2, j2) \<in> set cs" for l2 j2 q
  proof -
    have "l2 \<noteq> l" using that apart by force
    then show ?thesis using rest that same by simp
  qed
  moreover have "node_at ns' 0 q = node_at ns 0 q" if "\<forall>l \<in> fst ` set (c # cs). \<forall>q0. q \<noteq> p @ l # q0" for q
  proof -
    have "node_at ns' 0 q = node_at ns1 0 q" using rest that by auto
    also have "\<dots> = node_at ns 0 q" using that by (intro mergedD(4) [OF first]) (simp add: c)
    finally show ?thesis .
  qed
  ultimately show ?case using rest here mergedD(2) [OF first] by (auto simp: c)
qed

lemma kids_slots: "l \<in> fst ` set (kids n) \<Longrightarrow> l' \<in> fst ` set (kids n) \<Longrightarrow> same_slot l l' \<Longrightarrow> l = l'"
  by (cases "parameter_child n"; cases "wildcard_child n"; cases l; cases l') (auto simp: kids_def named_kid_def)

text \<open>Merging a node of one trie into the place of a pattern of another is the union of what the two hold there.\<close>

lemma merge_merged:
  assumes "mountable ns" "mountable ms" "follow ns 0 p = Some d" "s < length ms" "length ms - s \<le> fuel" "compatible ns p ms s"
  shows "merged (merge_mount_node fuel ms d s ns) ns p ms s"
  using assms
proof (induction fuel arbitrary: ns p d s)
  case 0
  then show ?case by simp
next
  case (Suc fuel)
  note wf = mountable_props [OF Suc.prems(1)] and wfm = mountable_props [OF Suc.prems(2)]
  have d: "d < length ns" using follow_forward [OF wf(2,4) Suc.prems(3)] by simp
  define ns1 where "ns1 = ns[d := merge_payload (ns ! d) (ms ! s)]"
  have m1: "mountable ns1" unfolding ns1_def using Suc.prems(1) d wfm(5) [OF Suc.prems(4)] by (rule mountable_merge_payload)
  have f1: "follow ns1 0 q = follow ns 0 q" for q unfolding ns1_def by (rule follow_update) simp
  have n1: "node_at ns1 0 q = (if q = p then Some (merge_payload (payload (ns ! d)) (payload (ms ! s))) else node_at ns 0 q)" for q
    unfolding ns1_def using node_at_merge_payload [OF Suc.prems(1,3)] .
  have some: "node_at ns1 0 q = None \<longleftrightarrow> node_at ns 0 q = None" for q by (simp add: node_at_def f1)
  note kids = edge_kids [OF wfm(6) [OF Suc.prems(4)]]
  have kid: "(l, j) \<in> set (kids (ms ! s)) \<longleftrightarrow> edge (ms ! s) l = Some j" for l j
    using kids by (metis map_of_eq_Some_iff)
  let ?ns' = "merge_mount_node (Suc fuel) ms d s ns"
  have all: "mountable ?ns' \<and> (\<forall>q j. follow ns1 0 q = Some j \<longrightarrow> follow ?ns' 0 q = Some j) \<and>
    (\<forall>l j q. (l, j) \<in> set (kids (ms ! s)) \<longrightarrow> node_at ?ns' 0 (p @ l # q) = combine (node_at ns1 0 (p @ l # q)) (node_at ms j q)) \<and>
    (\<forall>q. (\<forall>l \<in> fst ` set (kids (ms ! s)). \<forall>q0. q \<noteq> p @ l # q0) \<longrightarrow> node_at ?ns' 0 q = node_at ns1 0 q)"
  proof (rule fold_kids_merged)
    fix l j assume l: "(l, j) \<in> set (kids (ms ! s))"
    then have e: "edge (ms ! s) l = Some j" by (simp add: kid)
    then have j: "s < j" "j < length ms" using edges_forwardD [OF wfm(2) Suc.prems(4)] by auto
    show "merged (merge_mount_node fuel ms k j ns) ns (p @ [l]) ms j"
      if "mountable ns" "follow ns 0 (p @ [l]) = Some k" "compatible ns (p @ [l]) ms j" for ns k
      using that j Suc.prems(5) by (intro Suc.IH Suc.prems(2)) simp_all
    show "compatible ns1 (p @ [l]) ms j" unfolding compatible_def
    proof (intro allI impI)
      fix q a b assume "same_slot a b" "node_at ns1 0 ((p @ [l]) @ q @ [a]) \<noteq> None" "node_at ms j (q @ [b]) \<noteq> None"
      then show "a = b"
        using Suc.prems(6) [unfolded compatible_def, rule_format, of a b "l # q"] by (simp add: some node_at_Cons e)
    qed
    show "l' = l" if "same_slot l' l" "node_at ns1 0 (p @ [l']) \<noteq> None" for l'
      using Suc.prems(6) [unfolded compatible_def, rule_format, of l' l "[]"] that by (simp add: some node_at_Cons e)
  qed (use m1 f1 Suc.prems(3) kids(2) kids_slots in \<open>auto simp: merge_kids ns1_def\<close>)
  have "node_at ?ns' 0 (p @ q) = combine (node_at ns 0 (p @ q)) (node_at ms s q)" for q
  proof (cases q)
    case Nil
    have "node_at ?ns' 0 p = node_at ns1 0 p" using all by simp
    moreover have "node_at ns 0 p = Some (payload (ns ! d))" by (simp add: node_at_def Suc.prems(3))
    ultimately show ?thesis using Nil by (simp add: n1 combine_def)
  next
    case (Cons l q')
    show ?thesis
    proof (cases "edge (ms ! s) l")
      case None
      then have "l \<notin> fst ` set (kids (ms ! s))" by (auto simp: kid)
      then have "\<forall>l' \<in> fst ` set (kids (ms ! s)). \<forall>q0. p @ q \<noteq> p @ l' # q0" using Cons by auto
      then have "node_at ?ns' 0 (p @ q) = node_at ns1 0 (p @ q)" using all by blast
      then show ?thesis using Cons None by (simp add: n1 node_at_Cons combine_def)
    next
      case (Some j)
      then show ?thesis using all Cons by (simp add: kid n1 node_at_Cons)
    qed
  qed
  moreover have "node_at ?ns' 0 q = node_at ns 0 q" if "\<nexists>q0. q = p @ q0" for q
  proof -
    have "node_at ?ns' 0 q = node_at ns1 0 q" using all that by auto
    moreover have "q \<noteq> p" using that by (metis append_Nil2)
    ultimately show ?thesis by (simp add: n1)
  qed
  ultimately show ?case using all f1 by (simp add: merged_def)
qed

end
