(* ===== verification/Router_Mount_Props.thy ===== *)
theory Router_Mount_Props
  imports Router_Mount
begin

text \<open>
  What mounting promises: a mount that is accepted meets no conflict, it refines the disjoint union of two maps of routes, and every
  router that is built by registrations and mounts keeps its invariant and reports the patterns its routes are registered under.
\<close>

section \<open>Validation\<close>

definition no_conflict :: "trie_node \<Rightarrow> trie_node \<Rightarrow> bool" where
  "no_conflict a b \<longleftrightarrow>
     (\<forall>i < method_count. targets a ! i = None \<or> targets b ! i = None) \<and>
     (not_found_handler a = None \<or> not_found_handler b = None) \<and> (exception_handler a = None \<or> exception_handler b = None)"

lemma first_error_None: "first_error es = None \<longleftrightarrow> (\<forall>e \<in> set es. e = None)"
proof (cases "dropWhile (\<lambda>e. e = None) es")
  case Nil
  then have "\<forall>e \<in> set es. e = None" by (simp only: dropWhile_eq_Nil_conv)
  then show ?thesis by (simp only: first_error_def Nil list.case) simp
next
  case (Cons e rest)
  then have "e \<noteq> None" "e \<in> set es" using hd_dropWhile [of "\<lambda>e. e = None" es] set_dropWhileD [of e "\<lambda>e. e = None" es] by auto
  with Cons show ?thesis by (auto simp: first_error_def)
qed

lemma no_conflict_payload [simp]: "no_conflict (payload a) (payload b) = no_conflict a b"
  by (simp add: no_conflict_def payload_def)

lemma validate_step:
  assumes ok: "validate_mount_node (Suc fuel) ns ms d s = None" and keys: "distinct (map fst (static_children (ms ! s)))"
  shows "no_conflict (ns ! d) (ms ! s)"
    and "edge (ns ! d) l = Some k \<Longrightarrow> edge (ms ! s) l = Some j \<Longrightarrow> validate_mount_node fuel ns ms k j = None"
    and "same_slot l l' \<Longrightarrow> edge (ns ! d) l \<noteq> None \<Longrightarrow> edge (ms ! s) l' \<noteq> None \<Longrightarrow> l = l'"
proof -
  let ?v = "validate_mount_node fuel ns ms"
  show "no_conflict (ns ! d) (ms ! s)"
    using ok by (auto simp: validate_mount_node.simps Let_def no_conflict_def list_ex_iff split: if_splits)
  have static: "?v k j = None" if "(seg, j) \<in> set (static_children (ms ! s))" "map_of (static_children (ns ! d)) seg = Some k" for seg j k
    using ok that by (auto simp: validate_mount_node.simps Let_def first_error_None split: if_splits)
  have par: "validate_named ?v message (parameter_child (ns ! d)) (parameter_child (ms ! s)) = None \<and>
      validate_named ?v message (wildcard_child (ns ! d)) (wildcard_child (ms ! s)) = None" for message
    using ok by (auto simp: validate_mount_node.simps Let_def first_error_None validate_named_def split: if_splits option.splits)
  show "?v k j = None" if "edge (ns ! d) l = Some k" "edge (ms ! s) l = Some j"
    using that static par [of "[]"]
    by (cases l) (auto simp: named_edge_def validate_named_def dest: map_of_SomeD split: option.splits if_splits)
  show "l = l'" if "same_slot l l'" "edge (ns ! d) l \<noteq> None" "edge (ms ! s) l' \<noteq> None"
    using that par [of "[]"]
    by (cases l; cases l') (auto simp: named_edge_def validate_named_def split: option.splits if_splits)
qed

text \<open>A mount that is accepted meets no conflict, at the node itself or below it.\<close>

lemma validate_sound:
  assumes "mountable ms" "s < length ms" "length ms - s \<le> fuel" "validate_mount_node fuel ns ms d s = None"
  shows "(same_slot l l' \<longrightarrow> node_at ns d (q @ [l]) \<noteq> None \<longrightarrow> node_at ms s (q @ [l']) \<noteq> None \<longrightarrow> l = l') \<and>
    (node_at ns d q = Some a \<longrightarrow> node_at ms s q = Some b \<longrightarrow> no_conflict a b)"
  using assms
proof (induction fuel arbitrary: d s q)
  case 0
  then show ?case by simp
next
  case (Suc fuel)
  note wf = mountable_props [OF Suc.prems(1)]
  note step = validate_step [OF Suc.prems(4) wf(6) [OF Suc.prems(2)]]
  show ?case
  proof (cases q)
    case Nil
    then show ?thesis using step(1) step(3) [of l l'] by (auto simp: node_at_Cons split: option.splits)
  next
    case (Cons x q')
    show ?thesis
    proof (cases "\<exists>k j. edge (ns ! d) x = Some k \<and> edge (ms ! s) x = Some j")
      case True
      then obtain k j where e: "edge (ns ! d) x = Some k" "edge (ms ! s) x = Some j" by blast
      have j: "s < j" "j < length ms" using edges_forwardD [OF wf(2) Suc.prems(2) e(2)] by auto
      have "length ms - j \<le> fuel" using j Suc.prems(3) by simp
      from Suc.IH [OF Suc.prems(1) j(2) this step(2) [OF e], of q'] show ?thesis by (simp add: Cons node_at_Cons e)
    next
      case False
      then show ?thesis by (auto simp: Cons node_at_Cons split: option.splits)
    qed
  qed
qed

section \<open>Registrations keep the keys of a node distinct\<close>

lemma mountable_update:
  assumes "mountable ns" "\<And>l. edge n l = edge (ns ! j) l" "length (targets n) = length (targets (ns ! j))"
    "static_children n = static_children (ns ! j)"
  shows "mountable (ns[j := n])"
proof -
  have "wf_trie (ns[j := n])" using assms by (intro wf_trie_update) (simp_all add: mountable_def)
  moreover have "keys_distinct (ns[j := n])"
    using assms(1,4) by (cases "j < length ns") (auto simp: mountable_def keys_distinct_def nth_list_update list_update_beyond)
  ultimately show ?thesis by (simp add: mountable_def)
qed

context trie_walk
begin

lemma walk_mountable:
  "mountable ns \<Longrightarrow> i < length ns \<Longrightarrow> walk ns i segs = (ns', res) \<Longrightarrow> mountable ns'"
proof (induction segs arbitrary: ns i)
  case Nil
  then show ?case by (simp add: walk_Nil)
next
  case (Cons s rest)
  from walk_Cons [of ns i s rest] consider
    (stop) message where "walk ns i (s # rest) = (ns, Inl message)"
  | (old) k where "edge (ns ! i) (label_of s) = Some k" "walk ns i (s # rest) = walk ns k rest"
  | (new) "slot_free (ns ! i) (label_of s)"
      "walk ns i (s # rest) = walk (attach ns i (label_of s)) (length ns) rest"
    by blast
  then show ?case
  proof cases
    case stop
    with Cons.prems show ?thesis by simp
  next
    case old
    have "k < length ns" using edges_forwardD [OF mountable_props(2) [OF Cons.prems(1)] Cons.prems(2) old(1)] by simp
    then show ?thesis using Cons.IH [OF Cons.prems(1)] Cons.prems(3) old(2) by simp
  next
    case new
    then show ?thesis
      using Cons.IH [OF mountable_attach [OF Cons.prems(1,2) new(1)], of "length ns"] Cons.prems(3) by simp
  qed
qed

end

definition mountable_router :: "router \<Rightarrow> bool" where
  "mountable_router r \<longleftrightarrow> mountable (nodes r)"

lemma mountable_router_wf: "mountable_router r \<Longrightarrow> wf_router r"
  by (simp add: mountable_router_def mountable_def wf_router_def)

lemma mountable_new_router: "mountable_router (new_router mode)"
  using wf_new_router [of mode] by (simp add: mountable_router_def mountable_def wf_router_def keys_distinct_def new_router_def)
    (simp add: empty_node_def)

definition prefix_labels :: "route_path_matching \<Rightarrow> string \<Rightarrow> pat_seg list" where
  "prefix_labels m prefix = map label_of (zip (raw_segments (parse_route_path prefix)) (segments (parse_route_path prefix) m))"

lemma ensure_prefix_node_mountable:
  assumes r: "mountable_router r" and run: "ensure_prefix_node prefix r = (r', res)"
  shows "mountable_router r'" and "res = Inr d \<Longrightarrow> follow (nodes r') 0 (prefix_labels (matching r) prefix) = Some d"
proof -
  let ?p = "parse_route_path prefix"
  let ?segs = "zip (raw_segments ?p) (segments ?p (matching r))"
  have m: "mountable (nodes r)" "wf_trie (nodes r)" "0 < length (nodes r)"
    using r mountable_props by (auto simp: mountable_router_def mountable_def)
  obtain ns walked where w: "prefix_walk (nodes r) 0 ?segs = (ns, walked)" by fastforce
  note walk = group_walk.walk_mountable [OF m(1,3) w] group_walk.walk_grows [OF m(2,3) w]
  show "mountable_router r'"
    using run r walk(1) by (auto simp: ensure_prefix_node_def Let_def w mountable_router_def split: if_splits)
  show "follow (nodes r') 0 (prefix_labels (matching r) prefix) = Some d" if "res = Inr d"
    using run that walk(2) by (auto simp: ensure_prefix_node_def Let_def w prefix_labels_def split: if_splits)
qed

lemma update_node_mountable:
  assumes "mountable_router r" "keeps_shape f" "\<And>n. static_children (f n) = static_children n"
  shows "mountable_router (update_node i f r)"
  using assms by (auto simp: mountable_router_def update_node_def keeps_shape_def intro!: mountable_update)

lemma with_prefix_node_mountable:
  assumes "mountable_router r" "keeps_shape f" "\<And>n. static_children (f n) = static_children n"
    and "with_prefix_node prefix f r = (r', res)"
  shows "mountable_router r'"
proof -
  obtain r1 res1 where e: "ensure_prefix_node prefix r = (r1, res1)" by fastforce
  have "mountable_router r1" using ensure_prefix_node_mountable(1) [OF assms(1) e] .
  then show ?thesis using assms(4) update_node_mountable [OF _ assms(2,3)]
    by (cases res1) (auto simp: with_prefix_node_def e)
qed

lemma add_route_mountable:
  assumes r: "mountable_router r" and run: "add_route m pattern body mx tmo h r = (r', res)"
  shows "mountable_router r'"
proof -
  let ?p = "parse_route_path (join_route_pattern [] pattern)"
  let ?segs = "zip (raw_segments ?p) (segments ?p (matching r))"
  have m: "mountable (nodes r)" "0 < length (nodes r)" using r mountable_props by (auto simp: mountable_router_def)
  obtain ns walked where w: "add_route_walk (nodes r) 0 ?segs = (ns, walked)" by fastforce
  have ns: "mountable ns" using route_walk.walk_mountable [OF m w] .
  have "mountable (ns[j := (ns ! j)\<lparr>targets := (targets (ns ! j))[i := x]\<rparr>])" for j i x
    using ns by (rule mountable_update) (simp_all, case_tac l, simp_all)
  then show ?thesis using run r ns
    by (auto simp: add_route_def Let_def w mountable_router_def split: if_splits sum.splits)
qed

lemma router_step_mountable: "mountable_router r \<Longrightarrow> mountable_router (router_step r op)"
proof -
  assume r: "mountable_router r"
  obtain r' res where run: "apply_op r op = (r', res)" by fastforce
  have hook: "mountable_router r'"
    if "with_prefix_node prefix f r = (r', res)" "keeps_shape f" "\<forall>n. static_children (f n) = static_children n" for prefix f
    using with_prefix_node_mountable [OF r that(2) _ that(1)] that(3) by blast
  have "mountable_router r'"
    using run hook add_route_mountable [OF r]
    by (cases op) (auto simp: add_on_request_hook_def add_pre_handler_hook_def add_on_response_hook_def add_not_found_handler_def
        add_exception_handler_def)
  then show ?thesis by (simp add: router_step_def run)
qed

section \<open>Mounting refines union\<close>

definition with_prefix :: "string \<Rightarrow> route_target \<Rightarrow> route_target" where
  "with_prefix prefix t =
     (if normalize_group_prefix prefix = [] then t
      else t\<lparr>rt_pattern := join_route_pattern (normalize_group_prefix prefix) (rt_pattern t)\<rparr>)"

definition prefix_node :: "string \<Rightarrow> trie_node \<Rightarrow> trie_node" where
  "prefix_node prefix n = n\<lparr>targets := map (map_option (with_prefix prefix)) (targets n)\<rparr>"

lemma prefix_route_patterns_map:
  "prefix_route_patterns (normalize_group_prefix prefix) ns = map (prefix_node prefix) ns"
proof (cases "normalize_group_prefix prefix = []")
  case True
  then have "with_prefix prefix = id" by (simp add: fun_eq_iff with_prefix_def)
  with True show ?thesis by (simp add: prefix_route_patterns_def prefix_node_def option.map_id map_idI)
next
  case False
  then have "with_prefix prefix = (\<lambda>t. t\<lparr>rt_pattern := join_route_pattern (normalize_group_prefix prefix) (rt_pattern t)\<rparr>)"
    by (simp add: fun_eq_iff with_prefix_def)
  with False show ?thesis by (simp add: prefix_route_patterns_def prefix_node_def)
qed

lemma edge_prefix_node [simp]: "edge (prefix_node prefix n) l = edge n l"
  by (cases l) (simp_all add: prefix_node_def)

lemma follow_prefix_node:
  "edges_forward ns \<Longrightarrow> i < length ns \<Longrightarrow> follow (map (prefix_node prefix) ns) i q = follow ns i q"
proof (induction q arbitrary: i)
  case (Cons l q)
  then show ?case using edges_forwardD [OF Cons.prems] by (auto split: option.split)
qed simp

lemma node_at_prefix_node:
  assumes "mountable ns"
  shows "node_at (map (prefix_node prefix) ns) 0 q = map_option (prefix_node prefix) (node_at ns 0 q)"
proof -
  note wf = mountable_props [OF assms]
  have "payload (prefix_node prefix n) = prefix_node prefix (payload n)" for n by (simp add: payload_def prefix_node_def)
  moreover have "j < length ns" if "follow ns 0 q = Some j" for j using follow_forward [OF wf(2,4) that] by simp
  ultimately show ?thesis by (cases "follow ns 0 q") (simp_all add: node_at_def follow_prefix_node [OF wf(2,4)])
qed

lemma mountable_prefix_node:
  assumes "mountable ns"
  shows "mountable (map (prefix_node prefix) ns)"
proof -
  note wf = mountable_props [OF assms]
  have "edges_forward (map (prefix_node prefix) ns)"
    unfolding edges_forward_def length_map
  proof (intro allI impI)
    fix i l j
    assume i: "i < length ns" and "edge (map (prefix_node prefix) ns ! i) l = Some j"
    then have "edge (ns ! i) l = Some j" by simp
    then show "i < j \<and> j < length ns" using edges_forwardD [OF wf(2) i] by blast
  qed
  moreover have "edges_unique (map (prefix_node prefix) ns)"
    unfolding edges_unique_def length_map
  proof (intro allI impI)
    fix i i' l l' j
    assume i: "i < length ns" "i' < length ns"
      and "edge (map (prefix_node prefix) ns ! i) l = Some j \<and> edge (map (prefix_node prefix) ns ! i') l' = Some j"
    then have "edge (ns ! i) l = Some j \<and> edge (ns ! i') l' = Some j" by simp
    with i wf(3) show "i = i' \<and> l = l'" unfolding edges_unique_def by blast
  qed
  moreover have "length (targets (prefix_node prefix n)) = length (targets n)" "static_children (prefix_node prefix n) = static_children n" for n
    by (simp_all add: prefix_node_def)
  ultimately show ?thesis using wf by (simp add: mountable_def wf_trie_def keys_distinct_def)
qed

lemma trie_routes_node_at: "trie_routes ns m p = (case node_at ns 0 p of None \<Rightarrow> None | Some n \<Rightarrow> targets n ! m)"
  by (auto simp: trie_routes_def node_at_def payload_def split: option.split)

lemma node_at_targets:
  assumes "mountable ns" "node_at ns 0 q = Some n"
  shows "length (targets n) = method_count"
proof -
  note wf = mountable_props [OF assms(1)]
  obtain j where j: "follow ns 0 q = Some j" "n = payload (ns ! j)" using assms(2) by (auto simp: node_at_def)
  then have "length (targets (ns ! j)) = method_count" using follow_forward [OF wf(2,4) j(1)] by (intro wf(5)) simp
  then show ?thesis by (simp add: j(2) payload_def)
qed

lemma combine_target:
  assumes "\<And>n. a = Some n \<Longrightarrow> length (targets n) = method_count" "\<And>n. b = Some n \<Longrightarrow> length (targets n) = method_count" "i < method_count"
  shows "(case combine a b of None \<Rightarrow> None | Some n \<Rightarrow> targets n ! i) =
    (case (case b of None \<Rightarrow> None | Some n \<Rightarrow> targets n ! i) of
       Some t \<Rightarrow> Some t | None \<Rightarrow> (case a of None \<Rightarrow> None | Some n \<Rightarrow> targets n ! i))"
  using assms by (cases a; cases b) (auto simp: combine_def merge_payload_def empty_node_def split: option.split)

text \<open>What is left of a pattern below a prefix.\<close>

definition below :: "pat_seg list \<Rightarrow> pat_seg list \<Rightarrow> pat_seg list option" where
  "below p q = (if take (length p) q = p then Some (drop (length p) q) else None)"

lemma below_Some: "below p q = Some q0 \<longleftrightarrow> q = p @ q0"
  by (auto simp: below_def) (metis append_take_drop_id)

lemma below_None: "below p q = None \<longleftrightarrow> (\<nexists>q0. q = p @ q0)"
  by (metis below_Some not_None_eq)

text \<open>The routes of a router in which another is mounted.\<close>

definition mounted_routes :: "string \<Rightarrow> router \<Rightarrow> router \<Rightarrow> http_method \<Rightarrow> pat_seg list \<Rightarrow> route_target option" where
  "mounted_routes prefix mounted r m q =
     (case below (prefix_labels (matching r) prefix) q of
        None \<Rightarrow> routes r m q
      | Some q0 \<Rightarrow> (case routes mounted m q0 of None \<Rightarrow> routes r m q | Some t \<Rightarrow> Some (with_prefix prefix t)))"

lemma mount_merge:
  assumes r: "mountable_router r" and mounted: "mountable_router mounted" and at: "follow (nodes r) 0 p = Some d"
    and ok: "validate_mount_node (length (nodes mounted)) (nodes r) (nodes mounted) d 0 = None"
    and ns': "ns' = merge_mount_node (length (nodes mounted)) (map (prefix_node prefix) (nodes mounted)) d 0 (nodes r)"
  shows "mountable ns'"
    and "i < method_count \<Longrightarrow> trie_routes ns' i (p @ q) =
      (case trie_routes (nodes mounted) i q of Some t \<Rightarrow> Some (with_prefix prefix t) | None \<Rightarrow> trie_routes (nodes r) i (p @ q))"
    and "\<nexists>q0. q = p @ q0 \<Longrightarrow> trie_routes ns' i q = trie_routes (nodes r) i q"
    and "i < method_count \<Longrightarrow> trie_routes (nodes mounted) i q \<noteq> None \<Longrightarrow> trie_routes (nodes r) i (p @ q) = None"
proof -
  let ?ms = "map (prefix_node prefix) (nodes mounted)"
  have m: "mountable (nodes r)" "mountable (nodes mounted)" using r mounted by (simp_all add: mountable_router_def)
  note pm = mountable_prefix_node [OF m(2), of prefix] and at_ms = node_at_prefix_node [OF m(2), of prefix]
  have pos: "0 < length (nodes mounted)" using mountable_props(4) [OF m(2)] .
  have valid: "(same_slot l l' \<longrightarrow> node_at (nodes r) 0 (p @ q @ [l]) \<noteq> None \<longrightarrow> node_at (nodes mounted) 0 (q @ [l']) \<noteq> None \<longrightarrow> l = l') \<and>
      (node_at (nodes r) 0 (p @ q) = Some a \<longrightarrow> node_at (nodes mounted) 0 q = Some b \<longrightarrow> no_conflict a b)" for l l' q a b
    using validate_sound [OF m(2) pos _ ok] by (simp add: node_at_append [OF at])
  have "compatible (nodes r) p ?ms 0" using valid unfolding compatible_def at_ms by (auto simp: map_option_case split: option.splits)
  then have merge: "merged ns' (nodes r) p ?ms 0"
    unfolding ns' using m(1) pm at pos by (intro merge_merged) simp_all
  show "mountable ns'" by (rule mergedD(1) [OF merge])
  show "trie_routes ns' i q = trie_routes (nodes r) i q" if "\<nexists>q0. q = p @ q0"
    using mergedD(4) [OF merge that] by (simp add: trie_routes_node_at)
  show "trie_routes ns' i (p @ q) =
      (case trie_routes (nodes mounted) i q of Some t \<Rightarrow> Some (with_prefix prefix t) | None \<Rightarrow> trie_routes (nodes r) i (p @ q))"
    if i: "i < method_count"
  proof -
    have "trie_routes ns' i (p @ q) =
        (case trie_routes ?ms i q of Some t \<Rightarrow> Some t | None \<Rightarrow> trie_routes (nodes r) i (p @ q))"
      unfolding trie_routes_node_at mergedD(3) [OF merge]
      using node_at_targets [OF m(1)] node_at_targets [OF pm] i by (intro combine_target) auto
    moreover have "trie_routes ?ms i q = map_option (with_prefix prefix) (trie_routes (nodes mounted) i q)"
      using node_at_targets [OF m(2), of q] i by (auto simp: trie_routes_node_at at_ms prefix_node_def split: option.split)
    ultimately show ?thesis by (auto split: option.split)
  qed
  show "trie_routes (nodes r) i (p @ q) = None" if "i < method_count" "trie_routes (nodes mounted) i q \<noteq> None"
  proof (rule ccontr)
    note given = that
    assume "trie_routes (nodes r) i (p @ q) \<noteq> None"
    then obtain a b where "node_at (nodes r) 0 (p @ q) = Some a" "targets a ! i \<noteq> None" "node_at (nodes mounted) 0 q = Some b" "targets b ! i \<noteq> None"
      using given(2) by (auto simp: trie_routes_node_at split: option.splits)
    with valid [of "Lit []" "Lit []" q a b] given(1) show False by (auto simp: no_conflict_def)
  qed
qed

lemma mount_cases:
  assumes r: "mountable_router r" and mounted: "mountable_router mounted"
    and run: "mount same prefix mounted r = ((r', mounted'), res)"
  obtains
    (refused) message where "res = Inl message" "mounted' = mounted" "mountable_router r'" "routes r' = routes r"
      "route_count r' = route_count r" "matching r' = matching r"
  | (joined) "res = Inr ()" "mounted' = new_router (matching mounted)" "mountable_router r'" "routes r' = mounted_routes prefix mounted r"
      "route_count r' = route_count r + route_count mounted" "matching r' = matching r"
      "\<And>m q. routes mounted m q \<noteq> None \<Longrightarrow> routes r m (prefix_labels (matching r) prefix @ q) = None"
      "valid (parse_route_path prefix)" "matching mounted = matching r"
proof -
  obtain r1 res1 where e: "ensure_prefix_node prefix r = (r1, res1)" by fastforce
  note keeps = ensure_prefix_node_keeps [OF mountable_router_wf [OF r] e] and m1 = ensure_prefix_node_mountable [OF r e]
  show thesis
  proof (cases "same \<or> matching mounted \<noteq> matching r \<or>
      (\<forall>d. res1 = Inr d \<longrightarrow> validate_mount_node (length (nodes mounted)) (nodes r1) (nodes mounted) d 0 \<noteq> None)")
    case True
    then obtain message where "res = Inl message" "mounted' = mounted" "r' = r \<or> r' = r1"
      using run by (cases res1) (auto simp: mount_def e split: if_splits option.splits)
    then show thesis using r keeps m1(1) by (intro refused) auto
  next
    case False
    then obtain d where d: "\<not> same" "matching mounted = matching r" "res1 = Inr d"
        "validate_mount_node (length (nodes mounted)) (nodes r1) (nodes mounted) d 0 = None" by blast
    define ns' where "ns' = merge_mount_node (length (nodes mounted)) (map (prefix_node prefix) (nodes mounted)) d 0 (nodes r1)"
    have res: "res = Inr ()" "r' = r1\<lparr>nodes := ns', route_count := route_count r1 + route_count mounted\<rparr>"
        "mounted' = mounted\<lparr>nodes := [empty_node], route_count := 0\<rparr>"
      using run d by (simp_all add: mount_def e Let_def prefix_route_patterns_map ns'_def)
    let ?p = "prefix_labels (matching r) prefix"
    note merge = mount_merge [OF m1(1) mounted m1(2) [OF d(3)] d(4) ns'_def]
    have "routes r' m q = mounted_routes prefix mounted r m q" for m q
    proof (cases "below ?p q")
      case None
      then have "trie_routes ns' (method_index m) q = routes r1 m q" using merge(3) by (simp add: below_None routes_def)
      then show ?thesis using None keeps by (simp add: mounted_routes_def routes_def res(2))
    next
      case (Some q0)
      then have "trie_routes ns' (method_index m) q =
          (case routes mounted m q0 of Some t \<Rightarrow> Some (with_prefix prefix t) | None \<Rightarrow> routes r1 m q)"
        using merge(2) [of "method_index m" q0] by (simp add: below_Some routes_def split: option.split)
      then show ?thesis using Some keeps by (simp add: mounted_routes_def routes_def res(2) split: option.split)
    qed
    moreover have "routes r m (?p @ q) = None" if "routes mounted m q \<noteq> None" for m q
      using merge(4) [of "method_index m" q] that keeps by (simp add: routes_def fun_eq_iff)
    moreover have "valid (parse_route_path prefix)" using e d(3) by (auto simp: ensure_prefix_node_def Let_def split: if_splits)
    ultimately show thesis using res merge(1) keeps d(2)
      by (intro joined) (auto simp: mountable_router_def fun_eq_iff new_router_def)
  qed
qed

text \<open>C18: Mounting a router refines the disjoint union of two maps. When it succeeds, every route of the mounted router is found
  below the labels of the prefix, with the prefix joined to the pattern it reports, where there was none before; all other routes are as
  they were, the counts add up, and the mounted router is left empty. When it throws, no route of either has changed.\<close>

theorem mount_refines:
  assumes "mountable_router r" and "mountable_router mounted"
  shows "case mount same prefix mounted r of
      ((r', mounted'), Inr _) \<Rightarrow>
        mountable_router r' \<and> mounted' = new_router (matching mounted) \<and>
        route_count r' = route_count r + route_count mounted \<and>
        routes r' = mounted_routes prefix mounted r \<and>
        (\<forall>m q. routes mounted m q \<noteq> None \<longrightarrow> routes r m (prefix_labels (matching r) prefix @ q) = None)
    | ((r', mounted'), Inl _) \<Rightarrow>
        mountable_router r' \<and> mounted' = mounted \<and> route_count r' = route_count r \<and> routes r' = routes r"
proof -
  obtain r' mounted' res where run: "mount same prefix mounted r = ((r', mounted'), res)" by (metis prod.exhaust)
  from assms run show ?thesis
  proof (cases rule: mount_cases)
    case refused
    then show ?thesis by (simp add: run)
  next
    case joined
    then show ?thesis by (simp add: run)
  qed
qed

section \<open>Routers built with mounts\<close>

inductive router_built :: "router \<Rightarrow> bool" where
  built_new: "router_built (new_router mode)"
| built_step: "router_built r \<Longrightarrow> router_built (router_step r op)"
| built_mount: "router_built r \<Longrightarrow> router_built mounted \<Longrightarrow> mount same prefix mounted r = ((r', mounted'), res) \<Longrightarrow> router_built r'"

lemma registered_mounted:
  assumes "\<And>m q. routes mounted m q \<noteq> None \<Longrightarrow> routes r m (p @ q) = None" and "p = prefix_labels (matching r) prefix"
    and "routes r' = mounted_routes prefix mounted r"
  shows "registered r' = registered r \<union> (\<lambda>(m, q). (m, p @ q)) ` registered mounted"
    and "registered r \<inter> (\<lambda>(m, q). (m, p @ q)) ` registered mounted = {}"
proof -
  have "routes r' m q \<noteq> None \<longleftrightarrow> routes r m q \<noteq> None \<or> (\<exists>q0. q = p @ q0 \<and> routes mounted m q0 \<noteq> None)" for m q
    by (cases "below p q") (auto simp: assms(2,3) mounted_routes_def below_Some below_None split: option.splits)
  then show "registered r' = registered r \<union> (\<lambda>(m, q). (m, p @ q)) ` registered mounted"
    unfolding registered_def by (auto simp: image_iff)
  show "registered r \<inter> (\<lambda>(m, q). (m, p @ q)) ` registered mounted = {}"
    using assms(1) by (auto simp: registered_def)
qed

lemma router_inv_mounted:
  assumes inv: "router_inv r" "router_inv mounted" and "wf_router r'" "route_count r' = route_count r + route_count mounted"
    and "\<And>m q. routes mounted m q \<noteq> None \<Longrightarrow> routes r m (prefix_labels (matching r) prefix @ q) = None"
    and "routes r' = mounted_routes prefix mounted r"
  shows "router_inv r'"
proof -
  let ?f = "\<lambda>(m :: http_method, q). (m, prefix_labels (matching r) prefix @ q)"
  note reg = registered_mounted [OF assms(5) refl assms(6)]
  have "inj_on ?f (registered mounted)" by (auto intro: inj_onI)
  then have "card (?f ` registered mounted) = route_count mounted" using inv(2) by (simp add: card_image router_inv_def)
  moreover have "finite (registered r)" "card (registered r) = route_count r" "finite (registered mounted)" using inv by (simp_all add: router_inv_def)
  ultimately have "card (registered r') = route_count r'" using reg assms(4) by (simp add: card_Un_disjoint)
  moreover have "finite (registered r')" using reg(1) inv by (simp add: router_inv_def)
  ultimately show ?thesis using assms(3) by (simp add: router_inv_def)
qed

section \<open>The patterns that targets report\<close>

definition segment_label :: "route_path_matching \<Rightarrow> string \<Rightarrow> pat_seg" where
  "segment_label m s = label_of (s, if m = raw_matching then s else decoded s)"

definition path_labels :: "route_path_matching \<Rightarrow> string \<Rightarrow> pat_seg list" where
  "path_labels m path = map (segment_label m) (path_segments path)"

lemma zip_segments:
  assumes "list_all decodable (path_segments path)"
  shows "map label_of (zip (raw_segments (parse_route_path path)) (segments (parse_route_path path) m)) = path_labels m path"
proof -
  have all: "takeWhile decodable (path_segments path) = path_segments path" using assms by (simp add: list_all_iff)
  have "zip xs (map f xs) = map (\<lambda>x. (x, f x)) xs" for xs and f :: "string \<Rightarrow> string" by (induction xs) simp_all
  moreover have "zip xs xs = map (\<lambda>x. (x, x)) xs" for xs :: "string list" by (induction xs) simp_all
  ultimately show ?thesis
    by (cases m) (simp_all add: parse_route_path_segments all segments_def path_labels_def segment_label_def comp_def)
qed

lemma split_on_join: "split_on c (s @ c # t) = split_on c s @ split_on c t"
  by (induction s) (auto split: list.split)

lemma path_segments_join: "path_segments (s @ CHR ''/'' # t) = path_segments s @ path_segments t"
  by (simp add: path_segments_def split_on_join)

lemma path_segments_slash [simp]: "path_segments (CHR ''/'' # t) = path_segments t"
  by (simp add: path_segments_def)

lemma path_segments_Nil [simp]: "path_segments [] = []"
  by (simp add: path_segments_def)

lemma path_segments_strip [simp]: "path_segments (strip_trailing_slashes s) = path_segments s"
proof (induction s rule: strip_trailing_slashes.induct)
  case (3 c d s)
  show ?case
  proof (cases "last (d # s) = CHR ''/''")
    case True
    have "c # d # s = butlast (c # d # s) @ CHR ''/'' # []"
      using True append_butlast_last_id [of "c # d # s"] by (metis last_ConsR list.distinct(1))
    then have "path_segments (c # d # s) = path_segments (butlast (c # d # s))"
      by (metis path_segments_join path_segments_Nil append_Nil2)
    then show ?thesis using 3 True by simp
  qed simp
qed simp_all

lemma path_segments_normalize [simp]: "path_segments (normalize_group_prefix prefix) = path_segments prefix"
proof -
  have "path_segments ''/'' = []" by (simp add: path_segments_def)
  then show ?thesis by (auto simp: normalize_group_prefix_def)
qed

lemma path_segments_joined [simp]: "path_segments (join_route_pattern prefix pattern) = path_segments prefix @ path_segments pattern"
proof -
  have slash: "path_segments ''/'' = []" by (simp add: path_segments_def)
  have empty: "path_segments prefix = []" if "normalize_group_prefix prefix = []"
    using path_segments_normalize [of prefix] by (simp add: that)
  have rooted: "path_segments (p @ pattern) = path_segments p @ path_segments pattern"
    if "pattern \<noteq> []" "hd pattern = CHR ''/''" for p
    using that path_segments_join [of p "tl pattern"] by (cases pattern) simp_all
  show ?thesis
    by (auto simp: join_route_pattern_def Let_def slash empty rooted path_segments_join)
qed

lemma pattern_labels_path:
  "list_all decodable (path_segments pattern) \<Longrightarrow> pattern_labels m pattern = path_labels m pattern"
  using zip_segments [of "join_route_pattern [] pattern"] by (simp add: pattern_labels_def Let_def path_labels_def)

text \<open>Every target reports a pattern that stands for the labels it is registered under.\<close>

definition patterns_exact :: "router \<Rightarrow> bool" where
  "patterns_exact r \<longleftrightarrow>
     (\<forall>m q t. routes r m q = Some t \<longrightarrow> list_all decodable (path_segments (rt_pattern t)) \<and> path_labels (matching r) (rt_pattern t) = q)"

lemma add_route_patterns:
  assumes wf: "wf_router r" and ok: "patterns_exact r" and run: "add_route m pattern body mx tmo h r = (r', res)"
  shows "patterns_exact r'"
proof (cases res)
  case (Inl message)
  then show ?thesis using add_route_rejected [OF wf] run ok by (simp add: patterns_exact_def)
next
  case (Inr u)
  then have stored: "add_route m pattern body mx tmo h r = (r', Inr ())" using run by simp
  have "valid (parse_route_path (join_route_pattern [] pattern))"
    using stored by (auto simp: add_route_def Let_def split: if_splits)
  then have dec: "list_all decodable (path_segments pattern)" by (simp add: parse_route_path_segments)
  have "path_labels (matching r) (join_route_pattern [] pattern) = pattern_labels (matching r) pattern"
    using pattern_labels_path [OF dec] by (simp add: path_labels_def)
  then show ?thesis using add_route_stored [OF wf stored] ok dec
    by (auto simp: patterns_exact_def new_target_def split: if_splits)
qed

lemma router_step_patterns:
  assumes wf: "wf_router r" and ok: "patterns_exact r"
  shows "patterns_exact (router_step r op)"
proof -
  obtain r' res where run: "apply_op r op = (r', res)" by fastforce
  have hook: "patterns_exact r'" if "with_prefix_node prefix f r = (r', res)" "keeps_shape f" for prefix f
    using with_prefix_node_keeps [OF that(2) wf that(1)] ok by (simp add: patterns_exact_def)
  have "patterns_exact r'"
    using run hook add_route_patterns [OF wf ok]
    by (cases op) (auto simp: add_on_request_hook_def add_pre_handler_hook_def add_on_response_hook_def add_not_found_handler_def
        add_exception_handler_def)
  then show ?thesis by (simp add: router_step_def run)
qed

lemma path_labels_with_prefix:
  assumes "valid (parse_route_path prefix)" "list_all decodable (path_segments (rt_pattern t))"
  shows "list_all decodable (path_segments (rt_pattern (with_prefix prefix t)))"
    and "path_labels m (rt_pattern (with_prefix prefix t)) = prefix_labels m prefix @ path_labels m (rt_pattern t)"
proof -
  have dec: "list_all decodable (path_segments prefix)" using assms(1) by (simp add: parse_route_path_segments)
  have "path_segments prefix = []" if "normalize_group_prefix prefix = []"
    using path_segments_normalize [of prefix] by (simp add: that)
  then have segs: "path_segments (rt_pattern (with_prefix prefix t)) = path_segments prefix @ path_segments (rt_pattern t)"
    by (simp add: with_prefix_def)
  show "list_all decodable (path_segments (rt_pattern (with_prefix prefix t)))" using dec assms(2) by (simp add: segs)
  show "path_labels m (rt_pattern (with_prefix prefix t)) = prefix_labels m prefix @ path_labels m (rt_pattern t)"
    using zip_segments [OF dec] by (simp add: prefix_labels_def path_labels_def segs)
qed

lemma mounted_patterns:
  assumes "patterns_exact r" "patterns_exact mounted" "matching mounted = matching r" "valid (parse_route_path prefix)"
    and "routes r' = mounted_routes prefix mounted r" "matching r' = matching r"
  shows "patterns_exact r'"
  unfolding patterns_exact_def
proof (intro allI impI)
  fix m q t
  assume "routes r' m q = Some t"
  then consider "routes r m q = Some t"
    | q0 t0 where "q = prefix_labels (matching r) prefix @ q0" "routes mounted m q0 = Some t0" "t = with_prefix prefix t0"
    by (auto simp: assms(5) mounted_routes_def below_Some split: option.splits)
  then show "list_all decodable (path_segments (rt_pattern t)) \<and> path_labels (matching r') (rt_pattern t) = q"
  proof cases
    case 1
    then show ?thesis using assms(1,6) by (simp add: patterns_exact_def)
  next
    case 2
    have "list_all decodable (path_segments (rt_pattern t0))" "path_labels (matching r) (rt_pattern t0) = q0"
      using assms(2,3) 2(2) by (auto simp: patterns_exact_def)
    then show ?thesis using path_labels_with_prefix [OF assms(4)] 2 assms(6) by simp
  qed
qed

lemma router_built_mountable:
  "router_built r \<Longrightarrow> router_inv r \<and> mountable_router r \<and> patterns_exact r"
proof (induction rule: router_built.induct)
  case (built_new mode)
  then show ?case by (simp add: router_inv_new mountable_new_router patterns_exact_def routes_new_router)
next
  case (built_step r op)
  then show ?case using router_build.step_inv router_step_mountable router_step_patterns mountable_router_wf by blast
next
  case (built_mount r mounted same prefix r' mounted' res)
  then have m: "mountable_router r" "mountable_router mounted" and inv: "router_inv r" "router_inv mounted"
    and pat: "patterns_exact r" "patterns_exact mounted" by simp_all
  from m built_mount.hyps(3) show ?case
  proof (cases rule: mount_cases)
    case refused
    then show ?thesis using router_inv_cong [OF inv(1)] mountable_router_wf pat(1) by (simp add: patterns_exact_def)
  next
    case joined
    then show ?thesis
      using router_inv_mounted [OF inv mountable_router_wf [OF joined(3)] joined(5,7,4)] mounted_patterns [OF pat joined(9,8,4,6)] by simp
  qed
qed

text \<open>C17: Whatever sequence of registrations and mounts builds a router, some of them throwing, and however the routers that are
  mounted were built, the node vector stays a tree whose edges lead forward and in range with a target slot per method and
  distinct keys, the route count is the number of registered pairs of method and pattern, and every target reports a pattern
  that stands for exactly the labels it is registered under.\<close>

theorem router_built_invariant:
  assumes "router_built r"
  shows "router_inv r \<and> mountable_router r \<and> (\<forall>m q t. routes r m q = Some t \<longrightarrow> pattern_labels (matching r) (rt_pattern t) = q)"
  using router_built_mountable [OF assms] by (auto simp: patterns_exact_def pattern_labels_path)

section \<open>A router mounted below a prefix\<close>

definition demo_api :: router where
  "demo_api = fst (add_route method_get ''/users/:id'' body_none 0 0 7 (new_router raw_matching))"

definition demo_site :: router where
  "demo_site = fst (add_route method_get ''/api/status'' body_none 0 0 1 (new_router raw_matching))"

lemma demo_built: "router_built demo_api" "router_built demo_site"
  using built_step [OF built_new, of raw_matching "Route method_get ''/users/:id'' body_none 0 0 7"]
    built_step [OF built_new, of raw_matching "Route method_get ''/api/status'' body_none 0 0 1"]
  by (simp_all add: demo_api_def demo_site_def router_step_def)

text \<open>After the mount, both the old route and the mounted one are found, the latter under the joined pattern.\<close>

lemma demo_mounted:
  "(let ((r, _), res) = mount False ''/api'' demo_api demo_site
    in (res, router_find r method_get ''/api/status'', router_find r method_get ''/api/users/5'',
        mr_pattern (router_match r method_get ''/api/users/5''))) =
   (Inr (), Some 1, Some 7, ''/api/users/:id'')"
  by code_simp

lemma demo_mount_run: "snd (mount False ''/api'' demo_api demo_site) = Inr ()"
  by code_simp

lemma demo_mountable: "mountable_router demo_api" "mountable_router demo_site"
  using demo_built by (simp_all add: router_built_mountable)

theorem mount_refines_witness:
  "case mount False ''/api'' demo_api demo_site of
     ((r', mounted'), Inr _) \<Rightarrow> routes r' = mounted_routes ''/api'' demo_api demo_site \<and> mounted' = new_router raw_matching
   | _ \<Rightarrow> False"
proof -
  have "matching demo_api = raw_matching" by code_simp
  then show ?thesis using mount_refines [OF demo_mountable(2,1), where same = False and prefix = "''/api''"] demo_mount_run
    by (auto split: prod.splits sum.splits)
qed

theorem router_built_invariant_witness:
  "let r = fst (fst (mount False ''/api'' demo_api demo_site)); q = pattern_labels raw_matching ''/api/users/:id''
   in router_inv r \<and> mountable_router r \<and>
      map_option (\<lambda>t. pattern_labels (matching r) (rt_pattern t)) (routes r method_get q) = Some q"
proof -
  obtain r mounted' res where run: "mount False ''/api'' demo_api demo_site = ((r, mounted'), res)" by (metis prod.exhaust)
  have "routes (fst (fst (mount False ''/api'' demo_api demo_site))) method_get (pattern_labels raw_matching ''/api/users/:id'') \<noteq> None"
    by code_simp
  then obtain t where "routes r method_get (pattern_labels raw_matching ''/api/users/:id'') = Some t" by (auto simp: run)
  moreover have "router_built r" using run by (rule built_mount [OF demo_built(2,1)])
  ultimately show ?thesis using router_built_invariant [of r] by (simp add: run Let_def)
qed

end
