(* ===== verification/String_Search.thy ===== *)
theory String_Search
  imports Prelude
begin

text \<open>
  Searching a string for a pattern, \<open>std::string_view::find\<close>: where a hit lies, when it is the first one, and
  what more input changes. The multipart parsers and the HTTP client share these lemmas.
\<close>

section \<open>Hits\<close>

lemma find_str_aux_bounds:
  "find_str_aux p s i = Some j \<Longrightarrow> i \<le> j \<and> j + length p \<le> i + length s"
proof (induction p s i rule: find_str_aux.induct)
  case (1 p i)
  then show ?case by (simp split: if_splits)
next
  case (2 p x xs i)
  show ?case
  proof (cases "starts_with (x # xs) p")
    case True
    then obtain t where "x # xs = p @ t" by (rule starts_withE)
    then have "length p \<le> length (x # xs)" by (metis length_append le_add1)
    with True 2(2) show ?thesis by simp
  next
    case False
    with 2 show ?thesis by simp
  qed
qed

lemma sv_find_str_bounds: "sv_find_str p s off = Some j \<Longrightarrow> off \<le> j \<and> j + length p \<le> length s"
  unfolding sv_find_str_def using find_str_aux_bounds by (fastforce split: if_splits)

lemma find_str_aux_shift: "find_str_aux p s i = map_option ((+) i) (find_str_aux p s 0)"
proof (induction s arbitrary: i)
  case Nil
  then show ?case by simp
next
  case (Cons x s)
  from Cons [of "Suc i"] Cons [of "Suc 0"] show ?case
    by (cases "find_str_aux p s 0") auto
qed

lemma sv_find_str_prefix:
  "sv_find_str p (pre @ s) (length pre) = map_option ((+) (length pre)) (sv_find_str p s 0)"
  using find_str_aux_shift [of p s "length pre"] by (simp add: sv_find_str_def)

lemma not_starts_with_head: "x \<noteq> c \<Longrightarrow> \<not> starts_with (x # s) (c # p)"
  by (simp add: starts_with_def)

lemma find_str_aux_skip:
  "c \<notin> set pre \<Longrightarrow> find_str_aux (c # p) (pre @ s) i = find_str_aux (c # p) s (i + length pre)"
  by (induction pre arbitrary: i) (auto simp: not_starts_with_head)

lemma find_str_aux_hit: "p \<noteq> [] \<Longrightarrow> find_str_aux p (p @ s) i = Some i"
  by (cases p) (auto simp: starts_with_def)

lemma starts_with_straddle:
  assumes "starts_with (x # s @ c # t) (c # p)" and "c \<notin> set p"
  shows "starts_with (x # s) (c # p)"
proof (cases "length (c # p) \<le> length (x # s)")
  case True
  with assms(1) show ?thesis by (simp add: starts_with_def)
next
  case False
  then have "length s < length p" by simp
  moreover from assms(1) have "take (length p) (s @ c # t) = p" by (simp add: starts_with_def)
  then have "(s @ c # t) ! length s = p ! length s"
    using \<open>length s < length p\<close> by (metis nth_take)
  then have "p ! length s = c" by simp
  ultimately show ?thesis using assms(2) nth_mem by blast
qed

text \<open>A pattern whose first character does not recur in it is found where it is appended.\<close>

lemma find_str_aux_first:
  assumes "find_str_aux (c # p) s 0 = None" and "c \<notin> set p"
  shows "find_str_aux (c # p) (s @ c # p @ t) i = Some (i + length s)"
  using assms(1)
proof (induction s arbitrary: i)
  case Nil
  then show ?case by (auto simp: starts_with_def)
next
  case (Cons x s)
  have "\<not> starts_with (x # s) (c # p)" using Cons.prems by (auto split: if_splits)
  then have "\<not> starts_with (x # s @ c # p @ t) (c # p)"
    using starts_with_straddle [OF _ assms(2), of x s "p @ t"] by auto
  moreover have "find_str_aux (c # p) s 0 = None"
    using Cons.prems find_str_aux_shift [of "c # p" s "Suc 0"] by (auto split: if_splits)
  ultimately show ?case using Cons.IH by simp
qed

lemma find_str_aux_spec:
  assumes "p \<noteq> []"
  shows "case find_str_aux p s 0 of
      None \<Rightarrow> \<forall>j. \<not> starts_with (drop j s) p
    | Some i \<Rightarrow> starts_with (drop i s) p \<and> (\<forall>j<i. \<not> starts_with (drop j s) p)"
proof (induction s)
  case Nil
  with assms show ?case by (simp add: starts_with_def)
next
  case (Cons x s)
  have "starts_with (drop j (x # s)) p \<longleftrightarrow>
      (if j = 0 then starts_with (x # s) p else starts_with (drop (j - 1) s) p)" for j
    by (cases j) simp_all
  with Cons show ?case
    using find_str_aux_shift [of p s "Suc 0"]
    by (auto split: option.splits simp: less_Suc_eq_0_disj)
qed

lemma sv_find_str_spec:
  assumes "p \<noteq> []" and "k \<le> length s"
  shows "case sv_find_str p s k of
      None \<Rightarrow> \<forall>j\<ge>k. \<not> starts_with (drop j s) p
    | Some i \<Rightarrow> k \<le> i \<and> starts_with (drop i s) p \<and> (\<forall>j. k \<le> j \<and> j < i \<longrightarrow> \<not> starts_with (drop j s) p)"
proof -
  have "sv_find_str p s k = map_option ((+) k) (find_str_aux p (drop k s) 0)"
    using assms(2) find_str_aux_shift [of p "drop k s" k] by (simp add: sv_find_str_def)
  moreover have "starts_with (drop j s) p \<longleftrightarrow> starts_with (drop (j - k) (drop k s)) p" if "k \<le> j" for j
    using that by simp
  ultimately show ?thesis
    using find_str_aux_spec [OF assms(1), of "drop k s"]
    by (auto split: option.splits) (metis add.commute le_add_diff_inverse less_diff_conv2)+
qed

lemma sv_find_str_drop:
  "k \<le> length s \<Longrightarrow> sv_find_str p s k = map_option ((+) k) (sv_find_str p (drop k s) 0)"
  using sv_find_str_prefix [of p "take k s" "drop k s"] by simp

lemma starts_with_grow: "starts_with (drop i b) p \<Longrightarrow> p \<noteq> [] \<Longrightarrow> starts_with (drop i (b @ r)) p"
  by (auto simp: starts_with_iff)

lemma starts_with_shrink:
  "starts_with (drop i (b @ r)) p \<Longrightarrow> i + length p \<le> length b \<Longrightarrow> starts_with (drop i b) p"
  by (simp add: starts_with_def)

lemma sv_find_str_least:
  assumes "p \<noteq> []" and "starts_with (drop i s) p" and "\<And>j. j < i \<Longrightarrow> \<not> starts_with (drop j s) p"
  shows "sv_find_str p s 0 = Some i"
  using sv_find_str_spec [OF assms(1), of 0 s] assms(2,3)
  by (auto split: option.splits) (metis linorder_neqE_nat)

lemma sv_find_str_grow:
  assumes "p \<noteq> []" and "sv_find_str p b 0 = Some i"
  shows "sv_find_str p (b @ r) 0 = Some i"
proof (rule sv_find_str_least [OF assms(1)])
  note spec = sv_find_str_spec [OF assms(1), of 0 b] and bounds = sv_find_str_bounds [OF assms(2)]
  show "starts_with (drop i (b @ r)) p"
    using spec assms by (intro starts_with_grow) simp_all
  show "\<not> starts_with (drop j (b @ r)) p" if "j < i" for j
    using spec assms(2) that bounds starts_with_shrink [of j b r p] by auto
qed

lemma sv_find_str_wait:
  assumes "p \<noteq> []" and "sv_find_str p b 0 = None" and "sv_find_str p (b @ r) 0 = Some i"
  shows "length b < i + length p"
proof (rule ccontr)
  assume "\<not> length b < i + length p"
  then have "starts_with (drop i b) p"
    using sv_find_str_spec [OF assms(1), of 0 "b @ r"] assms(3)
    by (intro starts_with_shrink [of i b r]) (simp_all del: drop_append)
  with sv_find_str_spec [OF assms(1), of 0 b] assms(2) show False by simp
qed

end
