(* ===== verification/Multipart.thy ===== *)
theory Multipart
  imports Http_Types String_Search "HOL-Library.List_Lexorder" "HOL-Library.Char_ord"
begin

text \<open>
  Multipart form data, \<open>src/http/multipart.cpp\<close>: the parsers of the content type, of a part's
  content disposition and of its header block, the search for a delimiter, the buffered form parser
  with its limits, and the form with its indexes. A \<open>uvp::result\<close> is a sum; a loop over an offset is
  a recursion over the rest of the string where the code never looks back.
\<close>

section \<open>Options and errors\<close>

record multipart_limits =
  max_total_bytes :: nat
  max_file_bytes :: nat
  max_field_bytes :: nat
  max_part_header_bytes :: nat
  max_part_headers :: nat
  max_parts :: nat
  max_field_name_bytes :: nat
  max_filename_bytes :: nat

definition default_multipart_limits :: multipart_limits where
  "default_multipart_limits =
     \<lparr>max_total_bytes = 0, max_file_bytes = 0, max_field_bytes = 1024 * 1024,
      max_part_header_bytes = 16 * 1024, max_part_headers = 64, max_parts = 64,
      max_field_name_bytes = 256, max_filename_bytes = 1024\<rparr>"

record multipart_form_options =
  form_limits :: multipart_limits
  max_memory_bytes :: nat

definition default_form_options :: multipart_form_options where
  "default_form_options =
     \<lparr>form_limits = \<lparr>max_total_bytes = 16 * 1024 * 1024, max_file_bytes = 0,
        max_field_bytes = 1024 * 1024, max_part_header_bytes = 16 * 1024, max_part_headers = 64,
        max_parts = 64, max_field_name_bytes = 256, max_filename_bytes = 1024\<rparr>,
      max_memory_bytes = 8 * 1024 * 1024\<rparr>"

type_synonym 'a mp_result = "(errc, 'a) result"

definition make_error :: "errc \<Rightarrow> string \<Rightarrow> errc error" where
  "make_error c d = Error c (if d = [] then errc_message c else d)"

section \<open>Values and parameters\<close>

definition CR :: char where "CR = CHR 0x0D"
definition LF :: char where "LF = CHR 0x0A"
definition CRLF :: string where "CRLF = [CR, LF]"

definition is_ows :: "char \<Rightarrow> bool" where
  "is_ows c \<longleftrightarrow> c = CHR '' '' \<or> c = CHR 0x09"

definition trim_ows :: "string \<Rightarrow> string" where
  "trim_ows v = rev (dropWhile is_ows (rev (dropWhile is_ows v)))"

definition ascii_iequals :: "string \<Rightarrow> string \<Rightarrow> bool" where
  "ascii_iequals lhs rhs =
     (if length lhs \<noteq> length rhs then False
      else list_all (\<lambda>(left, right). tolower left = tolower right) (zip lhs rhs))"

definition contains_ctl :: "string \<Rightarrow> bool" where
  "contains_ctl v = list_ex (\<lambda>c. ord c < 0x20 \<or> ord c = 0x7f) v"

definition breaks_line :: "char \<Rightarrow> bool" where
  "breaks_line c \<longleftrightarrow> c = CR \<or> c = LF \<or> c = CHR 0x00"

fun quoted_loop :: "bool \<Rightarrow> string \<Rightarrow> string \<Rightarrow> string option" where
  "quoted_loop escaped out [] = None"
| "quoted_loop escaped out (ch # rest) =
     (if escaped then
        (if breaks_line ch then None else quoted_loop False (out @ [ch]) rest)
      else if ch = CHR 0x5C then quoted_loop True out rest
      else if ch = CHR 0x22 then (if trim_ows rest \<noteq> [] then None else Some out)
      else if breaks_line ch then None
      else quoted_loop False (out @ [ch]) rest)"

definition parse_quoted_value :: "string \<Rightarrow> string option" where
  "parse_quoted_value v =
     (if length v < 2 \<or> hd v \<noteq> CHR 0x22 then None else quoted_loop False [] (tl v))"

definition parse_parameter_value :: "string \<Rightarrow> string option" where
  "parse_parameter_value v =
     (let v = trim_ows v
      in if v = [] then None
         else if hd v = CHR 0x22 then parse_quoted_value v
         else if contains_ctl v \<or> sv_find CHR 0x22 v \<noteq> None then None
         else Some v)"

fun unquoted_loop :: "char \<Rightarrow> bool \<Rightarrow> bool \<Rightarrow> string \<Rightarrow> nat option" where
  "unquoted_loop needle quoted escaped [] = None"
| "unquoted_loop needle quoted escaped (ch # rest) =
     (if escaped then map_option Suc (unquoted_loop needle quoted False rest)
      else if quoted \<and> ch = CHR 0x5C then map_option Suc (unquoted_loop needle quoted True rest)
      else if ch = CHR 0x22 then map_option Suc (unquoted_loop needle (\<not> quoted) False rest)
      else if \<not> quoted \<and> ch = needle then Some 0
      else map_option Suc (unquoted_loop needle quoted False rest))"

text \<open>\<open>find_unquoted\<close> from an offset: the position in the string from that offset on.\<close>

definition find_unquoted :: "string \<Rightarrow> char \<Rightarrow> nat option" where
  "find_unquoted v needle = unquoted_loop needle False False v"

lemma unquoted_loop_less: "unquoted_loop needle quoted escaped s = Some i \<Longrightarrow> i < length s"
  by (induction needle quoted escaped s arbitrary: i rule: unquoted_loop.induct)
    (auto split: if_splits)

lemma find_unquoted_less: "find_unquoted v needle = Some i \<Longrightarrow> i < length v"
  unfolding find_unquoted_def by (rule unquoted_loop_less)

section \<open>Content type\<close>

definition valid_boundary :: "string \<Rightarrow> bool" where
  "valid_boundary boundary \<longleftrightarrow> boundary \<noteq> [] \<and> length boundary \<le> 70 \<and> \<not> contains_ctl boundary"

text \<open>The parameter loop of \<open>parse_multipart_boundary\<close>: the rest of the content type and the
  boundary seen so far.\<close>

function boundary_loop :: "string \<Rightarrow> string option \<Rightarrow> string option mp_result" where
  "boundary_loop rest boundary =
     (if rest = [] then Inr boundary
      else
        let next = find_unquoted rest CHR '';'';
            raw_param = sv_until rest next;
            continue = (\<lambda>b. case next of None \<Rightarrow> Inr b | Some i \<Rightarrow> boundary_loop (drop (Suc i) rest) b)
        in case sv_find CHR ''='' raw_param of
             None \<Rightarrow>
               if trim_ows raw_param \<noteq> [] then Inl (make_error malformed_content_type [])
               else continue boundary
           | Some equals \<Rightarrow>
               (case parse_parameter_value (drop (Suc equals) raw_param) of
                  None \<Rightarrow> Inl (make_error malformed_content_type [])
                | Some v \<Rightarrow>
                    if ascii_iequals (trim_ows (take equals raw_param)) ''boundary'' then
                      (if boundary \<noteq> None
                       then Inl (make_error malformed_content_type ''duplicate boundary parameter'')
                       else continue (Some v))
                    else continue boundary))"
  by pat_completeness auto
termination
  by (relation "measure (\<lambda>(rest, _). length rest)") (auto dest: find_unquoted_less)

definition parse_multipart_boundary :: "string \<Rightarrow> string mp_result" where
  "parse_multipart_boundary content_type =
     (if content_type = [] then Inl (make_error unsupported_media_type ''missing content-type'')
      else
        let separator = find_unquoted content_type CHR '';'';
            media_type = trim_ows (sv_until content_type separator)
        in if \<not> ascii_iequals media_type ''multipart/form-data''
           then Inl (make_error unsupported_media_type ''expected multipart/form-data'')
           else case boundary_loop (case separator of None \<Rightarrow> [] | Some i \<Rightarrow> drop (Suc i) content_type) None of
                  Inl e \<Rightarrow> Inl e
                | Inr None \<Rightarrow> Inl (make_error multipart_missing_boundary [])
                | Inr (Some boundary) \<Rightarrow>
                    if \<not> valid_boundary boundary then Inl (make_error multipart_invalid_boundary [])
                    else Inr boundary)"

section \<open>Content disposition\<close>

record multipart_disposition =
  disp_name :: "string option"
  disp_filename :: "string option"

function disposition_loop :: "string \<Rightarrow> multipart_disposition \<Rightarrow> multipart_disposition mp_result" where
  "disposition_loop rest info =
     (if rest = [] then Inr info
      else
        let next = find_unquoted rest CHR '';'';
            raw_param = sv_until rest next;
            continue = (\<lambda>d. case next of None \<Rightarrow> Inr d | Some i \<Rightarrow> disposition_loop (drop (Suc i) rest) d)
        in case sv_find CHR ''='' raw_param of
             None \<Rightarrow>
               if trim_ows raw_param \<noteq> [] then Inl (make_error multipart_malformed_part_header [])
               else continue info
           | Some equals \<Rightarrow>
               let name = trim_ows (take equals raw_param)
               in (case parse_parameter_value (drop (Suc equals) raw_param) of
                     None \<Rightarrow> Inl (make_error multipart_malformed_part_header [])
                   | Some v \<Rightarrow>
                       if ascii_iequals name ''name'' then
                         (if disp_name info \<noteq> None
                          then Inl (make_error multipart_malformed_part_header ''duplicate name parameter'')
                          else continue (info\<lparr>disp_name := Some v\<rparr>))
                       else if ascii_iequals name ''filename'' then
                         (if disp_filename info \<noteq> None
                          then Inl (make_error multipart_malformed_part_header ''duplicate filename parameter'')
                          else continue (info\<lparr>disp_filename := Some v\<rparr>))
                       else continue info))"
  by pat_completeness auto
termination
  by (relation "measure (\<lambda>(rest, _). length rest)") (auto dest: find_unquoted_less)

text \<open>\<open>saw_name\<close> and \<open>saw_filename\<close> are the presence of the option; a result has a name.\<close>

definition parse_multipart_content_disposition :: "string \<Rightarrow> (string \<times> string option) mp_result" where
  "parse_multipart_content_disposition v =
     (let first_separator = find_unquoted v CHR '';'';
          disposition = trim_ows (sv_until v first_separator)
      in if \<not> ascii_iequals disposition ''form-data''
         then Inl (make_error multipart_malformed_part_header ''content-disposition must be form-data'')
         else case disposition_loop (case first_separator of None \<Rightarrow> [] | Some i \<Rightarrow> drop (Suc i) v)
                     \<lparr>disp_name = None, disp_filename = None\<rparr> of
                Inl e \<Rightarrow> Inl e
              | Inr info \<Rightarrow>
                  (case disp_name info of
                     None \<Rightarrow> Inl (make_error multipart_malformed_part_header ''missing or invalid name parameter'')
                   | Some name \<Rightarrow>
                       if name = [] \<or> contains_ctl name
                       then Inl (make_error multipart_malformed_part_header ''missing or invalid name parameter'')
                       else if (case disp_filename info of None \<Rightarrow> False | Some f \<Rightarrow> contains_ctl f)
                       then Inl (make_error multipart_malformed_part_header ''invalid filename parameter'')
                       else Inr (name, disp_filename info)))"

section \<open>Part headers\<close>

function count_lines_from :: "string \<Rightarrow> nat \<Rightarrow> nat" where
  "count_lines_from block offset =
     (case sv_find_str CRLF block offset of
        None \<Rightarrow> 0 | Some i \<Rightarrow> Suc (count_lines_from block (i + 2)))"
  by pat_completeness auto
termination
  by (relation "measure (\<lambda>(block, offset). Suc (length block) - offset)")
    (auto dest!: sv_find_str_bounds simp: CRLF_def)

definition count_header_lines :: "string \<Rightarrow> nat" where
  "count_header_lines block = (if block = [] then 0 else 1 + count_lines_from block 0)"

record part_header_state =
  ph_headers :: headers
  ph_disposition :: "string option"
  ph_saw_content_type :: bool

text \<open>One header line of \<open>parse_part_header_block\<close>.\<close>

definition part_header_line :: "string \<Rightarrow> part_header_state \<Rightarrow> part_header_state mp_result" where
  "part_header_line line st =
     (if line \<noteq> [] \<and> is_ows (hd line)
      then Inl (make_error multipart_malformed_part_header ''folded part headers are not supported'')
      else case sv_find CHR '':'' line of
        None \<Rightarrow> Inl (make_error multipart_malformed_part_header [])
      | Some colon \<Rightarrow>
          if colon = 0 then Inl (make_error multipart_malformed_part_header [])
          else
            let name = trim_ows (take colon line); v = trim_ows (drop (Suc colon) line);
                added = st\<lparr>ph_headers := headers_add (ph_headers st) name v\<rparr>
            in if name = [] \<or> contains_ctl name then Inl (make_error multipart_malformed_part_header [])
               else if ascii_iequals name ''content-disposition'' then
                 (if ph_disposition st \<noteq> None
                  then Inl (make_error multipart_malformed_part_header ''duplicate content-disposition'')
                  else Inr (added\<lparr>ph_disposition := Some v\<rparr>))
               else if ascii_iequals name ''content-type'' then
                 (if ph_saw_content_type st
                  then Inl (make_error multipart_malformed_part_header ''duplicate content-type'')
                  else Inr (added\<lparr>ph_saw_content_type := True\<rparr>))
               else if ascii_iequals name ''content-transfer-encoding'' \<and> \<not> ascii_iequals v ''7bit'' \<and>
                       \<not> ascii_iequals v ''8bit'' \<and> \<not> ascii_iequals v ''binary''
               then Inl (make_error multipart_malformed_part_header ''unsupported content-transfer-encoding'')
               else Inr added)"

function part_header_loop :: "string \<Rightarrow> nat \<Rightarrow> part_header_state \<Rightarrow> part_header_state mp_result" where
  "part_header_loop block offset st =
     (if offset < length block then
        let line_end = sv_find_str CRLF block offset;
            line = (case line_end of None \<Rightarrow> drop offset block | Some e \<Rightarrow> sv_substr block offset (e - offset))
        in case part_header_line line st of
             Inl e \<Rightarrow> Inl e
           | Inr st \<Rightarrow>
               (case line_end of None \<Rightarrow> Inr st | Some e \<Rightarrow> part_header_loop block (e + 2) st)
      else Inr st)"
  by pat_completeness auto
termination
  by (relation "measure (\<lambda>(block, offset, _). length block - offset)")
    (auto dest!: sym [THEN sv_find_str_bounds] simp: CRLF_def)

declare count_lines_from.simps [simp del] part_header_loop.simps [simp del]
  boundary_loop.simps [simp del] disposition_loop.simps [simp del]

record parsed_part_headers =
  pp_name :: string
  pp_filename :: "string option"
  pp_headers :: headers

definition parse_part_header_block :: "string \<Rightarrow> multipart_limits \<Rightarrow> parsed_part_headers mp_result" where
  "parse_part_header_block block limits =
     (if count_header_lines block > max_part_headers limits
      then Inl (make_error multipart_limit_exceeded ''multipart part has too many headers'')
      else case part_header_loop block 0
                  \<lparr>ph_headers = [], ph_disposition = None, ph_saw_content_type = False\<rparr> of
        Inl e \<Rightarrow> Inl e
      | Inr st \<Rightarrow>
          (case ph_disposition st of
             None \<Rightarrow> Inl (make_error multipart_malformed_part_header ''missing content-disposition'')
           | Some content_disposition \<Rightarrow>
               (case parse_multipart_content_disposition content_disposition of
                  Inl e \<Rightarrow> Inl e
                | Inr (name, filename) \<Rightarrow>
                    if length name > max_field_name_bytes limits
                    then Inl (make_error multipart_limit_exceeded ''multipart field name is too large'')
                    else if (case filename of None \<Rightarrow> False | Some f \<Rightarrow> length f > max_filename_bytes limits)
                    then Inl (make_error multipart_limit_exceeded ''multipart filename is too large'')
                    else Inr \<lparr>pp_name = name, pp_filename = filename, pp_headers = ph_headers st\<rparr>)))"

text \<open>\<open>make_safe_filename\<close>, and \<open>multipart_part::safe_filename\<close> with the same body.\<close>

definition make_safe_filename :: "string option \<Rightarrow> string" where
  "make_safe_filename filename =
     (case filename of
        None \<Rightarrow> []
      | Some f \<Rightarrow>
          let out = filter (\<lambda>c. \<not> (c = CHR ''/'' \<or> c = CHR 0x5C \<or> c = CHR '':'' \<or> ord c < 0x20 \<or> ord c = 0x7f)) f
          in if out = [] then ''upload'' else out)"

section \<open>Delimiters\<close>

datatype delimiter_search =
    Delimiter_found nat string
  | Delimiter_not_found
  | Delimiter_need_more nat

function find_next_multipart_delimiter :: "string \<Rightarrow> string \<Rightarrow> nat \<Rightarrow> delimiter_search" where
  "find_next_multipart_delimiter buffer delimiter search =
     (if search < length buffer then
        (case sv_find_str delimiter buffer search of
           None \<Rightarrow> Delimiter_not_found
         | Some position \<Rightarrow>
             let suffix_offset = position + length delimiter
             in if length buffer < suffix_offset + 2 then Delimiter_need_more position
                else
                  let suffix = sv_substr buffer suffix_offset 2
                  in if suffix = CRLF \<or> suffix = ''--'' then Delimiter_found position suffix
                     else find_next_multipart_delimiter buffer delimiter (position + 1))
      else Delimiter_not_found)"
  by pat_completeness auto
termination
  by (relation "measure (\<lambda>(buffer, _, search). length buffer - search)")
    (auto dest!: sv_find_str_bounds)

declare find_next_multipart_delimiter.simps [simp del]

section \<open>Forms\<close>

record form_part =
  part_name :: string
  part_filename :: "string option"
  part_headers :: headers
  part_body :: string

record view_group =
  group_name :: string
  group_offset :: nat
  group_count :: nat

record multipart_form =
  parts :: "form_part list"
  field_views :: "form_part list"
  file_views :: "form_part list"
  field_groups :: "view_group list"
  file_groups :: "view_group list"

definition empty_form :: multipart_form where
  "empty_form = \<lparr>parts = [], field_views = [], file_views = [], field_groups = [], file_groups = []\<rparr>"

text \<open>The grouping loop of \<open>rebuild_indexes\<close> over parts sorted by name.\<close>

definition add_view :: "form_part list \<times> view_group list \<Rightarrow> form_part \<Rightarrow> form_part list \<times> view_group list" where
  "add_view vg part =
     (let (views, groups) = vg;
          groups = (if groups = [] \<or> group_name (last groups) \<noteq> part_name part
                    then groups @ [\<lparr>group_name = part_name part, group_offset = length views, group_count = 0\<rparr>]
                    else groups)
      in (views @ [part],
          butlast groups @ [(last groups)\<lparr>group_count := group_count (last groups) + 1\<rparr>]))"

definition group_views :: "form_part list \<Rightarrow> form_part list \<times> view_group list" where
  "group_views ps = foldl add_view ([], []) (sort_key part_name ps)"

definition rebuild_indexes :: "multipart_form \<Rightarrow> multipart_form" where
  "rebuild_indexes form =
     (let files = filter (\<lambda>p. part_filename p \<noteq> None) (parts form);
          fields = filter (\<lambda>p. part_filename p = None) (parts form)
      in form\<lparr>field_views := fst (group_views fields), field_groups := snd (group_views fields),
              file_views := fst (group_views files), file_groups := snd (group_views files)\<rparr>)"

definition group_span :: "form_part list \<Rightarrow> view_group list \<Rightarrow> string \<Rightarrow> form_part list" where
  "group_span views groups name =
     (case find (\<lambda>g. group_name g = name) groups of
        None \<Rightarrow> []
      | Some g \<Rightarrow> take (group_count g) (drop (group_offset g) views))"

definition form_fields :: "multipart_form \<Rightarrow> string \<Rightarrow> form_part list" where
  "form_fields form name = group_span (field_views form) (field_groups form) name"

definition form_files :: "multipart_form \<Rightarrow> string \<Rightarrow> form_part list" where
  "form_files form name = group_span (file_views form) (file_groups form) name"

definition first_field :: "multipart_form \<Rightarrow> string \<Rightarrow> form_part option" where
  "first_field form name = (case form_fields form name of [] \<Rightarrow> None | v # _ \<Rightarrow> Some v)"

definition single_field :: "multipart_form \<Rightarrow> string \<Rightarrow> form_part mp_result" where
  "single_field form name =
     (case form_fields form name of
        [] \<Rightarrow> Inl (make_error multipart_malformed_body ''multipart field is missing'')
      | [v] \<Rightarrow> Inr v
      | _ \<Rightarrow> Inl (make_error multipart_malformed_body ''multipart field is repeated''))"

definition first_file :: "multipart_form \<Rightarrow> string \<Rightarrow> form_part option" where
  "first_file form name = (case form_files form name of [] \<Rightarrow> None | v # _ \<Rightarrow> Some v)"

definition single_file :: "multipart_form \<Rightarrow> string \<Rightarrow> form_part mp_result" where
  "single_file form name =
     (case form_files form name of
        [] \<Rightarrow> Inl (make_error multipart_malformed_body ''multipart file is missing'')
      | [v] \<Rightarrow> Inr v
      | _ \<Rightarrow> Inl (make_error multipart_malformed_body ''multipart file is repeated''))"

section \<open>The form parser\<close>

text \<open>\<open>compare(offset, 2, s) == 0\<close> for a string of two characters.\<close>

definition at_offset :: "string \<Rightarrow> nat \<Rightarrow> string \<Rightarrow> bool" where
  "at_offset text offset s \<longleftrightarrow> sv_substr text offset 2 = s"

text \<open>After a final delimiter: an optional line break and the end.\<close>

definition final_end :: "string \<Rightarrow> nat \<Rightarrow> bool" where
  "final_end text offset \<longleftrightarrow>
     (if at_offset text offset CRLF then offset + 2 else offset) = length text"

definition check_part_limits ::
  "multipart_form_options \<Rightarrow> nat \<Rightarrow> nat \<Rightarrow> string option \<Rightarrow> string \<Rightarrow> nat mp_result" where
  "check_part_limits opts count memory filename payload =
     (let limits = form_limits opts
      in if count + 1 > max_parts limits
         then Inl (make_error multipart_limit_exceeded ''multipart has too many parts'')
         else if filename \<noteq> None \<and> max_file_bytes limits = 0
         then Inl (make_error multipart_limit_exceeded ''multipart files are not accepted'')
         else if filename \<noteq> None \<and> length payload > max_file_bytes limits
         then Inl (make_error multipart_limit_exceeded ''multipart file is too large'')
         else if filename = None \<and> length payload > max_field_bytes limits
         then Inl (make_error multipart_limit_exceeded ''multipart field is too large'')
         else if max_memory_bytes opts \<noteq> 0 \<and> memory + length payload > max_memory_bytes opts
         then Inl (make_error multipart_limit_exceeded ''multipart form memory limit exceeded'')
         else Inr (memory + length payload))"

lemma find_next_delimiter_bounds:
  "find_next_multipart_delimiter buffer delimiter search = Delimiter_found position suffix \<Longrightarrow>
   search \<le> position \<and> position + length delimiter + 2 \<le> length buffer"
proof (induction buffer delimiter search rule: find_next_multipart_delimiter.induct)
  case (1 buffer delimiter search)
  from "1.prems" have within: "search < length buffer"
    by (subst (asm) find_next_multipart_delimiter.simps) (simp split: if_splits)
  with "1.prems" obtain i where i: "sv_find_str delimiter buffer search = Some i"
    by (subst (asm) find_next_multipart_delimiter.simps) (simp split: option.splits)
  note bounds = sv_find_str_bounds [OF i]
  show ?case
  proof (cases "length buffer < i + length delimiter + 2")
    case True
    with "1.prems" within i show ?thesis
      by (subst (asm) find_next_multipart_delimiter.simps) simp
  next
    case False
    show ?thesis
    proof (cases "sv_substr buffer (i + length delimiter) 2 \<in> {CRLF, ''--''}")
      case True
      with "1.prems" within i False bounds show ?thesis
        by (subst (asm) find_next_multipart_delimiter.simps) auto
    next
      case other: False
      with "1.prems" within i False
      have "find_next_multipart_delimiter buffer delimiter (i + 1) = Delimiter_found position suffix"
        by (subst (asm) find_next_multipart_delimiter.simps) auto
      from "1.IH" [OF within i refl False refl _ this] other bounds show ?thesis by auto
    qed
  qed
qed

function form_loop ::
  "multipart_form_options \<Rightarrow> string \<Rightarrow> string \<Rightarrow> nat \<Rightarrow> nat \<Rightarrow> form_part list \<Rightarrow> multipart_form mp_result" where
  "form_loop opts next_delimiter text offset memory ps =
     (if offset < length text then
        (case sv_find_str (CRLF @ CRLF) text offset of
           None \<Rightarrow> Inl (make_error multipart_unexpected_end [])
         | Some header_end \<Rightarrow>
             if header_end - offset > max_part_header_bytes (form_limits opts)
             then Inl (make_error multipart_limit_exceeded ''multipart part headers are too large'')
             else
               (case parse_part_header_block (sv_substr text offset (header_end - offset)) (form_limits opts) of
                  Inl e \<Rightarrow> Inl e
                | Inr hdrs \<Rightarrow>
                    (case find_next_multipart_delimiter text next_delimiter (header_end + 4) of
                       Delimiter_found position suffix \<Rightarrow>
                         let payload = sv_substr text (header_end + 4) (position - (header_end + 4));
                             next_offset = position + length next_delimiter + 2
                         in (case check_part_limits opts (length ps) memory (pp_filename hdrs) payload of
                               Inl e \<Rightarrow> Inl e
                             | Inr memory \<Rightarrow>
                                 let ps = ps @ [\<lparr>part_name = pp_name hdrs, part_filename = pp_filename hdrs,
                                                 part_headers = pp_headers hdrs, part_body = payload\<rparr>]
                                 in if suffix = ''--'' then
                                      (if \<not> final_end text next_offset
                                       then Inl (make_error multipart_malformed_body ''invalid multipart final delimiter'')
                                       else Inr (rebuild_indexes (empty_form\<lparr>parts := ps\<rparr>)))
                                    else form_loop opts next_delimiter text next_offset memory ps)
                     | _ \<Rightarrow> Inl (make_error multipart_unexpected_end []))))
      else Inl (make_error multipart_unexpected_end []))"
  by pat_completeness auto
termination
  by (relation "measure (\<lambda>(_, _, text, offset, _, _). length text - offset)")
    (auto dest!: sv_find_str_bounds find_next_delimiter_bounds)

declare form_loop.simps [simp del]

definition parse_multipart_form :: "string \<Rightarrow> string \<Rightarrow> multipart_form_options \<Rightarrow> multipart_form mp_result" where
  "parse_multipart_form content_type text opts =
     (let limits = form_limits opts
      in if max_total_bytes limits \<noteq> 0 \<and> length text > max_total_bytes limits
         then Inl (make_error multipart_limit_exceeded ''multipart body is too large'')
         else case parse_multipart_boundary content_type of
                Inl e \<Rightarrow> Inl e
              | Inr boundary \<Rightarrow>
                  let first_delimiter = ''--'' @ boundary;
                      next_delimiter = CRLF @ ''--'' @ boundary;
                      offset = length first_delimiter
                  in if \<not> starts_with text first_delimiter
                     then Inl (make_error multipart_malformed_body ''multipart body must start with boundary'')
                     else if at_offset text offset ''--'' then
                       (if \<not> final_end text (offset + 2)
                        then Inl (make_error multipart_malformed_body ''invalid multipart final delimiter'')
                        else Inr empty_form)
                     else if \<not> at_offset text offset CRLF
                     then Inl (make_error multipart_malformed_body ''invalid multipart boundary delimiter'')
                     else form_loop opts next_delimiter text (offset + 2) 0 [])"

end
