(* ===== verification/Multipart_Stream.thy ===== *)
theory Multipart_Stream
  imports Multipart
begin

text \<open>
  The streaming parser, \<open>multipart_stream_state\<close>, \<open>multipart_part\<close> and \<open>multipart_stream\<close> of
  \<open>src/http/multipart.cpp\<close>. The callbacks of the application are a log of events and a function
  that says, for the log so far, what the application calls on the part before its callback returns:
  it may select a consumer or pause. A call of \<open>resume\<close> comes from outside a callback.
\<close>

section \<open>State\<close>

datatype multipart_part_mode = Mode_none | Mode_stream | Mode_text | Mode_discard

datatype multipart_parser_phase = First_boundary | In_headers | In_body | Phase_done | Phase_failed

record multipart_part_state =
  ps_name :: string
  ps_filename :: "string option"
  ps_headers :: headers
  ps_mode :: multipart_part_mode
  ps_ended :: bool
  ps_paused :: bool
  ps_received :: nat
  ps_text :: string
  ps_max_text :: nat

datatype mp_event =
    On_part string "string option" headers
  | On_data string
  | On_part_end
  | On_part_error "errc error"
  | On_text "string mp_result"
  | On_end
  | On_error "errc error"

datatype part_call = Call_stream | Call_text nat | Call_discard | Call_pause

record multipart_app =
  handles_parts :: bool
  app_calls :: "mp_event list \<Rightarrow> part_call list"

record multipart_stream_state =
  st_limits :: multipart_limits
  st_first_delimiter :: string
  st_next_delimiter :: string
  st_buffer :: string
  st_phase :: multipart_parser_phase
  st_current :: "multipart_part_state option"
  st_construction_error :: "errc error option"
  st_total :: nat
  st_count :: nat
  st_valid :: bool
  st_failed :: bool
  st_paused :: bool
  st_body_paused :: bool
  st_events :: "mp_event list"

definition blank_stream :: "multipart_limits \<Rightarrow> multipart_stream_state" where
  "blank_stream limits =
     \<lparr>st_limits = limits, st_first_delimiter = [], st_next_delimiter = [], st_buffer = [],
      st_phase = First_boundary, st_current = None, st_construction_error = None, st_total = 0,
      st_count = 0, st_valid = False, st_failed = False, st_paused = False, st_body_paused = False,
      st_events = []\<rparr>"

definition new_stream :: "string \<Rightarrow> multipart_limits \<Rightarrow> multipart_stream_state" where
  "new_stream content_type limits =
     (case parse_multipart_boundary content_type of
        Inl e \<Rightarrow> (blank_stream limits)\<lparr>st_construction_error := Some e\<rparr>
      | Inr boundary \<Rightarrow>
          (blank_stream limits)\<lparr>st_first_delimiter := ''--'' @ boundary,
             st_next_delimiter := CRLF @ ''--'' @ boundary, st_valid := True\<rparr>)"

section \<open>Pausing and failing\<close>

definition log_event :: "mp_event \<Rightarrow> multipart_stream_state \<Rightarrow> multipart_stream_state" where
  "log_event ev st = st\<lparr>st_events := st_events st @ [ev]\<rparr>"

definition stream_pause :: "multipart_stream_state \<Rightarrow> multipart_stream_state" where
  "stream_pause st = (if st_paused st then st else st\<lparr>st_paused := True, st_body_paused := True\<rparr>)"

definition part_emit_error :: "multipart_part_state \<Rightarrow> errc error \<Rightarrow> multipart_stream_state \<Rightarrow> multipart_stream_state" where
  "part_emit_error p e st =
     (if ps_ended p then st
      else case ps_mode p of
        Mode_stream \<Rightarrow> log_event (On_part_error e) st
      | Mode_text \<Rightarrow> log_event (On_text (Inl e)) st
      | _ \<Rightarrow> st)"

definition stream_fail :: "errc error \<Rightarrow> multipart_stream_state \<Rightarrow> multipart_stream_state" where
  "stream_fail e st =
     (if st_failed st \<or> st_phase st = Phase_done then st
      else
        let st = st\<lparr>st_failed := True, st_phase := Phase_failed\<rparr>;
            st = (case st_current st of
                    None \<Rightarrow> st
                  | Some p \<Rightarrow> (part_emit_error p e st)\<lparr>st_current := None\<rparr>)
        in log_event (On_error e) st)"

section \<open>What the application calls on a part\<close>

definition multipart_part_consumer_error :: "errc error" where
  "multipart_part_consumer_error = make_error multipart_malformed_body ''multipart part consumer already selected''"

text \<open>\<open>stream()\<close> and \<open>discard()\<close>. A part that has left the stream has its consumer already.\<close>

definition select_mode :: "multipart_part_mode \<Rightarrow> multipart_stream_state \<Rightarrow> multipart_stream_state" where
  "select_mode m st =
     (case st_current st of
        None \<Rightarrow> st
      | Some p \<Rightarrow>
          if ps_mode p \<noteq> Mode_none then stream_fail multipart_part_consumer_error st
          else st\<lparr>st_current := Some (p\<lparr>ps_mode := m\<rparr>)\<rparr>)"

definition select_text :: "nat \<Rightarrow> multipart_stream_state \<Rightarrow> multipart_stream_state" where
  "select_text max_bytes st =
     (case st_current st of
        None \<Rightarrow> log_event (On_text (Inl multipart_part_consumer_error)) st
      | Some p \<Rightarrow>
          if ps_mode p \<noteq> Mode_none
          then log_event (On_text (Inl multipart_part_consumer_error))
                 (stream_fail multipart_part_consumer_error st)
          else
            let route_limit = max_field_bytes (st_limits st);
                bound = (if route_limit \<noteq> 0 then min max_bytes route_limit else max_bytes)
            in st\<lparr>st_current := Some (p\<lparr>ps_mode := Mode_text, ps_max_text := bound\<rparr>)\<rparr>)"

definition part_pause :: "multipart_stream_state \<Rightarrow> multipart_stream_state" where
  "part_pause st =
     stream_pause (st\<lparr>st_current := map_option (ps_paused_update (\<lambda>_. True)) (st_current st)\<rparr>)"

fun run_call :: "part_call \<Rightarrow> multipart_stream_state \<Rightarrow> multipart_stream_state" where
  "run_call Call_stream st = select_mode Mode_stream st"
| "run_call (Call_text n) st = select_text n st"
| "run_call Call_discard st = select_mode Mode_discard st"
| "run_call Call_pause st = part_pause st"

text \<open>A callback: the event, then the calls the application makes before it returns.\<close>

definition notify :: "multipart_app \<Rightarrow> mp_event \<Rightarrow> multipart_stream_state \<Rightarrow> multipart_stream_state" where
  "notify app ev st =
     (let st = log_event ev st in fold run_call (app_calls app (st_events st)) st)"

section \<open>Delivering to the current part\<close>

definition part_emit_data :: "multipart_app \<Rightarrow> string \<Rightarrow> multipart_part_state \<Rightarrow> multipart_stream_state \<Rightarrow> multipart_stream_state" where
  "part_emit_data app chunk p st =
     (let p = p\<lparr>ps_received := ps_received p + length chunk\<rparr>;
          st = st\<lparr>st_current := Some p\<rparr>;
          limits = st_limits st
      in if ps_filename p \<noteq> None \<and> max_file_bytes limits \<noteq> 0 \<and> ps_received p > max_file_bytes limits
         then stream_fail (make_error multipart_limit_exceeded ''multipart file is too large'') st
         else if ps_filename p = None \<and> ps_received p > max_field_bytes limits
         then stream_fail (make_error multipart_limit_exceeded ''multipart field is too large'') st
         else case ps_mode p of
           Mode_stream \<Rightarrow> notify app (On_data chunk) st
         | Mode_text \<Rightarrow>
             if length (ps_text p) + length chunk > ps_max_text p
             then stream_fail (make_error multipart_limit_exceeded ''multipart field is too large'') st
             else st\<lparr>st_current := Some (p\<lparr>ps_text := ps_text p @ chunk\<rparr>)\<rparr>
         | _ \<Rightarrow> st)"

definition emit_current_data :: "multipart_app \<Rightarrow> string \<Rightarrow> multipart_stream_state \<Rightarrow> multipart_stream_state" where
  "emit_current_data app chunk st =
     (case st_current st of
        Some p \<Rightarrow> if chunk \<noteq> [] then part_emit_data app chunk p st else st
      | None \<Rightarrow> st)"

definition end_current_part :: "multipart_app \<Rightarrow> multipart_stream_state \<Rightarrow> multipart_stream_state" where
  "end_current_part app st =
     (case st_current st of
        None \<Rightarrow> st
      | Some p \<Rightarrow>
          if ps_ended p then st\<lparr>st_current := None\<rparr>
          else
            let st = st\<lparr>st_current := Some (p\<lparr>ps_ended := True\<rparr>)\<rparr>
            in (case ps_mode p of
                  Mode_stream \<Rightarrow> notify app On_part_end st
                | Mode_text \<Rightarrow> notify app (On_text (Inr (ps_text p))) st
                | _ \<Rightarrow> st)\<lparr>st_current := None\<rparr>)"

definition new_part_state :: "parsed_part_headers \<Rightarrow> multipart_part_state" where
  "new_part_state h =
     \<lparr>ps_name = pp_name h, ps_filename = pp_filename h, ps_headers = pp_headers h,
      ps_mode = Mode_none, ps_ended = False, ps_paused = False, ps_received = 0, ps_text = [],
      ps_max_text = 0\<rparr>"

definition part_consumed :: "multipart_stream_state \<Rightarrow> bool" where
  "part_consumed st = (case st_current st of None \<Rightarrow> False | Some p \<Rightarrow> ps_mode p \<noteq> Mode_none)"

definition parse_part_headers :: "multipart_app \<Rightarrow> string \<Rightarrow> multipart_stream_state \<Rightarrow> multipart_stream_state" where
  "parse_part_headers app block st =
     (case parse_part_header_block block (st_limits st) of
        Inl e \<Rightarrow> stream_fail e st
      | Inr h \<Rightarrow>
          let st = st\<lparr>st_count := st_count st + 1\<rparr>
          in if st_count st > max_parts (st_limits st)
             then stream_fail (make_error multipart_limit_exceeded ''multipart has too many parts'') st
             else
               let st = st\<lparr>st_current := Some (new_part_state h)\<rparr>
               in if \<not> handles_parts app
                  then stream_fail (make_error multipart_malformed_body ''multipart part has no handler'') st
                  else
                    let st = notify app (On_part (pp_name h) (pp_filename h) (pp_headers h)) st
                    in if st_failed st then st
                       else if \<not> part_consumed st
                       then stream_fail (make_error multipart_malformed_body ''multipart part was not consumed'') st
                       else st\<lparr>st_phase := In_body\<rparr>)"

section \<open>The parse loop\<close>

definition erase_front :: "nat \<Rightarrow> multipart_stream_state \<Rightarrow> multipart_stream_state" where
  "erase_front n st = st\<lparr>st_buffer := drop n (st_buffer st)\<rparr>"

text \<open>The data before a delimiter that is not complete yet: delivered and erased.\<close>

definition deliver_front :: "multipart_app \<Rightarrow> nat \<Rightarrow> multipart_stream_state \<Rightarrow> multipart_stream_state" where
  "deliver_front app n st =
     (let st' = emit_current_data app (take n (st_buffer st)) st
      in if st_paused st' then erase_front n st'
         else if st_failed st' then st'
         else erase_front n st')"

definition finish_stream :: "multipart_app \<Rightarrow> multipart_stream_state \<Rightarrow> multipart_stream_state" where
  "finish_stream app st = log_event On_end (st\<lparr>st_phase := Phase_done\<rparr>)"

text \<open>One round of \<open>parse\<close>: the state and whether the loop goes on (\<open>continue\<close>) or returns.\<close>

definition first_boundary_step :: "multipart_app \<Rightarrow> multipart_stream_state \<Rightarrow> multipart_stream_state \<times> bool" where
  "first_boundary_step app st =
     (let after = length (st_first_delimiter st)
      in if length (st_buffer st) < after + 2 then (st, False)
         else if \<not> starts_with (st_buffer st) (st_first_delimiter st)
         then (stream_fail (make_error multipart_malformed_body ''multipart body must start with boundary'') st, False)
         else if at_offset (st_buffer st) after ''--''
         then (finish_stream app (erase_front (after + 2) st), False)
         else if \<not> at_offset (st_buffer st) after CRLF
         then (stream_fail (make_error multipart_malformed_body ''invalid multipart boundary delimiter'') st, False)
         else ((erase_front (after + 2) st)\<lparr>st_phase := In_headers\<rparr>, True))"

definition headers_step :: "multipart_app \<Rightarrow> multipart_stream_state \<Rightarrow> multipart_stream_state \<times> bool" where
  "headers_step app st =
     (case sv_find_str (CRLF @ CRLF) (st_buffer st) 0 of
        None \<Rightarrow>
          (if length (st_buffer st) > max_part_header_bytes (st_limits st)
           then stream_fail (make_error multipart_limit_exceeded ''multipart part headers are too large'') st
           else st, False)
      | Some header_end \<Rightarrow>
          if header_end > max_part_header_bytes (st_limits st)
          then (stream_fail (make_error multipart_limit_exceeded ''multipart part headers are too large'') st, False)
          else (parse_part_headers app (take header_end (st_buffer st)) (erase_front (header_end + 4) st), True))"

definition body_step :: "multipart_app \<Rightarrow> multipart_stream_state \<Rightarrow> multipart_stream_state \<times> bool" where
  "body_step app st =
     (case find_next_multipart_delimiter (st_buffer st) (st_next_delimiter st) 0 of
        Delimiter_need_more position \<Rightarrow>
          (if position > 0 then deliver_front app position st else st, False)
      | Delimiter_not_found \<Rightarrow>
          (let keep = length (st_next_delimiter st)
           in if length (st_buffer st) > keep then deliver_front app (length (st_buffer st) - keep) st else st,
           False)
      | Delimiter_found position suffix \<Rightarrow>
          let after = position + length (st_next_delimiter st);
              st = emit_current_data app (take position (st_buffer st)) st
          in if st_paused st then (erase_front position st, False)
             else if st_failed st then (st, False)
             else
               let st = erase_front (after + 2) (end_current_part app st)
               in if suffix = ''--''
                  then (finish_stream app (if starts_with (st_buffer st) CRLF then erase_front 2 st else st), False)
                  else (st\<lparr>st_phase := In_headers\<rparr>, True))"

definition parse_step :: "multipart_app \<Rightarrow> multipart_stream_state \<Rightarrow> multipart_stream_state \<times> bool" where
  "parse_step app st =
     (case st_phase st of
        First_boundary \<Rightarrow> first_boundary_step app st
      | In_headers \<Rightarrow> headers_step app st
      | In_body \<Rightarrow> body_step app st
      | _ \<Rightarrow> (st, False))"

text \<open>No callback touches the buffer, the delimiters, the limits or the byte counts.\<close>

definition same_input :: "multipart_stream_state \<Rightarrow> multipart_stream_state \<Rightarrow> bool" where
  "same_input st st' \<longleftrightarrow>
     st_buffer st' = st_buffer st \<and> st_limits st' = st_limits st \<and>
     st_first_delimiter st' = st_first_delimiter st \<and> st_next_delimiter st' = st_next_delimiter st \<and>
     st_total st' = st_total st \<and> st_count st' = st_count st"

lemma same_input_refl [simp]: "same_input st st"
  by (simp add: same_input_def)

lemma same_input_trans: "same_input a b \<Longrightarrow> same_input b c \<Longrightarrow> same_input a c"
  by (simp add: same_input_def)

lemma same_input_log [simp]: "same_input st (log_event ev st)"
  by (simp add: same_input_def log_event_def)

lemma same_input_pause [simp]: "same_input st (stream_pause st)"
  by (simp add: same_input_def stream_pause_def)

lemma same_input_fail [simp]: "same_input st (stream_fail e st)"
  by (simp add: same_input_def stream_fail_def part_emit_error_def log_event_def Let_def
      split: option.splits multipart_part_mode.splits)

lemma same_input_call [simp]: "same_input st (run_call c st)"
proof (cases c)
  case (Call_text n)
  then show ?thesis
    using same_input_trans [OF same_input_fail same_input_log]
    by (auto simp: select_text_def Let_def same_input_def log_event_def split: option.splits)
qed (auto simp: select_mode_def part_pause_def stream_pause_def same_input_def split: option.splits,
     auto simp: stream_fail_def part_emit_error_def log_event_def Let_def
       split: option.splits multipart_part_mode.splits)

lemma same_input_calls [simp]: "same_input st (fold run_call cs st)"
  by (induction cs arbitrary: st) (auto intro: same_input_trans [OF same_input_call])

lemma same_input_notify [simp]: "same_input st (notify app ev st)"
  unfolding notify_def Let_def by (rule same_input_trans [OF same_input_log same_input_calls])

lemma same_input_current [simp]: "same_input (st\<lparr>st_current := c\<rparr>) st' \<longleftrightarrow> same_input st st'"
  "same_input st (st'\<lparr>st_current := c\<rparr>) \<longleftrightarrow> same_input st st'"
  by (auto simp: same_input_def)

lemma same_input_with_current [simp]:
  "same_input st (stream_fail e (st\<lparr>st_current := c\<rparr>))"
  "same_input st (notify app ev (st\<lparr>st_current := c\<rparr>))"
  using same_input_fail [of "st\<lparr>st_current := c\<rparr>" e] same_input_notify [of "st\<lparr>st_current := c\<rparr>" app ev]
  by (simp_all only: same_input_current)

lemma same_input_emit_data [simp]: "same_input st (part_emit_data app chunk p st)"
  by (simp add: part_emit_data_def Let_def split: multipart_part_mode.splits)

lemma same_input_emit [simp]: "same_input st (emit_current_data app chunk st)"
  by (auto simp: emit_current_data_def split: option.splits)

lemma same_input_end_part [simp]: "same_input st (end_current_part app st)"
  by (simp add: end_current_part_def Let_def split: option.splits multipart_part_mode.splits)

lemma buffer_parse_part_headers [simp]: "st_buffer (parse_part_headers app block st) = st_buffer st"
proof -
  have fail: "st_buffer (stream_fail e s) = st_buffer s" for e s
    using same_input_fail [of s e] by (simp add: same_input_def)
  have notify: "st_buffer (notify app ev s) = st_buffer s" for ev s
    using same_input_notify [of s app ev] by (simp add: same_input_def)
  show ?thesis
    by (simp add: parse_part_headers_def Let_def fail notify split: sum.splits)
qed

lemma parse_step_shrinks:
  assumes "parse_step app st = (st', True)"
  shows "length (st_buffer st') < length (st_buffer st)"
proof (cases "st_phase st")
  case First_boundary
  with assms show ?thesis
    by (auto simp: parse_step_def first_boundary_step_def Let_def erase_front_def split: if_splits)
next
  case In_headers
  with assms show ?thesis
    by (auto simp: parse_step_def headers_step_def erase_front_def CRLF_def
        dest!: sv_find_str_bounds split: option.splits if_splits)
next
  case In_body
  let ?emitted = "\<lambda>position. emit_current_data app (take position (st_buffer st)) st"
  have "st_buffer (end_current_part app (?emitted position)) = st_buffer st" for position
    using same_input_trans [OF same_input_emit [of st app "take position (st_buffer st)"]
        same_input_end_part [of "?emitted position" app]]
    by (simp add: same_input_def)
  with In_body assms show ?thesis
    by (auto simp: parse_step_def body_step_def Let_def erase_front_def
        dest!: find_next_delimiter_bounds split: delimiter_search.splits if_splits)
qed (use assms in \<open>simp_all add: parse_step_def\<close>)

function stream_parse :: "multipart_app \<Rightarrow> multipart_stream_state \<Rightarrow> multipart_stream_state" where
  "stream_parse app st =
     (if \<not> st_failed st \<and> \<not> st_paused st then
        (case parse_step app st of (st', continues) \<Rightarrow> if continues then stream_parse app st' else st')
      else st)"
  by pat_completeness auto
termination
  by (relation "measure (\<lambda>(_, st). length (st_buffer st))") (auto intro: parse_step_shrinks dest: sym)

declare stream_parse.simps [simp del]

section \<open>What the request body and the application do\<close>

definition on_body_data :: "multipart_app \<Rightarrow> string \<Rightarrow> multipart_stream_state \<Rightarrow> multipart_stream_state" where
  "on_body_data app chunk st =
     (let st = st\<lparr>st_total := st_total st + length chunk\<rparr>;
          total_limit = max_total_bytes (st_limits st)
      in if total_limit \<noteq> 0 \<and> st_total st > total_limit
         then stream_fail (make_error multipart_limit_exceeded ''multipart body is too large'') st
         else stream_parse app (st\<lparr>st_buffer := st_buffer st @ chunk\<rparr>))"

definition stream_finish :: "multipart_app \<Rightarrow> multipart_stream_state \<Rightarrow> multipart_stream_state" where
  "stream_finish app st =
     (if st_failed st then st
      else
        let st = stream_parse app st
        in if st_failed st then st
           else if st_phase st \<noteq> Phase_done then stream_fail (make_error multipart_unexpected_end []) st
           else st)"

definition on_body_error :: "errc error \<Rightarrow> multipart_stream_state \<Rightarrow> multipart_stream_state" where
  "on_body_error e st = stream_fail e st"

definition stream_resume :: "multipart_app \<Rightarrow> multipart_stream_state \<Rightarrow> multipart_stream_state" where
  "stream_resume app st =
     (if \<not> st_paused st then st
      else
        let st = stream_parse app (st\<lparr>st_paused := False\<rparr>)
        in if \<not> st_paused st then st\<lparr>st_body_paused := False\<rparr> else st)"

definition part_resume :: "multipart_app \<Rightarrow> multipart_stream_state \<Rightarrow> multipart_stream_state" where
  "part_resume app st =
     stream_resume app (st\<lparr>st_current := map_option (ps_paused_update (\<lambda>_. False)) (st_current st)\<rparr>)"

definition run_stream :: "multipart_app \<Rightarrow> string list \<Rightarrow> multipart_stream_state \<Rightarrow> multipart_stream_state" where
  "run_stream app chunks st = stream_finish app (fold (on_body_data app) chunks st)"

end
