(* ===== verification/Request.thy ===== *)
theory Request
  imports Route_Path
begin

text \<open>
  Requests, \<open>src/http/request.cpp\<close>: query strings with their decoding and grouping, the request as
  a handler sees it, and the stream of a request body. The callbacks of a body stream are the events
  it emits; whether one is installed is part of its state.
\<close>

section \<open>Query strings\<close>

fun decode_query_component :: "string \<Rightarrow> string" where
  "decode_query_component [] = []"
| "decode_query_component (c # cs) =
     (if c = CHR ''+'' then CHR '' '' # decode_query_component cs
      else case cs of
             h # l # rest \<Rightarrow>
               if c = CHR ''%'' \<and> hex_value h \<ge> 0 \<and> hex_value l \<ge> 0
               then hex_byte (hex_value h) (hex_value l) # decode_query_component rest
               else c # decode_query_component cs
           | _ \<Rightarrow> c # decode_query_component cs)"

type_synonym query_entries = "(string \<times> string list) list"

fun query_append :: "string \<Rightarrow> string \<Rightarrow> query_entries \<Rightarrow> query_entries" where
  "query_append name v [] = [(name, [v])]"
| "query_append name v ((n, vs) # es) =
     (if n = name then (n, vs @ [v]) # es else (n, vs) # query_append name v es)"

definition query_segment :: "string \<Rightarrow> query_entries \<Rightarrow> query_entries" where
  "query_segment segment es =
     (if segment = [] then es
      else
        let separator = sv_find CHR ''='' segment;
            raw_name = sv_until segment separator;
            raw_value = (case separator of None \<Rightarrow> [] | Some i \<Rightarrow> drop (Suc i) segment)
        in query_append (decode_query_component raw_name) (decode_query_component raw_value) es)"

function query_loop :: "string \<Rightarrow> query_entries \<Rightarrow> query_entries" where
  "query_loop rest es =
     (let next = sv_find CHR ''&'' rest;
          es = query_segment (sv_until rest next) es
      in case next of None \<Rightarrow> es | Some i \<Rightarrow> query_loop (drop (Suc i) rest) es)"
  by pat_completeness auto
termination
  by (relation "measure (\<lambda>(rest, _). length rest)") (auto dest: sym [THEN sv_find_less])

declare query_loop.simps [simp del]

definition query_params :: "string \<Rightarrow> query_entries" where
  "query_params raw_query = query_loop raw_query []"

fun query_first :: "query_entries \<Rightarrow> string \<Rightarrow> string option" where
  "query_first [] name = None"
| "query_first ((n, vs) # es) name = (if n = name then Some (hd vs) else query_first es name)"

definition query_contains :: "query_entries \<Rightarrow> string \<Rightarrow> bool" where
  "query_contains es name = (query_first es name \<noteq> None)"

definition query_get :: "query_entries \<Rightarrow> string \<Rightarrow> string \<Rightarrow> string" where
  "query_get es name fallback = (case query_first es name of None \<Rightarrow> fallback | Some v \<Rightarrow> v)"

fun query_all :: "query_entries \<Rightarrow> string \<Rightarrow> string list" where
  "query_all [] name = []"
| "query_all ((n, vs) # es) name = (if n = name then vs else query_all es name)"

section \<open>Requests\<close>

record request =
  rq_method :: http_method
  rq_target :: string
  rq_path :: string
  rq_query :: string
  rq_pattern :: string
  rq_query_params :: query_entries
  rq_headers :: headers
  rq_body :: string
  rq_params :: route_params
  rq_decoded_segments :: "string list"

definition make_request ::
  "http_method \<Rightarrow> string \<Rightarrow> string \<Rightarrow> string \<Rightarrow> headers \<Rightarrow> string \<Rightarrow> route_params \<Rightarrow> string list \<Rightarrow> request" where
  "make_request m target path query hs body params segs =
     \<lparr>rq_method = m, rq_target = target, rq_path = path, rq_query = query, rq_pattern = [],
      rq_query_params = query_params query, rq_headers = hs, rq_body = body, rq_params = params,
      rq_decoded_segments = segs\<rparr>"

definition rq_header :: "request \<Rightarrow> string \<Rightarrow> string" where
  "rq_header req name = headers_get (rq_headers req) name"

section \<open>Request body streams\<close>

record body_stream =
  bs_active :: bool
  bs_paused :: bool
  bs_on_data :: bool
  bs_on_end :: bool
  bs_on_error :: bool

definition new_body_stream :: body_stream where
  "new_body_stream = \<lparr>bs_active = True, bs_paused = False, bs_on_data = False, bs_on_end = False, bs_on_error = False\<rparr>"

text \<open>What a stream does to the outside: a callback of the application, or of its owner.\<close>

datatype body_event = Body_data string | Body_end | Body_error string | Owner_pause | Owner_resume

definition bs_set_on_data :: "body_stream \<Rightarrow> body_stream" where
  "bs_set_on_data s = (if bs_active s then s\<lparr>bs_on_data := True\<rparr> else s)"

definition bs_set_on_end :: "body_stream \<Rightarrow> body_stream" where
  "bs_set_on_end s = (if bs_active s then s\<lparr>bs_on_end := True\<rparr> else s)"

definition bs_set_on_error :: "body_stream \<Rightarrow> body_stream" where
  "bs_set_on_error s = (if bs_active s then s\<lparr>bs_on_error := True\<rparr> else s)"

definition bs_pause :: "body_stream \<Rightarrow> body_stream \<times> body_event list" where
  "bs_pause s = (if \<not> bs_active s \<or> bs_paused s then (s, []) else (s\<lparr>bs_paused := True\<rparr>, [Owner_pause]))"

definition bs_resume :: "body_stream \<Rightarrow> body_stream \<times> body_event list" where
  "bs_resume s = (if \<not> bs_active s \<or> \<not> bs_paused s then (s, []) else (s\<lparr>bs_paused := False\<rparr>, [Owner_resume]))"

definition bs_emit_data :: "string \<Rightarrow> body_stream \<Rightarrow> body_stream \<times> body_event list" where
  "bs_emit_data chunk s = (if \<not> bs_active s \<or> \<not> bs_on_data s then (s, []) else (s, [Body_data chunk]))"

definition bs_emit_end :: "body_stream \<Rightarrow> body_stream \<times> body_event list" where
  "bs_emit_end s =
     (if \<not> bs_active s then (s, [])
      else (s\<lparr>bs_active := False, bs_on_end := False\<rparr>, if bs_on_end s then [Body_end] else []))"

definition bs_emit_error :: "string \<Rightarrow> body_stream \<Rightarrow> body_stream \<times> body_event list" where
  "bs_emit_error e s =
     (if \<not> bs_active s then (s, [])
      else (s\<lparr>bs_active := False, bs_on_error := False\<rparr>, if bs_on_error s then [Body_error e] else []))"

definition bs_cancel :: "body_stream \<Rightarrow> body_stream" where
  "bs_cancel s = s\<lparr>bs_active := False\<rparr>"

datatype body_op = Bs_on_data | Bs_on_end | Bs_on_error | Bs_pause | Bs_resume | Bs_data string | Bs_end | Bs_error string | Bs_cancel

fun bs_step :: "body_stream \<times> body_event list \<Rightarrow> body_op \<Rightarrow> body_stream \<times> body_event list" where
  "bs_step (s, evs) Bs_on_data = (bs_set_on_data s, evs)"
| "bs_step (s, evs) Bs_on_end = (bs_set_on_end s, evs)"
| "bs_step (s, evs) Bs_on_error = (bs_set_on_error s, evs)"
| "bs_step (s, evs) Bs_pause = (case bs_pause s of (s, es) \<Rightarrow> (s, evs @ es))"
| "bs_step (s, evs) Bs_resume = (case bs_resume s of (s, es) \<Rightarrow> (s, evs @ es))"
| "bs_step (s, evs) (Bs_data chunk) = (case bs_emit_data chunk s of (s, es) \<Rightarrow> (s, evs @ es))"
| "bs_step (s, evs) Bs_end = (case bs_emit_end s of (s, es) \<Rightarrow> (s, evs @ es))"
| "bs_step (s, evs) (Bs_error e) = (case bs_emit_error e s of (s, es) \<Rightarrow> (s, evs @ es))"
| "bs_step (s, evs) Bs_cancel = (bs_cancel s, evs)"

section \<open>Queries as lists of pairs\<close>

text \<open>The name and value pairs of a query string, in order.\<close>

definition query_pair :: "string \<Rightarrow> string \<times> string" where
  "query_pair segment =
     (case sv_find CHR ''='' segment of
        None \<Rightarrow> (decode_query_component segment, [])
      | Some i \<Rightarrow> (decode_query_component (take i segment), decode_query_component (drop (Suc i) segment)))"

definition query_pairs :: "string \<Rightarrow> (string \<times> string) list" where
  "query_pairs raw = map query_pair (filter (\<lambda>s. s \<noteq> []) (split_on CHR ''&'' raw))"

lemma query_loop_fold:
  "query_loop raw es = fold (\<lambda>(n, v). query_append n v) (query_pairs raw) es"
proof (induction "length raw" arbitrary: raw es rule: less_induct)
  case less
  have segment: "query_segment s es = (if s = [] then es else (\<lambda>(n, v). query_append n v) (query_pair s) es)" for s es
    by (simp add: query_segment_def query_pair_def sv_until_def Let_def split: option.splits)
  show ?case
  proof (cases "sv_find CHR ''&'' raw")
    case None
    then show ?thesis
      by (subst query_loop.simps) (simp add: segment query_pairs_def sv_until_def)
  next
    case (Some i)
    then have "query_pairs raw = (if take i raw = [] then [] else [query_pair (take i raw)]) @ query_pairs (drop (Suc i) raw)"
      unfolding query_pairs_def by (subst split_on_sv_find) simp
    with Some less [of "drop (Suc i) raw"] sv_find_less [OF Some] show ?thesis
      by (subst query_loop.simps) (simp add: segment sv_until_def)
  qed
qed

lemma query_all_append: "query_all (query_append n v es) k = query_all es k @ (if n = k then [v] else [])"
  by (induction n v es rule: query_append.induct) auto

lemma query_all_fold:
  "query_all (fold (\<lambda>(n, v). query_append n v) ps es) k =
    query_all es k @ map snd (filter (\<lambda>p. fst p = k) ps)"
  by (induction ps arbitrary: es) (auto simp: query_all_append)

definition entries_ok :: "query_entries \<Rightarrow> bool" where
  "entries_ok es = list_all (\<lambda>(n, vs). vs \<noteq> []) es"

lemma entries_ok_append: "entries_ok es \<Longrightarrow> entries_ok (query_append n v es)"
  by (induction n v es rule: query_append.induct) (auto simp: entries_ok_def)

lemma entries_ok_fold: "entries_ok es \<Longrightarrow> entries_ok (fold (\<lambda>(n, v). query_append n v) ps es)"
  by (induction ps arbitrary: es) (auto simp: entries_ok_append)

lemma query_first_all:
  "entries_ok es \<Longrightarrow> query_first es k = (case query_all es k of [] \<Rightarrow> None | v # _ \<Rightarrow> Some v)"
  by (induction es k rule: query_first.induct) (auto simp: entries_ok_def split: list.splits)

text \<open>The query parameters of a request are those of its query string: all values of a name in
  their order, and the first one for a single lookup.\<close>

theorem query_params_lookup:
  "query_all (query_params raw) name = map snd (filter (\<lambda>p. fst p = name) (query_pairs raw)) \<and>
   query_first (query_params raw) name =
     (case filter (\<lambda>p. fst p = name) (query_pairs raw) of [] \<Rightarrow> None | p # _ \<Rightarrow> Some (snd p))"
proof -
  have all: "query_all (query_params raw) name = map snd (filter (\<lambda>p. fst p = name) (query_pairs raw))"
    by (simp add: query_params_def query_loop_fold query_all_fold)
  have "entries_ok (query_params raw)"
    unfolding query_params_def query_loop_fold by (rule entries_ok_fold) (simp add: entries_ok_def)
  with all show ?thesis by (simp add: query_first_all split: list.splits)
qed

section \<open>Encoded queries\<close>

text \<open>An encoder that escapes at least the separators, the plus sign and the percent sign.\<close>

definition encode_pair :: "(char \<Rightarrow> bool) \<Rightarrow> string \<times> string \<Rightarrow> string" where
  "encode_pair P p = pct_encode P (fst p) @ CHR ''='' # pct_encode P (snd p)"

fun encode_query :: "(char \<Rightarrow> bool) \<Rightarrow> (string \<times> string) list \<Rightarrow> string" where
  "encode_query P [] = []"
| "encode_query P [p] = encode_pair P p"
| "encode_query P (p # ps) = encode_pair P p @ CHR ''&'' # encode_query P ps"

definition escapes_separators :: "(char \<Rightarrow> bool) \<Rightarrow> bool" where
  "escapes_separators P \<longleftrightarrow> P CHR ''&'' \<and> P CHR ''='' \<and> P CHR ''+''"

lemma pct_encode_Nil [simp]: "pct_encode P [] = []" by (simp add: pct_encode_def)

lemma pct_encode_Cons [simp]:
  "pct_encode P (c # s) =
    (if c = CHR ''%'' \<or> P c then [CHR ''%'', hex_digit (ord c div 16), hex_digit (ord c mod 16)] else [c]) @
    pct_encode P s"
  by (simp add: pct_encode_def)

lemma decode_query_escaped:
  "decode_query_component (CHR ''%'' # hex_digit (ord c div 16) # hex_digit (ord c mod 16) # t) =
    c # decode_query_component t"
  using ord_nibbles [of c] by (simp add: hex_value_hex_digit hex_byte_ord)

lemma decode_query_plain:
  "c \<noteq> CHR ''+'' \<Longrightarrow> c \<noteq> CHR ''%'' \<Longrightarrow> decode_query_component (c # t) = c # decode_query_component t"
  by (auto split: list.splits)

lemma decode_query_encode:
  "P CHR ''+'' \<Longrightarrow> decode_query_component (pct_encode P s) = s"
proof (induction s)
  case Nil
  then show ?case by simp
next
  case (Cons c s)
  then show ?case
    using decode_query_escaped [of c "pct_encode P s"] decode_query_plain [of c "pct_encode P s"]
    by (auto simp del: decode_query_component.simps(2))
qed

lemma ord_hex_digit: "0 \<le> n \<Longrightarrow> n < 16 \<Longrightarrow> 48 \<le> ord (hex_digit n) \<and> ord (hex_digit n) \<le> 57 \<or> 65 \<le> ord (hex_digit n)"
  by (auto simp: hex_digit_def)

lemma hex_digit_not_separator:
  assumes "0 \<le> n" and "n < 16"
  shows "hex_digit n \<noteq> CHR ''&''" "hex_digit n \<noteq> CHR ''=''"
proof -
  have "ord (hex_digit n) \<noteq> ord CHR ''&''" "ord (hex_digit n) \<noteq> ord CHR ''=''"
    using ord_hex_digit [OF assms] by auto
  then show "hex_digit n \<noteq> CHR ''&''" "hex_digit n \<noteq> CHR ''=''" by auto
qed

lemma escaped_separators:
  "CHR ''&'' \<notin> set [CHR ''%'', hex_digit (ord c div 16), hex_digit (ord c mod 16)]"
  "CHR ''='' \<notin> set [CHR ''%'', hex_digit (ord c div 16), hex_digit (ord c mod 16)]"
  using hex_digit_not_separator [OF ord_nibbles(1,2) [of c]] hex_digit_not_separator [OF ord_nibbles(3,4) [of c]]
  by simp_all

lemma pct_encode_separators:
  shows "P CHR ''&'' \<Longrightarrow> CHR ''&'' \<notin> set (pct_encode P s)"
    and "P CHR ''='' \<Longrightarrow> CHR ''='' \<notin> set (pct_encode P s)"
proof -
  show "P CHR ''&'' \<Longrightarrow> CHR ''&'' \<notin> set (pct_encode P s)"
  proof (induction s)
    case (Cons c s)
    with escaped_separators(1) [of c] show ?case by (cases "c = CHR ''%'' \<or> P c") auto
  qed simp
  show "P CHR ''='' \<Longrightarrow> CHR ''='' \<notin> set (pct_encode P s)"
  proof (induction s)
    case (Cons c s)
    with escaped_separators(2) [of c] show ?case by (cases "c = CHR ''%'' \<or> P c") auto
  qed simp
qed

lemma query_pair_encode:
  assumes "escapes_separators P"
  shows "query_pair (encode_pair P p) = p"
  using assms sv_find_append [OF pct_encode_separators(2), of P "fst p" "pct_encode P (snd p)"]
  by (simp add: query_pair_def encode_pair_def escapes_separators_def decode_query_encode)

lemma encode_pair_no_amp: "escapes_separators P \<Longrightarrow> CHR ''&'' \<notin> set (encode_pair P p)"
  using pct_encode_separators(1) by (auto simp: encode_pair_def escapes_separators_def)

lemma encode_pair_not_Nil [simp]: "encode_pair P p \<noteq> []" by (simp add: encode_pair_def)



section \<open>Body streams end once\<close>

fun terminal_event :: "body_event \<Rightarrow> bool" where
  "terminal_event Body_end = True"
| "terminal_event (Body_error e) = True"
| "terminal_event _ = False"

text \<open>While a stream is active it has not ended; then it has ended at most once, with no data after.\<close>

definition body_inv :: "body_stream \<times> body_event list \<Rightarrow> bool" where
  "body_inv r \<longleftrightarrow>
     (if bs_active (fst r) then list_all (\<lambda>ev. \<not> terminal_event ev) (snd r)
      else list_all (\<lambda>ev. \<not> terminal_event ev) (butlast (snd r)))"

lemma list_all_butlast: "list_all P xs \<Longrightarrow> list_all P (butlast xs)"
  by (auto simp: list_all_iff dest: in_set_butlastD)

interpretation body_run: inv_machine bs_step body_inv
proof
  fix r op
  assume inv: "body_inv r"
  obtain s evs where r: "r = (s, evs)" by (cases r)
  from inv show "body_inv (bs_step r op)"
    unfolding r
    by (cases op)
      (auto simp: body_inv_def bs_set_on_data_def bs_set_on_end_def bs_set_on_error_def
        bs_pause_def bs_resume_def bs_emit_data_def bs_emit_end_def bs_emit_error_def bs_cancel_def
        list_all_butlast split: if_splits)
qed

text \<open>C37: A request body stream reports its end or an error at most once, as the last thing it does:
  whatever is called on it, every event before the last is data, a pause or a resumption.\<close>

theorem body_stream_ends_once:
  "list_all (\<lambda>ev. \<not> terminal_event ev) (butlast (snd (foldl bs_step (new_body_stream, []) ops)))"
proof -
  have "body_inv (foldl bs_step (new_body_stream, []) ops)"
    by (rule body_run.run_inv) (simp add: body_inv_def)
  then show ?thesis by (auto simp: body_inv_def list_all_butlast split: if_splits)
qed

end
