(* ===== verification/Response.thy ===== *)
theory Response
  imports Http_Types
begin

text \<open>
  Responses, \<open>src/http/response.cpp\<close>: the state shared by \<open>response\<close>, \<open>deferred_response\<close> and
  \<open>streaming_response\<close>, and the frames of server-sent events. An operation that can throw returns a
  sum; the completion callback of the server fires when \<open>rs_ended\<close> becomes true, and whether the
  application has installed a callback is part of the state.
\<close>

section \<open>State\<close>

datatype res_exn = Invalid_argument string | Logic_error string | App_exception nat

record response_state =
  rs_status :: nat
  rs_headers :: headers
  rs_body :: string
  rs_ended :: bool
  rs_deferred :: bool
  rs_streaming :: bool
  rs_headers_committed :: bool
  rs_cancelled :: bool
  rs_on_cancel :: bool
  rs_on_drain :: bool
  rs_on_error :: bool

definition new_response :: response_state where
  "new_response = \<lparr>rs_status = 200, rs_headers = [], rs_body = [], rs_ended = False, rs_deferred = False,
     rs_streaming = False, rs_headers_committed = False, rs_cancelled = False, rs_on_cancel = False,
     rs_on_drain = False, rs_on_error = False\<rparr>"

definition rs_active :: "response_state \<Rightarrow> bool" where
  "rs_active st \<longleftrightarrow> \<not> rs_ended st \<and> \<not> rs_cancelled st"

definition rs_complete :: "response_state \<Rightarrow> response_state" where
  "rs_complete st = (if \<not> rs_active st then st else st\<lparr>rs_ended := True, rs_deferred := False\<rparr>)"

text \<open>The state and whether the application's callback ran.\<close>

definition rs_cancel :: "response_state \<Rightarrow> response_state \<times> bool" where
  "rs_cancel st =
     (if \<not> rs_active st then (st, False)
      else (st\<lparr>rs_cancelled := True, rs_deferred := False, rs_on_cancel := False\<rparr>, rs_on_cancel st))"

section \<open>Operations of a response\<close>

text \<open>A call returns the response as it left it; a throw carries the response too, since what was done before it stays.\<close>

type_synonym res_result = "res_exn \<times> response_state + response_state"

definition response_status :: "nat \<Rightarrow> response_state \<Rightarrow> res_result" where
  "response_status n st =
     (if n < 100 \<or> n > 999 then Inl (Invalid_argument ''HTTP status code must be between 100 and 999'', st)
      else if rs_headers_committed st then Inl (Logic_error ''HTTP response headers are already committed'', st)
      else Inr (st\<lparr>rs_status := n\<rparr>))"

definition response_header :: "string \<Rightarrow> string \<Rightarrow> response_state \<Rightarrow> res_result" where
  "response_header name v st =
     (if rs_headers_committed st then Inl (Logic_error ''HTTP response headers are already committed'', st)
      else Inr (st\<lparr>rs_headers := headers_set (rs_headers st) name v\<rparr>))"

definition response_type :: "string \<Rightarrow> response_state \<Rightarrow> res_result" where
  "response_type content_type st = response_header ''content-type'' content_type st"

definition streaming_error :: "res_exn" where
  "streaming_error = Logic_error ''HTTP response is streaming''"

definition response_end :: "response_state \<Rightarrow> res_result" where
  "response_end st = (if rs_streaming st then Inl (streaming_error, st) else Inr (rs_complete st))"

definition typed_body :: "string \<Rightarrow> string \<Rightarrow> response_state \<Rightarrow> res_result" where
  "typed_body content_type body st =
     (if rs_streaming st then Inl (streaming_error, st)
      else case response_type content_type st of
             Inl e \<Rightarrow> Inl e
           | Inr st \<Rightarrow> response_end (st\<lparr>rs_body := body\<rparr>))"

definition response_text :: "string \<Rightarrow> response_state \<Rightarrow> res_result" where
  "response_text body st = typed_body ''text/plain; charset=utf-8'' body st"

definition response_json :: "string \<Rightarrow> response_state \<Rightarrow> res_result" where
  "response_json serialized_json st = typed_body ''application/json'' serialized_json st"

definition response_bytes :: "string \<Rightarrow> response_state \<Rightarrow> res_result" where
  "response_bytes body st =
     (if rs_streaming st then Inl (streaming_error, st) else response_end (st\<lparr>rs_body := body\<rparr>))"

definition response_defer :: "response_state \<Rightarrow> res_result" where
  "response_defer st =
     (if rs_streaming st then Inl (streaming_error, st)
      else Inr (if rs_active st then st\<lparr>rs_deferred := True\<rparr> else st))"

definition response_stream :: "response_state \<Rightarrow> res_result" where
  "response_stream st =
     (if \<not> rs_active st then Inl (Logic_error ''HTTP response is not active'', st)
      else if rs_deferred st \<or> rs_streaming st then Inl (Logic_error ''HTTP response has already been claimed'', st)
      else Inr (st\<lparr>rs_streaming := True\<rparr>))"

definition notify_stream_drain :: "response_state \<Rightarrow> bool" where
  "notify_stream_drain st \<longleftrightarrow> rs_on_drain st \<and> rs_active st \<and> rs_streaming st"

definition notify_stream_error :: "response_state \<Rightarrow> bool" where
  "notify_stream_error st \<longleftrightarrow> rs_on_error st"

definition response_reset :: "response_state \<Rightarrow> response_state" where
  "response_reset st =
     st\<lparr>rs_status := 200, rs_headers := [], rs_body := [], rs_ended := False, rs_deferred := False,
        rs_streaming := False, rs_headers_committed := False, rs_cancelled := False\<rparr>"

definition commit_headers :: "response_state \<Rightarrow> response_state" where
  "commit_headers st = st\<lparr>rs_headers_committed := True\<rparr>"

definition complete_stream :: "response_state \<Rightarrow> response_state" where
  "complete_stream st = (if \<not> rs_streaming st then st else rs_complete (st\<lparr>rs_streaming := False\<rparr>))"

section \<open>Deferred responses\<close>

text \<open>\<open>lock_active\<close> and the \<open>try_\<close> operations: the result says whether the response was active.\<close>

definition deferred_try :: "(response_state \<Rightarrow> res_result) \<Rightarrow> response_state \<Rightarrow> (res_exn \<times> response_state + response_state \<times> bool)" where
  "deferred_try f st =
     (if \<not> rs_active st then Inr (st, False)
      else case f st of Inl e \<Rightarrow> Inl e | Inr st \<Rightarrow> Inr (st, True))"

definition try_status :: "nat \<Rightarrow> response_state \<Rightarrow> (res_exn \<times> response_state + response_state \<times> bool)" where
  "try_status n = deferred_try (response_status n)"

definition try_header :: "string \<Rightarrow> string \<Rightarrow> response_state \<Rightarrow> (res_exn \<times> response_state + response_state \<times> bool)" where
  "try_header name v = deferred_try (response_header name v)"

definition try_type :: "string \<Rightarrow> response_state \<Rightarrow> (res_exn \<times> response_state + response_state \<times> bool)" where
  "try_type content_type = try_header ''content-type'' content_type"

definition try_text :: "string \<Rightarrow> response_state \<Rightarrow> (res_exn \<times> response_state + response_state \<times> bool)" where
  "try_text body = deferred_try (response_text body)"

definition try_json :: "string \<Rightarrow> response_state \<Rightarrow> (res_exn \<times> response_state + response_state \<times> bool)" where
  "try_json serialized_json = deferred_try (response_json serialized_json)"

definition try_bytes :: "string \<Rightarrow> response_state \<Rightarrow> (res_exn \<times> response_state + response_state \<times> bool)" where
  "try_bytes body = deferred_try (response_bytes body)"

definition try_end :: "response_state \<Rightarrow> (res_exn \<times> response_state + response_state \<times> bool)" where
  "try_end = deferred_try response_end"

text \<open>The operations of \<open>deferred_response\<close> that ignore the answer.\<close>

definition deferred_void :: "(res_exn \<times> response_state + response_state \<times> bool) \<Rightarrow> res_result" where
  "deferred_void r = map_sum id fst r"

definition deferred_on_cancel :: "response_state \<Rightarrow> response_state" where
  "deferred_on_cancel st = (if rs_active st then st\<lparr>rs_on_cancel := True\<rparr> else st)"

section \<open>Streaming responses\<close>

definition stream_lock :: "response_state \<Rightarrow> bool" where
  "stream_lock st \<longleftrightarrow> rs_active st \<and> rs_streaming st"

definition streaming_status :: "nat \<Rightarrow> response_state \<Rightarrow> res_result" where
  "streaming_status n st = (if stream_lock st then response_status n st else Inr st)"

definition streaming_header :: "string \<Rightarrow> string \<Rightarrow> response_state \<Rightarrow> res_result" where
  "streaming_header name v st = (if stream_lock st then response_header name v st else Inr st)"

definition streaming_on_cancel :: "response_state \<Rightarrow> response_state" where
  "streaming_on_cancel st = (if stream_lock st then st\<lparr>rs_on_cancel := True\<rparr> else st)"

definition streaming_on_drain :: "response_state \<Rightarrow> response_state" where
  "streaming_on_drain st = (if stream_lock st then st\<lparr>rs_on_drain := True\<rparr> else st)"

definition streaming_on_error :: "response_state \<Rightarrow> response_state" where
  "streaming_on_error st = (if stream_lock st then st\<lparr>rs_on_error := True\<rparr> else st)"

record sse_options =
  no_cache :: bool
  x_accel_buffering_no :: bool

definition response_sse :: "sse_options \<Rightarrow> response_state \<Rightarrow> res_result" where
  "response_sse opts st =
     (case response_stream st of
        Inl e \<Rightarrow> Inl e
      | Inr st \<Rightarrow>
          (case streaming_header ''content-type'' ''text/event-stream; charset=utf-8'' st of
             Inl e \<Rightarrow> Inl e
           | Inr st \<Rightarrow>
               (case (if no_cache opts then streaming_header ''cache-control'' ''no-cache'' st else Inr st) of
                  Inl e \<Rightarrow> Inl e
                | Inr st \<Rightarrow>
                    if x_accel_buffering_no opts then streaming_header ''x-accel-buffering'' ''no'' st else Inr st)))"

section \<open>Server-sent events\<close>

definition contains_invalid_sse_field_byte :: "string \<Rightarrow> bool" where
  "contains_invalid_sse_field_byte v = list_ex (\<lambda>c. c = CHR 0x0D \<or> c = CHR 0x0A \<or> c = CHR 0x00) v"

definition append_sse_field_line :: "string \<Rightarrow> string \<Rightarrow> string" where
  "append_sse_field_line field v = field @ '':'' @ (if v \<noteq> [] then CHR '' '' # v else []) @ [CHR 0x0A]"

definition append_sse_comment_line :: "string \<Rightarrow> string" where
  "append_sse_comment_line v = '':'' @ (if v \<noteq> [] then CHR '' '' # v else []) @ [CHR 0x0A]"

definition line_break :: "char \<Rightarrow> bool" where
  "line_break c \<longleftrightarrow> c = CHR 0x0D \<or> c = CHR 0x0A"

text \<open>The lines \<open>append_split_sse_lines\<close> passes to its callback.\<close>

function split_sse_lines :: "string \<Rightarrow> string list" where
  "split_sse_lines v =
     (if v = [] then [[]]
      else
        let line = takeWhile (\<lambda>c. \<not> line_break c) v; rest = drop (length line) v
        in case rest of
             [] \<Rightarrow> [line]
           | c # t \<Rightarrow>
               line # split_sse_lines (if c = CHR 0x0D \<and> t \<noteq> [] \<and> hd t = CHR 0x0A then tl t else t))"
  by pat_completeness auto
termination
proof (relation "measure length")
  fix v line rest c t
  assume "v \<noteq> ([] :: string)" and "line = takeWhile (\<lambda>c. \<not> line_break c) v" and "rest = drop (length line) v"
    and "rest = c # t"
  then have "length (c # t) \<le> length v" by (metis diff_le_self length_drop)
  then show "(if c = CHR 0x0D \<and> t \<noteq> [] \<and> hd t = CHR 0x0A then tl t else t, v) \<in> measure length" by auto
qed simp

declare split_sse_lines.simps [simp del]

definition append_sse_data_lines :: "string \<Rightarrow> string" where
  "append_sse_data_lines bytes = concat (map (append_sse_field_line ''data'') (split_sse_lines bytes))"

definition append_sse_comment_lines :: "string \<Rightarrow> string" where
  "append_sse_comment_lines comment = concat (map append_sse_comment_line (split_sse_lines comment))"

record sse_event =
  sse_name :: string
  sse_id :: string
  sse_data :: string

text \<open>The frame \<open>send\<close> writes, or \<open>None\<close> when it refuses the event.\<close>

definition sse_send :: "sse_event \<Rightarrow> string option" where
  "sse_send ev =
     (if contains_invalid_sse_field_byte (sse_name ev) \<or> contains_invalid_sse_field_byte (sse_id ev) then None
      else Some
        ((if sse_name ev \<noteq> [] then append_sse_field_line ''event'' (sse_name ev) else []) @
         (if sse_id ev \<noteq> [] then append_sse_field_line ''id'' (sse_id ev) else []) @
         append_sse_data_lines (sse_data ev) @ [CHR 0x0A]))"

definition sse_comment :: "string \<Rightarrow> string" where
  "sse_comment v = append_sse_comment_lines v @ [CHR 0x0A]"

definition max_sse_retry_delay :: int where
  "max_sse_retry_delay = 24 * 365 * 3600 * 1000"

definition sse_retry :: "int \<Rightarrow> string option" where
  "sse_retry v =
     (if v \<le> 0 \<or> v > max_sse_retry_delay then None
      else Some (''retry: '' @ print_number 10 (nat v) @ [CHR 0x0A, CHR 0x0A]))"

section \<open>Writes of a streaming response\<close>

datatype stream_error = Not_connected | Operation_not_supported | Operation_would_block | Invalid_argument_code

record stream_write_result =
  accepted :: bool
  should_continue :: bool
  write_error :: "stream_error option"

definition swr_ready :: stream_write_result where
  "swr_ready = \<lparr>accepted = True, should_continue = True, write_error = None\<rparr>"

definition swr_backpressure :: stream_write_result where
  "swr_backpressure = \<lparr>accepted = True, should_continue = False, write_error = None\<rparr>"

definition swr_rejected :: "stream_error \<Rightarrow> stream_write_result" where
  "swr_rejected e = \<lparr>accepted = False, should_continue = False, write_error = Some e\<rparr>"

text \<open>
  The server installs \<open>on_stream_write\<close>; it is a parameter here, \<open>None\<close> when no server is attached, and
  threads the state of the session \<open>w\<close> it writes to.
\<close>

definition streaming_write ::
    "('w \<Rightarrow> string \<Rightarrow> 'w \<times> stream_write_result) option \<Rightarrow> response_state \<Rightarrow> 'w \<Rightarrow> string \<Rightarrow> 'w \<times> stream_write_result" where
  "streaming_write on_stream_write st w chunk =
     (if \<not> stream_lock st then (w, swr_rejected Not_connected)
      else case on_stream_write of
             None \<Rightarrow> (w, swr_rejected Operation_not_supported)
           | Some f \<Rightarrow> f w chunk)"

definition sse_write ::
    "('w \<Rightarrow> string \<Rightarrow> 'w \<times> stream_write_result) option \<Rightarrow> response_state \<Rightarrow> 'w \<Rightarrow> string option \<Rightarrow> 'w \<times> stream_write_result" where
  "sse_write on_stream_write st w frame =
     (case frame of
        None \<Rightarrow> (w, swr_rejected Invalid_argument_code)
      | Some bytes \<Rightarrow> streaming_write on_stream_write st w bytes)"

section \<open>Responses end once\<close>

datatype res_op =
    Op_status nat | Op_header string string | Op_text string | Op_json string | Op_bytes string
  | Op_end | Op_defer | Op_stream | Op_sse sse_options | Op_cancel | Op_commit | Op_complete_stream
  | Op_try_status nat | Op_try_header string string | Op_try_type string | Op_try_text string
  | Op_try_json string | Op_try_bytes string | Op_try_end | Op_stream_status nat | Op_stream_header string string
  | Op_on_cancel | Op_on_drain | Op_on_error | Op_reset

fun res_op_result :: "res_op \<Rightarrow> response_state \<Rightarrow> res_result" where
  "res_op_result (Op_status n) st = response_status n st"
| "res_op_result (Op_header n v) st = response_header n v st"
| "res_op_result (Op_text b) st = response_text b st"
| "res_op_result (Op_json b) st = response_json b st"
| "res_op_result (Op_bytes b) st = response_bytes b st"
| "res_op_result Op_end st = response_end st"
| "res_op_result Op_defer st = response_defer st"
| "res_op_result Op_stream st = response_stream st"
| "res_op_result (Op_sse opts) st = response_sse opts st"
| "res_op_result Op_cancel st = Inr (fst (rs_cancel st))"
| "res_op_result Op_commit st = Inr (commit_headers st)"
| "res_op_result Op_complete_stream st = Inr (complete_stream st)"
| "res_op_result (Op_try_status n) st = deferred_void (try_status n st)"
| "res_op_result (Op_try_header n v) st = deferred_void (try_header n v st)"
| "res_op_result (Op_try_type t) st = deferred_void (try_type t st)"
| "res_op_result (Op_try_text b) st = deferred_void (try_text b st)"
| "res_op_result (Op_try_json b) st = deferred_void (try_json b st)"
| "res_op_result (Op_try_bytes b) st = deferred_void (try_bytes b st)"
| "res_op_result Op_try_end st = deferred_void (try_end st)"
| "res_op_result (Op_stream_status n) st = streaming_status n st"
| "res_op_result (Op_stream_header n v) st = streaming_header n v st"
| "res_op_result Op_on_cancel st = Inr (deferred_on_cancel st)"
| "res_op_result Op_on_drain st = Inr (streaming_on_drain st)"
| "res_op_result Op_on_error st = Inr (streaming_on_error st)"
| "res_op_result Op_reset st = Inr (response_reset st)"

definition res_step :: "response_state \<Rightarrow> res_op \<Rightarrow> response_state" where
  "res_step st op = (case res_op_result op st of Inl (e, st) \<Rightarrow> st | Inr st \<Rightarrow> st)"

definition res_inv :: "response_state \<Rightarrow> bool" where
  "res_inv st \<longleftrightarrow>
     \<not> (rs_ended st \<and> rs_cancelled st) \<and> \<not> (rs_ended st \<and> rs_streaming st) \<and>
     \<not> (rs_deferred st \<and> rs_streaming st) \<and> (rs_deferred st \<longrightarrow> rs_active st) \<and>
     100 \<le> rs_status st \<and> rs_status st \<le> 999"

lemmas rs_defs = rs_complete_def rs_cancel_def rs_active_def stream_lock_def

definition leaves_inv :: "res_result \<Rightarrow> bool" where
  "leaves_inv r \<longleftrightarrow> (case r of Inl (e, st) \<Rightarrow> res_inv st | Inr st \<Rightarrow> res_inv st)"

lemma leaves_inv_simps [simp]: "leaves_inv (Inl (e, st)) = res_inv st" "leaves_inv (Inr st) = res_inv st"
  by (simp_all add: leaves_inv_def)

lemma leaves_inv_bind:
  "leaves_inv r \<Longrightarrow> (\<And>st. res_inv st \<Longrightarrow> leaves_inv (f st)) \<Longrightarrow>
    leaves_inv (case r of Inl e \<Rightarrow> Inl e | Inr st \<Rightarrow> f st)"
  by (auto split: sum.splits)

lemma res_inv_body [simp]: "res_inv (st\<lparr>rs_body := b\<rparr>) = res_inv st"
  and res_inv_headers [simp]: "res_inv (st\<lparr>rs_headers := h\<rparr>) = res_inv st"
  and res_inv_commit [simp]: "res_inv (st\<lparr>rs_headers_committed := c\<rparr>) = res_inv st"
  and res_inv_on_cancel [simp]: "res_inv (st\<lparr>rs_on_cancel := c\<rparr>) = res_inv st"
  and res_inv_on_drain [simp]: "res_inv (st\<lparr>rs_on_drain := c\<rparr>) = res_inv st"
  and res_inv_on_error [simp]: "res_inv (st\<lparr>rs_on_error := c\<rparr>) = res_inv st"
  by (simp_all add: res_inv_def rs_active_def)

lemma rs_complete_inv: "res_inv st \<Longrightarrow> \<not> rs_streaming st \<Longrightarrow> res_inv (rs_complete st)"
  by (auto simp: res_inv_def rs_defs)

lemma rs_cancel_inv: "res_inv st \<Longrightarrow> res_inv (fst (rs_cancel st))"
  by (auto simp: res_inv_def rs_defs)

lemma response_status_inv: "res_inv st \<Longrightarrow> leaves_inv (response_status n st)"
  by (auto simp: response_status_def res_inv_def rs_active_def)

lemma response_header_inv: "res_inv st \<Longrightarrow> leaves_inv (response_header n v st)"
  by (simp add: response_header_def)

lemma response_end_inv: "res_inv st \<Longrightarrow> leaves_inv (response_end st)"
  by (simp add: response_end_def rs_complete_inv)

lemma typed_body_inv: "res_inv st \<Longrightarrow> leaves_inv (typed_body t b st)"
  by (auto simp: typed_body_def response_type_def intro!: leaves_inv_bind response_header_inv response_end_inv)

lemma response_defer_inv: "res_inv st \<Longrightarrow> leaves_inv (response_defer st)"
  by (auto simp: response_defer_def res_inv_def rs_active_def)

lemma response_stream_inv: "res_inv st \<Longrightarrow> leaves_inv (response_stream st)"
  by (auto simp: response_stream_def res_inv_def rs_active_def)

lemma streaming_header_inv: "res_inv st \<Longrightarrow> leaves_inv (streaming_header n v st)"
  by (simp add: streaming_header_def response_header_inv)

lemma response_sse_inv: "res_inv st \<Longrightarrow> leaves_inv (response_sse opts st)"
  unfolding response_sse_def
  by (intro leaves_inv_bind response_stream_inv) (simp_all add: streaming_header_inv)

lemma complete_stream_inv: "res_inv st \<Longrightarrow> res_inv (complete_stream st)"
  by (auto simp: complete_stream_def res_inv_def rs_defs)

lemma deferred_try_inv:
  "res_inv st \<Longrightarrow> leaves_inv (f st) \<Longrightarrow> leaves_inv (deferred_void (deferred_try f st))"
  by (auto simp: deferred_void_def deferred_try_def split: sum.splits)

lemma response_reset_inv: "res_inv (response_reset st)"
  by (simp add: response_reset_def res_inv_def rs_active_def)

lemmas res_op_inv = response_status_inv response_header_inv response_end_inv typed_body_inv response_defer_inv
  response_stream_inv streaming_header_inv response_sse_inv complete_stream_inv deferred_try_inv
  response_reset_inv rs_cancel_inv

lemma res_op_result_inv: "res_inv st \<Longrightarrow> leaves_inv (res_op_result op st)"
  by (cases op)
    (simp_all add: res_op_inv try_status_def try_header_def try_type_def try_text_def try_json_def try_bytes_def try_end_def response_text_def response_json_def response_bytes_def commit_headers_def
      streaming_status_def deferred_on_cancel_def streaming_on_drain_def streaming_on_error_def)

interpretation res_run: inv_machine res_step res_inv
proof
  fix st op
  assume "res_inv st"
  then have "leaves_inv (res_op_result op st)" by (rule res_op_result_inv)
  then show "res_inv (res_step st op)" by (auto simp: res_step_def split: sum.splits)
qed

lemma new_response_inv: "res_inv new_response"
  by (simp add: res_inv_def new_response_def rs_active_def)

text \<open>C29: Whatever operations an application performs on a response, its deferred handle and its stream, throwing
  ones included, the response is never both ended and cancelled, an ended response is no longer streaming, a
  response is not claimed by a deferred handle and a stream at once, a deferred response is still active, and
  its status is a three-digit code.
\<close>

theorem response_states: "res_inv (foldl res_step new_response ops)"
  by (rule res_run.run_inv [OF new_response_inv])

section \<open>A client of server-sent events\<close>

text \<open>
  The reference: what the event stream format says a client does with the bytes. A stream is cut into lines
  at CR LF, LF or CR; an unfinished last line is dropped.
\<close>

fun es_lines :: "string \<Rightarrow> string \<Rightarrow> string list" where
  "es_lines cur [] = []"
| "es_lines cur (c # t) =
     (if c = CHR 0x0A then cur # es_lines [] t
      else if c = CHR 0x0D then cur # (case t of [] \<Rightarrow> [] | d # u \<Rightarrow> if d = CHR 0x0A then es_lines [] u else es_lines [] t)
      else es_lines (cur @ [c]) t)"

record es_state =
  es_event :: string
  es_data :: string
  es_last_id :: string

definition es_field :: "string \<Rightarrow> string \<Rightarrow> es_state \<Rightarrow> es_state" where
  "es_field name v st =
     (if name = ''event'' then st\<lparr>es_event := v\<rparr>
      else if name = ''data'' then st\<lparr>es_data := es_data st @ v @ [CHR 0x0A]\<rparr>
      else if name = ''id'' \<and> CHR 0x00 \<notin> set v then st\<lparr>es_last_id := v\<rparr>
      else st)"

definition es_line :: "string \<Rightarrow> es_state \<Rightarrow> es_state \<times> sse_event list" where
  "es_line line st =
     (if line = [] then
        (st\<lparr>es_event := [], es_data := []\<rparr>,
         if es_data st = [] then []
         else [\<lparr>sse_name = es_event st, sse_id = es_last_id st, sse_data = butlast (es_data st)\<rparr>])
      else if hd line = CHR '':'' then (st, [])
      else
        let name = takeWhile (\<lambda>c. c \<noteq> CHR '':'') line; rest = drop (length name + 1) line
        in (es_field name (if rest \<noteq> [] \<and> hd rest = CHR '' '' then tl rest else rest) st, []))"

fun es_run :: "es_state \<Rightarrow> string list \<Rightarrow> sse_event list" where
  "es_run st [] = []"
| "es_run st (line # ls) = (case es_line line st of (st, evs) \<Rightarrow> evs @ es_run st ls)"

definition es_decode :: "string \<Rightarrow> sse_event list" where
  "es_decode bytes = es_run \<lparr>es_event = [], es_data = [], es_last_id = []\<rparr> (es_lines [] bytes)"

text \<open>What a client is meant to see: newlines of the data normalised, the last identifier kept.\<close>

fun normalise_newlines :: "string \<Rightarrow> string" where
  "normalise_newlines [] = []"
| "normalise_newlines (c # t) =
     (if c = CHR 0x0D
      then CHR 0x0A # (case t of [] \<Rightarrow> [] | d # u \<Rightarrow> if d = CHR 0x0A then normalise_newlines u else normalise_newlines t)
      else c # normalise_newlines t)"

fun es_seen :: "string \<Rightarrow> sse_event list \<Rightarrow> sse_event list" where
  "es_seen last_id [] = []"
| "es_seen last_id (ev # evs) =
     (let i = (if sse_id ev = [] then last_id else sse_id ev)
      in ev\<lparr>sse_id := i, sse_data := normalise_newlines (sse_data ev)\<rparr> # es_seen i evs)"

lemma takeWhile_append_stop: "\<forall>x\<in>set xs. P x \<Longrightarrow> \<not> P y \<Longrightarrow> takeWhile P (xs @ y # ys) = xs"
  by (induction xs) auto

definition as_lines :: "string list \<Rightarrow> string" where
  "as_lines ls = concat (map (\<lambda>l. l @ [CHR 0x0A]) ls)"

lemma as_lines_simps [simp]:
  "as_lines [] = []" "as_lines (l # ls) = l @ CHR 0x0A # as_lines ls"
  "as_lines (ls @ ls') = as_lines ls @ as_lines ls'"
  by (simp_all add: as_lines_def)

definition one_line :: "string \<Rightarrow> bool" where
  "one_line l \<longleftrightarrow> (\<forall>c \<in> set l. \<not> line_break c)"

lemma one_line_append [simp]: "one_line (a @ b) \<longleftrightarrow> one_line a \<and> one_line b"
  by (auto simp: one_line_def)

lemma one_line_Cons [simp]: "one_line (c # b) \<longleftrightarrow> \<not> line_break c \<and> one_line b" and one_line_Nil [simp]: "one_line []"
  by (auto simp: one_line_def)

lemma es_lines_line: "one_line l \<Longrightarrow> es_lines cur (l @ CHR 0x0A # t) = (cur @ l) # es_lines [] t"
  by (induction l arbitrary: cur) (auto simp: line_break_def)

lemma es_lines_as_lines: "list_all one_line ls \<Longrightarrow> es_lines [] (as_lines ls @ t) = ls @ es_lines [] t"
  by (induction ls) (simp_all add: es_lines_line)

lemma split_sse_lines_one_line: "list_all one_line (split_sse_lines v)"
proof (induction v rule: split_sse_lines.induct)
  case (1 v)
  have "one_line (takeWhile (\<lambda>c. \<not> line_break c) v)"
    by (auto simp: one_line_def dest: set_takeWhileD)
  with 1 show ?case
    by (subst split_sse_lines.simps) (auto simp: Let_def split: list.splits)
qed

lemma normalise_one_line: "one_line l \<Longrightarrow> normalise_newlines (l @ t) = l @ normalise_newlines t"
  by (induction l) (auto simp: line_break_def)

lemma split_sse_lines_normal: "as_lines (split_sse_lines v) = normalise_newlines v @ [CHR 0x0A]"
proof (induction v rule: split_sse_lines.induct)
  case (1 v)
  let ?l = "takeWhile (\<lambda>c. \<not> line_break c) v" and ?r = "dropWhile (\<lambda>c. \<not> line_break c) v"
  have split: "v = ?l @ ?r" by simp
  have r: "drop (length ?l) v = ?r" by (simp only: dropWhile_eq_drop)
  have l: "one_line ?l" by (auto simp: one_line_def dest: set_takeWhileD)
  show ?case
  proof (cases "v = []")
    case True then show ?thesis by (simp add: split_sse_lines.simps)
  next
    case False
    show ?thesis
    proof (cases ?r)
      case Nil
      then have whole: "?l = v" using split by simp
      have "split_sse_lines v = [v]" using False by (subst split_sse_lines.simps) (simp add: Let_def whole)
      then show ?thesis using normalise_one_line [OF l, of "[]"] whole by simp
    next
      case (Cons c t)
      then have br: "line_break c" by (metis hd_dropWhile list.distinct(1) list.sel(1))
      have ih: "as_lines (split_sse_lines (if c = CHR 0x0D \<and> t \<noteq> [] \<and> hd t = CHR 0x0A then tl t else t)) =
          normalise_newlines (if c = CHR 0x0D \<and> t \<noteq> [] \<and> hd t = CHR 0x0A then tl t else t) @ [CHR 0x0A]"
        using "1.IH" [OF False refl] Cons r by simp
      have "normalise_newlines v = ?l @ CHR 0x0A #
          normalise_newlines (if c = CHR 0x0D \<and> t \<noteq> [] \<and> hd t = CHR 0x0A then tl t else t)"
      proof -
        have "normalise_newlines v = ?l @ normalise_newlines (c # t)"
          using normalise_one_line [OF l, of ?r] split Cons by metis
        moreover have "normalise_newlines (c # t) = CHR 0x0A #
            normalise_newlines (if c = CHR 0x0D \<and> t \<noteq> [] \<and> hd t = CHR 0x0A then tl t else t)"
          using br by (cases t) (auto simp: line_break_def)
        ultimately show ?thesis by simp
      qed
      moreover have "split_sse_lines v = ?l # split_sse_lines (if c = CHR 0x0D \<and> t \<noteq> [] \<and> hd t = CHR 0x0A then tl t else t)"
        using False Cons r by (subst split_sse_lines.simps) (simp add: Let_def)
      ultimately show ?thesis using ih by simp
    qed
  qed
qed

section \<open>Frames are read back\<close>

definition sse_field_line :: "string \<Rightarrow> string \<Rightarrow> string" where
  "sse_field_line field v = field @ '':'' @ (if v \<noteq> [] then CHR '' '' # v else [])"

lemma append_sse_field_line_as_lines: "append_sse_field_line field v = as_lines [sse_field_line field v]"
  by (simp add: append_sse_field_line_def sse_field_line_def)

lemma append_sse_data_lines_as_lines:
  "append_sse_data_lines v = as_lines (map (sse_field_line ''data'') (split_sse_lines v))"
proof -
  have "concat (map (append_sse_field_line ''data'') ls) = as_lines (map (sse_field_line ''data'') ls)" for ls
    by (induction ls) (simp_all add: append_sse_field_line_as_lines)
  then show ?thesis by (simp add: append_sse_data_lines_def)
qed

definition frame_lines :: "sse_event \<Rightarrow> string list" where
  "frame_lines ev =
     (if sse_name ev \<noteq> [] then [sse_field_line ''event'' (sse_name ev)] else []) @
     (if sse_id ev \<noteq> [] then [sse_field_line ''id'' (sse_id ev)] else []) @
     map (sse_field_line ''data'') (split_sse_lines (sse_data ev)) @ [[]]"

lemma sse_send_as_lines: "sse_send ev = Some frame \<Longrightarrow> frame = as_lines (frame_lines ev)"
  by (auto simp: sse_send_def frame_lines_def append_sse_data_lines_as_lines append_sse_field_line_as_lines
      split: if_splits)

lemma sse_field_line_one_line [simp]: "one_line field \<Longrightarrow> one_line v \<Longrightarrow> one_line (sse_field_line field v)"
  by (simp add: sse_field_line_def line_break_def)

lemma valid_field_one_line: "\<not> contains_invalid_sse_field_byte v \<Longrightarrow> one_line v \<and> CHR 0x00 \<notin> set v"
  by (auto simp: contains_invalid_sse_field_byte_def one_line_def line_break_def list_ex_iff)

lemma frame_lines_one_line:
  assumes "sse_send ev = Some frame"
  shows "list_all one_line (frame_lines ev)"
  using assms split_sse_lines_one_line [of "sse_data ev"]
  by (auto simp: frame_lines_def sse_send_def line_break_def list_all_iff dest!: valid_field_one_line split: if_splits)

lemma es_line_field:
  assumes "field \<noteq> []" and "CHR '':'' \<notin> set field"
  shows "es_line (sse_field_line field v) st = (es_field field v st, [])"
proof -
  have "takeWhile (\<lambda>c. c \<noteq> CHR '':'') (field @ CHR '':'' # r) = field" for r
    using assms by (intro takeWhile_append_stop) auto
  then show ?thesis using assms
    by (cases field) (auto simp: es_line_def sse_field_line_def Let_def)
qed

lemma es_run_data:
  "es_run st (map (sse_field_line ''data'') ls @ rest) = es_run (st\<lparr>es_data := es_data st @ as_lines ls\<rparr>) rest"
  by (induction ls arbitrary: st) (simp_all add: es_line_field es_field_def)

lemma es_run_frame:
  assumes "sse_send ev = Some frame"
  shows "es_run \<lparr>es_event = [], es_data = [], es_last_id = prev\<rparr> (frame_lines ev @ rest) =
    (let i = (if sse_id ev = [] then prev else sse_id ev)
     in ev\<lparr>sse_id := i, sse_data := normalise_newlines (sse_data ev)\<rparr> #
        es_run \<lparr>es_event = [], es_data = [], es_last_id = i\<rparr> rest)"
proof -
  have "CHR 0x00 \<notin> set (sse_id ev)"
    using assms by (auto simp: sse_send_def dest!: valid_field_one_line split: if_splits)
  moreover have "sse_name ev = n \<Longrightarrow> es_line [] \<lparr>es_event = n, es_data = as_lines (split_sse_lines (sse_data ev)), es_last_id = i\<rparr> =
      (\<lparr>es_event = [], es_data = [], es_last_id = i\<rparr>,
       [ev\<lparr>sse_id := i, sse_data := normalise_newlines (sse_data ev)\<rparr>])" for i n
    by (cases ev) (simp add: es_line_def split_sse_lines_normal)
  ultimately show ?thesis
    by (simp add: frame_lines_def es_line_field es_field_def es_run_data Let_def)
qed

lemma es_run_frames:
  assumes "list_all2 (\<lambda>ev frame. sse_send ev = Some frame) evs frames"
  shows "es_run \<lparr>es_event = [], es_data = [], es_last_id = prev\<rparr> (es_lines [] (concat frames)) = es_seen prev evs"
  using assms
proof (induction arbitrary: prev rule: list_all2_induct)
  case Nil
  show ?case by simp
next
  case (Cons ev evs frame frames)
  have "es_lines [] (frame @ concat frames) = frame_lines ev @ es_lines [] (concat frames)"
    using sse_send_as_lines [OF Cons.hyps(1)] es_lines_as_lines [OF frame_lines_one_line [OF Cons.hyps(1)]] by simp
  then show ?case using Cons.IH by (simp add: es_run_frame [OF Cons.hyps(1)] Let_def)
qed

text \<open>C23: The frames \<open>sse_stream::send\<close> writes are read by an event-stream client as exactly the events that were
  sent, in order: the name and the data of each, with CR LF and CR newlines of the data turned into LF, and
  the identifier, which persists when an event has none. No name, identifier or data can inject a field or
  another event.
\<close>

theorem sse_events_roundtrip:
  assumes "list_all2 (\<lambda>ev frame. sse_send ev = Some frame) evs frames"
  shows "es_decode (concat frames) = es_seen [] evs"
  using es_run_frames [OF assms] by (simp add: es_decode_def)

theorem sse_events_roundtrip_witness:
  "es_decode (concat [the (sse_send \<lparr>sse_name = ''tick'', sse_id = ''7'', sse_data = ''a'' @ [CHR 0x0D] @ ''data: b''\<rparr>),
      the (sse_send \<lparr>sse_name = [], sse_id = [], sse_data = []\<rparr>)]) =
    [\<lparr>sse_name = ''tick'', sse_id = ''7'', sse_data = ''a'' @ [CHR 0x0A] @ ''data: b''\<rparr>,
     \<lparr>sse_name = [], sse_id = ''7'', sse_data = []\<rparr>]"
proof -
  let ?a = "\<lparr>sse_name = ''tick'', sse_id = ''7'', sse_data = ''a'' @ [CHR 0x0D] @ ''data: b''\<rparr>"
  let ?b = "\<lparr>sse_name = [], sse_id = [], sse_data = []\<rparr>"
  have "sse_send ?a = Some (the (sse_send ?a))" and "sse_send ?b = Some (the (sse_send ?b))" by code_simp+
  then have "es_decode (concat [the (sse_send ?a), the (sse_send ?b)]) = es_seen [] [?a, ?b]"
    by (intro sse_events_roundtrip) (simp del: append_Cons)
  also have "\<dots> = [\<lparr>sse_name = ''tick'', sse_id = ''7'', sse_data = ''a'' @ [CHR 0x0A] @ ''data: b''\<rparr>,
      \<lparr>sse_name = [], sse_id = ''7'', sse_data = []\<rparr>]"
    by code_simp
  finally show ?thesis .
qed

end
