(* ===== verification/Router_Handlers.thy ===== *)
theory Router_Handlers
  imports Router_Mount_Props Multipart_Stream Request Response
begin

text \<open>
  The registration interface of \<open>include/uvpp/protocols/http/router.hpp\<close>: route options, body policies, groups and resources, and the
  wrappers that turn a handler for one kind of body into the handler a route stores. A handler is a function from its
  arguments and the response to what it does to the response. The JSON library is a parameter: \<open>parse\<close> reads a document
  and \<open>decode\<close> gets the value the route asks for out of it.
\<close>

section \<open>Options and policies\<close>

record route_options =
  ro_max_body_bytes :: nat
  ro_body_timeout :: int

definition default_route_options :: route_options where
  "default_route_options = \<lparr>ro_max_body_bytes = 0, ro_body_timeout = 0\<rparr>"

definition ro_set_max_body_bytes :: "nat \<Rightarrow> route_options \<Rightarrow> route_options" where
  "ro_set_max_body_bytes v opts = opts\<lparr>ro_max_body_bytes := v\<rparr>"

definition ro_set_body_timeout :: "int \<Rightarrow> route_options \<Rightarrow> string + route_options" where
  "ro_set_body_timeout v opts = (if v < 0 then Inl ''body_timeout must not be negative'' else Inr (opts\<lparr>ro_body_timeout := v\<rparr>))"

definition inherit_body_timeout :: "route_options \<Rightarrow> route_options" where
  "inherit_body_timeout opts = opts\<lparr>ro_body_timeout := 0\<rparr>"

datatype body_policy =
    Policy_none | Policy_bytes | Policy_text | Policy_json | Policy_stream
  | Policy_multipart_stream multipart_limits
  | Policy_multipart_form multipart_form_options

fun policy_mode :: "body_policy \<Rightarrow> body_mode" where
  "policy_mode Policy_none = body_none"
| "policy_mode Policy_bytes = body_bytes"
| "policy_mode Policy_text = body_text"
| "policy_mode Policy_json = body_json"
| "policy_mode Policy_stream = body_stream"
| "policy_mode (Policy_multipart_stream limits) = body_multipart_stream"
| "policy_mode (Policy_multipart_form opts) = body_multipart_form"

fun policy_body_limit :: "route_options \<Rightarrow> body_policy \<Rightarrow> nat" where
  "policy_body_limit opts Policy_none = 0"
| "policy_body_limit opts (Policy_multipart_stream limits) =
     (if ro_max_body_bytes opts = 0 then max_total_bytes limits else ro_max_body_bytes opts)"
| "policy_body_limit opts (Policy_multipart_form form_opts) =
     (if ro_max_body_bytes opts = 0 then max_total_bytes (form_limits form_opts) else ro_max_body_bytes opts)"
| "policy_body_limit opts policy = ro_max_body_bytes opts"

definition router_route ::
    "http_method \<Rightarrow> string \<Rightarrow> route_options \<Rightarrow> body_policy \<Rightarrow> handler \<Rightarrow> router \<Rightarrow> router \<times> (string + unit)" where
  "router_route m pattern opts policy h r =
     add_route m pattern (policy_mode policy) (policy_body_limit opts policy) (ro_body_timeout opts) h r"

text \<open>What a handler can be called with, in the order in which \<open>infer_body_policy\<close> asks.\<close>

record handler_shape =
  takes_nothing :: bool
  takes_bytes :: bool
  takes_text :: bool
  takes_stream :: bool

text \<open>\<open>None\<close> is a program that does not compile.\<close>

definition infer_body_policy :: "handler_shape \<Rightarrow> body_policy option" where
  "infer_body_policy shape =
     (if takes_nothing shape then Some Policy_none
      else if takes_bytes shape then Some Policy_bytes
      else if takes_text shape then Some Policy_text
      else if takes_stream shape then Some Policy_stream
      else None)"

section \<open>Groups and resources\<close>

record route_group =
  gr_prefix :: string

record route_resource =
  rc_pattern :: string

definition router_group :: "string \<Rightarrow> route_group" where
  "router_group prefix = \<lparr>gr_prefix = normalize_group_prefix prefix\<rparr>"

definition router_resource :: "string \<Rightarrow> route_resource" where
  "router_resource pattern = \<lparr>rc_pattern = join_route_pattern [] pattern\<rparr>"

definition group_pattern :: "route_group \<Rightarrow> string \<Rightarrow> string" where
  "group_pattern g pattern = join_route_pattern (gr_prefix g) pattern"

definition group_group :: "route_group \<Rightarrow> string \<Rightarrow> route_group" where
  "group_group g prefix = \<lparr>gr_prefix = group_pattern g prefix\<rparr>"

definition group_resource :: "route_group \<Rightarrow> string \<Rightarrow> route_resource" where
  "group_resource g pattern = \<lparr>rc_pattern = group_pattern g pattern\<rparr>"

definition group_route ::
    "route_group \<Rightarrow> http_method \<Rightarrow> string \<Rightarrow> route_options \<Rightarrow> body_policy \<Rightarrow> handler \<Rightarrow> router \<Rightarrow> router \<times> (string + unit)" where
  "group_route g m pattern opts policy h r = router_route m (group_pattern g pattern) opts policy h r"

definition resource_route ::
    "route_resource \<Rightarrow> http_method \<Rightarrow> route_options \<Rightarrow> body_policy \<Rightarrow> handler \<Rightarrow> router \<Rightarrow> router \<times> (string + unit)" where
  "resource_route rc m opts policy h r = router_route m (rc_pattern rc) opts policy h r"

definition group_mount :: "route_group \<Rightarrow> bool \<Rightarrow> string \<Rightarrow> router \<Rightarrow> router \<Rightarrow> (router \<times> router) \<times> (string + unit)" where
  "group_mount g same prefix mounted r = mount same (group_pattern g prefix) mounted r"

definition group_on_request :: "route_group \<Rightarrow> handler \<Rightarrow> router \<Rightarrow> router \<times> (string + unit)" where
  "group_on_request g h r = add_on_request_hook (gr_prefix g) h r"

definition group_pre_handler :: "route_group \<Rightarrow> handler \<Rightarrow> router \<Rightarrow> router \<times> (string + unit)" where
  "group_pre_handler g h r = add_pre_handler_hook (gr_prefix g) h r"

definition group_on_response :: "route_group \<Rightarrow> handler \<Rightarrow> router \<Rightarrow> router \<times> (string + unit)" where
  "group_on_response g h r = add_on_response_hook (gr_prefix g) h r"

definition group_not_found :: "route_group \<Rightarrow> handler \<Rightarrow> router \<Rightarrow> router \<times> (string + unit)" where
  "group_not_found g h r = add_not_found_handler (gr_prefix g) h r"

definition group_on_exception :: "route_group \<Rightarrow> handler \<Rightarrow> router \<Rightarrow> router \<times> (string + unit)" where
  "group_on_exception g h r = add_exception_handler (gr_prefix g) h r"

section \<open>Wrapped handlers\<close>

definition wrap_none_handler :: "(request \<Rightarrow> response_state \<Rightarrow> res_result) \<Rightarrow> request \<Rightarrow> string \<Rightarrow> response_state \<Rightarrow> res_result" where
  "wrap_none_handler h req body res = h req res"

text \<open>The body of a text handler is that of a bytes handler, read as characters.\<close>

definition wrap_bytes_handler :: "(request \<Rightarrow> string \<Rightarrow> response_state \<Rightarrow> res_result) \<Rightarrow> request \<Rightarrow> string \<Rightarrow> response_state \<Rightarrow> res_result" where
  "wrap_bytes_handler h req body res = h req body res"

definition status_text :: "nat \<Rightarrow> string \<Rightarrow> response_state \<Rightarrow> res_result" where
  "status_text n body res = (case response_status n res of Inl e \<Rightarrow> Inl e | Inr res \<Rightarrow> response_text body res)"

definition ascii_iends_with :: "string \<Rightarrow> string \<Rightarrow> bool" where
  "ascii_iends_with v suffix \<longleftrightarrow> length v \<ge> length suffix \<and> ascii_iequals (drop (length v - length suffix) v) suffix"

definition is_json_content_type :: "string \<Rightarrow> bool" where
  "is_json_content_type content_type =
     (let media_type = trim_ows (sv_until content_type (sv_find (CHR '';'') content_type))
      in if media_type = [] then False
         else if ascii_iequals media_type ''application/json'' then True
         else case sv_find (CHR ''/'') media_type of
                None \<Rightarrow> False
              | Some i \<Rightarrow> i + 1 < length media_type \<and> ascii_iends_with (drop (i + 1) media_type) ''+json'')"

definition wrap_json_handler ::
    "(string \<Rightarrow> 'j option) \<Rightarrow> ('j \<Rightarrow> 'v option) \<Rightarrow> (request \<Rightarrow> 'v \<Rightarrow> response_state \<Rightarrow> res_result) \<Rightarrow>
       request \<Rightarrow> string \<Rightarrow> response_state \<Rightarrow> res_result" where
  "wrap_json_handler parse decode h req body res =
     (if \<not> is_json_content_type (rq_header req ''content-type'') then status_text 415 (''unsupported media type'' @ [CHR 0x0A]) res
      else case parse body of
             None \<Rightarrow> status_text 400 (''invalid json'' @ [CHR 0x0A]) res
           | Some parsed \<Rightarrow>
               (case decode parsed of
                  None \<Rightarrow> status_text 422 (''invalid json body'' @ [CHR 0x0A]) res
                | Some v \<Rightarrow> h req v res))"

definition multipart_error_status :: "errc error \<Rightarrow> nat" where
  "multipart_error_status e =
     (if code e = unsupported_media_type then 415 else if code e = multipart_limit_exceeded then 413 else 400)"

definition wrap_multipart_form_handler ::
    "multipart_form_options \<Rightarrow> (request \<Rightarrow> multipart_form \<Rightarrow> response_state \<Rightarrow> res_result) \<Rightarrow> request \<Rightarrow> string \<Rightarrow> response_state \<Rightarrow> res_result" where
  "wrap_multipart_form_handler opts h req body res =
     (case parse_multipart_form (rq_header req ''content-type'') body opts of
        Inl e \<Rightarrow> status_text (multipart_error_status e) (detail e @ [CHR 0x0A]) res
      | Inr form \<Rightarrow> h req form res)"

text \<open>The handler of a multipart stream returns its stream and whether it has set an error handler on it.\<close>

definition wrap_multipart_stream_handler ::
    "multipart_limits \<Rightarrow> (request \<Rightarrow> multipart_stream_state \<Rightarrow> response_state \<Rightarrow> res_exn \<times> response_state + response_state \<times> bool) \<Rightarrow>
       request \<Rightarrow> response_state \<Rightarrow> res_result" where
  "wrap_multipart_stream_handler limits h req res =
     (let multipart = new_stream (rq_header req ''content-type'') limits
      in case st_construction_error multipart of
           Some e \<Rightarrow> status_text (multipart_error_status e) (detail e @ [CHR 0x0A]) res
         | None \<Rightarrow>
             (case h req multipart res of
                Inl e \<Rightarrow> Inl e
              | Inr (res, has_error_handler) \<Rightarrow>
                  if \<not> has_error_handler \<and> \<not> rs_ended res \<and> \<not> rs_streaming res
                  then status_text 500 (''multipart on_error handler required'' @ [CHR 0x0A]) res
                  else Inr res))"

datatype hook_result = Hook_next | Hook_stop

text \<open>A hook that returns nothing goes on.\<close>

definition wrap_hook :: "('s \<Rightarrow> 's \<times> hook_result option) \<Rightarrow> 's \<Rightarrow> 's \<times> hook_result" where
  "wrap_hook h s = (case h s of (s, None) \<Rightarrow> (s, Hook_next) | (s, Some r) \<Rightarrow> (s, r))"

section \<open>Where a group registers\<close>

lemma path_labels_join: "path_labels m (join_route_pattern prefix pattern) = path_labels m prefix @ path_labels m pattern"
  by (simp add: path_labels_def)

lemma group_pattern_labels:
  assumes "list_all decodable (path_segments (gr_prefix g))" "list_all decodable (path_segments pattern)"
  shows "pattern_labels m (group_pattern g pattern) = path_labels m (gr_prefix g) @ path_labels m pattern"
  using assms pattern_labels_path [of "group_pattern g pattern"] by (simp add: group_pattern_def path_labels_join)

text \<open>A group in a group is the group of the joined prefixes.\<close>

lemma nested_group_labels:
  "path_labels m (gr_prefix (group_group (router_group outer) inner)) = path_labels m outer @ path_labels m inner"
  by (simp add: group_group_def group_pattern_def router_group_def path_labels_def)

text \<open>A route of a group is registered below the labels of its prefix, and of a resource under its pattern.\<close>

lemma group_route_registered:
  assumes "wf_router r" and "group_route (group_group (router_group outer) inner) m pattern opts policy h r = (r', Inr ())"
  shows "\<exists>t. routes r' m (path_labels (matching r) outer @ path_labels (matching r) inner @ path_labels (matching r) pattern) = Some t
    \<and> rt_handler t = h \<and> rt_body t = policy_mode policy \<and> rt_max_body_bytes t = policy_body_limit opts policy"
proof -
  let ?g = "group_group (router_group outer) inner"
  have run: "add_route m (group_pattern ?g pattern) (policy_mode policy) (policy_body_limit opts policy) (ro_body_timeout opts) h r = (r', Inr ())"
    using assms(2) by (simp add: group_route_def router_route_def)
  have "valid (parse_route_path (join_route_pattern [] (group_pattern ?g pattern)))"
    using run by (auto simp: add_route_def Let_def split: if_splits)
  then have "list_all decodable (path_segments (gr_prefix ?g))" "list_all decodable (path_segments pattern)"
    by (simp_all add: parse_route_path_segments group_pattern_def)
  then have "pattern_labels (matching r) (group_pattern ?g pattern) =
      path_labels (matching r) outer @ path_labels (matching r) inner @ path_labels (matching r) pattern"
    by (simp add: group_pattern_labels nested_group_labels)
  then show ?thesis using add_route_stored [OF assms(1) run] by (simp add: new_target_def)
qed

section \<open>JSON bodies\<close>

text \<open>The parameters of a content type, and the white space before them, do not matter.\<close>

lemma trim_ows_trailing: "trim_ows (v @ '' '') = trim_ows v"
proof -
  have sp: "is_ows (CHR '' '')" by code_simp
  show ?thesis
  proof (cases "\<forall>c\<in>set v. is_ows c")
    case True
    then have "\<forall>c\<in>set (v @ '' ''). is_ows c" using sp by simp
    with True have "dropWhile is_ows (v @ '' '') = []" "dropWhile is_ows v = []"
      by (simp_all only: dropWhile_eq_Nil_conv simp_thms)
    then show ?thesis unfolding trim_ows_def by (simp only:)
  next
    case False
    then obtain c where "c \<in> set v" "\<not> is_ows c" by blast
    then have "dropWhile is_ows (v @ '' '') = dropWhile is_ows v @ '' ''" by (rule dropWhile_append1)
    then show ?thesis using sp by (simp add: trim_ows_def)
  qed
qed

lemma json_content_type_parameters:
  assumes "CHR '';'' \<notin> set media"
  shows "is_json_content_type (media @ '';'' @ parameters) = is_json_content_type media"
    and "is_json_content_type (media @ '' ;'' @ parameters) = is_json_content_type media"
proof -
  have "sv_until (media @ CHR '';'' # parameters) (sv_find (CHR '';'') (media @ CHR '';'' # parameters)) = media"
    using assms by (simp add: sv_until_def sv_find_append)
  moreover have "sv_until (media @ CHR '' '' # CHR '';'' # parameters) (sv_find (CHR '';'') (media @ CHR '' '' # CHR '';'' # parameters)) = media @ '' ''"
    using assms sv_find_append [of "CHR '';''" "media @ '' ''" parameters] by (simp add: sv_until_def)
  ultimately show "is_json_content_type (media @ '';'' @ parameters) = is_json_content_type media"
    and "is_json_content_type (media @ '' ;'' @ parameters) = is_json_content_type media"
    using assms by (simp_all add: is_json_content_type_def trim_ows_trailing sv_until_def)
qed

text \<open>A handler of JSON runs only on a body that was sent as JSON, parses and decodes; otherwise the response says which of the
  three failed, and is complete.\<close>

lemma wrap_json_handler_refuses:
  assumes "\<not> is_json_content_type (rq_header req ''content-type'') \<or> parse body = None \<or> decode (the (parse body)) = None"
  shows "\<exists>res. wrap_json_handler parse decode h req body new_response = Inr res \<and> rs_ended res \<and>
    rs_status res = (if \<not> is_json_content_type (rq_header req ''content-type'') then 415 else if parse body = None then 400 else 422)"
  using assms
  by (auto simp: wrap_json_handler_def status_text_def response_status_def response_text_def typed_body_def response_type_def
      response_header_def response_end_def rs_complete_def rs_active_def new_response_def split: option.split)

end
