(* ===== verification/WebSocket_Frame.thy ===== *)
theory WebSocket_Frame
  imports Prelude "HOL-Library.Word"
begin

text \<open>
  Frames of \<open>src/websocket/session.cpp\<close>: the encoder \<open>make_frame\<close> with its big-endian length
  fields, the close payload and the close codes, and the decoding part of \<open>parse_frames\<close>, which
  reads one masked client frame from a buffer at an offset. A \<open>std::byte\<close> is an \<open>8 word\<close>, the
  frame length a \<open>64 word\<close> as in the opc; buffer sizes and offsets are natural numbers, since a
  vector is far shorter than \<open>2 ^ 64\<close> bytes.
\<close>

unbundle bit_operations_syntax

type_synonym byte = "8 word"

datatype opcode =
    op_continuation | op_text | op_binary | op_close | op_ping | op_pong

fun opcode_value :: "opcode \<Rightarrow> byte" where
  "opcode_value op_continuation = 0x0"
| "opcode_value op_text = 0x1"
| "opcode_value op_binary = 0x2"
| "opcode_value op_close = 0x8"
| "opcode_value op_ping = 0x9"
| "opcode_value op_pong = 0xA"

text \<open>The enumerator a raw opcode is cast to; \<open>None\<close> for a value with no enumerator.\<close>

definition opcode_of :: "byte \<Rightarrow> opcode option" where
  "opcode_of raw =
     find (\<lambda>opc. opcode_value opc = raw)
       [op_continuation, op_text, op_binary, op_close, op_ping, op_pong]"

datatype ws_errc = protocol_error | not_connected | message_size | operation_would_block | stream_errc int

datatype close_code =
    close_normal | close_going_away | close_protocol_error | close_unsupported_data
  | close_invalid_payload | close_policy_violation | close_message_too_large
  | close_mandatory_extension | close_internal_error

fun close_code_value :: "close_code \<Rightarrow> 16 word" where
  "close_code_value close_normal = 1000"
| "close_code_value close_going_away = 1001"
| "close_code_value close_protocol_error = 1002"
| "close_code_value close_unsupported_data = 1003"
| "close_code_value close_invalid_payload = 1007"
| "close_code_value close_policy_violation = 1008"
| "close_code_value close_message_too_large = 1009"
| "close_code_value close_mandatory_extension = 1010"
| "close_code_value close_internal_error = 1011"

section \<open>Encoding\<close>

definition append_u16 :: "byte list \<Rightarrow> 16 word \<Rightarrow> byte list" where
  "append_u16 output v = output @ [ucast (drop_bit 8 v AND 0xff), ucast (v AND 0xff)]"

definition append_u64 :: "byte list \<Rightarrow> 64 word \<Rightarrow> byte list" where
  "append_u64 output v =
     output @ map (\<lambda>shift. ucast (drop_bit shift v AND 0xff)) [56, 48, 40, 32, 24, 16, 8, 0]"

definition make_frame :: "byte \<Rightarrow> byte list \<Rightarrow> byte list" where
  "make_frame opc payload =
     (let frame = [0x80 OR opc];
          frame = (if length payload \<le> 125 then frame @ [of_nat (length payload)]
                   else if length payload \<le> 65535
                   then append_u16 (frame @ [126]) (of_nat (length payload))
                   else append_u64 (frame @ [127]) (of_nat (length payload)))
      in frame @ payload)"

definition make_close_payload :: "16 word \<Rightarrow> byte list \<Rightarrow> byte list" where
  "make_close_payload close reason = append_u16 [] close @ reason"

definition valid_close_code :: "16 word \<Rightarrow> bool" where
  "valid_close_code c \<longleftrightarrow>
     3000 \<le> c \<and> c \<le> 4999 \<or>
     c \<in> {1000, 1001, 1002, 1003, 1007, 1008, 1009, 1010, 1011}"

section \<open>Decoding\<close>

text \<open>What one round of \<open>parse_frames\<close> finds at the read offset: fewer than two bytes, an
  incomplete frame, a violation with its close code, or a frame with the offset behind it.\<close>

datatype frame_step =
    Short
  | Incomplete
  | Bad close_code ws_errc
  | Frame bool byte "byte list" nat

text \<open>The length field of 7, 16 or 64 bits: the length and the offset behind it.\<close>

definition extended_length :: "byte list \<Rightarrow> nat \<Rightarrow> 64 word \<Rightarrow> (64 word \<times> nat) option" where
  "extended_length buf offset len =
     (if len = 126 then
        (if length buf < offset + 2 then None
         else Some (push_bit 8 (ucast (buf ! offset)) OR ucast (buf ! (offset + 1)), offset + 2))
      else if len = 127 then
        (if length buf < offset + 8 then None
         else Some (foldl (\<lambda>l i. push_bit 8 l OR ucast (buf ! (offset + i))) 0 [0..<8], offset + 8))
      else Some (len, offset))"

definition unmask :: "byte list \<Rightarrow> nat \<Rightarrow> byte list \<Rightarrow> nat \<Rightarrow> byte list" where
  "unmask buf offset key len = map (\<lambda>i. buf ! (offset + i) XOR key ! (i mod 4)) [0..<len]"

definition next_frame :: "nat \<Rightarrow> byte list \<Rightarrow> nat \<Rightarrow> frame_step" where
  "next_frame max_message_bytes buf read_offset =
     (if length buf - read_offset < 2 then Short
      else
        let first = buf ! read_offset;
            second = buf ! (read_offset + 1);
            fin = (first AND 0x80 \<noteq> 0);
            masked = (second AND 0x80 \<noteq> 0);
            raw_opcode = first AND 0x0f
        in if first AND 0x70 \<noteq> 0 \<or> \<not> masked
           then Bad close_protocol_error protocol_error
           else case extended_length buf (read_offset + 2) (ucast (second AND 0x7f)) of
                  None \<Rightarrow> Incomplete
                | Some (len, offset) \<Rightarrow>
                    if unat len > max_message_bytes
                    then Bad close_message_too_large message_size
                    else if length buf < offset + 4 + unat len then Incomplete
                    else
                      let key = [buf ! offset, buf ! (offset + 1), buf ! (offset + 2),
                                  buf ! (offset + 3)];
                          offset = offset + 4;
                          payload = unmask buf offset key (unat len)
                      in Frame fin raw_opcode payload (offset + length payload))"

section \<open>The wire format\<close>

text \<open>RFC 6455, section 5.2: the second byte of a frame with its mask bit and length code, then
  the extended length.\<close>

definition length_field :: "byte \<Rightarrow> nat \<Rightarrow> byte list" where
  "length_field mask_bit n =
     (if n \<le> 125 then [mask_bit OR of_nat n]
      else if n \<le> 65535 then (mask_bit OR 126) # append_u16 [] (of_nat n)
      else (mask_bit OR 127) # append_u64 [] (of_nat n))"

definition masked_payload :: "byte list \<Rightarrow> byte list \<Rightarrow> byte list" where
  "masked_payload key payload =
     map (\<lambda>i. payload ! i XOR key ! (i mod 4)) [0..<length payload]"

definition client_frame :: "bool \<Rightarrow> byte \<Rightarrow> byte list \<Rightarrow> byte list \<Rightarrow> byte list" where
  "client_frame fin opc key payload =
     ((if fin then 0x80 else 0) OR opc) # length_field 0x80 (length payload) @ key @
     masked_payload key payload"

text \<open>A peer's decoder for the unmasked frames a server sends: the first byte, the payload and
  the bytes behind the frame.\<close>

definition decode_server_frame :: "byte list \<Rightarrow> (byte \<times> byte list \<times> byte list) option" where
  "decode_server_frame buf =
     (if length buf < 2 \<or> buf ! 1 AND 0x80 \<noteq> 0 then None
      else case extended_length buf 2 (ucast (buf ! 1 AND 0x7f)) of
             None \<Rightarrow> None
           | Some (len, offset) \<Rightarrow>
               if length buf < offset + unat len then None
               else Some (buf ! 0, take (unat len) (drop offset buf), drop (offset + unat len) buf))"

lemma make_frame_eq: "make_frame opc payload = (0x80 OR opc) # length_field 0 (length payload) @ payload"
  by (simp add: make_frame_def length_field_def append_u16_def append_u64_def Let_def)

lemma mask_FF: "(0xff :: 'a::len word) = mask 8" by (simp add: mask_eq_exp_minus_1)

lemma byte_of: "ucast (v AND 0xff :: 'a::len word) = (ucast v :: byte)"
  by (rule bit_word_eqI) (simp add: mask_FF bit_simps, auto dest: bit_imp_le_length)

text \<open>Shifting a byte in inverts shifting it out.\<close>

lemma take_next_byte:
  fixes v :: "64 word"
  shows "push_bit 8 (drop_bit (8 + s) v) OR ucast (ucast (drop_bit s v) :: byte) = drop_bit s v"
  by (rule bit_word_eqI) (auto simp: bit_simps not_less dest: bit_imp_le_length)

lemma u16_roundtrip:
  "push_bit 8 (ucast (ucast (drop_bit 8 v AND 0xff :: 16 word) :: byte)) OR
     ucast (ucast (v AND 0xff :: 16 word) :: byte) = (ucast v :: 64 word)"
  unfolding byte_of
  by (rule bit_word_eqI) (auto simp: bit_simps not_less dest: bit_imp_le_length)

lemma u64_roundtrip:
  "foldl (\<lambda>l b. push_bit 8 l OR ucast b) 0
     (map (\<lambda>shift. ucast (drop_bit shift v AND 0xff) :: byte) [56, 48, 40, 32, 24, 16, 8, 0]) = (v :: 64 word)"
proof -
  have "drop_bit 64 v = 0" by (rule bit_word_eqI) (auto simp: bit_simps dest: bit_imp_le_length)
  then have "push_bit 8 0 OR ucast (ucast (drop_bit 56 v) :: byte) = drop_bit 56 v"
    using take_next_byte [of 56 v] by simp
  then show ?thesis
    using take_next_byte [of 48 v] take_next_byte [of 40 v] take_next_byte [of 32 v]
      take_next_byte [of 24 v] take_next_byte [of 16 v] take_next_byte [of 8 v] take_next_byte [of 0 v]
    by (simp add: byte_of)
qed


section \<open>Decoding depends on the unread bytes only\<close>

fun shift_frame :: "nat \<Rightarrow> frame_step \<Rightarrow> frame_step" where
  "shift_frame k (Frame fin opc payload n) = Frame fin opc payload (k + n)"
| "shift_frame k x = x"

lemmas suc_forms = add_2_eq_Suc add_2_eq_Suc'

lemma upt_8: "[0..<8] = [0, 1, 2, 3, 4, 5, 6, 7]"
  by (simp add: upt_rec)

lemma extended_length_drop:
  "off \<le> length buf \<Longrightarrow>
   extended_length buf (off + k) len = map_option (apsnd ((+) off)) (extended_length (drop off buf) k len)"
  by (simp add: extended_length_def upt_8 add.assoc less_diff_conv2 ac_simps del: suc_forms)

lemma next_frame_drop:
  assumes "off \<le> length buf"
  shows "next_frame mx buf off = shift_frame off (next_frame mx (drop off buf) 0)"
proof (cases "length buf - off < 2")
  case False
  have e: "extended_length buf (off + 2) len =
      map_option (apsnd ((+) off)) (extended_length (drop off buf) 2 len)" for len
    by (rule extended_length_drop) (rule assms)
  from False assms show ?thesis
    by (auto simp: next_frame_def Let_def e unmask_def less_diff_conv2 ac_simps
        simp del: suc_forms split: option.split)
qed (simp add: next_frame_def)

lemma extended_length_append:
  "extended_length a k len = Some r \<Longrightarrow> extended_length (a @ b) k len = Some r"
  by (auto simp: extended_length_def upt_8 nth_append simp del: suc_forms split: if_splits)

lemma extended_length_mono: "extended_length buf k len = Some (l, off) \<Longrightarrow> k \<le> off"
  by (auto simp: extended_length_def split: if_splits)

text \<open>A frame found at an offset: its first bytes and its place.\<close>

lemma next_frame_FrameE:
  assumes "next_frame mx buf off = Frame fin opc payload n"
  obtains len pos where
    "2 \<le> length buf - off" "buf ! off AND 0x70 = 0" "buf ! (off + 1) AND 0x80 \<noteq> 0"
    "extended_length buf (off + 2) (ucast (buf ! (off + 1) AND 0x7f)) = Some (len, pos)"
    "unat len \<le> mx" "pos + 4 + unat len \<le> length buf" "n = pos + 4 + unat len"
    "fin = (buf ! off AND 0x80 \<noteq> 0)" "opc = buf ! off AND 0x0f"
    "payload = unmask buf (pos + 4)
       [buf ! pos, buf ! (pos + 1), buf ! (pos + 2), buf ! (pos + 3)] (unat len)"
proof (cases "extended_length buf (off + 2) (ucast (buf ! (off + 1) AND 0x7f))")
  case None
  with assms show ?thesis
    by (simp add: next_frame_def Let_def split: if_splits)
next
  case (Some r)
  then show ?thesis
    using assms that [of "fst r" "snd r"]
    by (cases r) (simp add: next_frame_def Let_def unmask_def not_less split: if_splits)
qed

lemma next_frame_progress:
  assumes "next_frame mx buf off = Frame fin opc payload n"
  shows "off + 6 \<le> n \<and> n \<le> length buf \<and> length payload \<le> mx"
  using assms
proof (rule next_frame_FrameE)
  fix len pos
  assume "extended_length buf (off + 2) (ucast (buf ! (off + 1) AND 0x7f)) = Some (len, pos)"
    "unat len \<le> mx" "pos + 4 + unat len \<le> length buf" "n = pos + 4 + unat len"
    "payload = unmask buf (pos + 4)
       [buf ! pos, buf ! (pos + 1), buf ! (pos + 2), buf ! (pos + 3)] (unat len)"
  with extended_length_mono [OF this(1)] show ?thesis by (simp add: unmask_def)
qed

lemma next_frame_append:
  assumes "next_frame mx a 0 = r" "r \<noteq> Short" "r \<noteq> Incomplete"
  shows "next_frame mx (a @ b) 0 = r"
proof -
  have "next_frame mx a 0 = Short" if "\<not> 2 \<le> length a" using that by (simp add: next_frame_def)
  with assms have len: "2 \<le> length a" by blast
  then have hd: "(a @ b) ! 0 = a ! 0" "(a @ b) ! 1 = a ! 1" by (auto simp: nth_append)
  let ?e = "extended_length a 2 (ucast (a ! 1 AND 0x7f))"
  show ?thesis
  proof (cases "a ! 0 AND 0x70 \<noteq> 0 \<or> a ! 1 AND 0x80 = 0")
    case True
    with assms(1) len hd show ?thesis by (auto simp: next_frame_def Let_def)
  next
    case False
    with assms len obtain l pos where e: "?e = Some (l, pos)"
      by (cases ?e) (auto simp: next_frame_def Let_def simp del: suc_forms)
    note e' = extended_length_append [OF e, of b]
    show ?thesis
      using assms False len hd e e'
      by (auto simp: next_frame_def Let_def unmask_def nth_append simp del: suc_forms split: if_splits)
  qed
qed

section \<open>Round trips\<close>

lemma small_length_byte:
  assumes "n \<le> 125" "m = 0 \<or> m = (0x80 :: byte)"
  shows "ucast ((m OR of_nat n) AND 0x7f :: byte) = (of_nat n :: 64 word) \<and>
    (m OR of_nat n :: byte) AND 0x80 = m"
proof -
  have "list_all (\<lambda>n. ucast ((m OR of_nat n) AND 0x7f :: byte) = (of_nat n :: 64 word) \<and>
    (m OR of_nat n :: byte) AND 0x80 = m) [0..<126]" if "m = 0 \<or> m = 0x80" for m :: byte
    using that by (elim disjE) (simp_all only:, code_simp+)
  with assms show ?thesis by (auto simp: list_all_iff)
qed

lemma length_field_decode:
  assumes "n < 2 ^ 64" "m = 0 \<or> m = (0x80 :: byte)"
    "buf = x # length_field m n @ tail"
  shows "buf ! 1 AND 0x80 = m \<and>
    extended_length buf 2 (ucast (buf ! 1 AND 0x7f)) = Some (of_nat n, 1 + length (length_field m n))"
proof -
  have big: "(m OR 126) AND 0x7f = 126" "(m OR 126) AND 0x80 = m"
    "(m OR 127) AND 0x7f = 127" "(m OR 127) AND 0x80 = m"
    using assms(2) by (elim disjE; simp)+
  consider "n \<le> 125" | "125 < n" "n \<le> 65535" | "65535 < n" by linarith
  then show ?thesis
  proof cases
    case 1
    then have "(of_nat n :: 64 word) \<noteq> 126" "(of_nat n :: 64 word) \<noteq> 127"
      by (auto simp: word_unat_eq_iff unsigned_of_nat take_bit_nat_eq_self)
    with 1 small_length_byte [OF 1 assms(2)] assms(3) show ?thesis
      by (simp add: length_field_def extended_length_def)
  next
    case 2
    have "(ucast (of_nat n :: 16 word) :: 64 word) = of_nat n"
      using 2 by (simp add: unsigned_of_nat take_bit_nat_eq_self)
    with 2 big assms(3) u16_roundtrip [of "of_nat n"] show ?thesis
      by (simp add: length_field_def extended_length_def append_u16_def)
  next
    case 3
    with big assms(3) u64_roundtrip [of "of_nat n"] show ?thesis
      by (simp add: length_field_def extended_length_def append_u64_def upt_8)
  qed
qed

lemma length_masked_payload [simp]: "length (masked_payload key payload) = length payload"
  by (simp add: masked_payload_def)

lemma unmask_masked_payload:
  assumes "\<And>i. i < length payload \<Longrightarrow> buf ! (off + i) = masked_payload key payload ! i"
  shows "unmask buf off key (length payload) = payload"
  using assms by (intro nth_equalityI) (simp_all add: unmask_def masked_payload_def xor.assoc)

lemma fin_opcode_byte:
  assumes "opc AND 0xf0 = (0 :: byte)" "x = (if fin then 0x80 else 0) OR opc"
  shows "x AND 0x70 = 0" "(x AND 0x80 \<noteq> 0) = fin" "x AND 0x0f = opc"
proof -
  have "opc = opc AND 0x0f"
  proof -
    have "(0xf0 OR 0x0f :: byte) = - 1" by code_simp
    then have "opc = opc AND (0xf0 OR 0x0f)" by (simp only: and.right_neutral)
    also have "\<dots> = (opc AND 0xf0) OR (opc AND 0x0f)" by (rule bit.conj_disj_distrib)
    finally show ?thesis using assms(1) by simp
  qed
  then obtain y where y: "opc = y AND 0x0f" by blast
  show "x AND 0x70 = 0" "(x AND 0x80 \<noteq> 0) = fin" "x AND 0x0f = opc"
    by (simp_all add: assms(2) y bit.conj_disj_distrib2 and.assoc)
qed

lemma next_frame_client:
  assumes "length payload \<le> mx" "length payload < 2 ^ 64" "length key = 4" "opc AND 0xf0 = 0"
  shows "next_frame mx (client_frame fin opc key payload @ rest) 0 =
    Frame fin opc payload (length (client_frame fin opc key payload))"
proof -
  let ?n = "length payload"
  let ?x = "(if fin then 0x80 else 0) OR opc"
  let ?lf = "length_field 0x80 ?n"
  let ?buf = "?x # ?lf @ (key @ masked_payload key payload @ rest)"
  let ?pos = "1 + length ?lf"
  have buf: "client_frame fin opc key payload @ rest = ?buf" by (simp add: client_frame_def)
  have len: "length (client_frame fin opc key payload) = ?pos + 4 + ?n"
    using assms(3) by (simp add: client_frame_def)
  note dec = length_field_decode [OF assms(2) disjI2 [OF refl] refl, of ?x "key @ masked_payload key payload @ rest"]
  note fin = fin_opcode_byte [OF assms(4) refl, of fin]
  have lf: "1 \<le> length ?lf" by (simp add: length_field_def)
  have key: "[?buf ! ?pos, ?buf ! (?pos + 1), ?buf ! (?pos + 2), ?buf ! (?pos + 3)] = key"
    using assms(3) by (auto simp: nth_append less_Suc_eq numeral_eq_Suc intro!: nth_equalityI)
  have un: "unmask ?buf (?pos + 4) key ?n = payload"
    using assms(3) by (intro unmask_masked_payload) (simp add: nth_append)
  have nlen: "unat (of_nat ?n :: 64 word) = ?n"
    using assms(2) by (simp add: unsigned_of_nat take_bit_nat_eq_self)
  have x: "?buf ! 0 = ?x" by simp
  show ?thesis
    unfolding buf len next_frame_def
    using assms(1,3) lf dec fin key un nlen x
    by (simp add: Let_def del: suc_forms nth_Cons_0 nth_Cons_Suc)
qed

text \<open>C22: A client frame with any opcode, mask and payload up to the message limit, followed by
  anything, is decoded wherever it stands in the buffer: the decoder returns its FIN bit, opcode
  and unmasked payload, and the offset of the byte behind it.\<close>

theorem next_frame_roundtrip:
  assumes "length payload \<le> mx" "length payload < 2 ^ 64" "length key = 4" "opc AND 0xf0 = 0"
    "drop off buf = client_frame fin opc key payload @ rest"
  shows "next_frame mx buf off =
    Frame fin opc payload (off + length (client_frame fin opc key payload))"
proof -
  have "client_frame fin opc key payload \<noteq> []" by (simp add: client_frame_def)
  with assms(5) have "off \<le> length buf" by (metis append_is_Nil_conv drop_all nat_le_linear)
  with next_frame_drop [of off buf mx] next_frame_client [OF assms(1-4), of fin rest] assms(5)
  show ?thesis by simp
qed

theorem next_frame_roundtrip_witness:
  "next_frame 10 [7, 0x81, 0x82, 1, 2, 3, 4, 105, 107] 1 = Frame True 1 [104, 105] 9"
proof -
  have "drop 1 [7, 0x81, 0x82, 1, 2, 3, 4, 105, 107] = client_frame True 1 [1, 2, 3, 4] [104, 105] @ []"
    by code_simp
  from next_frame_roundtrip [OF _ _ _ _ this, of 10]
  have "next_frame 10 [7, 0x81, 0x82, 1, 2, 3, 4, 105, 107] 1 =
    Frame True 1 [104, 105] (1 + length (client_frame True 1 [1, 2, 3, 4] [104, 105]))" by simp
  moreover have "length (client_frame True 1 [1, 2, 3, 4] [104, 105]) = 8" by code_simp
  ultimately show ?thesis by simp
qed

text \<open>Every frame the session sends is a final, unmasked frame that a peer decodes back to the
  opcode and the payload, for each of the three length encodings.\<close>

theorem make_frame_roundtrip:
  assumes "length payload < 2 ^ 64"
  shows "decode_server_frame (make_frame opc payload @ rest) = Some (0x80 OR opc, payload, rest)"
proof -
  let ?lf = "length_field 0 (length payload)"
  let ?buf = "(0x80 OR opc) # ?lf @ payload @ rest"
  note dec = length_field_decode [OF assms disjI1 [OF refl] refl, of "0x80 OR opc" "payload @ rest"]
  have nlen: "unat (of_nat (length payload) :: 64 word) = length payload"
    using assms by (simp add: unsigned_of_nat take_bit_nat_eq_self)
  have lf: "length_field 0 n \<noteq> []" for n by (simp add: length_field_def)
  have "decode_server_frame ?buf = Some (0x80 OR opc, payload, rest)"
    unfolding decode_server_frame_def using dec nlen lf
    by (simp del: suc_forms)
  then show ?thesis by (simp add: make_frame_eq)
qed

theorem make_frame_roundtrip_witness:
  "decode_server_frame (make_frame 1 [104, 105]) = Some (0x81, [104, 105], [])"
  using make_frame_roundtrip [of "[104, 105]" 1 "[]"] by simp

end
