(* ===== verification/WebSocket_Session.thy ===== *)
theory WebSocket_Session
  imports WebSocket_Frame
begin

text \<open>
  \<open>session::state\<close> of \<open>src/websocket/session.cpp\<close>: the read buffer and its parsing loop, the
  reassembly of fragmented messages, the dispatch to the application's callbacks, the write queue,
  the closing handshake with its timeout and the byte-stream view of a session.

  Callbacks are reentrant: the application may call the session from inside a callback, and such a
  call may invoke a callback again. Every operation that can invoke a callback therefore takes
  the callback mechanism \<open>em\<close> as its first argument; \<open>emit\<close> at the end of the theory ties the
  knot for an application given as a function from the callbacks seen so far to the calls it makes
  in answer to the last one. Requests to the transport and to the close timer are recorded in
  \<open>io\<close>, in order; their completions are separate inputs.
\<close>

section \<open>State\<close>

record accept_options =
  max_message_bytes :: nat
  max_pending_write_bytes :: nat
  close_timeout :: int
  subprotocol :: string
  auto_pong :: bool

definition default_accept_options :: accept_options where
  "default_accept_options =
     \<lparr>max_message_bytes = 1024 * 1024, max_pending_write_bytes = 1024 * 1024,
      close_timeout = 5000, subprotocol = [], auto_pong = True\<rparr>"

text \<open>The only setter with a check.\<close>

definition set_close_timeout :: "int \<Rightarrow> accept_options \<Rightarrow> string + accept_options" where
  "set_close_timeout v options =
     (if v \<le> 0 then Inl ''close_timeout must be greater than zero''
      else Inr (options\<lparr>close_timeout := v\<rparr>))"

record pending_write =
  pw_payload :: "byte list"
  pw_on_write :: "nat option"
  pw_close_after :: bool

text \<open>A callback invocation; write and close callbacks are named by numbers.\<close>

datatype ws_event =
    Ev_text "byte list"
  | Ev_binary "byte list"
  | Ev_ping "byte list"
  | Ev_pong "byte list"
  | Ev_close "16 word" "byte list"
  | Ev_error ws_errc
  | Ev_byte_read "byte list"
  | Ev_byte_eof
  | Ev_byte_error ws_errc
  | Ev_written nat "ws_errc option"
  | Ev_transport_closed nat

text \<open>A request to the transport or the timer.\<close>

datatype ws_io =
    Stream_read_start
  | Stream_read_stop
  | Stream_write "byte list"
  | Stream_close "nat option"
  | Timer_start int
  | Timer_stop
  | Timer_close

record ws_state =
  options :: accept_options
  on_text :: bool
  on_binary :: bool
  on_ping :: bool
  on_pong :: bool
  on_close :: bool
  on_error :: bool
  stream :: bool
  read_buffer :: "byte list"
  read_offset :: nat
  writes :: "pending_write list"
  close_timer :: bool
  pending_write_bytes :: nat
  writing :: bool
  ws_closed :: bool
  close_sent :: bool
  close_timeout_active :: bool
  close_timer_closed :: bool
  fragmented_opcode :: "opcode option"
  fragmented_message :: "byte list"
  byte_mode :: bool
  byte_read :: bool
  keep_alive :: bool
  events :: "ws_event list"
  io :: "ws_io list"

definition new_state :: "accept_options \<Rightarrow> ws_state" where
  "new_state opts =
     \<lparr>options = opts, on_text = False, on_binary = False, on_ping = False, on_pong = False,
      on_close = False, on_error = False, stream = False, read_buffer = [], read_offset = 0,
      writes = [], close_timer = False, pending_write_bytes = 0, writing = False,
      ws_closed = False, close_sent = False, close_timeout_active = False,
      close_timer_closed = False, fragmented_opcode = None, fragmented_message = [],
      byte_mode = False, byte_read = False, keep_alive = False, events = [], io = []\<rparr>"

type_synonym emitter = "ws_event \<Rightarrow> ws_state \<Rightarrow> ws_state"

definition request :: "ws_io \<Rightarrow> ws_state \<Rightarrow> ws_state" where
  "request r s = s\<lparr>io := io s @ [r]\<rparr>"

section \<open>Writing\<close>

definition flush_next :: "ws_state \<Rightarrow> ws_state" where
  "flush_next s =
     (if ws_closed s \<or> writing s \<or> writes s = [] \<or> \<not> stream s then s
      else request (Stream_write (pw_payload (hd (writes s)))) (s\<lparr>writing := True\<rparr>))"

definition queue :: "byte list \<Rightarrow> bool \<Rightarrow> nat option \<Rightarrow> ws_state \<Rightarrow> ws_state" where
  "queue payload close_after on_write s =
     flush_next (s\<lparr>pending_write_bytes := pending_write_bytes s + length payload,
       writes := writes s @ [\<lparr>pw_payload = payload, pw_on_write = on_write,
                              pw_close_after = close_after\<rparr>]\<rparr>)"

definition start_close_timeout :: "ws_state \<Rightarrow> ws_state" where
  "start_close_timeout s =
     (if ws_closed s \<or> close_timer_closed s \<or> \<not> close_timer s \<or> close_timeout_active s then s
      else request (Timer_start (close_timeout (options s))) (s\<lparr>close_timeout_active := True\<rparr>))"

definition close :: "16 word \<Rightarrow> byte list \<Rightarrow> ws_state \<Rightarrow> ws_state" where
  "close c reason s =
     (if ws_closed s \<or> close_sent s then s
      else
        let s = s\<lparr>close_sent := True\<rparr>;
            payload = make_close_payload c reason
        in start_close_timeout (queue (make_frame (opcode_value op_close) payload) False None s))"

definition notify_error :: "emitter \<Rightarrow> ws_errc \<Rightarrow> ws_state \<Rightarrow> ws_state" where
  "notify_error em e s = (if on_error s then em (Ev_error e) s else s)"

definition close_with_error :: "emitter \<Rightarrow> close_code \<Rightarrow> ws_errc \<Rightarrow> ws_state \<Rightarrow> ws_state" where
  "close_with_error em c e s = close (close_code_value c) [] (notify_error em e s)"

definition invoke_on_write :: "emitter \<Rightarrow> nat option \<Rightarrow> ws_errc option \<Rightarrow> ws_state \<Rightarrow> ws_state" where
  "invoke_on_write em cb e s = (case cb of None \<Rightarrow> s | Some i \<Rightarrow> em (Ev_written i e) s)"

definition send_frame ::
  "emitter \<Rightarrow> opcode \<Rightarrow> byte list \<Rightarrow> nat option \<Rightarrow> ws_state \<Rightarrow> ws_state \<times> bool" where
  "send_frame em opc payload on_write s =
     (if ws_closed s \<or> \<not> stream s then (invoke_on_write em on_write (Some not_connected) s, False)
      else if pending_write_bytes s + length payload > max_pending_write_bytes (options s) then
        (close_with_error em close_internal_error operation_would_block
           (invoke_on_write em on_write (Some operation_would_block) s), False)
      else (queue (make_frame (opcode_value opc) payload) False on_write s, True))"

definition send_text :: "emitter \<Rightarrow> byte list \<Rightarrow> ws_state \<Rightarrow> ws_state" where
  "send_text em message s = fst (send_frame em op_text message None s)"

definition send_binary :: "emitter \<Rightarrow> byte list \<Rightarrow> nat option \<Rightarrow> ws_state \<Rightarrow> ws_state" where
  "send_binary em message on_write s = fst (send_frame em op_binary message on_write s)"

section \<open>Closing\<close>

definition stop_close_timeout :: "ws_state \<Rightarrow> ws_state" where
  "stop_close_timeout s =
     (let s = s\<lparr>close_timeout_active := False\<rparr>
      in if \<not> close_timer s \<or> close_timer_closed s then s else request Timer_stop s)"

definition close_timer_handle :: "ws_state \<Rightarrow> ws_state" where
  "close_timer_handle s =
     (if \<not> close_timer s \<or> close_timer_closed s then s\<lparr>keep_alive := False\<rparr>
      else request Timer_close
             ((stop_close_timeout s)\<lparr>close_timer_closed := True, close_timer := False\<rparr>))"

definition invoke_on_closed :: "emitter \<Rightarrow> nat option \<Rightarrow> ws_state \<Rightarrow> ws_state" where
  "invoke_on_closed em cb s = (case cb of None \<Rightarrow> s | Some i \<Rightarrow> em (Ev_transport_closed i) s)"

definition close_transport :: "emitter \<Rightarrow> nat option \<Rightarrow> ws_state \<Rightarrow> ws_state" where
  "close_transport em cb s =
     (if ws_closed s then invoke_on_closed em cb s
      else
        let s = s\<lparr>ws_closed := True, close_timeout_active := False, writes := [],
                  pending_write_bytes := 0\<rparr>
        in if stream s then request (Stream_close cb) (request Stream_read_stop s)
           else close_timer_handle (invoke_on_closed em cb s))"

text \<open>The callback \<open>close_transport\<close> hands to the stream.\<close>

definition on_stream_closed :: "emitter \<Rightarrow> nat option \<Rightarrow> ws_state \<Rightarrow> ws_state" where
  "on_stream_closed em cb s = close_timer_handle (invoke_on_closed em cb s)"

definition on_close_timeout :: "emitter \<Rightarrow> ws_state \<Rightarrow> ws_state" where
  "on_close_timeout em s =
     (if ws_closed s \<or> \<not> close_timeout_active s then s
      else close_transport em None (s\<lparr>close_timeout_active := False\<rparr>))"

text \<open>No call site passes \<open>close_socket = false\<close>.\<close>

definition fail :: "emitter \<Rightarrow> ws_errc \<Rightarrow> ws_state \<Rightarrow> ws_state" where
  "fail em e s =
     (let s = notify_error em e s;
          s = (if byte_read s then em (Ev_byte_error e) s else s)
      in close_transport em None s)"

definition on_write :: "emitter \<Rightarrow> ws_errc option \<Rightarrow> ws_state \<Rightarrow> ws_state" where
  "on_write em e s =
     (let s = s\<lparr>writing := False\<rparr>
      in if ws_closed s then s
         else case e of
           Some err \<Rightarrow>
             let s = (if writes s \<noteq> [] then invoke_on_write em (pw_on_write (hd (writes s))) (Some err) s
                      else s)
             in fail em err s
         | None \<Rightarrow>
             let close_after = (writes s \<noteq> [] \<and> pw_close_after (hd (writes s)));
                 cb = (if writes s \<noteq> [] then pw_on_write (hd (writes s)) else None);
                 s = (if writes s \<noteq> []
                      then s\<lparr>pending_write_bytes := pending_write_bytes s -
                               min (pending_write_bytes s) (length (pw_payload (hd (writes s)))),
                             writes := tl (writes s)\<rparr>
                      else s);
                 s = invoke_on_write em cb None s
             in if close_after then close_transport em None s else flush_next s)"

section \<open>Dispatching frames\<close>

definition dispatch_message :: "emitter \<Rightarrow> opcode \<Rightarrow> byte list \<Rightarrow> ws_state \<Rightarrow> ws_state" where
  "dispatch_message em data_opcode payload s =
     (if byte_mode s then
        (if data_opcode \<noteq> op_binary then close_with_error em close_protocol_error protocol_error s
         else if byte_read s then em (Ev_byte_read payload) s else s)
      else if data_opcode = op_text then (if on_text s then em (Ev_text payload) s else s)
      else if on_binary s then em (Ev_binary payload) s else s)"

definition handle_data_frame :: "emitter \<Rightarrow> bool \<Rightarrow> opcode \<Rightarrow> byte list \<Rightarrow> ws_state \<Rightarrow> ws_state" where
  "handle_data_frame em fin data_opcode payload s =
     (if fragmented_opcode s \<noteq> None then close_with_error em close_protocol_error protocol_error s
      else if fin then dispatch_message em data_opcode payload s
      else s\<lparr>fragmented_opcode := Some data_opcode, fragmented_message := payload\<rparr>)"

definition handle_continuation :: "emitter \<Rightarrow> bool \<Rightarrow> byte list \<Rightarrow> ws_state \<Rightarrow> ws_state" where
  "handle_continuation em fin payload s =
     (case fragmented_opcode s of
        None \<Rightarrow> close_with_error em close_protocol_error protocol_error s
      | Some data_opcode \<Rightarrow>
          if length (fragmented_message s) + length payload > max_message_bytes (options s)
          then close_with_error em close_message_too_large message_size s
          else
            let message = fragmented_message s @ payload
            in if \<not> fin then s\<lparr>fragmented_message := message\<rparr>
               else dispatch_message em data_opcode message
                      (s\<lparr>fragmented_opcode := None, fragmented_message := []\<rparr>))"

definition dispatch_ping :: "emitter \<Rightarrow> byte list \<Rightarrow> ws_state \<Rightarrow> ws_state" where
  "dispatch_ping em payload s =
     (let s = (if on_ping s then em (Ev_ping payload) s else s)
      in if auto_pong (options s) then fst (send_frame em op_pong payload None s) else s)"

definition dispatch_pong :: "emitter \<Rightarrow> byte list \<Rightarrow> ws_state \<Rightarrow> ws_state" where
  "dispatch_pong em payload s = (if on_pong s then em (Ev_pong payload) s else s)"

text \<open>The code and reason of a close payload, or \<open>None\<close> for a payload that is a violation.\<close>

definition close_payload :: "byte list \<Rightarrow> (16 word \<times> byte list) option" where
  "close_payload payload =
     (case payload of
        [] \<Rightarrow> Some (close_code_value close_normal, [])
      | [_] \<Rightarrow> None
      | b0 # b1 # reason \<Rightarrow>
          let raw_code = push_bit 8 (ucast b0) OR ucast b1
          in if \<not> valid_close_code raw_code then None else Some (raw_code, reason))"

definition dispatch_close :: "emitter \<Rightarrow> byte list \<Rightarrow> ws_state \<Rightarrow> ws_state" where
  "dispatch_close em payload s =
     (if ws_closed s then s
      else case close_payload payload of
        None \<Rightarrow> close_with_error em close_protocol_error protocol_error s
      | Some (c, reason) \<Rightarrow>
          let s = (if on_close s then em (Ev_close c reason) s else s);
              s = (if byte_read s then em Ev_byte_eof s else s)
          in if \<not> close_sent s
             then start_close_timeout
                    (queue (make_frame (opcode_value op_close) payload) False None
                      (s\<lparr>close_sent := True\<rparr>))
             else close_transport em None s)"

definition handle_frame :: "emitter \<Rightarrow> bool \<Rightarrow> byte \<Rightarrow> byte list \<Rightarrow> ws_state \<Rightarrow> ws_state" where
  "handle_frame em fin raw_opcode payload s =
     (let control = (raw_opcode AND 0x08 \<noteq> 0)
      in if control \<and> (\<not> fin \<or> length payload > 125)
         then close_with_error em close_protocol_error protocol_error s
         else case opcode_of raw_opcode of
           Some op_text \<Rightarrow> handle_data_frame em fin op_text payload s
         | Some op_binary \<Rightarrow> handle_data_frame em fin op_binary payload s
         | Some op_continuation \<Rightarrow> handle_continuation em fin payload s
         | Some op_ping \<Rightarrow> dispatch_ping em payload s
         | Some op_pong \<Rightarrow> dispatch_pong em payload s
         | Some op_close \<Rightarrow> dispatch_close em payload s
         | None \<Rightarrow> close_with_error em close_protocol_error protocol_error s)"

section \<open>Reading\<close>

definition read_buffer_compaction_threshold :: nat where
  "read_buffer_compaction_threshold = 4 * 1024"

definition compact_read_buffer :: "ws_state \<Rightarrow> ws_state" where
  "compact_read_buffer s =
     (if read_offset s = 0 then s
      else if read_offset s = length (read_buffer s) then s\<lparr>read_buffer := [], read_offset := 0\<rparr>
      else if read_offset s < read_buffer_compaction_threshold \<and>
              read_offset s \<le> length (read_buffer s) div 2 then s
      else s\<lparr>read_buffer := drop (read_offset s) (read_buffer s), read_offset := 0\<rparr>)"

text \<open>The loop of \<open>parse_frames\<close>, with a bound on its rounds; \<open>None\<close> when the bound is too
  small. Every round but the last consumes at least six bytes, so one more than the number of
  unread bytes is enough.\<close>

fun parse_loop :: "emitter \<Rightarrow> nat \<Rightarrow> ws_state \<Rightarrow> ws_state option" where
  "parse_loop em 0 s = None"
| "parse_loop em (Suc n) s =
     (if ws_closed s then Some s
      else case next_frame (max_message_bytes (options s)) (read_buffer s) (read_offset s) of
        Short \<Rightarrow> Some (compact_read_buffer s)
      | Incomplete \<Rightarrow> Some s
      | Bad c e \<Rightarrow> Some (close_with_error em c e s)
      | Frame fin raw_opcode payload next \<Rightarrow>
          parse_loop em n
            (handle_frame em fin raw_opcode payload (compact_read_buffer (s\<lparr>read_offset := next\<rparr>))))"

definition parse_frames :: "emitter \<Rightarrow> ws_state \<Rightarrow> ws_state" where
  "parse_frames em s =
     (case parse_loop em (Suc (length (read_buffer s) - read_offset s)) s of
        None \<Rightarrow> s | Some s' \<Rightarrow> s')"

definition read_start :: "ws_state \<Rightarrow> ws_state" where
  "read_start s = (if ws_closed s \<or> \<not> stream s then s else request Stream_read_start s)"

definition start :: "emitter \<Rightarrow> byte list \<Rightarrow> bool \<Rightarrow> ws_state \<Rightarrow> ws_state" where
  "start em extra_bytes detached s =
     (if ws_closed s then request (Stream_close None) s
      else
        let s = (if detached then s\<lparr>keep_alive := True\<rparr> else s);
            s = s\<lparr>stream := True, close_timer := True\<rparr>;
            s = (if extra_bytes \<noteq> []
                 then parse_frames em (s\<lparr>read_buffer := read_buffer s @ extra_bytes\<rparr>) else s)
        in read_start s)"

datatype read_outcome = Read_bytes "byte list" | Read_eof | Read_error ws_errc

definition on_read :: "emitter \<Rightarrow> read_outcome \<Rightarrow> ws_state \<Rightarrow> ws_state" where
  "on_read em result s =
     (if ws_closed s then s
      else case result of
        Read_eof \<Rightarrow> if close_sent s then close_transport em None s else fail em not_connected s
      | Read_error e \<Rightarrow> fail em e s
      | Read_bytes bytes \<Rightarrow> parse_frames em (s\<lparr>read_buffer := read_buffer s @ bytes\<rparr>))"

section \<open>The application\<close>

text \<open>The calls of \<open>session\<close> and of the \<open>websocket_byte_stream\<close> made from it.\<close>

datatype ws_call =
    Call_text "byte list"
  | Call_binary "byte list"
  | Call_ping "byte list"
  | Call_pong "byte list"
  | Call_close "16 word" "byte list"
  | Set_on_text bool
  | Set_on_binary bool
  | Set_on_ping bool
  | Set_on_pong bool
  | Set_on_close bool
  | Set_on_error bool
  | Into_byte_stream
  | Release
  | Byte_read_start
  | Byte_read_stop
  | Byte_write "byte list" "nat option"
  | Byte_close "nat option"

definition byte_stream_write :: "emitter \<Rightarrow> byte list \<Rightarrow> nat option \<Rightarrow> ws_state \<Rightarrow> ws_state" where
  "byte_stream_write em bytes cb s =
     (if ws_closed s then invoke_on_write em cb (Some not_connected) s
      else send_binary em bytes cb s)"

fun session_call :: "emitter \<Rightarrow> ws_call \<Rightarrow> ws_state \<Rightarrow> ws_state" where
  "session_call em (Call_text message) s = send_text em message s"
| "session_call em (Call_binary message) s = send_binary em message None s"
| "session_call em (Call_ping payload) s = fst (send_frame em op_ping payload None s)"
| "session_call em (Call_pong payload) s = fst (send_frame em op_pong payload None s)"
| "session_call em (Call_close c reason) s = close c reason s"
| "session_call em (Set_on_text b) s = s\<lparr>on_text := b\<rparr>"
| "session_call em (Set_on_binary b) s = s\<lparr>on_binary := b\<rparr>"
| "session_call em (Set_on_ping b) s = s\<lparr>on_ping := b\<rparr>"
| "session_call em (Set_on_pong b) s = s\<lparr>on_pong := b\<rparr>"
| "session_call em (Set_on_close b) s = s\<lparr>on_close := b\<rparr>"
| "session_call em (Set_on_error b) s = s\<lparr>on_error := b\<rparr>"
| "session_call em Into_byte_stream s = s\<lparr>byte_mode := True\<rparr>"
| "session_call em Release s = close_transport em None s"
| "session_call em Byte_read_start s = s\<lparr>byte_read := True\<rparr>"
| "session_call em Byte_read_stop s = s\<lparr>byte_read := False\<rparr>"
| "session_call em (Byte_write bytes cb) s = byte_stream_write em bytes cb s"
| "session_call em (Byte_close cb) s = close_transport em cb s"

type_synonym app = "ws_event list \<Rightarrow> ws_call list"

text \<open>Invoking a callback: it is recorded, and the application answers with calls. Callbacks
  nested deeper than the bound are recorded and make no calls.\<close>

fun emit :: "app \<Rightarrow> nat \<Rightarrow> emitter" where
  "emit app 0 e s = s\<lparr>events := events s @ [e]\<rparr>"
| "emit app (Suc depth) e s =
     (let s = s\<lparr>events := events s @ [e]\<rparr>
      in fold (session_call (emit app depth)) (app (events s)) s)"

text \<open>What the loop delivers to a session.\<close>

datatype ws_input =
    In_start "byte list" bool
  | In_read read_outcome
  | In_written "ws_errc option"
  | In_close_timeout
  | In_stream_closed "nat option"
  | In_timer_closed
  | In_call ws_call

fun ws_step :: "emitter \<Rightarrow> ws_state \<Rightarrow> ws_input \<Rightarrow> ws_state" where
  "ws_step em s (In_start extra detached) = start em extra detached s"
| "ws_step em s (In_read r) = on_read em r s"
| "ws_step em s (In_written e) = on_write em e s"
| "ws_step em s In_close_timeout = on_close_timeout em s"
| "ws_step em s (In_stream_closed cb) = on_stream_closed em cb s"
| "ws_step em s In_timer_closed = s\<lparr>keep_alive := False\<rparr>"
| "ws_step em s (In_call c) = session_call em c s"

end
