(* ===== verification/WebSocket_Invariant.thy ===== *)
theory WebSocket_Invariant
  imports WebSocket_Session
begin

text \<open>
  The invariant of a session and the operations that keep it, whatever the application does in
  its callbacks: the write queue and its byte count agree, a write is in flight whenever there is
  one to send, a partial message stays within the limit, the close timeout only runs between a
  close frame and the end, and a closed session stays closed.
\<close>

section \<open>Invariant\<close>

definition write_total :: "pending_write list \<Rightarrow> nat" where
  "write_total ws = sum_list (map (\<lambda>w. length (pw_payload w)) ws)"

definition ws_inv :: "ws_state \<Rightarrow> bool" where
  "ws_inv s \<longleftrightarrow>
     read_offset s \<le> length (read_buffer s) \<and>
     pending_write_bytes s = write_total (writes s) \<and>
     list_all (\<lambda>w. \<not> pw_close_after w) (writes s) \<and>
     (writing s \<longrightarrow> ws_closed s \<or> writes s \<noteq> []) \<and>
     (fragmented_opcode s = None \<longrightarrow> fragmented_message s = []) \<and>
     fragmented_opcode s \<in> {None, Some op_text, Some op_binary} \<and>
     length (fragmented_message s) \<le> max_message_bytes (options s) \<and>
     (close_timeout_active s \<longrightarrow> close_sent s \<and> \<not> ws_closed s)"

text \<open>A write is in flight whenever an open session with a stream has something to send.\<close>

definition flushed :: "ws_state \<Rightarrow> bool" where
  "flushed s \<longleftrightarrow> (stream s \<and> \<not> ws_closed s \<and> writes s \<noteq> [] \<longrightarrow> writing s)"

definition with_buffer :: "byte list \<Rightarrow> nat \<Rightarrow> ws_state \<Rightarrow> ws_state" where
  "with_buffer b k s = s\<lparr>read_buffer := b, read_offset := k\<rparr>"

lemma with_buffer_simps [simp]:
  "read_buffer (with_buffer b k s) = b" "read_offset (with_buffer b k s) = k"
  "options (with_buffer b k s) = options s" "ws_closed (with_buffer b k s) = ws_closed s"
  "with_buffer b k (with_buffer b' k' s) = with_buffer b k s"
  "with_buffer (read_buffer s) (read_offset s) s = s"
  "on_text (with_buffer b k s) = on_text s" "on_binary (with_buffer b k s) = on_binary s"
  "on_ping (with_buffer b k s) = on_ping s" "on_pong (with_buffer b k s) = on_pong s"
  "on_close (with_buffer b k s) = on_close s" "on_error (with_buffer b k s) = on_error s"
  "stream (with_buffer b k s) = stream s" "writes (with_buffer b k s) = writes s"
  "close_timer (with_buffer b k s) = close_timer s"
  "pending_write_bytes (with_buffer b k s) = pending_write_bytes s"
  "writing (with_buffer b k s) = writing s" "close_sent (with_buffer b k s) = close_sent s"
  "close_timeout_active (with_buffer b k s) = close_timeout_active s"
  "close_timer_closed (with_buffer b k s) = close_timer_closed s"
  "fragmented_opcode (with_buffer b k s) = fragmented_opcode s"
  "fragmented_message (with_buffer b k s) = fragmented_message s"
  "byte_mode (with_buffer b k s) = byte_mode s" "byte_read (with_buffer b k s) = byte_read s"
  "events (with_buffer b k s) = events s" "io (with_buffer b k s) = io s"
  by (simp_all add: with_buffer_def)

text \<open>Operations that leave the read buffer alone, ignore it, keep the options, never reopen a
  session, and keep the two invariants.\<close>

definition tame :: "(ws_state \<Rightarrow> ws_state) \<Rightarrow> bool" where
  "tame f \<longleftrightarrow>
     (\<forall>s b k. f (with_buffer b k s) = with_buffer b k (f s)) \<and>
     (\<forall>s. options (f s) = options s) \<and>
     (\<forall>s. ws_closed s \<longrightarrow> ws_closed (f s)) \<and>
     (\<forall>s. ws_inv s \<longrightarrow> ws_inv (f s)) \<and>
     (\<forall>s. flushed s \<longrightarrow> flushed (f s))"

lemma tameI:
  assumes "\<And>s b k. f (with_buffer b k s) = with_buffer b k (f s)" "\<And>s. options (f s) = options s"
    "\<And>s. ws_closed s \<Longrightarrow> ws_closed (f s)" "\<And>s. ws_inv s \<Longrightarrow> ws_inv (f s)"
    "\<And>s. flushed s \<Longrightarrow> flushed (f s)"
  shows "tame f"
  using assms by (simp add: tame_def)

lemma tameD:
  assumes "tame f"
  shows "f (with_buffer b k s) = with_buffer b k (f s)" "options (f s) = options s"
    "ws_closed s \<Longrightarrow> ws_closed (f s)" "ws_inv s \<Longrightarrow> ws_inv (f s)" "flushed s \<Longrightarrow> flushed (f s)"
  using assms by (simp_all add: tame_def)

lemma tame_buffer:
  assumes "tame f"
  shows "read_buffer (f s) = read_buffer s" "read_offset (f s) = read_offset s"
  using tameD(1) [OF assms, of "read_buffer s" "read_offset s" s] by (metis with_buffer_simps(1,2,6))+

lemma tame_id: "tame (\<lambda>s. s)"
  by (simp add: tame_def)

lemma tame_comp: "tame f \<Longrightarrow> tame g \<Longrightarrow> tame (\<lambda>s. g (f s))"
  by (simp add: tame_def)

lemma tame_if:
  assumes "\<And>s b k. P (with_buffer b k s) = P s" "tame f" "tame g"
  shows "tame (\<lambda>s. if P s then f s else g s)"
  using assms by (simp add: tame_def)

lemma tame_cong: "(\<And>s. f s = g s) \<Longrightarrow> tame g \<Longrightarrow> tame f"
  by (simp add: tame_def)

lemma tame_fold: "(\<And>x. tame (f x)) \<Longrightarrow> tame (fold f xs)"
proof (induction xs)
  case Nil
  then show ?case using tame_id by (simp add: id_def)
next
  case (Cons x xs)
  then show ?case using tame_comp [of "f x" "fold f xs"] by (simp add: comp_def)
qed

lemmas tame_intros = tame_id tame_if tame_comp

subsection \<open>Operations without callbacks\<close>

lemma ws_inv_cong:
  assumes "read_buffer s' = read_buffer s" "read_offset s' = read_offset s"
    "pending_write_bytes s' = pending_write_bytes s" "writes s' = writes s" "writing s' = writing s"
    "ws_closed s' = ws_closed s" "fragmented_opcode s' = fragmented_opcode s"
    "fragmented_message s' = fragmented_message s" "options s' = options s"
    "close_timeout_active s' = close_timeout_active s" "close_sent s' = close_sent s"
  shows "ws_inv s' = ws_inv s"
  using assms by (simp add: ws_inv_def)

lemma tame_setters:
  "tame (\<lambda>s. s\<lparr>on_text := b\<rparr>)" "tame (\<lambda>s. s\<lparr>on_binary := b\<rparr>)" "tame (\<lambda>s. s\<lparr>on_ping := b\<rparr>)"
  "tame (\<lambda>s. s\<lparr>on_pong := b\<rparr>)" "tame (\<lambda>s. s\<lparr>on_close := b\<rparr>)" "tame (\<lambda>s. s\<lparr>on_error := b\<rparr>)"
  "tame (\<lambda>s. s\<lparr>byte_mode := b\<rparr>)" "tame (\<lambda>s. s\<lparr>byte_read := b\<rparr>)"
  "tame (\<lambda>s. s\<lparr>keep_alive := b\<rparr>)" "tame (\<lambda>s. s\<lparr>events := events s @ [e]\<rparr>)" "tame (request r)"
  by (simp_all add: tame_def with_buffer_def flushed_def ws_inv_def request_def)

lemma tame_flush_next: "tame flush_next"
  by (rule tameI)
    (auto simp: flush_next_def request_def with_buffer_def ws_inv_def flushed_def)

lemma flush_next_flushed: "flushed (flush_next s)"
  by (simp add: flush_next_def request_def flushed_def)

lemma tame_queue: "tame (queue payload False cb)"
proof (rule tameI)
  show "ws_inv (queue payload False cb s)" if "ws_inv s" for s
    unfolding queue_def using that
    by (intro tameD(4) [OF tame_flush_next]) (simp add: ws_inv_def write_total_def)
  show "flushed (queue payload False cb s)" for s
    unfolding queue_def by (rule flush_next_flushed)
qed (simp_all add: queue_def flush_next_def request_def with_buffer_def)

lemma tame_start_close_timeout:
  "ws_closed s \<or> close_sent s \<Longrightarrow> ws_inv s \<Longrightarrow> ws_inv (start_close_timeout s)"
  by (auto simp: start_close_timeout_def request_def ws_inv_def)

lemma queue_fields [simp]:
  "close_sent (queue payload a cb s) = close_sent s" "ws_closed (queue payload a cb s) = ws_closed s"
  by (simp_all add: queue_def flush_next_def request_def)

text \<open>Marking the close frame as sent, queueing it and starting the timeout.\<close>

definition send_close :: "byte list \<Rightarrow> ws_state \<Rightarrow> ws_state" where
  "send_close frame s = start_close_timeout (queue frame False None (s\<lparr>close_sent := True\<rparr>))"

lemma tame_send_close: "tame (send_close frame)"
proof (rule tameI)
  show "ws_inv (send_close frame s)" if "ws_inv s" for s
    unfolding send_close_def using that
    by (intro tame_start_close_timeout tameD(4) [OF tame_queue]) (simp_all add: ws_inv_def)
  show "flushed (send_close frame s)" for s
    using flush_next_flushed
    by (simp add: send_close_def start_close_timeout_def request_def queue_def flushed_def)
qed (simp_all add: send_close_def start_close_timeout_def queue_def flush_next_def request_def with_buffer_def)

lemma tame_close: "tame (close c reason)"
proof -
  have "close c reason = (\<lambda>s. if ws_closed s \<or> close_sent s then s
      else send_close (make_frame (opcode_value op_close) (make_close_payload c reason)) s)"
    by (simp add: fun_eq_iff close_def send_close_def Let_def)
  then show ?thesis by (simp add: tame_if tame_id tame_send_close)
qed

lemma tame_stop_close_timeout: "tame stop_close_timeout"
  by (rule tameI)
    (auto simp: stop_close_timeout_def Let_def request_def with_buffer_def ws_inv_def flushed_def)

lemma tame_close_timer_handle: "tame close_timer_handle"
  by (rule tameI)
    (auto simp: close_timer_handle_def stop_close_timeout_def Let_def request_def with_buffer_def
      ws_inv_def flushed_def)

subsection \<open>Operations that invoke callbacks\<close>

text \<open>The state \<open>close_transport\<close> leaves before it reaches the stream.\<close>

lemma tame_mark_closed:
  "tame (\<lambda>s. s\<lparr>ws_closed := True, close_timeout_active := False, writes := [],
              pending_write_bytes := 0\<rparr>)"
  by (rule tameI) (auto simp: with_buffer_def ws_inv_def flushed_def write_total_def)

text \<open>A callback mechanism whose callbacks are tame.\<close>

locale ws_env =
  fixes em :: emitter
  assumes em_tame: "tame (em e)"
begin

lemma notify_error_tame: "tame (notify_error em e)"
  unfolding notify_error_def by (intro tame_if em_tame tame_id) simp

lemma close_with_error_tame: "tame (close_with_error em c e)"
  unfolding close_with_error_def by (rule tame_comp [OF notify_error_tame tame_close])

lemma invoke_on_write_tame: "tame (invoke_on_write em cb e)"
  unfolding invoke_on_write_def by (cases cb) (simp_all add: tame_id em_tame)

lemma invoke_on_closed_tame: "tame (invoke_on_closed em cb)"
  unfolding invoke_on_closed_def by (cases cb) (simp_all add: tame_id em_tame)

lemma send_frame_tame: "tame (\<lambda>s. fst (send_frame em opc payload cb s))"
proof -
  have "(\<lambda>s. fst (send_frame em opc payload cb s)) =
    (\<lambda>s. if ws_closed s \<or> \<not> stream s then invoke_on_write em cb (Some not_connected) s
          else if pending_write_bytes s + length payload > max_pending_write_bytes (options s)
          then close_with_error em close_internal_error operation_would_block
                 (invoke_on_write em cb (Some operation_would_block) s)
          else queue (make_frame (opcode_value opc) payload) False cb s)"
    by (simp add: fun_eq_iff send_frame_def)
  then show ?thesis
    by (simp add: tame_if tame_comp invoke_on_write_tame close_with_error_tame tame_queue)
qed

lemma send_text_tame: "tame (send_text em message)"
  unfolding send_text_def by (rule send_frame_tame)

lemma send_binary_tame: "tame (send_binary em message cb)"
  unfolding send_binary_def by (rule send_frame_tame)

lemma close_transport_tame: "tame (close_transport em cb)"
proof -
  let ?finish = "\<lambda>s. if stream s then request (Stream_close cb) (request Stream_read_stop s)
    else close_timer_handle (invoke_on_closed em cb s)"
  have finish: "tame ?finish"
    by (rule tame_if [OF _ tame_comp [OF tame_setters(11) tame_setters(11)]
          tame_comp [OF invoke_on_closed_tame tame_close_timer_handle]]) simp
  have "tame (\<lambda>s. if ws_closed s then invoke_on_closed em cb s
      else ?finish (s\<lparr>ws_closed := True, close_timeout_active := False, writes := [],
                      pending_write_bytes := 0\<rparr>))"
    by (rule tame_if [OF _ invoke_on_closed_tame tame_comp [OF tame_mark_closed finish]]) simp
  then show ?thesis by (rule tame_cong [rotated]) (simp add: close_transport_def Let_def)
qed

lemma close_transport_closes: "ws_closed (close_transport em cb s)"
  using tameD(3) [OF invoke_on_closed_tame] tameD(3) [OF tame_close_timer_handle]
  by (simp add: close_transport_def Let_def request_def)

lemma optional_tame:
  assumes "\<And>s b k. P (with_buffer b k s) = P s"
  shows "tame (\<lambda>s. if P s then em e s else s)"
  by (rule tame_if [OF assms em_tame tame_id])

lemma fail_tame: "tame (fail em e)"
  unfolding fail_def Let_def
  by (rule tame_comp [OF tame_comp [OF notify_error_tame optional_tame [of byte_read "Ev_byte_error e"]]
        close_transport_tame]) simp

lemma fail_closes: "ws_closed (fail em e s)"
  by (simp add: fail_def Let_def close_transport_closes)

lemma byte_stream_write_tame: "tame (byte_stream_write em bytes cb)"
  unfolding byte_stream_write_def
  by (rule tame_if [OF _ invoke_on_write_tame send_binary_tame]) simp

lemma session_call_tame: "tame (session_call em c)"
proof -
  note ops = send_text_tame send_binary_tame send_frame_tame tame_close tame_setters
    close_transport_tame byte_stream_write_tame
  show ?thesis
    by (cases c; simp only:; rule tame_cong; (rule session_call.simps | rule ops))
qed

end

text \<open>Every application gives such a mechanism, at every depth of nesting.\<close>

lemma emit_env: "ws_env (emit app depth)"
proof (induction depth)
  case 0
  show ?case
    by unfold_locales (rule tame_cong [OF emit.simps(1) tame_setters(10)])
next
  case (Suc depth)
  note call = ws_env.session_call_tame [OF Suc.IH]
  show ?case
  proof
    fix e
    show "tame (emit app (Suc depth) e)"
    proof (rule tameI)
      fix s :: ws_state
      let ?s = "s\<lparr>events := events s @ [e]\<rparr>"
      let ?f = "fold (session_call (emit app depth)) (app (events ?s))"
      have f: "tame ?f" by (rule tame_fold) (rule call)
      have eq: "emit app (Suc depth) e s = ?f ?s" by (simp add: Let_def)
      note rec = tameD [OF tame_setters(10)]
      show "emit app (Suc depth) e (with_buffer b k s) = with_buffer b k (emit app (Suc depth) e s)" for b k
        using tameD(1) [OF f] rec(1) [of _ _ _ e] by (simp add: Let_def)
      show "options (emit app (Suc depth) e s) = options s"
        unfolding eq using tameD(2) [OF f] by simp
      show "ws_closed (emit app (Suc depth) e s)" if "ws_closed s"
        unfolding eq using tameD(3) [OF f] that by simp
      show "ws_inv (emit app (Suc depth) e s)" if "ws_inv s"
        unfolding eq by (rule tameD(4) [OF f rec(4) [OF that]])
      show "flushed (emit app (Suc depth) e s)" if "flushed s"
        unfolding eq by (rule tameD(5) [OF f rec(5) [OF that]])
    qed
  qed
qed

interpretation ws_app: ws_env "emit app depth" for app depth
  by (rule emit_env)

end
