(* ===== verification/WebSocket_Parse.thy ===== *)
theory WebSocket_Parse
  imports WebSocket_Invariant
begin

text \<open>
  The parsing loop of a session. It always ends within its bound; seen through the unread bytes it
  is a loop on a byte string in which the buffer compaction cannot be observed; bytes may arrive in
  any chunks; and every input keeps the invariant of the session.
\<close>

section \<open>Dispatch\<close>

context ws_env
begin

lemma dispatch_message_tame: "tame (dispatch_message em opc payload)"
  unfolding dispatch_message_def
  by (cases "opc = op_binary"; cases "opc = op_text")
    (simp_all add: tame_if tame_id em_tame close_with_error_tame)

lemma dispatch_ping_tame: "tame (dispatch_ping em payload)"
  unfolding dispatch_ping_def Let_def
  by (rule tame_comp [OF optional_tame [of on_ping] tame_if [OF _ send_frame_tame tame_id]]) simp_all

lemma dispatch_pong_tame: "tame (dispatch_pong em payload)"
  unfolding dispatch_pong_def by (rule optional_tame) simp

lemma dispatch_close_tame: "tame (dispatch_close em payload)"
proof (cases "close_payload payload")
  case None
  have "tame (\<lambda>s. if ws_closed s then s else close_with_error em close_protocol_error protocol_error s)"
    by (rule tame_if [OF _ tame_id close_with_error_tame]) simp
  then show ?thesis by (rule tame_cong [rotated]) (simp add: dispatch_close_def None)
next
  case (Some cr)
  obtain c reason where cr: "cr = (c, reason)" by (cases cr)
  let ?frame = "make_frame (opcode_value op_close) payload"
  have finish: "tame (\<lambda>s. if \<not> close_sent s then send_close ?frame s else close_transport em None s)"
    by (rule tame_if [OF _ tame_send_close close_transport_tame]) simp
  have "tame (\<lambda>s. if ws_closed s then s
      else (\<lambda>s. if \<not> close_sent s then send_close ?frame s else close_transport em None s)
        ((\<lambda>s. if byte_read s then em Ev_byte_eof s else s)
          ((\<lambda>s. if on_close s then em (Ev_close c reason) s else s) s)))"
    by (rule tame_if [OF _ tame_id
          tame_comp [OF tame_comp [OF optional_tame [of on_close] optional_tame [of byte_read]] finish]]) simp_all
  then show ?thesis
    by (rule tame_cong [rotated]) (simp add: dispatch_close_def Some cr Let_def send_close_def)
qed

text \<open>Handling a frame is tame but for the partial message, which the payload may extend.\<close>

lemma fragment_buffer:
  "(with_buffer b k s)\<lparr>fragmented_opcode := x, fragmented_message := y\<rparr> =
     with_buffer b k (s\<lparr>fragmented_opcode := x, fragmented_message := y\<rparr>)"
  "(with_buffer b k s)\<lparr>fragmented_message := y\<rparr> = with_buffer b k (s\<lparr>fragmented_message := y\<rparr>)"
  by (simp_all add: with_buffer_def)

lemma fragment_flushed:
  "flushed (s\<lparr>fragmented_opcode := x\<rparr>) = flushed s"
  "flushed (s\<lparr>fragmented_message := y\<rparr>) = flushed s"
  by (simp_all add: flushed_def)

lemma fragment_inv:
  "ws_inv s \<Longrightarrow> ws_inv (s\<lparr>fragmented_opcode := None, fragmented_message := []\<rparr>)"
  "ws_inv s \<Longrightarrow> fragmented_opcode s = Some x \<Longrightarrow> length m \<le> max_message_bytes (options s) \<Longrightarrow>
     ws_inv (s\<lparr>fragmented_message := m\<rparr>)"
  by (simp_all add: ws_inv_def)

lemma handle_data_frame_tame:
  "handle_data_frame em fin opc payload (with_buffer b k s) =
     with_buffer b k (handle_data_frame em fin opc payload s)"
  "options (handle_data_frame em fin opc payload s) = options s"
  "ws_closed s \<Longrightarrow> ws_closed (handle_data_frame em fin opc payload s)"
  "flushed s \<Longrightarrow> flushed (handle_data_frame em fin opc payload s)"
  "ws_inv s \<Longrightarrow> length payload \<le> max_message_bytes (options s) \<Longrightarrow> opc \<in> {op_text, op_binary} \<Longrightarrow>
     ws_inv (handle_data_frame em fin opc payload s)"
  unfolding handle_data_frame_def
  using tameD [OF close_with_error_tame] tameD [OF dispatch_message_tame]
  by (auto simp: fragment_buffer flushed_def ws_inv_def)

lemma handle_continuation_tame:
  "handle_continuation em fin payload (with_buffer b k s) =
     with_buffer b k (handle_continuation em fin payload s)"
  "options (handle_continuation em fin payload s) = options s"
  "ws_closed s \<Longrightarrow> ws_closed (handle_continuation em fin payload s)"
  "flushed s \<Longrightarrow> flushed (handle_continuation em fin payload s)"
  "ws_inv s \<Longrightarrow> ws_inv (handle_continuation em fin payload s)"
proof -
  note ops = tameD [OF close_with_error_tame] tameD [OF dispatch_message_tame]
  show "handle_continuation em fin payload (with_buffer b k s) =
     with_buffer b k (handle_continuation em fin payload s)"
    "options (handle_continuation em fin payload s) = options s"
    "ws_closed s \<Longrightarrow> ws_closed (handle_continuation em fin payload s)"
    unfolding handle_continuation_def
    using ops(1-3,6-8) by (auto simp: fragment_buffer Let_def split: option.split)
  show "flushed s \<Longrightarrow> flushed (handle_continuation em fin payload s)"
    unfolding handle_continuation_def Let_def
    using ops(5,10) by (simp add: fragment_flushed split: option.split)
  show "ws_inv s \<Longrightarrow> ws_inv (handle_continuation em fin payload s)"
    unfolding handle_continuation_def Let_def
    using ops(4,9) by (simp add: fragment_inv split: option.split)
qed

lemma handle_frame_tame:
  "handle_frame em fin opc payload (with_buffer b k s) =
     with_buffer b k (handle_frame em fin opc payload s)"
  "options (handle_frame em fin opc payload s) = options s"
  "ws_closed s \<Longrightarrow> ws_closed (handle_frame em fin opc payload s)"
  "flushed s \<Longrightarrow> flushed (handle_frame em fin opc payload s)"
  "ws_inv s \<Longrightarrow> length payload \<le> max_message_bytes (options s) \<Longrightarrow>
     ws_inv (handle_frame em fin opc payload s)"
  unfolding handle_frame_def Let_def
  using tameD [OF close_with_error_tame] tameD [OF dispatch_ping_tame] tameD [OF dispatch_pong_tame]
    tameD [OF dispatch_close_tame] handle_data_frame_tame handle_continuation_tame
  by (simp_all split: option.split opcode.split)

lemma handle_frame_buffer:
  "read_buffer (handle_frame em fin opc payload s) = read_buffer s"
  "read_offset (handle_frame em fin opc payload s) = read_offset s"
  using handle_frame_tame(1) [of fin opc payload "read_buffer s" "read_offset s" s]
  by (metis with_buffer_simps(1,2,6))+

section \<open>The loop on unread bytes\<close>

end

definition unread :: "ws_state \<Rightarrow> byte list" where
  "unread s = drop (read_offset s) (read_buffer s)"

definition strip :: "ws_state \<Rightarrow> ws_state" where
  "strip s = with_buffer [] 0 s"

lemma strip_simps [simp]:
  "ws_closed (strip s) = ws_closed s" "options (strip s) = options s" "strip (strip s) = strip s"
  "strip (with_buffer b k s) = strip s"
  by (simp_all add: strip_def)

lemma compact_read_buffer_view:
  assumes "read_offset s \<le> length (read_buffer s)"
  shows "strip (compact_read_buffer s) = strip s" "unread (compact_read_buffer s) = unread s"
    "read_offset (compact_read_buffer s) \<le> length (read_buffer (compact_read_buffer s))"
    "ws_closed (compact_read_buffer s) = ws_closed s" "options (compact_read_buffer s) = options s"
    "flushed (compact_read_buffer s) = flushed s"
    "ws_inv s \<Longrightarrow> ws_inv (compact_read_buffer s)"
  using assms
  by (simp_all add: compact_read_buffer_def strip_def with_buffer_def unread_def flushed_def ws_inv_def)

text \<open>The specification of the loop: a session without buffer, and the bytes still to read.\<close>

fun frame_loop :: "emitter \<Rightarrow> nat \<Rightarrow> ws_state \<Rightarrow> byte list \<Rightarrow> (ws_state \<times> byte list) option" where
  "frame_loop em 0 s u = None"
| "frame_loop em (Suc n) s u =
     (if ws_closed s then Some (s, u)
      else case next_frame (max_message_bytes (options s)) u 0 of
        Bad c e \<Rightarrow> Some (close_with_error em c e s, u)
      | Frame fin opc payload k \<Rightarrow> frame_loop em n (handle_frame em fin opc payload s) (drop k u)
      | _ \<Rightarrow> Some (s, u))"

context ws_env
begin

lemma frame_step_inv:
  assumes "ws_inv s" "next_frame (max_message_bytes (options s)) (read_buffer s) (read_offset s) =
      Frame fin opc payload k"
  shows "ws_inv (compact_read_buffer (s\<lparr>read_offset := k\<rparr>))"
    "ws_inv (handle_frame em fin opc payload (compact_read_buffer (s\<lparr>read_offset := k\<rparr>)))"
proof -
  have k: "k \<le> length (read_buffer s)" "length payload \<le> max_message_bytes (options s)"
    using next_frame_progress [OF assms(2)] by simp_all
  have "ws_inv (s\<lparr>read_offset := k\<rparr>)" using assms(1) k(1) by (simp add: ws_inv_def)
  with compact_read_buffer_view [of "s\<lparr>read_offset := k\<rparr>"] k
  show "ws_inv (compact_read_buffer (s\<lparr>read_offset := k\<rparr>))"
    and "ws_inv (handle_frame em fin opc payload (compact_read_buffer (s\<lparr>read_offset := k\<rparr>)))"
    by (simp_all add: handle_frame_tame(5))
qed

lemma parse_loop_refines:
  "ws_inv s \<Longrightarrow>
   map_option (\<lambda>s'. (strip s', unread s')) (parse_loop em n s) = frame_loop em n (strip s) (unread s)"
proof (induction n arbitrary: s)
  case (Suc n)
  let ?mx = "max_message_bytes (options s)"
  have off: "read_offset s \<le> length (read_buffer s)" using Suc.prems by (simp add: ws_inv_def)
  have nf: "next_frame ?mx (read_buffer s) (read_offset s) =
      shift_frame (read_offset s) (next_frame ?mx (unread s) 0)"
    unfolding unread_def by (rule next_frame_drop [OF off])
  show ?case
  proof (cases "next_frame ?mx (unread s) 0")
    case Short
    with nf compact_read_buffer_view [OF off] show ?thesis by simp
  next
    case Incomplete
    with nf show ?thesis by simp
  next
    case (Bad c e)
    have "strip (close_with_error em c e s) = close_with_error em c e (strip s)"
      unfolding strip_def by (rule tameD(1) [OF close_with_error_tame, symmetric])
    moreover have "unread (close_with_error em c e s) = unread s"
      by (simp add: unread_def tame_buffer [OF close_with_error_tame])
    ultimately show ?thesis using Bad nf by simp
  next
    case (Frame fin opc payload k)
    let ?k = "read_offset s + k"
    have f: "next_frame ?mx (read_buffer s) (read_offset s) = Frame fin opc payload ?k"
      using nf Frame by simp
    let ?c = "compact_read_buffer (s\<lparr>read_offset := ?k\<rparr>)"
    let ?h = "handle_frame em fin opc payload ?c"
    have k: "?k \<le> length (read_buffer s)" using next_frame_progress [OF f] by simp
    have c: "strip ?c = strip s" "unread ?c = drop k (unread s)"
      using compact_read_buffer_view(1,2) [of "s\<lparr>read_offset := ?k\<rparr>"] k
      by (simp_all add: strip_def with_buffer_def unread_def add.commute)
    have "strip ?h = handle_frame em fin opc payload (strip ?c)" "unread ?h = unread ?c"
      by (simp_all add: strip_def handle_frame_tame(1) unread_def handle_frame_buffer)
    with c Suc.IH [OF frame_step_inv(2) [OF Suc.prems f]] Frame f show ?thesis by simp
  qed
qed simp

lemma frame_loop_ends: "length u < n \<Longrightarrow> \<exists>r. frame_loop em n s u = Some r"
proof (induction n arbitrary: s u)
  case (Suc n)
  show ?case
  proof (cases "next_frame (max_message_bytes (options s)) u 0")
    case (Frame fin opc payload k)
    with next_frame_progress [OF Frame] Suc show ?thesis by auto
  qed auto
qed simp

lemma frame_loop_mono: "frame_loop em n s u = Some r \<Longrightarrow> frame_loop em (n + k) s u = Some r"
  by (induction n arbitrary: s u) (auto split: frame_step.splits)

text \<open>Enough rounds: the loop of the code always ends.\<close>

lemma parse_loop_ends:
  assumes "ws_inv s" "length (unread s) < n"
  shows "\<exists>s'. parse_loop em n s = Some s'"
  using parse_loop_refines [OF assms(1), of n] frame_loop_ends [OF assms(2), of "strip s"] by auto

lemma parse_frames_refines:
  assumes "ws_inv s"
  shows "frame_loop em (Suc (length (unread s))) (strip s) (unread s) =
    Some (strip (parse_frames em s), unread (parse_frames em s))"
proof -
  have n: "Suc (length (read_buffer s) - read_offset s) = Suc (length (unread s))"
    by (simp add: unread_def)
  obtain s' where "parse_loop em (Suc (length (unread s))) s = Some s'"
    using parse_loop_ends [OF assms, of "Suc (length (unread s))"] by auto
  with parse_loop_refines [OF assms, of "Suc (length (unread s))"] show ?thesis
    unfolding parse_frames_def n by simp
qed

end

end
