(* ===== verification/WebSocket_Props.thy ===== *)
theory WebSocket_Props
  imports WebSocket_Parse
begin

text \<open>
  What a WebSocket session guarantees: the invariant in every reachable state, no stalled write
  after the start, independence of the chunks in which bytes arrive, delivery of fragmented
  messages; and what it does not guarantee.
\<close>

section \<open>Inputs keep the invariant\<close>

fun is_start :: "ws_input \<Rightarrow> bool" where
  "is_start (In_start extra detached) \<longleftrightarrow> True"
| "is_start _ \<longleftrightarrow> False"

context ws_env
begin

lemma parse_loop_keeps:
  "parse_loop em n s = Some s' \<Longrightarrow> ws_inv s \<Longrightarrow>
     ws_inv s' \<and> options s' = options s \<and> (flushed s \<longrightarrow> flushed s') \<and> (ws_closed s \<longrightarrow> ws_closed s')"
proof (induction n arbitrary: s)
  case (Suc n)
  have off: "read_offset s \<le> length (read_buffer s)" using Suc.prems(2) by (simp add: ws_inv_def)
  show ?case
  proof (cases "next_frame (max_message_bytes (options s)) (read_buffer s) (read_offset s)")
    case Short
    with Suc.prems compact_read_buffer_view [OF off] show ?thesis by (auto split: if_splits)
  next
    case Incomplete
    with Suc.prems show ?thesis by (simp split: if_splits)
  next
    case (Bad c e)
    with Suc.prems tameD [OF close_with_error_tame] show ?thesis by (auto split: if_splits)
  next
    case (Frame fin opc payload k)
    let ?c = "compact_read_buffer (s\<lparr>read_offset := k\<rparr>)"
    have k: "k \<le> length (read_buffer s)" using next_frame_progress [OF Frame] by simp
    have c: "options ?c = options s" "ws_closed ?c = ws_closed s" "flushed ?c = flushed s"
      using compact_read_buffer_view [of "s\<lparr>read_offset := k\<rparr>"] k by (simp_all add: flushed_def)
    show ?thesis
    proof (cases "ws_closed s")
      case False
      with Suc.prems Frame have "parse_loop em n (handle_frame em fin opc payload ?c) = Some s'" by simp
      from Suc.IH [OF this frame_step_inv(2) [OF Suc.prems(2) Frame]] False
        handle_frame_tame(2,4) [where s = ?c] c
      show ?thesis by simp
    qed (use Suc.prems in simp)
  qed
qed simp

lemma parse_frames_keeps:
  assumes "ws_inv s"
  shows "ws_inv (parse_frames em s) \<and> options (parse_frames em s) = options s \<and>
    (flushed s \<longrightarrow> flushed (parse_frames em s)) \<and> (ws_closed s \<longrightarrow> ws_closed (parse_frames em s))"
proof (cases "parse_loop em (Suc (length (read_buffer s) - read_offset s)) s")
  case (Some s')
  with parse_loop_keeps [OF Some assms] show ?thesis by (simp add: parse_frames_def)
qed (use assms in \<open>simp add: parse_frames_def\<close>)

lemma append_buffer:
  "ws_inv s \<Longrightarrow> ws_inv (s\<lparr>read_buffer := read_buffer s @ bytes\<rparr>)"
  "flushed (s\<lparr>read_buffer := read_buffer s @ bytes\<rparr>) = flushed s"
  "strip (s\<lparr>read_buffer := read_buffer s @ bytes\<rparr>) = strip s"
  "ws_inv s \<Longrightarrow> unread (s\<lparr>read_buffer := read_buffer s @ bytes\<rparr>) = unread s @ bytes"
  by (simp_all add: ws_inv_def flushed_def strip_def with_buffer_def unread_def)

lemma on_read_keeps:
  assumes "ws_inv s"
  shows "ws_inv (on_read em r s) \<and> (flushed s \<longrightarrow> flushed (on_read em r s))"
  using assms append_buffer(1,2) [of s] parse_frames_keeps tameD(4,5) [OF close_transport_tame]
    tameD(4,5) [OF fail_tame]
  by (cases r) (auto simp: on_read_def)

lemma on_write_keeps:
  assumes "ws_inv s"
  shows "ws_inv (on_write em e s) \<and> flushed (on_write em e s)"
proof -
  let ?s = "s\<lparr>writing := False\<rparr>"
  have inv: "ws_inv ?s" using assms by (simp add: ws_inv_def)
  let ?p = "if writes s \<noteq> [] then ?s\<lparr>pending_write_bytes := pending_write_bytes s -
      min (pending_write_bytes s) (length (pw_payload (hd (writes s)))), writes := tl (writes s)\<rparr> else ?s"
  have popped: "ws_inv ?p"
    using inv by (cases "writes s") (auto simp: ws_inv_def write_total_def)
  have closed: "flushed t" if "ws_closed t" for t using that by (simp add: flushed_def)
  note keeps = tameD(4) [OF invoke_on_write_tame] tameD(4) [OF close_transport_tame]
    tameD(4) [OF fail_tame] tameD(4) [OF tame_flush_next]
  show ?thesis
  proof (cases "ws_closed s")
    case True
    with inv closed [of ?s] show ?thesis by (simp add: on_write_def)
  next
    case False
    show ?thesis
    proof (cases e)
      case None
      with False popped keeps closed [OF close_transport_closes] flush_next_flushed show ?thesis
        by (cases "writes s = []") (simp_all add: on_write_def Let_def)
    next
      case (Some err)
      with False inv keeps closed [OF fail_closes] show ?thesis by (simp add: on_write_def Let_def)
    qed
  qed
qed

lemma start_inv:
  assumes "ws_inv s"
  shows "ws_inv (start em extra detached s)"
proof -
  have 1: "ws_inv (s\<lparr>stream := True, close_timer := True\<rparr>)"
    "ws_inv (s\<lparr>keep_alive := True, stream := True, close_timer := True\<rparr>)"
    using assms by (simp_all add: ws_inv_def)
  note p = append_buffer(1) [OF 1(1)] append_buffer(1) [OF 1(2)]
  show ?thesis
    using assms 1 parse_frames_keeps [OF p(1), of extra] parse_frames_keeps [OF p(2), of extra]
      tameD(4) [OF tame_setters(11)]
    by (simp add: start_def Let_def read_start_def)
qed

lemma start_flushed:
  assumes "ws_inv s" "writes s = []"
  shows "flushed (start em extra detached s)"
proof -
  have *: "flushed (read_start t) = flushed t" for t
    by (simp add: read_start_def request_def flushed_def)
  have 1: "ws_inv (s\<lparr>stream := True, close_timer := True\<rparr>)"
    "ws_inv (s\<lparr>keep_alive := True, stream := True, close_timer := True\<rparr>)"
    using assms by (simp_all add: ws_inv_def)
  have 2: "flushed (s\<lparr>stream := True, close_timer := True\<rparr>)"
    "flushed (s\<lparr>keep_alive := True, stream := True, close_timer := True\<rparr>)"
    using assms(2) by (simp_all add: flushed_def)
  note p = append_buffer(1) [OF 1(1)] append_buffer(1) [OF 1(2)]
  show ?thesis
    using assms 1 2 parse_frames_keeps [OF p(1), of extra] parse_frames_keeps [OF p(2), of extra]
      append_buffer(2) tameD(5) [OF tame_setters(11)]
    by (simp add: start_def Let_def *) (simp add: flushed_def)
qed

lemma on_close_timeout_keeps:
  "ws_inv s \<Longrightarrow> ws_inv (on_close_timeout em s)" "flushed s \<Longrightarrow> flushed (on_close_timeout em s)"
proof -
  have "ws_inv (s\<lparr>close_timeout_active := False\<rparr>)" if "ws_inv s" using that by (simp add: ws_inv_def)
  then show "ws_inv s \<Longrightarrow> ws_inv (on_close_timeout em s)"
    unfolding on_close_timeout_def by (simp add: tameD(4) [OF close_transport_tame])
  have "flushed (s\<lparr>close_timeout_active := False\<rparr>)" if "flushed s" using that by (simp add: flushed_def)
  then show "flushed s \<Longrightarrow> flushed (on_close_timeout em s)"
    unfolding on_close_timeout_def by (simp add: tameD(5) [OF close_transport_tame])
qed

lemma on_stream_closed_tame: "tame (on_stream_closed em cb)"
  unfolding on_stream_closed_def
  by (rule tame_comp [OF invoke_on_closed_tame tame_close_timer_handle])

lemma ws_step_inv: "ws_inv s \<Longrightarrow> ws_inv (ws_step em s input)"
  using on_read_keeps on_write_keeps
  by (cases input) (simp_all add: start_inv on_close_timeout_keeps tameD(4) [OF on_stream_closed_tame]
      tameD(4) [OF session_call_tame] tameD(4) [OF tame_setters(9)])

lemma ws_step_flushed:
  assumes "ws_inv s" "flushed s" "\<not> is_start input"
  shows "flushed (ws_step em s input)"
  using assms on_read_keeps on_write_keeps
  by (cases input) (simp_all add: on_close_timeout_keeps tameD(5) [OF on_stream_closed_tame]
      tameD(5) [OF session_call_tame] tameD(5) [OF tame_setters(9)])

end

interpretation ws_run: inv_machine "ws_step (emit app depth)" ws_inv for app depth
  by unfold_locales (rule ws_app.ws_step_inv)

lemma new_state_inv: "ws_inv (new_state opts)"
  by (simp add: ws_inv_def new_state_def write_total_def)

text \<open>C11: In every state a session reaches, under any sequence of reads, write completions,
  timeouts and calls, and whatever the application does in its callbacks: the read offset is inside
  the buffer, the pending byte count is the size of the queued frames, a write in flight has a
  queued frame, a partial message belongs to a text or binary message and is within the message
  limit, and the close timeout runs only between the close frame and the end of the session.\<close>

theorem ws_reachable_inv: "ws_inv (foldl (ws_step (emit app depth)) (new_state opts) inputs)"
  by (rule ws_run.run_inv) (rule new_state_inv)

lemma flushed_run:
  "ws_inv s \<Longrightarrow> flushed s \<Longrightarrow> \<forall>i\<in>set inputs. \<not> is_start i \<Longrightarrow>
   flushed (foldl (ws_step (emit app depth)) s inputs)"
  by (induction inputs arbitrary: s)
    (simp_all add: ws_app.ws_step_flushed ws_app.ws_step_inv)

text \<open>C32: After a session has been started with an empty queue, whatever happens next, an open
  session never has a queued frame without a write in flight: no frame is left stranded.\<close>

theorem no_stalled_write:
  assumes "\<forall>i\<in>set inputs. \<not> is_start i"
  shows "flushed (foldl (ws_step (emit app depth)) (start (emit app depth) extra detached (new_state opts)) inputs)"
  by (rule flushed_run [OF ws_app.start_inv [OF new_state_inv] ws_app.start_flushed [OF new_state_inv] assms])
    (simp add: new_state_def)

theorem no_stalled_write_witness:
  "flushed (foldl (ws_step (emit (\<lambda>_. []) 1)) (start (emit (\<lambda>_. []) 1) [] False
     (new_state default_accept_options)) [In_call (Call_text [104]), In_written None])"
  by (rule no_stalled_write) simp

section \<open>Chunks\<close>

context ws_env
begin

lemma frame_loop_append:
  "frame_loop em n s u = Some (s1, u1) \<Longrightarrow>
   ws_closed s1 \<or> (\<forall>c e. next_frame (max_message_bytes (options s1)) u1 0 \<noteq> Bad c e) \<Longrightarrow>
   frame_loop em m s1 (u1 @ v) = Some r \<Longrightarrow> frame_loop em (n + m) s (u @ v) = Some r"
proof (induction n arbitrary: s u)
  case (Suc n)
  show ?case
  proof (cases "ws_closed s \<or> next_frame (max_message_bytes (options s)) u 0 \<in> {Short, Incomplete}")
    case True
    with Suc.prems have "s1 = s" "u1 = u" by (auto split: if_splits)
    with Suc.prems(3) frame_loop_mono [of m s "u @ v" r "Suc n"] show ?thesis by (simp add: add.commute)
  next
    case False
    let ?mx = "max_message_bytes (options s)"
    have app: "next_frame ?mx (u @ v) 0 = next_frame ?mx u 0"
      by (rule next_frame_append) (use False in auto)
    show ?thesis
    proof (cases "next_frame ?mx u 0")
      case (Bad c e)
      with Suc.prems False have s1: "s1 = close_with_error em c e s" "u1 = u" by simp_all
      with Suc.prems(2) Bad tameD(2) [OF close_with_error_tame] have "ws_closed s1" by auto
      with Suc.prems(3) have "r = (s1, u1 @ v)" by (cases m) simp_all
      with s1 False Bad app show ?thesis by simp
    next
      case (Frame fin opc payload k)
      have "k \<le> length u" using next_frame_progress [OF Frame] by simp
      moreover have "frame_loop em n (handle_frame em fin opc payload s) (drop k u) = Some (s1, u1)"
        using Suc.prems(1) Frame False by simp
      ultimately show ?thesis
        using Suc.IH [OF _ Suc.prems(2,3)] False Frame app by simp
    qed (use False in simp_all)
  qed
qed simp

lemma frame_loop_det:
  "frame_loop em n s u = Some r \<Longrightarrow> frame_loop em m s u = Some r' \<Longrightarrow> r = r'"
  using frame_loop_mono [of n s u r m] frame_loop_mono [of m s u r' n] by (simp add: add.commute)

lemma on_read_refines:
  assumes "ws_inv s" "\<not> ws_closed s"
  shows "\<exists>n. frame_loop em n (strip s) (unread s @ bytes) =
    Some (strip (on_read em (Read_bytes bytes) s), unread (on_read em (Read_bytes bytes) s))"
  using parse_frames_refines [OF append_buffer(1) [OF assms(1)], of bytes] assms
  by (intro exI [of _ "Suc (length (unread s @ bytes))"])
    (simp add: on_read_def append_buffer(3,4) del: frame_loop.simps)

lemma on_read_chunks:
  assumes inv: "ws_inv s" and s1: "s1 = on_read em (Read_bytes a) s"
    and good: "ws_closed s1 \<or> (\<forall>c e. next_frame (max_message_bytes (options s1)) (unread s1) 0 \<noteq> Bad c e)"
  shows "strip (on_read em (Read_bytes b) s1) = strip (on_read em (Read_bytes (a @ b)) s) \<and>
    (\<not> ws_closed (on_read em (Read_bytes b) s1) \<longrightarrow>
       unread (on_read em (Read_bytes b) s1) = unread (on_read em (Read_bytes (a @ b)) s))"
proof (cases "ws_closed s")
  case True
  then show ?thesis by (simp add: s1 on_read_def)
next
  case False
  let ?t = "on_read em (Read_bytes (a @ b)) s"
  obtain n where n: "frame_loop em n (strip s) (unread s @ a) = Some (strip s1, unread s1)"
    using on_read_refines [OF inv False, of a] s1 by auto
  obtain k where k: "frame_loop em k (strip s) ((unread s @ a) @ b) = Some (strip ?t, unread ?t)"
    using on_read_refines [OF inv False, of "a @ b"] by auto
  have good': "ws_closed (strip s1) \<or>
      (\<forall>c e. next_frame (max_message_bytes (options (strip s1))) (unread s1) 0 \<noteq> Bad c e)"
    using good by simp
  show ?thesis
  proof (cases "ws_closed s1")
    case closed: True
    then have "frame_loop em 1 (strip s1) (unread s1 @ b) = Some (strip s1, unread s1 @ b)" by simp
    from frame_loop_det [OF frame_loop_append [OF n good' this] k] closed
    show ?thesis by (simp add: on_read_def)
  next
    case not_closed: False
    have inv1: "ws_inv s1" unfolding s1 using on_read_keeps [OF inv] by simp
    obtain m where "frame_loop em m (strip s1) (unread s1 @ b) =
        Some (strip (on_read em (Read_bytes b) s1), unread (on_read em (Read_bytes b) s1))"
      using on_read_refines [OF inv1 not_closed, of b] by auto
    from frame_loop_det [OF frame_loop_append [OF n good' this] k] show ?thesis by simp
  qed
qed

end


definition sample_options :: accept_options where
  "sample_options =
     \<lparr>max_message_bytes = 20, max_pending_write_bytes = 20, close_timeout = 5000,
      subprotocol = [], auto_pong = True\<rparr>"

definition sample_session :: ws_state where
  "sample_session = (start (emit (\<lambda>_. []) 1) [] False (new_state sample_options))\<lparr>on_text := True\<rparr>"

lemma sample_session_inv: "ws_inv sample_session"
  unfolding sample_session_def
  by (rule tameD(4) [OF tame_setters(1)]) (rule ws_app.start_inv [OF new_state_inv])


section \<open>Fragmented messages\<close>

text \<open>A message sent in fragments: the first frame carries the opcode, the others continue it, and
  the last one has the FIN bit.\<close>

fun fragments :: "byte \<Rightarrow> byte list \<Rightarrow> byte list list \<Rightarrow> byte list" where
  "fragments opc key [] = []"
| "fragments opc key [p] = client_frame True opc key p"
| "fragments opc key (p # q # ps) = client_frame False opc key p @ fragments 0 key (q # ps)"

lemma handle_frame_simps:
  "handle_frame em fin 0 payload s = handle_continuation em fin payload s"
  "handle_frame em fin 1 payload s = handle_data_frame em fin op_text payload s"
  "handle_frame em fin 2 payload s = handle_data_frame em fin op_binary payload s"
proof -
  have "opcode_of 0 = Some op_continuation" "opcode_of 1 = Some op_text" "opcode_of 2 = Some op_binary"
    by code_simp+
  then show "handle_frame em fin 0 payload s = handle_continuation em fin payload s"
    "handle_frame em fin 1 payload s = handle_data_frame em fin op_text payload s"
    "handle_frame em fin 2 payload s = handle_data_frame em fin op_binary payload s"
    by (simp_all add: handle_frame_def)
qed

lemma frame_loop_frame:
  assumes "\<not> ws_closed s" "length payload \<le> max_message_bytes (options s)"
    "length payload < 2 ^ 64" "length key = 4" "opc AND 0xf0 = 0"
  shows "frame_loop em (Suc n) s (client_frame fin opc key payload @ u) =
    frame_loop em n (handle_frame em fin opc payload s) u"
  using assms by (simp add: next_frame_client)

lemma frame_loop_empty: "frame_loop em (Suc n) s [] = Some (s, [])"
  by (simp add: next_frame_def)

lemma frame_loop_continuations:
  assumes "length key = 4"
  shows "ps \<noteq> [] \<Longrightarrow> \<not> ws_closed s \<Longrightarrow> fragmented_opcode s = Some d \<Longrightarrow>
    length (fragmented_message s @ concat ps) \<le> max_message_bytes (options s) \<Longrightarrow>
    length (concat ps) < 2 ^ 64 \<Longrightarrow> length ps < n \<Longrightarrow>
    frame_loop em n s (fragments 0 key ps) =
      Some (dispatch_message em d (fragmented_message s @ concat ps)
              (s\<lparr>fragmented_opcode := None, fragmented_message := []\<rparr>), [])"
proof (induction ps arbitrary: s n rule: induct_list012)
  case (2 p)
  obtain n' where n: "n = Suc (Suc n')" using "2.prems"(6) by (cases n; cases "n - 1") auto
  have "frame_loop em n s (client_frame True 0 key p @ []) =
      frame_loop em (Suc n') (handle_frame em True 0 p s) []"
    unfolding n by (rule frame_loop_frame) (use 2 assms in simp_all)
  with "2.prems" frame_loop_empty show ?case
    by (simp add: handle_frame_simps handle_continuation_def del: frame_loop.simps)
next
  case (3 p q ps)
  obtain n' where n: "n = Suc n'" using "3.prems"(6) by (cases n) auto
  let ?s = "s\<lparr>fragmented_message := fragmented_message s @ p\<rparr>"
  have "frame_loop em n s (client_frame False 0 key p @ fragments 0 key (q # ps)) =
      frame_loop em n' (handle_frame em False 0 p s) (fragments 0 key (q # ps))"
    unfolding n by (rule frame_loop_frame) (use 3 assms in simp_all)
  moreover have "handle_frame em False 0 p s = ?s"
    using "3.prems" by (simp add: handle_frame_simps handle_continuation_def Let_def)
  moreover have "frame_loop em n' ?s (fragments 0 key (q # ps)) =
      Some (dispatch_message em d (fragmented_message ?s @ concat (q # ps))
        (?s\<lparr>fragmented_opcode := None, fragmented_message := []\<rparr>), [])"
    by (rule "3.IH"(2)) (use "3.prems" n in simp_all)
  ultimately show ?case by (simp del: frame_loop.simps)
qed simp

lemma frame_loop_message:
  assumes key: "length key = 4" and ps: "ps \<noteq> []" and s: "\<not> ws_closed s" "fragmented_opcode s = None"
    "fragmented_message s = []"
    and len: "length (concat ps) \<le> max_message_bytes (options s)" "length (concat ps) < 2 ^ 64"
    and d: "d \<in> {op_text, op_binary}"
  shows "frame_loop em (Suc (Suc (length ps))) s (fragments (opcode_value d) key ps) =
    Some (dispatch_message em d (concat ps) s, [])"
proof -
  have opc: "opcode_value d AND 0xf0 = 0" using d by auto
  have h: "handle_frame em fin (opcode_value d) p s = handle_data_frame em fin d p s" for fin p
    using d handle_frame_simps by auto
  show ?thesis
  proof (cases "tl ps")
    case Nil
    with ps obtain p where p: "ps = [p]" by (cases ps) auto
    have "frame_loop em (Suc (Suc (length ps))) s (client_frame True (opcode_value d) key p @ []) =
        frame_loop em (Suc (length ps)) (handle_frame em True (opcode_value d) p s) []"
      by (rule frame_loop_frame) (use s len key opc p in simp_all)
    with p s h frame_loop_empty show ?thesis
      by (simp add: handle_data_frame_def del: frame_loop.simps)
  next
    case (Cons q qs)
    with ps obtain p where p: "ps = p # q # qs" by (cases ps) auto
    let ?s = "s\<lparr>fragmented_opcode := Some d, fragmented_message := p\<rparr>"
    have "frame_loop em (Suc (Suc (length ps))) s
          (client_frame False (opcode_value d) key p @ fragments 0 key (q # qs)) =
        frame_loop em (Suc (length ps)) (handle_frame em False (opcode_value d) p s) (fragments 0 key (q # qs))"
      by (rule frame_loop_frame) (use s len key opc p in simp_all)
    moreover have "handle_frame em False (opcode_value d) p s = ?s"
      using s by (simp add: h handle_data_frame_def)
    moreover have "frame_loop em (Suc (length ps)) ?s (fragments 0 key (q # qs)) =
        Some (dispatch_message em d (fragmented_message ?s @ concat (q # qs))
          (?s\<lparr>fragmented_opcode := None, fragmented_message := []\<rparr>), [])"
      by (rule frame_loop_continuations [OF key]) (use s len p in simp_all)
    moreover have "?s\<lparr>fragmented_opcode := None, fragmented_message := []\<rparr> = s"
      using s by simp
    ultimately show ?thesis using p by (simp del: frame_loop.simps)
  qed
qed



section \<open>What is not guaranteed\<close>

text \<open>A close requested between \<open>accept\<close> and the start of the stream is lost: it marks the close
  as sent and queues the frame, but the start neither writes the queue nor starts the timeout, and a
  second close is ignored; the open session asks the transport for reads only.\<close>

theorem close_before_start_lost:
  "let s = foldl (ws_step (emit (\<lambda>_. []) 1)) (new_state sample_options)
             [In_call (Call_close 1000 []), In_start [] False, In_call (Call_close 1000 [])]
   in \<not> ws_closed s \<and> stream s \<and> close_sent s \<and> length (writes s) = 1 \<and> \<not> writing s \<and>
      \<not> close_timeout_active s \<and> io s = [Stream_read_start]"
  by code_simp

text \<open>A control frame longer than the 125 bytes the protocol allows can be sent: the library's own
  frame handler treats the same payload in a received control frame as a protocol error.\<close>

theorem oversized_control_frame_sent:
  assumes "length payload > 125" "\<not> ws_closed s" "stream s" "\<not> writing s" "writes s = []"
    "pending_write_bytes s + length payload \<le> max_pending_write_bytes (options s)"
  shows "io (fst (send_frame em op_ping payload None s)) =
      io s @ [Stream_write (make_frame (opcode_value op_ping) payload)] \<and>
    handle_frame em True (opcode_value op_ping) payload s =
      close_with_error em close_protocol_error protocol_error s"
  using assms by (simp add: send_frame_def queue_def flush_next_def request_def handle_frame_def)

theorem oversized_control_frame_sent_witness:
  "io (fst (send_frame (emit (\<lambda>_. []) 1) op_ping (replicate 126 0) None
      (sample_session\<lparr>options := sample_options\<lparr>max_pending_write_bytes := 200\<rparr>\<rparr>))) =
   [Stream_read_start, Stream_write (make_frame (opcode_value op_ping) (replicate 126 0))]"
proof -
  have io: "io sample_session = [Stream_read_start]" by code_simp
  show ?thesis
    using oversized_control_frame_sent [of "replicate 126 0"
        "sample_session\<lparr>options := sample_options\<lparr>max_pending_write_bytes := 200\<rparr>\<rparr>" "emit (\<lambda>_. []) 1"]
    by (simp add: io) (simp add: sample_session_def start_def new_state_def read_start_def request_def)
qed

text \<open>Data can be sent after the close frame: a session whose close frame is out still accepts
  and queues a text frame.\<close>

theorem text_after_close_sent:
  "let s = foldl (ws_step (emit (\<lambda>_. []) 1)) (new_state sample_options)
             [In_start [] False, In_call (Call_close 1000 []), In_written None, In_call (Call_text [104])]
   in io s = [Stream_read_start, Stream_write (make_frame (opcode_value op_close) [3, 232]),
              Timer_start 5000, Stream_write (make_frame (opcode_value op_text) [104])]"
  by code_simp

end
