(* ===== verification/WebSocket_Handshake.thy ===== *)
theory WebSocket_Handshake
  imports Http_Types WebSocket_Session
begin

text \<open>
  The opening handshake: the header checks and responses of \<open>src/websocket/session.cpp\<close>, the
  accept value of \<open>src/websocket/detail/handshake.cpp\<close>, and the upgrade request of
  \<open>src/http/upgrade.cpp\<close> they work on. The SHA-1 digest is OpenSSL's \<open>EVP_Digest\<close>, a parameter
  that returns the success flag and the digest bytes.
\<close>

section \<open>Header values\<close>

definition lower_ascii :: "char \<Rightarrow> char" where
  "lower_ascii v = (if ord CHR ''A'' \<le> ord v \<and> ord v \<le> ord CHR ''Z''
     then char_of (ord v - ord CHR ''A'' + ord CHR ''a'') else v)"

definition ws_lowercase :: "string \<Rightarrow> string" where
  "ws_lowercase v = map lower_ascii v"

definition is_blank :: "char \<Rightarrow> bool" where
  "is_blank c \<longleftrightarrow> c = CHR '' '' \<or> c = CHR 0x09"

definition ws_trim :: "string \<Rightarrow> string" where
  "ws_trim v = rev (dropWhile is_blank (rev (dropWhile is_blank v)))"

function token_list_contains :: "string \<Rightarrow> string \<Rightarrow> bool" where
  "token_list_contains header expected =
     (if header = [] then False
      else
        let comma = sv_find CHR '','' header;
            token = ws_trim (sv_until header comma)
        in if length token = length (ws_trim expected) \<and>
              list_all (\<lambda>(a, b). lower_ascii a = lower_ascii b) (zip token (ws_trim expected))
           then True
           else case comma of
                  None \<Rightarrow> False
                | Some i \<Rightarrow> token_list_contains (drop (Suc i) header) expected)"
  by pat_completeness auto
termination by (relation "measure (\<lambda>(header, _). length header)") auto

record upgrade_request =
  ur_method :: http_method
  ur_target :: string
  ur_path :: string
  ur_query :: string
  ur_headers :: headers
  ur_params :: route_params
  ur_extra_bytes :: "byte list"

definition ur_header :: "upgrade_request \<Rightarrow> string \<Rightarrow> string" where
  "ur_header req name = headers_get (ur_headers req) name"

definition valid_handshake :: "upgrade_request \<Rightarrow> bool" where
  "valid_handshake req \<longleftrightarrow>
     ur_method req = method_get \<and>
     ws_lowercase (ur_header req ''upgrade'') = ''websocket'' \<and>
     token_list_contains (ur_header req ''connection'') ''upgrade'' \<and>
     ur_header req ''sec-websocket-version'' = ''13'' \<and>
     ws_trim (ur_header req ''sec-websocket-key'') \<noteq> []"

section \<open>The accept value\<close>

definition b64_alphabet :: string where
  "b64_alphabet = ''ABCDEFGHIJKLMNOPQRSTUVWXYZabcdefghijklmnopqrstuvwxyz0123456789+/''"

definition b64_char :: "32 word \<Rightarrow> char" where
  "b64_char v = b64_alphabet ! unat (v AND 0x3f)"

definition b64_value :: "byte \<Rightarrow> byte \<Rightarrow> byte \<Rightarrow> 32 word" where
  "b64_value b0 b1 b2 = push_bit 16 (ucast b0) OR push_bit 8 (ucast b1) OR ucast b2"

fun base64 :: "byte list \<Rightarrow> string" where
  "base64 [] = []"
| "base64 [b0] =
     (let v = b64_value b0 0 0 in [b64_char (drop_bit 18 v), b64_char (drop_bit 12 v), CHR ''='', CHR ''=''])"
| "base64 [b0, b1] =
     (let v = b64_value b0 b1 0
      in [b64_char (drop_bit 18 v), b64_char (drop_bit 12 v), b64_char (drop_bit 6 v), CHR ''=''])"
| "base64 (b0 # b1 # b2 # bytes) =
     (let v = b64_value b0 b1 b2
      in [b64_char (drop_bit 18 v), b64_char (drop_bit 12 v), b64_char (drop_bit 6 v), b64_char v]
         @ base64 bytes)"

definition websocket_guid :: string where
  "websocket_guid = ''258EAFA5-E914-47DA-95CA-C5AB0DC85B11''"

type_synonym evp_digest = "string \<Rightarrow> bool \<times> byte list"

definition sha1 :: "evp_digest \<Rightarrow> string \<Rightarrow> string + byte list" where
  "sha1 evp message =
     (let (ok, digest) = evp message
      in if \<not> ok \<or> length digest \<noteq> 20 then Inl ''OpenSSL SHA-1 digest failed'' else Inr digest)"

definition websocket_accept_value :: "evp_digest \<Rightarrow> string \<Rightarrow> string + string" where
  "websocket_accept_value evp key =
     (case sha1 evp (key @ websocket_guid) of Inl e \<Rightarrow> Inl e | Inr digest \<Rightarrow> Inr (base64 digest))"

section \<open>Responses\<close>

definition crlf :: string where
  "crlf = [CHR 0x0D, CHR 0x0A]"

definition bad_request_response :: string where
  "bad_request_response =
     ''HTTP/1.1 400 Bad Request'' @ crlf @ ''connection: close'' @ crlf @ ''content-length: 12'' @ crlf @
     crlf @ ''bad request'' @ [CHR 0x0A]"

definition handshake_response :: "evp_digest \<Rightarrow> upgrade_request \<Rightarrow> string \<Rightarrow> string + string" where
  "handshake_response evp req protocol =
     (case websocket_accept_value evp (ws_trim (ur_header req ''sec-websocket-key'')) of
        Inl e \<Rightarrow> Inl e
      | Inr accept_value \<Rightarrow>
          Inr (''HTTP/1.1 101 Switching Protocols'' @ crlf @ ''upgrade: websocket'' @ crlf @
               ''connection: Upgrade'' @ crlf @ ''sec-websocket-accept: '' @ accept_value @ crlf @
               (if protocol \<noteq> [] then ''sec-websocket-protocol: '' @ protocol @ crlf else []) @ crlf))"

text \<open>\<open>accept\<close> and \<open>accept_detached\<close>: the response handed to the connection, and the session
  with the bytes it will be started with once the response is written. A rejected request closes
  the stream instead.\<close>

datatype handshake_outcome =
    Rejected string
  | Accepted string ws_state "byte list" bool

definition accept_session ::
  "bool \<Rightarrow> evp_digest \<Rightarrow> upgrade_request \<Rightarrow> accept_options \<Rightarrow> string + handshake_outcome" where
  "accept_session detached evp req opts =
     (if \<not> valid_handshake req then Inr (Rejected bad_request_response)
      else case handshake_response evp req (subprotocol opts) of
             Inl e \<Rightarrow> Inl e
           | Inr response \<Rightarrow> Inr (Accepted response (new_state opts) (ur_extra_bytes req) detached))"

definition accept :: "evp_digest \<Rightarrow> upgrade_request \<Rightarrow> accept_options \<Rightarrow> string + handshake_outcome" where
  "accept = accept_session False"

definition accept_detached ::
  "evp_digest \<Rightarrow> upgrade_request \<Rightarrow> accept_options \<Rightarrow> string + handshake_outcome" where
  "accept_detached = accept_session True"

text \<open>\<open>accept_byte_stream\<close> turns an accepted session into a byte stream; a rejected one has no
  state to turn.\<close>

definition accept_byte_stream ::
  "evp_digest \<Rightarrow> upgrade_request \<Rightarrow> accept_options \<Rightarrow> string + handshake_outcome" where
  "accept_byte_stream evp req opts =
     (case accept evp req opts of
        Inr (Accepted response s extra detached) \<Rightarrow>
          Inr (Accepted response (s\<lparr>byte_mode := True\<rparr>) extra detached)
      | r \<Rightarrow> r)"

section \<open>Base64 can be decoded\<close>

definition sextet :: "char \<Rightarrow> 32 word option" where
  "sextet c = map_option of_nat (index_of (\<lambda>x. x = c) b64_alphabet)"

definition b64_group :: "32 word \<Rightarrow> 32 word \<Rightarrow> 32 word \<Rightarrow> 32 word \<Rightarrow> 32 word" where
  "b64_group a b c d = push_bit 18 a OR push_bit 12 b OR push_bit 6 c OR d"

text \<open>RFC 4648: a decoder that accepts padding in the last group only.\<close>

fun base64_decode :: "string \<Rightarrow> byte list option" where
  "base64_decode [] = Some []"
| "base64_decode (c0 # c1 # c2 # c3 # rest) =
     (case (sextet c0, sextet c1, sextet c2, sextet c3) of
        (Some a, Some b, Some c, Some d) \<Rightarrow>
          (let v = b64_group a b c d
           in map_option ((@) [ucast (drop_bit 16 v), ucast (drop_bit 8 v), ucast v]) (base64_decode rest))
      | (Some a, Some b, Some c, None) \<Rightarrow>
          if c3 = CHR ''='' \<and> rest = []
          then (let v = b64_group a b c 0 in Some [ucast (drop_bit 16 v), ucast (drop_bit 8 v)]) else None
      | (Some a, Some b, None, None) \<Rightarrow>
          if c2 = CHR ''='' \<and> c3 = CHR ''='' \<and> rest = []
          then Some [ucast (drop_bit 16 (b64_group a b 0 0))] else None
      | _ \<Rightarrow> None)"
| "base64_decode _ = None"

lemma sextet_pad [simp]: "sextet CHR ''='' = None"
  by code_simp

lemma sextet_bound: "unat (v AND 0x3f :: 32 word) < 64"
proof -
  have "v AND 0x3f = take_bit 6 v" by (simp add: take_bit_eq_mask mask_eq_exp_minus_1)
  then show ?thesis
    by (simp add: unsigned_take_bit_eq take_bit_nat_less_exp [of 6, simplified])
qed

lemma sextet_b64_char [simp]: "sextet (b64_char v) = Some (v AND 0x3f)"
proof -
  have all: "list_all (\<lambda>i. index_of (\<lambda>x. x = b64_alphabet ! i) b64_alphabet = Some i) [0..<64]"
    by code_simp
  with sextet_bound [of v] have "index_of (\<lambda>x. x = b64_alphabet ! unat (v AND 0x3f)) b64_alphabet = Some (unat (v AND 0x3f))"
    by (simp add: list_all_iff)
  then show ?thesis by (simp add: sextet_def b64_char_def)
qed

lemma mask_6: "(0x3f :: 32 word) = mask 6" by (simp add: mask_eq_exp_minus_1)

lemma b64_group_bits:
  "b64_group (drop_bit 18 v AND 0x3f) (drop_bit 12 v AND 0x3f) (drop_bit 6 v AND 0x3f) (v AND 0x3f) =
     v AND mask 24"
  unfolding b64_group_def mask_6
proof (rule bit_word_eqI)
  fix n assume "n < LENGTH(32)"
  consider "n < 6" | "6 \<le> n" "n < 12" | "12 \<le> n" "n < 18" | "18 \<le> n" "n < 24" | "24 \<le> n"
    by linarith
  then show "bit (push_bit 18 (drop_bit 18 v AND mask 6) OR push_bit 12 (drop_bit 12 v AND mask 6) OR
      push_bit 6 (drop_bit 6 v AND mask 6) OR v AND mask 6) n = bit (v AND mask 24) n"
    by cases (auto simp: bit_simps)
qed

lemma b64_value_bytes:
  "ucast (drop_bit 16 (b64_value b0 b1 b2 AND mask 24)) = b0"
  "ucast (drop_bit 8 (b64_value b0 b1 b2 AND mask 24)) = b1"
  "ucast (b64_value b0 b1 b2 AND mask 24) = b2"
  unfolding b64_value_def
  by (rule bit_word_eqI; auto simp: bit_simps not_less dest: bit_imp_le_length)+

lemma b64_value_zero:
  "b64_value b0 b1 0 AND 0x3f = 0" "drop_bit 6 (b64_value b0 0 0) AND 0x3f = 0"
  unfolding b64_value_def mask_6
  by (rule bit_word_eqI; auto simp: bit_simps not_less dest: bit_imp_le_length)+

lemma base64_decode_base64: "base64_decode (base64 bytes) = Some bytes"
proof (induction bytes rule: base64.induct)
  case (2 b0)
  then show ?case
    using b64_group_bits [of "b64_value b0 0 0"] b64_value_zero(1) [of b0 0] b64_value_zero(2) [of b0]
      b64_value_bytes(1) [of b0 0 0]
    by (simp add: Let_def)
next
  case (3 b0 b1)
  then show ?case
    using b64_group_bits [of "b64_value b0 b1 0"] b64_value_zero(1) [of b0 b1]
      b64_value_bytes(1,2) [of b0 b1 0]
    by (simp add: Let_def)
next
  case (4 b0 b1 b2 bytes)
  then show ?case
    using b64_group_bits [of "b64_value b0 b1 b2"] b64_value_bytes [of b0 b1 b2] by (simp add: Let_def)
qed simp

lemma length_base64: "length (base64 bytes) = 4 * ((length bytes + 2) div 3)"
proof (induction bytes rule: base64.induct)
  case (4 b0 b1 b2 bytes)
  have "(length (b0 # b1 # b2 # bytes) + 2) div 3 = Suc ((length bytes + 2) div 3)" by simp
  with 4 show ?case by (simp add: Let_def)
qed (simp_all add: Let_def)

section \<open>Tokens\<close>

lemma lower_ascii_tolower: "lower_ascii = tolower"
  by (auto simp: fun_eq_iff lower_ascii_def tolower_def)

lemma token_equal:
  "length a = length b \<and> list_all (\<lambda>(x, y). lower_ascii x = lower_ascii y) (zip a b) \<longleftrightarrow>
     map tolower a = map tolower b"
  using names_equal_iff [of a b] by (simp add: names_equal_def lower_ascii_tolower split: if_splits)

lemma ws_trim_Nil [simp]: "ws_trim [] = []"
  by (simp add: ws_trim_def)

text \<open>The test for a token in a comma-separated header is exact: it holds for a non-blank token
  precisely when one of the fields between the commas, with blanks at its ends removed, equals the
  token up to the case of ASCII letters.\<close>

theorem token_list_contains_iff:
  assumes "ws_trim expected \<noteq> []"
  shows "token_list_contains header expected \<longleftrightarrow>
    (\<exists>field \<in> set (split_on CHR '','' header).
       map tolower (ws_trim field) = map tolower (ws_trim expected))"
proof (induction header rule: measure_induct_rule [of length])
  case (less header)
  show ?case
  proof (cases "header = []")
    case True
    with assms show ?thesis by (simp add: token_list_contains.simps [of "[]"])
  next
    case False
    show ?thesis
    proof (cases "sv_find CHR '','' header")
      case None
      with False show ?thesis
        by (simp add: token_list_contains.simps [of header] split_on_sv_find [of _ header] Let_def
            token_equal sv_until_def)
    next
      case (Some i)
      from False less [of "drop (Suc i) header"] Some show ?thesis
        by (simp add: token_list_contains.simps [of header] split_on_sv_find [of _ header] Let_def
            token_equal sv_until_def)
    qed
  qed
qed

theorem token_list_contains_iff_witness:
  "token_list_contains ''keep-alive, UpGrade'' ''upgrade''"
proof -
  have t: "ws_trim ''upgrade'' \<noteq> []" by code_simp
  have "'' UpGrade'' \<in> set (split_on CHR '','' ''keep-alive, UpGrade'')" by code_simp
  moreover have "map tolower (ws_trim '' UpGrade'') = map tolower (ws_trim ''upgrade'')" by code_simp
  ultimately show ?thesis using token_list_contains_iff [OF t, of "''keep-alive, UpGrade''"] by blast
qed

section \<open>The response\<close>

lemma b64_char_safe: "b64_char v \<in> set b64_alphabet"
proof -
  have "unat (v AND 0x3f) < 64"
    by (rule sextet_bound)
  moreover have "length b64_alphabet = 64" by code_simp
  ultimately show ?thesis unfolding b64_char_def by (intro nth_mem) simp
qed

lemma base64_chars: "set (base64 bytes) \<subseteq> insert CHR ''='' (set b64_alphabet)"
  by (induction bytes rule: base64.induct) (auto simp: Let_def b64_char_safe)


definition sample_upgrade :: upgrade_request where
  "sample_upgrade =
     \<lparr>ur_method = method_get, ur_target = ''/'', ur_path = ''/'', ur_query = [],
      ur_headers = [(''Upgrade'', ''websocket''), (''Connection'', ''Upgrade''),
        (''Sec-WebSocket-Version'', ''13''), (''Sec-WebSocket-Key'', ''dGhlIHNhbXBsZSBub25jZQ=='')],
      ur_params = [], ur_extra_bytes = []\<rparr>"


end
