(* ===== verification/Http1.thy ===== *)
theory Http1
  imports Http_Types
begin

text \<open>
  The HTTP/1 state machine of \<open>src/http/detail/http1_state_machine.cpp\<close>: the callbacks it gives to
  llhttp, which assemble messages and events within the header limits, and \<open>parse\<close>. llhttp itself
  is outside the repository; what it does with the bytes of one \<open>llhttp_execute\<close> call is a parameter:
  the callbacks it makes, in order, the error it ends with and the error position. Following its
  documentation it stops at the first callback that returns \<open>HPE_USER\<close> and returns that error.
\<close>

section \<open>Data\<close>

record http1_limits =
  max_header_bytes :: nat
  max_header_count :: nat

record http1_message =
  msg_method :: http_method
  msg_target :: string
  msg_headers :: headers
  msg_body :: string
  msg_major :: nat
  msg_minor :: nat
  msg_keep_alive :: bool
  msg_upgrade :: bool

definition empty_message :: http1_message where
  "empty_message =
     \<lparr>msg_method = method_unknown, msg_target = [], msg_headers = [], msg_body = [], msg_major = 1,
      msg_minor = 1, msg_keep_alive = False, msg_upgrade = False\<rparr>"

datatype http1_event =
    Headers_event http1_message
  | Body_event string
  | Complete_event http1_message

datatype header_part = part_none | part_field | part_value

record http1_machine =
  h1_limits :: http1_limits
  current :: http1_message
  completed_messages :: "http1_message list"
  h1_events :: "http1_event list"
  pending_header_field :: string
  pending_header_value :: string
  header_bytes :: nat
  header_count :: nat
  limit_error :: string
  last_header_part :: header_part

definition new_machine :: http1_machine where
  "new_machine =
     \<lparr>h1_limits = \<lparr>max_header_bytes = 16 * 1024, max_header_count = 128\<rparr>, current = empty_message,
      completed_messages = [], h1_events = [], pending_header_field = [], pending_header_value = [],
      header_bytes = 0, header_count = 0, limit_error = [], last_header_part = part_none\<rparr>"

definition h1_reset :: "http1_machine \<Rightarrow> http1_machine" where
  "h1_reset s = new_machine\<lparr>h1_limits := h1_limits s\<rparr>"

definition set_limits :: "http1_limits \<Rightarrow> http1_machine \<Rightarrow> http1_machine" where
  "set_limits l s = s\<lparr>h1_limits := l\<rparr>"

text \<open>The methods llhttp knows, of which nine have a counterpart.\<close>

datatype llhttp_method =
    HTTP_DELETE | HTTP_GET | HTTP_HEAD | HTTP_POST | HTTP_PUT | HTTP_CONNECT | HTTP_OPTIONS
  | HTTP_TRACE | HTTP_PATCH | HTTP_OTHER nat

fun map_method :: "llhttp_method \<Rightarrow> http_method" where
  "map_method HTTP_DELETE = method_delete"
| "map_method HTTP_GET = method_get"
| "map_method HTTP_HEAD = method_head"
| "map_method HTTP_POST = method_post"
| "map_method HTTP_PUT = method_put"
| "map_method HTTP_CONNECT = method_connect"
| "map_method HTTP_OPTIONS = method_options"
| "map_method HTTP_TRACE = method_trace"
| "map_method HTTP_PATCH = method_patch"
| "map_method (HTTP_OTHER n) = method_unknown"

text \<open>A callback with what it can ask the parser, and what it returns: \<open>CB_UPGRADE\<close> is the value 2.\<close>

datatype callback =
    Cb_message_begin
  | Cb_url string
  | Cb_header_field string
  | Cb_header_value string
  | Cb_headers_complete llhttp_method nat nat
  | Cb_body string
  | Cb_message_complete bool

datatype cb_result = HPE_OK | HPE_USER | CB_UPGRADE

section \<open>Callbacks\<close>

definition reserve_header_bytes :: "nat \<Rightarrow> http1_machine \<Rightarrow> http1_machine \<times> bool" where
  "reserve_header_bytes len s =
     (if len > max_header_bytes (h1_limits s) \<or>
         header_bytes s > max_header_bytes (h1_limits s) - len
      then (s\<lparr>limit_error := ''request headers are too large''\<rparr>, False)
      else (s\<lparr>header_bytes := header_bytes s + len\<rparr>, True))"

definition commit_pending_header :: "http1_machine \<Rightarrow> http1_machine \<times> bool" where
  "commit_pending_header s =
     (if pending_header_field s \<noteq> [] \<and> header_count s \<ge> max_header_count (h1_limits s)
      then (s\<lparr>limit_error := ''request has too many headers''\<rparr>, False)
      else
        let s = (if pending_header_field s \<noteq> []
                 then s\<lparr>current := (current s)\<lparr>msg_headers :=
                          headers_add (msg_headers (current s)) (pending_header_field s)
                            (pending_header_value s)\<rparr>,
                        header_count := header_count s + 1,
                        pending_header_field := [], pending_header_value := []\<rparr>
                 else s)
        in (s\<lparr>last_header_part := part_none\<rparr>, True))"

definition on_message_begin :: "http1_machine \<Rightarrow> http1_machine \<times> cb_result" where
  "on_message_begin s =
     (s\<lparr>current := empty_message, pending_header_field := [], pending_header_value := [],
        header_bytes := 0, header_count := 0, limit_error := [], last_header_part := part_none\<rparr>, HPE_OK)"

definition on_url :: "string \<Rightarrow> http1_machine \<Rightarrow> http1_machine \<times> cb_result" where
  "on_url at s = (s\<lparr>current := (current s)\<lparr>msg_target := msg_target (current s) @ at\<rparr>\<rparr>, HPE_OK)"

definition on_header_field :: "string \<Rightarrow> http1_machine \<Rightarrow> http1_machine \<times> cb_result" where
  "on_header_field at s =
     (let (s, committed) = (if last_header_part s = part_value then commit_pending_header s else (s, True))
      in if \<not> committed then (s, HPE_USER)
         else
           let (s, reserved) = reserve_header_bytes (length at) s
           in if \<not> reserved then (s, HPE_USER)
              else (s\<lparr>pending_header_field := pending_header_field s @ at,
                      last_header_part := part_field\<rparr>, HPE_OK))"

definition on_header_value :: "string \<Rightarrow> http1_machine \<Rightarrow> http1_machine \<times> cb_result" where
  "on_header_value at s =
     (let (s, reserved) = reserve_header_bytes (length at) s
      in if \<not> reserved then (s, HPE_USER)
         else (s\<lparr>pending_header_value := pending_header_value s @ at,
                 last_header_part := part_value\<rparr>, HPE_OK))"

definition on_headers_complete ::
  "llhttp_method \<Rightarrow> nat \<Rightarrow> nat \<Rightarrow> http1_machine \<Rightarrow> http1_machine \<times> cb_result" where
  "on_headers_complete m major minor s =
     (let (s, committed) = commit_pending_header s
      in if \<not> committed then (s, HPE_USER)
         else
           let msg = (current s)\<lparr>msg_method := map_method m, msg_major := major, msg_minor := minor\<rparr>;
               s = s\<lparr>current := msg, h1_events := h1_events s @ [Headers_event msg]\<rparr>
           in (s, if headers_get (msg_headers msg) ''upgrade'' \<noteq> [] \<or> msg_method msg = method_connect
                  then CB_UPGRADE else HPE_OK))"

definition on_body :: "string \<Rightarrow> http1_machine \<Rightarrow> http1_machine \<times> cb_result" where
  "on_body at s =
     (s\<lparr>current := (current s)\<lparr>msg_body := msg_body (current s) @ at\<rparr>,
        h1_events := h1_events s @ [Body_event at]\<rparr>, HPE_OK)"

definition on_message_complete :: "bool \<Rightarrow> http1_machine \<Rightarrow> http1_machine \<times> cb_result" where
  "on_message_complete keep_alive s =
     (let (s, committed) = commit_pending_header s
      in if \<not> committed then (s, HPE_USER)
         else
           let msg = (current s)\<lparr>msg_keep_alive := keep_alive\<rparr>
           in (s\<lparr>h1_events := h1_events s @ [Complete_event msg],
                 completed_messages := completed_messages s @ [msg], current := empty_message\<rparr>, HPE_OK))"

fun run_callback :: "callback \<Rightarrow> http1_machine \<Rightarrow> http1_machine \<times> cb_result" where
  "run_callback Cb_message_begin s = on_message_begin s"
| "run_callback (Cb_url at) s = on_url at s"
| "run_callback (Cb_header_field at) s = on_header_field at s"
| "run_callback (Cb_header_value at) s = on_header_value at s"
| "run_callback (Cb_headers_complete m major minor) s = on_headers_complete m major minor s"
| "run_callback (Cb_body at) s = on_body at s"
| "run_callback (Cb_message_complete keep_alive) s = on_message_complete keep_alive s"

section \<open>Parsing\<close>

text \<open>A machine and the result of its last callback; after \<open>HPE_USER\<close> llhttp makes no callback.\<close>

type_synonym h1_run = "http1_machine \<times> cb_result"

definition callback_step :: "h1_run \<Rightarrow> callback \<Rightarrow> h1_run" where
  "callback_step r cb = (if snd r = HPE_USER then r else run_callback cb (fst r))"

definition run_callbacks :: "callback list \<Rightarrow> h1_run \<Rightarrow> h1_run" where
  "run_callbacks cbs r = foldl callback_step r cbs"

text \<open>How \<open>llhttp_execute\<close> ends when no callback stops it: normally, paused for an upgrade at a
  position, or with an error of a name.\<close>

datatype llhttp_end = Exec_ok | Exec_paused_upgrade "nat option" | Exec_error string

datatype parse_status = parse_ok | parse_error | parse_upgrade

record http1_parse_result =
  pr_code :: parse_status
  pr_error :: string
  pr_parsed_bytes :: nat

definition mark_upgrade :: "http1_machine \<Rightarrow> http1_machine" where
  "mark_upgrade s =
     (if completed_messages s \<noteq> []
      then s\<lparr>completed_messages := butlast (completed_messages s) @
               [(last (completed_messages s))\<lparr>msg_upgrade := True\<rparr>]\<rparr>
      else s)"

definition h1_parse ::
  "callback list \<Rightarrow> llhttp_end \<Rightarrow> string \<Rightarrow> http1_machine \<Rightarrow> http1_machine \<times> http1_parse_result" where
  "h1_parse cbs outcome bytes s =
     (let (s, rc) = run_callbacks cbs (s, HPE_OK);
          outcome = (if rc = HPE_USER then Exec_error ''HPE_USER'' else outcome)
      in case outcome of
           Exec_ok \<Rightarrow> (s, \<lparr>pr_code = parse_ok, pr_error = [], pr_parsed_bytes = length bytes\<rparr>)
         | Exec_paused_upgrade pos \<Rightarrow>
             (mark_upgrade s,
              \<lparr>pr_code = parse_upgrade, pr_error = [],
               pr_parsed_bytes = (case pos of
                   Some p \<Rightarrow> if p \<le> length bytes then p else length bytes
                 | None \<Rightarrow> length bytes)\<rparr>)
         | Exec_error name \<Rightarrow>
             (s, \<lparr>pr_code = parse_error,
                  pr_error = (if limit_error s \<noteq> [] then limit_error s else name),
                  pr_parsed_bytes = 0\<rparr>))"

end
