(* ===== verification/Http1_Props.thy ===== *)
theory Http1_Props
  imports Http1
begin

text \<open>
  What the HTTP/1 state machine promises: messages within the header limits whatever callbacks
  llhttp makes, nothing after an error, and messages assembled exactly from the spans llhttp
  reports, however it splits them.
\<close>

section \<open>Limits\<close>

definition header_size :: "headers \<Rightarrow> nat" where
  "header_size hs = sum_list (map (\<lambda>(n, v). length n + length v) hs)"

lemma header_size_simps [simp]:
  "header_size [] = 0"
  "header_size (h # hs) = length (fst h) + length (snd h) + header_size hs"
  "header_size (hs @ hs') = header_size hs + header_size hs'"
  by (simp_all add: header_size_def split: prod.split)

definition message_ok :: "http1_limits \<Rightarrow> http1_message \<Rightarrow> bool" where
  "message_ok l m \<longleftrightarrow>
     length (msg_headers m) \<le> max_header_count l \<and> header_size (msg_headers m) \<le> max_header_bytes l"

fun event_ok :: "http1_limits \<Rightarrow> http1_event \<Rightarrow> bool" where
  "event_ok l (Headers_event m) \<longleftrightarrow> message_ok l m"
| "event_ok l (Complete_event m) \<longleftrightarrow> message_ok l m"
| "event_ok l (Body_event b) \<longleftrightarrow> True"

definition h1_inv :: "http1_machine \<Rightarrow> bool" where
  "h1_inv s \<longleftrightarrow>
     header_bytes s \<le> max_header_bytes (h1_limits s) \<and>
     header_count s \<le> max_header_count (h1_limits s) \<and>
     length (msg_headers (current s)) \<le> header_count s \<and>
     header_size (msg_headers (current s)) + length (pending_header_field s) +
       length (pending_header_value s) \<le> header_bytes s \<and>
     list_all (event_ok (h1_limits s)) (h1_events s) \<and>
     list_all (message_ok (h1_limits s)) (completed_messages s)"

lemma reserve_header_bytes_cases:
  "reserve_header_bytes len s =
     (if header_bytes s + len \<le> max_header_bytes (h1_limits s)
      then (s\<lparr>header_bytes := header_bytes s + len\<rparr>, True)
      else (s\<lparr>limit_error := ''request headers are too large''\<rparr>, False))"
  by (auto simp: reserve_header_bytes_def)

lemma commit_inv:
  "h1_inv s \<Longrightarrow> h1_inv (fst (commit_pending_header s)) \<and>
     h1_limits (fst (commit_pending_header s)) = h1_limits s"
  by (auto simp: commit_pending_header_def h1_inv_def headers_add_def Let_def)

lemma reserve_inv: "h1_inv s \<Longrightarrow> h1_inv (fst (reserve_header_bytes len s))"
  by (auto simp: reserve_header_bytes_cases h1_inv_def)

lemma current_message_ok: "h1_inv s \<Longrightarrow> message_ok (h1_limits s) (current s)"
  by (auto simp: h1_inv_def message_ok_def)

lemma on_header_field_inv: "h1_inv s \<Longrightarrow> h1_inv (fst (on_header_field at s))"
proof -
  assume inv: "h1_inv s"
  let ?c = "fst (if last_header_part s = part_value then commit_pending_header s else (s, True))"
  have c: "h1_inv ?c" using inv commit_inv by simp
  then have "h1_inv (fst (reserve_header_bytes (length at) ?c))" by (rule reserve_inv)
  moreover have "h1_inv (?c\<lparr>header_bytes := header_bytes ?c + length at,
      pending_header_field := pending_header_field ?c @ at, last_header_part := part_field\<rparr>)"
    if "header_bytes ?c + length at \<le> max_header_bytes (h1_limits ?c)"
    using c that by (simp add: h1_inv_def)
  ultimately show ?thesis
    using c by (auto simp: on_header_field_def reserve_header_bytes_cases Let_def split: prod.splits if_splits)
qed

lemma on_header_value_inv: "h1_inv s \<Longrightarrow> h1_inv (fst (on_header_value at s))"
  by (auto simp: on_header_value_def reserve_header_bytes_cases h1_inv_def)

lemma on_headers_complete_inv: "h1_inv s \<Longrightarrow> h1_inv (fst (on_headers_complete m major minor s))"
  using commit_inv [of s] current_message_ok [of "fst (commit_pending_header s)"]
  by (auto simp: on_headers_complete_def Let_def h1_inv_def message_ok_def split: prod.splits)

lemma on_message_complete_inv: "h1_inv s \<Longrightarrow> h1_inv (fst (on_message_complete ka s))"
  using commit_inv [of s] current_message_ok [of "fst (commit_pending_header s)"]
  by (auto simp: on_message_complete_def Let_def h1_inv_def message_ok_def empty_message_def
      split: prod.splits)

lemma run_callback_inv: "h1_inv s \<Longrightarrow> h1_inv (fst (run_callback cb s))"
proof (cases cb)
  case Cb_message_begin
  then show "h1_inv s \<Longrightarrow> ?thesis" by (simp add: on_message_begin_def h1_inv_def empty_message_def)
qed (simp_all add: on_header_field_inv on_header_value_inv on_headers_complete_inv
      on_message_complete_inv, simp_all add: on_url_def on_body_def h1_inv_def)

lemma run_callback_limits: "h1_limits (fst (run_callback cb s)) = h1_limits s"
  by (cases cb)
    (simp_all add: on_message_begin_def on_url_def on_header_field_def on_header_value_def
      on_headers_complete_def on_body_def on_message_complete_def reserve_header_bytes_def
      commit_pending_header_def Let_def)

interpretation h1_machine: stopping_machine callback_step
  "\<lambda>r. h1_inv (fst r) \<and> h1_limits (fst r) = l" "\<lambda>r. snd r = HPE_USER" for l
  by unfold_locales (simp_all add: callback_step_def run_callback_inv run_callback_limits)

lemma h1_inv_start: "h1_inv (set_limits l new_machine)" "h1_limits (set_limits l new_machine) = l"
  by (simp_all add: h1_inv_def set_limits_def new_machine_def empty_message_def)

text \<open>C30: Whatever callbacks llhttp makes, every message the machine reports, in a headers event,
  in a complete event or as a completed message, has at most the permitted number of headers and at
  most the permitted total of header bytes.\<close>

theorem h1_messages_within_limits:
  "let s = fst (run_callbacks cbs (set_limits l new_machine, HPE_OK))
   in list_all (event_ok l) (h1_events s) \<and> list_all (message_ok l) (completed_messages s)"
proof -
  let ?r = "run_callbacks cbs (set_limits l new_machine, HPE_OK)"
  have "h1_inv (fst ?r) \<and> h1_limits (fst ?r) = l"
    unfolding run_callbacks_def by (rule h1_machine.run_inv) (simp add: h1_inv_start)
  then show ?thesis by (auto simp: Let_def h1_inv_def)
qed

definition limit_messages :: "string list" where
  "limit_messages = [''request headers are too large'', ''request has too many headers'']"

lemma run_callback_limit_error:
  "snd (run_callback cb s) = HPE_USER \<Longrightarrow> limit_error (fst (run_callback cb s)) \<in> set limit_messages"
  by (cases cb)
    (auto simp: on_message_begin_def on_url_def on_header_field_def on_header_value_def
      on_headers_complete_def on_body_def on_message_complete_def reserve_header_bytes_def
      commit_pending_header_def Let_def limit_messages_def split: if_splits)

interpretation h1_error: inv_machine callback_step
  "\<lambda>r. snd r = HPE_USER \<longrightarrow> limit_error (fst r) \<in> set limit_messages"
  by unfold_locales (simp add: callback_step_def run_callback_limit_error)

text \<open>Once a limit is exceeded the machine is frozen: callbacks llhttp would make after the one
  that returned \<open>HPE_USER\<close> change nothing, and the parse reports the limit that was exceeded.\<close>

theorem h1_limit_error_final:
  assumes "run_callbacks cbs (set_limits l new_machine, HPE_OK) = (s, HPE_USER)"
  shows "h1_parse (cbs @ cbs') outcome bytes (set_limits l new_machine) =
      (s, \<lparr>pr_code = parse_error, pr_error = limit_error s, pr_parsed_bytes = 0\<rparr>) \<and>
    limit_error s \<in> set limit_messages"
proof -
  let ?r = "(set_limits l new_machine, HPE_OK)"
  have "foldl callback_step ?r (cbs @ cbs') = foldl callback_step ?r cbs"
    by (rule h1_machine.stopped_suffix [of ?r l cbs cbs'])
      (use assms in \<open>simp_all add: h1_inv_start run_callbacks_def\<close>)
  then have run: "run_callbacks (cbs @ cbs') ?r = (s, HPE_USER)"
    using assms by (simp add: run_callbacks_def)
  have lim: "limit_error s \<in> set limit_messages"
    using h1_error.run_inv [of ?r cbs] assms by (simp add: run_callbacks_def)
  then have "limit_error s \<noteq> []" by (auto simp: limit_messages_def)
  with run lim show ?thesis by (simp add: h1_parse_def)
qed

theorem h1_limit_error_final_witness:
  "let l = \<lparr>max_header_bytes = 3, max_header_count = 1\<rparr>;
       r = h1_parse [Cb_message_begin, Cb_header_field ''host'', Cb_header_value ''a''] Exec_ok ''x''
             (set_limits l new_machine)
   in pr_error (snd r) = ''request headers are too large''"
proof -
  let ?l = "\<lparr>max_header_bytes = 3, max_header_count = 1\<rparr>"
  let ?r = "run_callbacks [Cb_message_begin, Cb_header_field ''host''] (set_limits ?l new_machine, HPE_OK)"
  have "snd ?r = HPE_USER" "limit_error (fst ?r) = ''request headers are too large''" by code_simp+
  with h1_limit_error_final [of "[Cb_message_begin, Cb_header_field ''host'']" ?l "fst ?r"
      "[Cb_header_value ''a'']" Exec_ok "''x''"]
  show ?thesis by (simp add: Let_def prod_eq_iff)
qed

section \<open>Assembling a message\<close>

text \<open>The callbacks of one message: the target, each header name and value and the body in any
  number of spans, at least one for a name and for a value.\<close>

fun header_callbacks :: "string list \<times> string list \<Rightarrow> callback list" where
  "header_callbacks (fs, vs) = map Cb_header_field fs @ map Cb_header_value vs"

fun header_of :: "string list \<times> string list \<Rightarrow> string \<times> string" where
  "header_of (fs, vs) = (concat fs, concat vs)"

fun header_spans_ok :: "string list \<times> string list \<Rightarrow> bool" where
  "header_spans_ok (fs, vs) \<longleftrightarrow> concat fs \<noteq> [] \<and> vs \<noteq> []"

lemma run_callbacks_simps [simp]:
  "run_callbacks [] r = r"
  "run_callbacks (cbs @ cbs') r = run_callbacks cbs' (run_callbacks cbs r)"
  "run_callbacks (cb # cbs) (s, HPE_OK) = run_callbacks cbs (run_callback cb s)"
  "run_callbacks (cb # cbs) (s, CB_UPGRADE) = run_callbacks cbs (run_callback cb s)"
  by (simp_all add: run_callbacks_def callback_step_def)

lemma run_urls:
  "run_callbacks (map Cb_url urls) (s, HPE_OK) =
     (s\<lparr>current := (current s)\<lparr>msg_target := msg_target (current s) @ concat urls\<rparr>\<rparr>, HPE_OK)"
  by (induction urls arbitrary: s) (simp_all add: on_url_def)

lemma run_bodies:
  "rc \<noteq> HPE_USER \<Longrightarrow>
   \<exists>rc'. rc' \<noteq> HPE_USER \<and> run_callbacks (map Cb_body bodies) (s, rc) =
     (s\<lparr>current := (current s)\<lparr>msg_body := msg_body (current s) @ concat bodies\<rparr>,
        h1_events := h1_events s @ map Body_event bodies\<rparr>, rc')"
proof (induction bodies arbitrary: s rc)
  case (Cons b bodies)
  have "run_callbacks (map Cb_body (b # bodies)) (s, rc) = run_callbacks (map Cb_body bodies) (on_body b s)"
    using Cons.prems by (cases rc) simp_all
  with Cons.IH [of HPE_OK "fst (on_body b s)"] show ?case by (simp add: on_body_def)
qed auto

lemma run_last:
  "rc \<noteq> HPE_USER \<Longrightarrow> run_callbacks [cb] (s, rc) = run_callback cb s"
  by (cases rc) simp_all

lemma run_values:
  "vs \<noteq> [] \<Longrightarrow> header_bytes s + length (concat vs) \<le> max_header_bytes (h1_limits s) \<Longrightarrow>
   run_callbacks (map Cb_header_value vs) (s, HPE_OK) =
     (s\<lparr>header_bytes := header_bytes s + length (concat vs),
        pending_header_value := pending_header_value s @ concat vs, last_header_part := part_value\<rparr>, HPE_OK)"
proof (induction vs arbitrary: s)
  case (Cons v vs)
  then show ?case
    by (cases "vs = []") (simp_all add: on_header_value_def reserve_header_bytes_cases)
qed simp

lemma run_fields:
  "last_header_part s \<noteq> part_value \<Longrightarrow> fs \<noteq> [] \<Longrightarrow>
   header_bytes s + length (concat fs) \<le> max_header_bytes (h1_limits s) \<Longrightarrow>
   run_callbacks (map Cb_header_field fs) (s, HPE_OK) =
     (s\<lparr>header_bytes := header_bytes s + length (concat fs),
        pending_header_field := pending_header_field s @ concat fs, last_header_part := part_field\<rparr>, HPE_OK)"
proof (induction fs arbitrary: s)
  case (Cons f fs)
  then show ?case
    by (cases "fs = []") (simp_all add: on_header_field_def reserve_header_bytes_cases)
qed simp

text \<open>Between headers: nothing pending, or a complete header waiting to be committed.\<close>

definition between :: "http1_machine \<Rightarrow> bool" where
  "between s \<longleftrightarrow>
     header_count s = length (msg_headers (current s)) \<and>
     (last_header_part s = part_none \<and> pending_header_field s = [] \<and> pending_header_value s = [] \<or>
      last_header_part s = part_value \<and> pending_header_field s \<noteq> [])"

definition all_headers :: "http1_machine \<Rightarrow> headers" where
  "all_headers s = msg_headers (current s) @
     (if pending_header_field s = [] then [] else [(pending_header_field s, pending_header_value s)])"

definition with_headers :: "headers \<Rightarrow> http1_machine \<Rightarrow> http1_machine" where
  "with_headers hs s =
     s\<lparr>current := (current s)\<lparr>msg_headers := hs\<rparr>, header_count := length hs,
       pending_header_field := [], pending_header_value := [], last_header_part := part_none\<rparr>"

lemma commit_between:
  assumes "between s" "length (all_headers s) \<le> max_header_count (h1_limits s)"
  shows "commit_pending_header s = (with_headers (all_headers s) s, True)"
  using assms
  by (auto simp: commit_pending_header_def between_def all_headers_def with_headers_def
      headers_add_def Let_def)

lemma run_header:
  assumes bt: "between s" and ok: "header_spans_ok h"
    and count: "length (all_headers s) < max_header_count (h1_limits s)"
    and size: "header_bytes s + header_size [header_of h] \<le> max_header_bytes (h1_limits s)"
  shows "\<exists>s'. run_callbacks (header_callbacks h) (s, HPE_OK) = (s', HPE_OK) \<and> between s' \<and>
    all_headers s' = all_headers s @ [header_of h] \<and>
    header_bytes s' = header_bytes s + header_size [header_of h] \<and>
    with_headers (all_headers s') s' = (with_headers (all_headers s') s)\<lparr>header_bytes := header_bytes s'\<rparr>"
proof -
  obtain fs vs where h: "h = (fs, vs)" by (cases h)
  obtain f fs' where fs: "fs = f # fs'" using ok h by (cases fs) auto
  let ?c = "with_headers (all_headers s) s"
  have first: "run_callback (Cb_header_field f) s = run_callback (Cb_header_field f) ?c"
  proof (cases "last_header_part s = part_value")
    case True
    with commit_between [OF bt] count show ?thesis
      by (simp add: on_header_field_def with_headers_def)
  next
    case False
    with bt have "?c = s" by (auto simp: between_def all_headers_def with_headers_def)
    then show ?thesis by simp
  qed
  have "run_callbacks (map Cb_header_field fs) (s, HPE_OK) = run_callbacks (map Cb_header_field fs) (?c, HPE_OK)"
    unfolding fs using first by simp
  also have "\<dots> = (?c\<lparr>header_bytes := header_bytes s + length (concat fs),
      pending_header_field := concat fs, last_header_part := part_field\<rparr>, HPE_OK)"
    using run_fields [of ?c fs] size fs h by (simp add: with_headers_def)
  finally have "run_callbacks (header_callbacks h) (s, HPE_OK) =
      (?c\<lparr>header_bytes := header_bytes s + header_size [header_of h],
        pending_header_field := concat fs, pending_header_value := concat vs,
        last_header_part := part_value\<rparr>, HPE_OK)"
    using run_values [of vs] ok size h by (simp add: with_headers_def add.assoc)
  then show ?thesis
    using ok h by (auto simp: between_def all_headers_def with_headers_def)
qed

lemma with_headers_with_headers:
  "with_headers X (with_headers Y s) = with_headers X s"
  "with_headers X (s\<lparr>header_bytes := n\<rparr>) = (with_headers X s)\<lparr>header_bytes := n\<rparr>"
  by (simp_all add: with_headers_def)

lemma run_headers:
  "between s \<Longrightarrow> list_all header_spans_ok hs \<Longrightarrow>
   length (all_headers s) + length hs \<le> max_header_count (h1_limits s) \<Longrightarrow>
   header_bytes s + header_size (map header_of hs) \<le> max_header_bytes (h1_limits s) \<Longrightarrow>
   \<exists>s' n. run_callbacks (concat (map header_callbacks hs)) (s, HPE_OK) = (s', HPE_OK) \<and> between s' \<and>
     all_headers s' = all_headers s @ map header_of hs \<and>
     (\<forall>X. with_headers X s' = (with_headers X s)\<lparr>header_bytes := n\<rparr>)"
proof (induction hs arbitrary: s)
  case Nil
  have "with_headers X s = (with_headers X s)\<lparr>header_bytes := header_bytes s\<rparr>" for X
    by (simp add: with_headers_def)
  with Nil show ?case by auto
next
  case (Cons h hs)
  obtain t where t: "run_callbacks (header_callbacks h) (s, HPE_OK) = (t, HPE_OK)" "between t"
      "all_headers t = all_headers s @ [header_of h]"
      "header_bytes t = header_bytes s + header_size [header_of h]"
      "with_headers (all_headers t) t = (with_headers (all_headers t) s)\<lparr>header_bytes := header_bytes t\<rparr>"
    using run_header [of s h] Cons.prems by auto
  have same: "with_headers X t = (with_headers X s)\<lparr>header_bytes := header_bytes t\<rparr>" for X
    using arg_cong [OF t(5), of "with_headers X"] by (simp add: with_headers_with_headers)
  have lim: "h1_limits t = h1_limits s"
    using arg_cong [OF same [of "[]"], of h1_limits] by (simp add: with_headers_def)
  obtain s' n where "run_callbacks (concat (map header_callbacks hs)) (t, HPE_OK) = (s', HPE_OK)" "between s'"
      "all_headers s' = all_headers t @ map header_of hs"
      "\<forall>X. with_headers X s' = (with_headers X t)\<lparr>header_bytes := n\<rparr>"
    using Cons.IH [of t] Cons.prems t lim by auto
  with t same show ?case by auto
qed

fun message_callbacks ::
  "string list \<Rightarrow> (string list \<times> string list) list \<Rightarrow> llhttp_method \<Rightarrow> nat \<Rightarrow> nat \<Rightarrow> string list \<Rightarrow> bool \<Rightarrow>
     callback list" where
  "message_callbacks urls hs m major minor bodies ka =
     [Cb_message_begin] @ map Cb_url urls @ concat (map header_callbacks hs) @
     [Cb_headers_complete m major minor] @ map Cb_body bodies @ [Cb_message_complete ka]"

definition message_of ::
  "string list \<Rightarrow> (string list \<times> string list) list \<Rightarrow> llhttp_method \<Rightarrow> nat \<Rightarrow> nat \<Rightarrow> string list \<Rightarrow> bool \<Rightarrow>
     http1_message" where
  "message_of urls hs m major minor bodies ka =
     \<lparr>msg_method = map_method m, msg_target = concat urls, msg_headers = map header_of hs,
      msg_body = concat bodies, msg_major = major, msg_minor = minor, msg_keep_alive = ka,
      msg_upgrade = False\<rparr>"

text \<open>C27: A message is assembled from the spans llhttp reports, however it splits them: for headers
  within the limits, the callbacks of a message append one completed message with the concatenated
  target, names, values and body, a headers event with all but the body, one body event per body span
  and a complete event, in this order, and leave the machine ready for the next message.\<close>

theorem h1_message_assembled:
  assumes hs: "list_all header_spans_ok hs" "length hs \<le> max_header_count (h1_limits s)"
      "header_size (map header_of hs) \<le> max_header_bytes (h1_limits s)"
    and msg: "msg = message_of urls hs m major minor bodies ka"
  shows "\<exists>s'. run_callbacks (message_callbacks urls hs m major minor bodies ka) (s, HPE_OK) = (s', HPE_OK) \<and>
    completed_messages s' = completed_messages s @ [msg] \<and> current s' = empty_message \<and>
    h1_events s' = h1_events s @ [Headers_event (msg\<lparr>msg_body := [], msg_keep_alive := False\<rparr>)] @
      map Body_event bodies @ [Complete_event msg]"
proof -
  let ?b = "fst (on_message_begin s)"
  let ?u = "?b\<lparr>current := empty_message\<lparr>msg_target := concat urls\<rparr>\<rparr>"
  have url: "run_callbacks (map Cb_url urls) (?b, HPE_OK) = (?u, HPE_OK)"
    by (simp add: run_urls on_message_begin_def empty_message_def)
  have bu: "between ?u" "all_headers ?u = []" "header_bytes ?u = 0" "h1_limits ?u = h1_limits s"
    by (simp_all add: between_def all_headers_def on_message_begin_def empty_message_def)
  obtain t n where t: "run_callbacks (concat (map header_callbacks hs)) (?u, HPE_OK) = (t, HPE_OK)"
      "between t" "all_headers t = map header_of hs"
      "\<forall>X. with_headers X t = (with_headers X ?u)\<lparr>header_bytes := n\<rparr>"
    using run_headers [OF bu(1) hs(1)] hs bu by auto
  let ?w = "with_headers (map header_of hs) t"
  have lim: "h1_limits t = h1_limits s"
    using arg_cong [OF spec [OF t(4), of "[]"], of h1_limits] bu(4) by (simp add: with_headers_def)
  have commit: "commit_pending_header t = (?w, True)"
    using commit_between [OF t(2)] t(3) hs(2) lim by simp
  have w: "current ?w = (current ?u)\<lparr>msg_headers := map header_of hs\<rparr>" "h1_events ?w = h1_events s"
    "completed_messages ?w = completed_messages s" "pending_header_field ?w = []"
    using spec [OF t(4), of "map header_of hs"]
    by (simp_all add: with_headers_def on_message_begin_def)
  let ?h = "msg\<lparr>msg_body := [], msg_keep_alive := False\<rparr>"
  let ?v = "?w\<lparr>current := ?h, h1_events := h1_events s @ [Headers_event ?h]\<rparr>"
  define rc where "rc = snd (run_callback (Cb_headers_complete m major minor) t)"
  have rc: "rc \<noteq> HPE_USER" "run_callback (Cb_headers_complete m major minor) t = (?v, rc)"
    using w commit
    by (simp_all add: rc_def on_headers_complete_def Let_def msg message_of_def empty_message_def)
  obtain rc' where rc': "rc' \<noteq> HPE_USER" "run_callbacks (map Cb_body bodies) (?v, rc) =
      (?v\<lparr>current := ?h\<lparr>msg_body := concat bodies\<rparr>,
          h1_events := h1_events s @ [Headers_event ?h] @ map Body_event bodies\<rparr>, rc')"
    using run_bodies [OF rc(1), of bodies ?v] by auto
  show ?thesis
    using url t(1) rc rc' w(3,4) run_last [OF rc'(1)]
    by (simp add: on_message_begin_def on_message_complete_def commit_pending_header_def Let_def msg
        message_of_def)
qed

theorem h1_message_assembled_witness:
  "\<exists>s. run_callbacks [Cb_message_begin, Cb_url ''/a'', Cb_url ''b'', Cb_header_field ''Ho'',
        Cb_header_field ''st'', Cb_header_value ''x'', Cb_headers_complete HTTP_POST 1 1,
        Cb_body ''hel'', Cb_body ''lo'', Cb_message_complete True] (new_machine, HPE_OK) = (s, HPE_OK) \<and>
     map msg_body (completed_messages s) = [''hello''] \<and>
     map msg_headers (completed_messages s) = [[(''Host'', ''x'')]]"
proof -
  let ?hs = "[([''Ho'', ''st''], [''x''])]"
  have "list_all header_spans_ok ?hs" "length ?hs \<le> max_header_count (h1_limits new_machine)"
    "header_size (map header_of ?hs) \<le> max_header_bytes (h1_limits new_machine)"
    by (simp_all add: new_machine_def)
  from h1_message_assembled [OF this refl, of "[''/a'', ''b'']" HTTP_POST 1 1 "[''hel'', ''lo'']" True]
  show ?thesis by (auto simp: new_machine_def message_of_def)
qed

text \<open>Nothing the machine has collected is ever released by parsing: events and completed messages
  only grow, and each body span is kept twice more, in the event list and in the body of its message,
  until \<open>reset\<close> is called, which the server never does.\<close>

theorem h1_retains_everything:
  "\<exists>es ms. h1_events (fst (run_callbacks cbs r)) = h1_events (fst r) @ es \<and>
     completed_messages (fst (run_callbacks cbs r)) = completed_messages (fst r) @ ms"
proof (induction cbs arbitrary: r)
  case (Cons cb cbs)
  have step: "\<exists>es ms. h1_events (fst (run_callback cb s)) = h1_events s @ es \<and>
      completed_messages (fst (run_callback cb s)) = completed_messages s @ ms" for s
    by (cases cb)
      (auto simp: on_message_begin_def on_url_def on_header_field_def on_header_value_def
        on_headers_complete_def on_body_def on_message_complete_def reserve_header_bytes_def
        commit_pending_header_def Let_def)
  obtain es ms where "h1_events (fst (callback_step r cb)) = h1_events (fst r) @ es"
    "completed_messages (fst (callback_step r cb)) = completed_messages (fst r) @ ms"
    using step [of "fst r"] by (cases "snd r = HPE_USER") (simp_all add: callback_step_def, blast)
  with Cons.IH [of "callback_step r cb"] show ?case by (auto simp: run_callbacks_def)
qed simp

end
