(* ===== verification/Multipart_Round.thy ===== *)
theory Multipart_Round
  imports Multipart_Props
begin

text \<open>
  The round trip of the buffered form parser. \<open>render_form\<close> is the specification of what a user
  agent sends: quoted names and filenames, an optional content type, the bodies between delimiters.
\<close>

section \<open>Quoted strings\<close>

definition escape_char :: "char \<Rightarrow> string" where
  "escape_char c = (if c = CHR 0x5C \<or> c = CHR 0x22 then [CHR 0x5C, c] else [c])"

definition escape :: "string \<Rightarrow> string" where
  "escape s = concat (map escape_char s)"

definition quoted :: "string \<Rightarrow> string" where
  "quoted s = CHR 0x22 # escape s @ [CHR 0x22]"

lemma escape_Nil [simp]: "escape [] = []" by (simp add: escape_def)

lemma escape_Cons [simp]: "escape (c # s) = escape_char c @ escape s" by (simp add: escape_def)

lemma contains_ctl_Nil [simp]: "\<not> contains_ctl []" by (simp add: contains_ctl_def)

lemma contains_ctl_Cons [simp]:
  "contains_ctl (c # s) \<longleftrightarrow> ord c < 0x20 \<or> ord c = 0x7f \<or> contains_ctl s"
  by (auto simp: contains_ctl_def)

lemma contains_ctl_append [simp]: "contains_ctl (s @ t) \<longleftrightarrow> contains_ctl s \<or> contains_ctl t"
  by (auto simp: contains_ctl_def)

lemma contains_ctl_escape [simp]: "contains_ctl (escape s) \<longleftrightarrow> contains_ctl s"
  by (induction s) (auto simp: escape_char_def)

lemma contains_ctl_quoted [simp]: "contains_ctl (quoted s) \<longleftrightarrow> contains_ctl s"
  by (simp add: quoted_def)

lemma no_ctl_set: "\<not> contains_ctl s \<Longrightarrow> ord c < 0x20 \<Longrightarrow> c \<notin> set s"
  by (auto simp: contains_ctl_def list_ex_iff)

lemma no_ctl_CR: "\<not> contains_ctl s \<Longrightarrow> CR \<notin> set s"
  by (rule no_ctl_set) (simp_all add: CR_def)

lemma breaks_line_ctl: "breaks_line c \<Longrightarrow> ord c < 0x20"
  by (auto simp: breaks_line_def CR_def LF_def)

lemma trim_ows_Nil [simp]: "trim_ows [] = []" by (simp add: trim_ows_def)

lemma quoted_loop_escape:
  assumes "\<not> contains_ctl s" and "trim_ows t = []"
  shows "quoted_loop False out (escape s @ CHR 0x22 # t) = Some (out @ s)"
  using assms(1)
proof (induction s arbitrary: out)
  case Nil
  with assms(2) show ?case by simp
next
  case (Cons c s)
  then have "\<not> breaks_line c" using breaks_line_ctl by auto
  with Cons show ?case by (auto simp: escape_char_def)
qed

lemma trim_ows_ends:
  assumes "\<not> is_ows c" and "\<not> is_ows d"
  shows "trim_ows (c # s @ [d]) = c # s @ [d]"
  using assms by (simp add: trim_ows_def)

lemma trim_ows_front [simp]: "trim_ows (CHR '' '' # s) = trim_ows s"
  by (simp add: trim_ows_def is_ows_def)

lemma trim_ows_quoted [simp]: "trim_ows (quoted s) = quoted s"
  unfolding quoted_def by (rule trim_ows_ends) (simp_all add: is_ows_def)

lemma parse_parameter_value_quoted:
  "\<not> contains_ctl s \<Longrightarrow> parse_parameter_value (quoted s) = Some s"
  using quoted_loop_escape [of s "[]" "[]"]
  by (simp add: parse_parameter_value_def) (simp add: quoted_def parse_quoted_value_def)

section \<open>Separators outside quotes\<close>

lemma unquoted_loop_plain:
  assumes "CHR 0x22 \<notin> set pre" and "needle \<notin> set pre"
  shows "unquoted_loop needle False False (pre @ s) =
    map_option ((+) (length pre)) (unquoted_loop needle False False s)"
  using assms
proof (induction pre)
  case Nil
  then show ?case by (simp add: option.map_ident)
next
  case (Cons c pre)
  then show ?case by (cases "unquoted_loop needle False False s") auto
qed

lemma unquoted_loop_escape:
  "unquoted_loop needle True False (escape s @ CHR 0x22 # t) =
    map_option ((+) (Suc (length (escape s)))) (unquoted_loop needle False False t)"
proof (induction s)
  case Nil
  then show ?case by (cases "unquoted_loop needle False False t") auto
next
  case (Cons c s)
  then show ?case
    by (cases "unquoted_loop needle False False t") (auto simp: escape_char_def)
qed

lemma unquoted_loop_quoted:
  assumes "needle \<noteq> CHR 0x22"
  shows "unquoted_loop needle False False (quoted s @ t) =
    map_option ((+) (length (quoted s))) (unquoted_loop needle False False t)"
  using unquoted_loop_escape [of needle s t]
  by (cases "unquoted_loop needle False False t") (auto simp: quoted_def)

lemma find_unquoted_plain:
  assumes "CHR 0x22 \<notin> set pre" and "needle \<notin> set pre" and "needle \<noteq> CHR 0x22"
  shows "find_unquoted (pre @ needle # s) needle = Some (length pre)"
  using unquoted_loop_plain [OF assms(1,2), of "needle # s"] assms(3) by (simp add: find_unquoted_def)

section \<open>Content type\<close>

definition render_content_type :: "string \<Rightarrow> string" where
  "render_content_type boundary = ''multipart/form-data; boundary='' @ quoted boundary"

text \<open>One parameter \<open>name="value"\<close> and what follows it.\<close>

definition param_string :: "string \<Rightarrow> string \<Rightarrow> string" where
  "param_string name v = CHR '' '' # name @ CHR ''='' # quoted v"

lemma find_unquoted_param:
  assumes "CHR 0x22 \<notin> set name" and "CHR '';'' \<notin> set name"
  shows "find_unquoted (param_string name v @ t) CHR '';'' =
    map_option ((+) (length (param_string name v))) (find_unquoted t CHR '';'')"
proof -
  have "param_string name v @ t = (CHR '' '' # name @ [CHR ''='']) @ quoted v @ t"
    by (simp add: param_string_def)
  then show ?thesis
    using assms
    by (simp only: find_unquoted_def, subst unquoted_loop_plain)
      (cases "unquoted_loop CHR '';'' False False t";
       auto simp: unquoted_loop_quoted param_string_def)+
qed

lemma sv_find_param:
  "CHR ''='' \<notin> set name \<Longrightarrow> sv_find CHR ''='' (param_string name v) = Some (Suc (length name))"
  using sv_find_append [of "CHR ''=''" "CHR '' '' # name" "quoted v"] by (simp add: param_string_def)

lemma take_param [simp]: "take (Suc (length name)) (param_string name v) = CHR '' '' # name"
  by (simp add: param_string_def)

lemma drop_param [simp]: "drop (Suc (Suc (length name))) (param_string name v) = quoted v"
  by (simp add: param_string_def)

lemma ascii_iequals_refl [simp]: "ascii_iequals s s"
  by (simp add: ascii_iequals_def list_all_length)

lemma parse_multipart_boundary_render:
  assumes "valid_boundary boundary"
  shows "parse_multipart_boundary (render_content_type boundary) = Inr boundary"
proof -
  let ?media = "''multipart/form-data''"
  have shape: "render_content_type boundary = ?media @ CHR '';'' # param_string ''boundary'' boundary"
    by (simp add: render_content_type_def param_string_def)
  have sep: "find_unquoted (render_content_type boundary) CHR '';'' = Some (length ?media)"
    unfolding shape using find_unquoted_plain [of ?media "CHR '';''"] by simp
  have "find_unquoted (param_string ''boundary'' boundary) CHR '';'' = None"
    using find_unquoted_param [of "''boundary''" boundary "[]"] by (simp add: find_unquoted_def)
  moreover have "trim_ows ''boundary'' = ''boundary''" by code_simp
  moreover have "param_string ''boundary'' boundary \<noteq> []" by (simp add: param_string_def)
  moreover have "\<not> contains_ctl boundary" using assms by (simp add: valid_boundary_def)
  ultimately have loop: "boundary_loop (param_string ''boundary'' boundary) None = Inr (Some boundary)"
    using sv_find_param [of "''boundary''" boundary] take_param [of "''boundary''"] drop_param [of "''boundary''"]
    by (subst boundary_loop.simps)
      (simp add: sv_until_def parse_parameter_value_quoted)
  have "trim_ows ?media = ?media" by code_simp
  with sep loop assms show ?thesis
    unfolding parse_multipart_boundary_def
    by (simp add: sv_until_def shape)
qed

section \<open>Content disposition\<close>

definition render_disposition :: "string \<Rightarrow> string option \<Rightarrow> string" where
  "render_disposition name filename =
     ''form-data;'' @ param_string ''name'' name @
     (case filename of None \<Rightarrow> [] | Some f \<Rightarrow> CHR '';'' # param_string ''filename'' f)"

text \<open>One round of the parameter loop over \<open>name="value"\<close>, last or followed by another.\<close>

lemma find_unquoted_param_last:
  assumes "CHR 0x22 \<notin> set name" and "CHR '';'' \<notin> set name"
  shows "find_unquoted (param_string name v) CHR '';'' = None"
  using find_unquoted_param [OF assms, of v "[]"] by (simp add: find_unquoted_def)

lemma find_unquoted_param_more:
  assumes "CHR 0x22 \<notin> set name" and "CHR '';'' \<notin> set name"
  shows "find_unquoted (param_string name v @ CHR '';'' # t) CHR '';'' = Some (length (param_string name v))"
  using find_unquoted_param [OF assms, of v "CHR '';'' # t"] by (simp add: find_unquoted_def)

lemma param_string_not_Nil [simp]: "param_string name v \<noteq> []"
  by (simp add: param_string_def)

lemma trim_names [simp]:
  "trim_ows ''name'' = ''name''" "trim_ows ''filename'' = ''filename''"
  "trim_ows ''form-data'' = ''form-data''"
  by code_simp+

lemma not_name [simp]: "\<not> ascii_iequals ''filename'' ''name''" by code_simp

lemma disposition_loop_filename:
  assumes "\<not> contains_ctl f" and "disp_filename info = None"
  shows "disposition_loop (param_string ''filename'' f) info = Inr (info\<lparr>disp_filename := Some f\<rparr>)"
  using sv_find_param [of "''filename''" f] take_param [of "''filename''" f]
    drop_param [of "''filename''" f] find_unquoted_param_last [of "''filename''" f] assms
  by (subst disposition_loop.simps) (simp add: sv_until_def parse_parameter_value_quoted)

lemma disposition_loop_name_last:
  assumes "\<not> contains_ctl n" and "disp_name info = None"
  shows "disposition_loop (param_string ''name'' n) info = Inr (info\<lparr>disp_name := Some n\<rparr>)"
  using sv_find_param [of "''name''" n] take_param [of "''name''" n]
    drop_param [of "''name''" n] find_unquoted_param_last [of "''name''" n] assms
  by (subst disposition_loop.simps) (simp add: sv_until_def parse_parameter_value_quoted)

lemma disposition_loop_name_more:
  assumes "\<not> contains_ctl n" and "disp_name info = None"
  shows "disposition_loop (param_string ''name'' n @ CHR '';'' # t) info =
    disposition_loop t (info\<lparr>disp_name := Some n\<rparr>)"
  using sv_find_param [of "''name''" n] take_param [of "''name''" n]
    drop_param [of "''name''" n] find_unquoted_param_more [of "''name''" n t] assms
  by (subst disposition_loop.simps) (simp add: sv_until_def parse_parameter_value_quoted)

lemma parse_disposition_render:
  assumes "name \<noteq> []" and "\<not> contains_ctl name" and "\<forall>f. filename = Some f \<longrightarrow> \<not> contains_ctl f"
  shows "parse_multipart_content_disposition (render_disposition name filename) = Inr (name, filename)"
proof -
  let ?params = "param_string ''name'' name @
     (case filename of None \<Rightarrow> [] | Some f \<Rightarrow> CHR '';'' # param_string ''filename'' f)"
  have shape: "render_disposition name filename = ''form-data'' @ CHR '';'' # ?params"
    by (simp add: render_disposition_def)
  have sep: "find_unquoted (render_disposition name filename) CHR '';'' = Some (length ''form-data'')"
    unfolding shape using find_unquoted_plain [of "''form-data''" "CHR '';''"] by simp
  have loop: "disposition_loop ?params \<lparr>disp_name = None, disp_filename = None\<rparr> =
      Inr \<lparr>disp_name = Some name, disp_filename = filename\<rparr>"
    using assms
    by (cases filename)
      (simp_all add: disposition_loop_name_last disposition_loop_name_more disposition_loop_filename)
  have "drop (Suc (length ''form-data'')) (render_disposition name filename) = ?params"
    "take (length ''form-data'') (render_disposition name filename) = ''form-data''"
    unfolding shape by simp_all
  with sep loop assms show ?thesis
    unfolding parse_multipart_content_disposition_def
    by (simp add: sv_until_def split: option.splits)
qed

lemma contains_ctl_param [simp]: "contains_ctl (param_string n v) \<longleftrightarrow> contains_ctl n \<or> contains_ctl v"
  by (simp add: param_string_def)

lemma no_ctl_disposition:
  assumes "\<not> contains_ctl name" and "\<forall>f. filename = Some f \<longrightarrow> \<not> contains_ctl f"
  shows "\<not> contains_ctl (render_disposition name filename)"
  using assms by (cases filename) (simp_all add: render_disposition_def)

lemma last_render_disposition:
  "\<exists>s. render_disposition name filename = CHR ''f'' # s @ [CHR 0x22]"
  by (cases filename) (simp_all add: render_disposition_def param_string_def quoted_def)

lemma trim_render_disposition [simp]: "trim_ows (render_disposition name filename) = render_disposition name filename"
  using last_render_disposition [of name filename] trim_ows_ends [of "CHR ''f''" "CHR 0x22"]
  by (auto simp: is_ows_def)

section \<open>Header blocks\<close>

record sent_part =
  sent_name :: string
  sent_filename :: "string option"
  sent_type :: "string option"
  sent_body :: string

definition disposition_of :: "sent_part \<Rightarrow> string" where
  "disposition_of p = render_disposition (sent_name p) (sent_filename p)"

definition disposition_line :: "sent_part \<Rightarrow> string" where
  "disposition_line p = ''Content-Disposition: '' @ disposition_of p"

definition render_block :: "sent_part \<Rightarrow> string" where
  "render_block p =
     disposition_line p @ (case sent_type p of None \<Rightarrow> [] | Some t \<Rightarrow> CRLF @ ''Content-Type: '' @ t)"

text \<open>The part the parser is to return.\<close>

definition as_part :: "sent_part \<Rightarrow> form_part" where
  "as_part p =
     \<lparr>part_name = sent_name p, part_filename = sent_filename p,
      part_headers = (''Content-Disposition'', disposition_of p) #
        (case sent_type p of None \<Rightarrow> [] | Some t \<Rightarrow> [(''Content-Type'', t)]),
      part_body = sent_body p\<rparr>"

definition header_count :: "sent_part \<Rightarrow> nat" where
  "header_count p = (if sent_type p = None then 1 else 2)"

definition sent_ok :: "sent_part \<Rightarrow> bool" where
  "sent_ok p \<longleftrightarrow>
     sent_name p \<noteq> [] \<and> \<not> contains_ctl (sent_name p) \<and>
     (case sent_filename p of None \<Rightarrow> True | Some f \<Rightarrow> \<not> contains_ctl f) \<and>
     (case sent_type p of None \<Rightarrow> True | Some t \<Rightarrow> \<not> contains_ctl t \<and> trim_ows t = t)"

lemma CR_not_LF [simp]: "CR \<noteq> LF" by (simp add: CR_def LF_def)

lemma sent_ok_disposition:
  assumes "sent_ok p"
  shows "parse_multipart_content_disposition (disposition_of p) = Inr (sent_name p, sent_filename p)"
    and "\<not> contains_ctl (disposition_of p)"
  using assms parse_disposition_render [of "sent_name p" "sent_filename p"]
    no_ctl_disposition [of "sent_name p" "sent_filename p"]
  by (auto simp: sent_ok_def disposition_of_def split: option.splits)

lemma CR_disposition_line: "sent_ok p \<Longrightarrow> CR \<notin> set (disposition_line p)"
  using no_ctl_CR [OF sent_ok_disposition(2)] by (auto simp: disposition_line_def CR_def)

lemma CR_type_line: "sent_ok p \<Longrightarrow> sent_type p = Some t \<Longrightarrow> CR \<notin> set (''Content-Type: '' @ t)"
  using no_ctl_CR [of t] by (auto simp: sent_ok_def CR_def)

lemma header_line_disposition:
  assumes "ph_disposition st = None" and "trim_ows d = d"
  shows "part_header_line (''Content-Disposition: '' @ d) st =
    Inr (st\<lparr>ph_headers := ph_headers st @ [(''Content-Disposition'', d)], ph_disposition := Some d\<rparr>)"
proof -
  have "sv_find CHR '':'' (''Content-Disposition: '' @ d) = Some (length ''Content-Disposition'')"
    using sv_find_append [of "CHR '':''" "''Content-Disposition''" "CHR '' '' # d"] by simp
  moreover have "trim_ows ''Content-Disposition'' = ''Content-Disposition''"
    "\<not> contains_ctl ''Content-Disposition''"
    "ascii_iequals ''Content-Disposition'' ''content-disposition''" by code_simp+
  ultimately show ?thesis
    using assms by (simp add: part_header_line_def is_ows_def headers_add_def)
qed

lemma header_line_type:
  assumes "\<not> ph_saw_content_type st" and "trim_ows t = t"
  shows "part_header_line (''Content-Type: '' @ t) st =
    Inr (st\<lparr>ph_headers := ph_headers st @ [(''Content-Type'', t)], ph_saw_content_type := True\<rparr>)"
proof -
  have "sv_find CHR '':'' (''Content-Type: '' @ t) = Some (length ''Content-Type'')"
    using sv_find_append [of "CHR '':''" "''Content-Type''" "CHR '' '' # t"] by simp
  moreover have "trim_ows ''Content-Type'' = ''Content-Type''" "\<not> contains_ctl ''Content-Type''"
    "\<not> ascii_iequals ''Content-Type'' ''content-disposition''"
    "ascii_iequals ''Content-Type'' ''content-type''" by code_simp+
  ultimately show ?thesis
    using assms by (simp add: part_header_line_def is_ows_def headers_add_def)
qed

lemma find_CRLF_none:
  assumes "CR \<notin> set s"
  shows "sv_find_str CRLF (pre @ s) (length pre) = None"
  using find_str_aux_skip [OF assms, of "[LF]" "[]" "length pre"] by (simp add: sv_find_str_def CRLF_def)

lemma find_CRLF_first:
  assumes "CR \<notin> set s"
  shows "sv_find_str CRLF (s @ CRLF @ t) 0 = Some (length s)"
  using find_str_aux_skip [OF assms, of "[LF]" "CRLF @ t" 0] find_str_aux_hit [of CRLF t]
  by (simp add: sv_find_str_def CRLF_def)

lemma part_header_loop_last:
  assumes "CR \<notin> set line" and "line \<noteq> []" and "part_header_line line st = Inr st'"
  shows "part_header_loop (pre @ line) (length pre) st = Inr st'"
  using assms by (subst part_header_loop.simps) (simp add: find_CRLF_none)

lemma part_header_loop_more:
  assumes "CR \<notin> set line" and "line \<noteq> []" and "part_header_line line st = Inr st'"
  shows "part_header_loop (line @ CRLF @ rest) 0 st =
    part_header_loop ((line @ CRLF) @ rest) (length (line @ CRLF)) st'"
  using assms find_CRLF_first [of line rest]
  by (subst part_header_loop.simps) (simp add: sv_substr_def CRLF_def)

lemma count_header_lines_render:
  assumes "sent_ok p"
  shows "count_header_lines (render_block p) = header_count p"
proof (cases "sent_type p")
  case None
  then show ?thesis
    using find_CRLF_none [OF CR_disposition_line [OF assms], of "[]"]
    by (simp add: count_header_lines_def render_block_def header_count_def count_lines_from.simps
        disposition_line_def)
next
  case (Some t)
  let ?l1 = "disposition_line p" and ?l2 = "''Content-Type: '' @ t"
  have "count_lines_from (?l1 @ CRLF @ ?l2) (length (?l1 @ CRLF)) = 0"
    using find_CRLF_none [OF CR_type_line [OF assms Some], of "?l1 @ CRLF"]
    by (subst count_lines_from.simps) simp
  then have "count_lines_from (?l1 @ CRLF @ ?l2) 0 = 1"
    using find_CRLF_first [OF CR_disposition_line [OF assms], of ?l2]
    by (subst count_lines_from.simps) (simp add: CRLF_def)
  with Some show ?thesis
    by (simp add: count_header_lines_def render_block_def header_count_def disposition_line_def)
qed

lemma part_header_loop_render:
  assumes "sent_ok p"
  shows "part_header_loop (render_block p) 0 \<lparr>ph_headers = [], ph_disposition = None, ph_saw_content_type = False\<rparr> =
    Inr \<lparr>ph_headers = part_headers (as_part p), ph_disposition = Some (disposition_of p),
         ph_saw_content_type = (sent_type p \<noteq> None)\<rparr>"
    (is "part_header_loop _ 0 ?init = _")
proof -
  let ?st = "\<lparr>ph_headers = [(''Content-Disposition'', disposition_of p)],
    ph_disposition = Some (disposition_of p), ph_saw_content_type = False\<rparr>"
  have first: "part_header_line (disposition_line p) ?init = Inr ?st"
    using header_line_disposition [of ?init "disposition_of p"]
    by (simp add: disposition_line_def disposition_of_def)
  have line: "disposition_line p \<noteq> []" "CR \<notin> set (disposition_line p)"
    using CR_disposition_line [OF assms] by (simp_all add: disposition_line_def)
  show ?thesis
  proof (cases "sent_type p")
    case None
    with part_header_loop_last [OF line(2,1) first, of "[]"] show ?thesis
      by (simp add: render_block_def as_part_def)
  next
    case (Some t)
    then have "trim_ows t = t" using assms by (simp add: sent_ok_def)
    then have "part_header_line (''Content-Type: '' @ t) ?st =
        Inr (?st\<lparr>ph_headers := ph_headers ?st @ [(''Content-Type'', t)], ph_saw_content_type := True\<rparr>)"
      by (intro header_line_type) simp_all
    from part_header_loop_last [OF CR_type_line [OF assms Some] _ this, of "disposition_line p @ CRLF"]
      part_header_loop_more [OF line(2,1) first, of "''Content-Type: '' @ t"] Some
    show ?thesis by (simp add: render_block_def as_part_def)
  qed
qed

lemma parse_block_render:
  assumes ok: "sent_ok p" and within: "part_within limits (as_part p)"
    and count: "header_count p \<le> max_part_headers limits"
  shows "parse_part_header_block (render_block p) limits =
    Inr \<lparr>pp_name = sent_name p, pp_filename = sent_filename p, pp_headers = part_headers (as_part p)\<rparr>"
  using within count sent_ok_disposition(1) [OF ok]
  unfolding parse_part_header_block_def count_header_lines_render [OF ok] part_header_loop_render [OF ok]
  by (auto simp: part_within_def text_ok_def as_part_def split: option.splits)

section \<open>Forms\<close>

definition delimiter_of :: "string \<Rightarrow> string" where
  "delimiter_of boundary = CRLF @ ''--'' @ boundary"

fun render_parts :: "string \<Rightarrow> sent_part list \<Rightarrow> string" where
  "render_parts boundary [] = []"
| "render_parts boundary (p # ps) =
     render_block p @ CRLF @ CRLF @ sent_body p @ delimiter_of boundary @
     (if ps = [] then ''--'' @ CRLF else CRLF @ render_parts boundary ps)"

definition render_form :: "string \<Rightarrow> sent_part list \<Rightarrow> string" where
  "render_form boundary ps =
     ''--'' @ boundary @ (if ps = [] then ''--'' @ CRLF else CRLF @ render_parts boundary ps)"

text \<open>What the sender has to see to: no body holds the delimiter, and the form is within the limits.\<close>

definition sendable :: "multipart_form_options \<Rightarrow> string \<Rightarrow> sent_part \<Rightarrow> bool" where
  "sendable opts boundary p \<longleftrightarrow>
     sent_ok p \<and> sv_find_str (delimiter_of boundary) (sent_body p) 0 = None \<and>
     length (render_block p) \<le> max_part_header_bytes (form_limits opts) \<and>
     header_count p \<le> max_part_headers (form_limits opts)"

lemma find_blank_line:
  assumes "sent_ok p"
  shows "sv_find_str (CRLF @ CRLF) (render_block p @ CRLF @ CRLF @ t) 0 = Some (length (render_block p))"
proof -
  let ?pat = "CR # [LF, CR, LF]"
  have pat: "CRLF @ CRLF = ?pat" by (simp add: CRLF_def)
  show ?thesis
  proof (cases "sent_type p")
    case None
    then have "CR \<notin> set (render_block p)"
      using CR_disposition_line [OF assms] by (simp add: render_block_def)
    from find_str_aux_skip [OF this, of "[LF, CR, LF]" "CRLF @ CRLF @ t" 0] show ?thesis
      using find_str_aux_hit [of ?pat t "length (render_block p)"] by (simp add: sv_find_str_def CRLF_def)
  next
    case (Some ct)
    let ?l2 = "''Content-Type: '' @ ct"
    have shape: "render_block p = disposition_line p @ CRLF @ ?l2"
      using Some by (simp add: render_block_def)
    have "find_str_aux ?pat (CR # LF # ?l2 @ ?pat @ t) i = find_str_aux ?pat (?l2 @ ?pat @ t) (Suc (Suc i))" for i
      by (simp add: starts_with_def CR_def LF_def)
    then show ?thesis
      using find_str_aux_skip [OF CR_disposition_line [OF assms], of "[LF, CR, LF]" "CRLF @ ?l2 @ ?pat @ t" 0]
        find_str_aux_skip [OF CR_type_line [OF assms Some], of "[LF, CR, LF]" "?pat @ t"]
        find_str_aux_hit [of ?pat t "length (render_block p)"]
      unfolding shape pat by (simp add: sv_find_str_def CRLF_def del: find_str_aux.simps)
  qed
qed

lemma find_next_rendered:
  assumes "sv_find_str (delimiter_of boundary) body 0 = None" and "CR \<notin> set boundary"
    and "suffix = CRLF \<or> suffix = ''--''"
  shows "find_next_multipart_delimiter (pre @ body @ delimiter_of boundary @ suffix @ t)
    (delimiter_of boundary) (length pre) = Delimiter_found (length pre + length body) suffix"
proof -
  let ?d = "delimiter_of boundary" and ?text = "pre @ body @ delimiter_of boundary @ suffix @ t"
  have d: "?d = CR # (LF # ''--'' @ boundary)" by (simp add: delimiter_of_def CRLF_def)
  have "sv_find_str ?d (body @ ?d @ suffix @ t) 0 = Some (length body)"
    using assms(1,2) find_str_aux_first [of CR "LF # ''--'' @ boundary" body "suffix @ t" 0]
    unfolding d by (auto simp: sv_find_str_def CR_def LF_def)
  then have pos: "sv_find_str ?d ?text (length pre) = Some (length pre + length body)"
    by (simp add: sv_find_str_prefix)
  have size: "length suffix = 2" using assms(3) by (auto simp: CRLF_def)
  then have "sv_substr ?text (length pre + length body + length ?d) 2 = suffix"
    by (simp add: sv_substr_def)
  with pos size assms(3) show ?thesis
    by (subst find_next_multipart_delimiter.simps) (simp add: Let_def d)
qed

lemma form_within_prefix: "form_within opts (ps @ qs) \<Longrightarrow> form_within opts ps"
  by (auto simp: form_within_def memory_of_def)

lemma check_part_limits_ok:
  assumes "form_within opts (qs @ [p])"
  shows "check_part_limits opts (length qs) (memory_of qs) (part_filename p) (part_body p) =
    Inr (memory_of (qs @ [p]))"
  using assms
  by (auto simp: check_part_limits_def form_within_def part_within_def memory_of_def Let_def
      split: option.splits)

text \<open>One round of the loop on a rendered part.\<close>

lemma form_loop_rendered:
  assumes ok: "sendable opts boundary p" and CR: "CR \<notin> set boundary"
    and within: "form_within opts (qs @ [as_part p])"
    and suffix: "suffix = CRLF \<or> suffix = ''--''"
    and body_text: "text = pre @ render_block p @ CRLF @ CRLF @ sent_body p @ delimiter_of boundary @ suffix @ t"
  shows "form_loop opts (delimiter_of boundary) text (length pre) (memory_of qs) qs =
    (let ps = qs @ [as_part p]; next_offset = length text - length t
     in if suffix = ''--'' then
          (if \<not> final_end text next_offset
           then Inl (make_error multipart_malformed_body ''invalid multipart final delimiter'')
           else Inr (rebuild_indexes (empty_form\<lparr>parts := ps\<rparr>)))
        else form_loop opts (delimiter_of boundary) text next_offset (memory_of ps) ps)"
proof -
  let ?block = "render_block p" and ?delim = "delimiter_of boundary"
  have sent: "sent_ok p" and body: "sv_find_str ?delim (sent_body p) 0 = None"
    and size: "length ?block \<le> max_part_header_bytes (form_limits opts)"
    and count: "header_count p \<le> max_part_headers (form_limits opts)"
    using ok by (auto simp: sendable_def)
  have "part_within (form_limits opts) (as_part p)" using within by (simp add: form_within_def)
  note headers = parse_block_render [OF sent this count]
  have blank: "sv_find_str (CRLF @ CRLF) text (length pre) = Some (length pre + length ?block)"
    unfolding body_text sv_find_str_prefix using find_blank_line [OF sent] by simp
  have block: "sv_substr text (length pre) (length ?block) = ?block"
    unfolding body_text by (simp add: sv_substr_def)
  have start: "length pre + length ?block + 4 = length (pre @ ?block @ CRLF @ CRLF)"
    by (simp add: CRLF_def)
  have delim: "find_next_multipart_delimiter text ?delim (length pre + length ?block + 4) =
      Delimiter_found (length pre + length ?block + 4 + length (sent_body p)) suffix"
    unfolding start body_text using find_next_rendered [OF body CR suffix, of "pre @ ?block @ CRLF @ CRLF" t]
    by simp
  have payload: "sv_substr text (length pre + length ?block + 4) (length (sent_body p)) = sent_body p"
    unfolding start body_text by (simp add: sv_substr_def)
  have offset: "length pre + length ?block + 4 + length (sent_body p) + length ?delim + 2 = length text - length t"
    using suffix unfolding body_text by (auto simp: CRLF_def)
  have large: "\<not> max_part_header_bytes (form_limits opts) < length ?block" using size by simp
  have "length pre < length text" unfolding body_text by (simp add: CRLF_def)
  moreover have "\<lparr>part_name = sent_name p, part_filename = sent_filename p,
      part_headers = part_headers (as_part p), part_body = sent_body p\<rparr> = as_part p"
    by (simp add: as_part_def)
  moreover have "check_part_limits opts (length qs) (memory_of qs) (sent_filename p) (sent_body p) =
      Inr (memory_of (qs @ [as_part p]))"
    using check_part_limits_ok [OF within] by (simp add: as_part_def)
  ultimately show ?thesis
    by (subst form_loop.simps) (simp only: blank block headers delim payload offset large Let_def simp_thms
        option.case sum.case delimiter_search.case if_True if_False add_diff_cancel_left' not_less
        parsed_part_headers.select_convs)
qed

lemma final_end_CRLF: "final_end (s @ CRLF) (length s)"
  by (simp add: final_end_def at_offset_def sv_substr_def CRLF_def)

lemma form_loop_render_parts:
  assumes "list_all (sendable opts boundary) ps" and "ps \<noteq> []" and CR: "CR \<notin> set boundary"
    and "form_within opts (qs @ map as_part ps)"
  shows "form_loop opts (delimiter_of boundary) (pre @ render_parts boundary ps) (length pre) (memory_of qs) qs =
    Inr (rebuild_indexes (empty_form\<lparr>parts := qs @ map as_part ps\<rparr>))"
  using assms(1,2,4)
proof (induction ps arbitrary: pre qs)
  case Nil
  then show ?case by simp
next
  case (Cons p ps)
  have p: "sendable opts boundary p" and within: "form_within opts (qs @ [as_part p])"
    using Cons.prems form_within_prefix [of opts "qs @ [as_part p]" "map as_part ps"] by auto
  let ?start = "pre @ render_block p @ CRLF @ CRLF @ sent_body p @ delimiter_of boundary"
  show ?case
  proof (cases "ps = []")
    case True
    have "final_end (?start @ ''--'' @ CRLF) (length (?start @ ''--''))"
      using final_end_CRLF [of "?start @ ''--''"] by (simp only: append_assoc)
    with form_loop_rendered [OF p CR within, of "''--''" "pre @ render_parts boundary (p # ps)" pre CRLF] True
    show ?thesis by (simp add: add.commute add.left_commute)
  next
    case False
    have "form_loop opts (delimiter_of boundary) ((?start @ CRLF) @ render_parts boundary ps)
        (length (?start @ CRLF)) (memory_of (qs @ [as_part p])) (qs @ [as_part p]) =
        Inr (rebuild_indexes (empty_form\<lparr>parts := (qs @ [as_part p]) @ map as_part ps\<rparr>))"
      using Cons.prems False by (intro Cons.IH) simp_all
    moreover have "CRLF \<noteq> ''--''" by (simp add: CRLF_def CR_def)
    ultimately show ?thesis
      using form_loop_rendered [OF p CR within, of CRLF "pre @ render_parts boundary (p # ps)" pre
          "render_parts boundary ps"] False
      by simp
  qed
qed

lemma parse_render_form:
  assumes "valid_boundary boundary" and "list_all (sendable opts boundary) ps"
    and "form_within opts (map as_part ps)"
    and "max_total_bytes (form_limits opts) \<noteq> 0 \<longrightarrow>
      length (render_form boundary ps) \<le> max_total_bytes (form_limits opts)"
  shows "parse_multipart_form (render_content_type boundary) (render_form boundary ps) opts =
    Inr (rebuild_indexes (empty_form\<lparr>parts := map as_part ps\<rparr>))"
proof (cases "ps = []")
  case True
  then have "render_form boundary ps = ''--'' @ boundary @ ''--'' @ CRLF"
    by (simp add: render_form_def)
  moreover have "starts_with (''--'' @ boundary @ ''--'' @ CRLF) (''--'' @ boundary)"
    by (simp add: starts_with_def)
  moreover have "rebuild_indexes (empty_form\<lparr>parts := []\<rparr>) = empty_form"
    by (simp add: rebuild_indexes_def empty_form_def group_views_def)
  moreover have "at_offset (''--'' @ boundary @ ''--'' @ CRLF) (length (''--'' @ boundary)) ''--''"
    by (simp add: at_offset_def sv_substr_def)
  moreover have "final_end (''--'' @ boundary @ ''--'' @ CRLF) (length (''--'' @ boundary) + 2)"
    using final_end_CRLF [of "''--'' @ boundary @ ''--''"] by simp
  ultimately show ?thesis
    using assms(4) True parse_multipart_boundary_render [OF assms(1)]
    unfolding parse_multipart_form_def Let_def by (auto simp: not_less)
next
  case False
  then have shape: "render_form boundary ps = (''--'' @ boundary @ CRLF) @ render_parts boundary ps"
    by (simp add: render_form_def)
  have "CR \<notin> set boundary" using assms(1) no_ctl_CR by (auto simp: valid_boundary_def)
  from form_loop_render_parts [OF assms(2) False this, of "[]" "''--'' @ boundary @ CRLF"] assms(3)
  have "form_loop opts (CRLF @ ''--'' @ boundary) (render_form boundary ps) (length (''--'' @ boundary) + 2) 0 [] =
      Inr (rebuild_indexes (empty_form\<lparr>parts := map as_part ps\<rparr>))"
    unfolding shape by (simp add: delimiter_of_def memory_of_def CRLF_def)
  moreover have "starts_with (render_form boundary ps) (''--'' @ boundary)"
    "at_offset (render_form boundary ps) (length (''--'' @ boundary)) CRLF"
    unfolding shape by (simp_all add: starts_with_def at_offset_def sv_substr_def CRLF_def)
  moreover have "\<not> at_offset (render_form boundary ps) (length (''--'' @ boundary)) ''--''"
    unfolding shape by (simp add: at_offset_def sv_substr_def CRLF_def CR_def)
  ultimately show ?thesis
    using assms(4) parse_multipart_boundary_render [OF assms(1)]
    unfolding parse_multipart_form_def Let_def by (auto simp: not_less)
qed

section \<open>Properties of the form parser\<close>

definition sample_form_options :: multipart_form_options where
  "sample_form_options =
     \<lparr>form_limits = \<lparr>max_total_bytes = 200, max_file_bytes = 20, max_field_bytes = 10,
        max_part_header_bytes = 100, max_part_headers = 3, max_parts = 3, max_field_name_bytes = 8,
        max_filename_bytes = 8\<rparr>,
      max_memory_bytes = 30\<rparr>"

definition sample_parts :: "sent_part list" where
  "sample_parts =
     [\<lparr>sent_name = ''a'', sent_filename = None, sent_type = None, sent_body = ''x''\<rparr>,
      \<lparr>sent_name = ''f'', sent_filename = Some ''q.c'', sent_type = Some ''t/p'', sent_body = CRLF @ ''--''\<rparr>]"

lemma sample_accepted:
  "\<exists>form. parse_multipart_form (render_content_type ''b'') (render_form ''b'' sample_parts) sample_form_options
     = Inr form"
proof -
  have "\<not> isl (parse_multipart_form (render_content_type ''b'') (render_form ''b'' sample_parts)
      sample_form_options)" by code_simp
  then show ?thesis by (metis isl_def sum.exhaust)
qed

text \<open>Whatever the body, a form that the parser accepts is within the limits it was given: no more
  parts than allowed, every name and filename bounded, non-empty names, no control characters, every
  field and file bounded, no file at all when files are off, and the bodies together within the
  memory limit.\<close>

theorem multipart_form_within_limits:
  assumes "parse_multipart_form content_type text opts = Inr form"
  shows "form_within opts (parts form)"
  using parse_multipart_form_within [OF assms] by auto

theorem multipart_form_within_limits_witness:
  "\<exists>form. parse_multipart_form (render_content_type ''b'') (render_form ''b'' sample_parts) sample_form_options
     = Inr form \<and> form_within sample_form_options (parts form)"
  using sample_accepted multipart_form_within_limits by blast

text \<open>In a form that the parser accepts, looking up a name returns exactly the parts of that name,
  fields and files apart, in the order of the body, and \<open>single_field\<close> succeeds exactly when there is
  one: the sorted views and the group table of \<open>rebuild_indexes\<close> are a correct index.\<close>

theorem multipart_form_lookup:
  assumes "parse_multipart_form content_type text opts = Inr form"
  shows "form_fields form name = filter (\<lambda>p. part_filename p = None \<and> part_name p = name) (parts form) \<and>
    form_files form name = filter (\<lambda>p. part_filename p \<noteq> None \<and> part_name p = name) (parts form) \<and>
    (\<forall>p. single_field form name = Inr p \<longleftrightarrow>
       filter (\<lambda>p. part_filename p = None \<and> part_name p = name) (parts form) = [p])"
proof -
  obtain qs where form: "form = rebuild_indexes (empty_form\<lparr>parts := qs\<rparr>)"
    using parse_multipart_form_within [OF assms] by blast
  have fields: "form_fields form name = filter (\<lambda>p. part_filename p = None \<and> part_name p = name) (parts form)"
    unfolding form form_fields_def rebuild_indexes_def Let_def
    by (simp add: group_views_span [OF surjective_pairing] conj_commute)
  have "form_files form name = filter (\<lambda>p. part_filename p \<noteq> None \<and> part_name p = name) (parts form)"
    unfolding form form_files_def rebuild_indexes_def Let_def
    by (simp add: group_views_span [OF surjective_pairing] conj_commute)
  with fields show ?thesis
    by (auto simp: single_field_def split: list.splits)
qed

theorem multipart_form_lookup_witness:
  "\<exists>form. parse_multipart_form (render_content_type ''b'') (render_form ''b'' sample_parts) sample_form_options
     = Inr form \<and> form_files form ''f'' = filter (\<lambda>p. part_filename p \<noteq> None \<and> part_name p = ''f'') (parts form)"
  using sample_accepted multipart_form_lookup by blast

text \<open>C26: Round trip. A form rendered with a valid boundary, whose parts the sender quotes and whose
  bodies do not hold the delimiter, is parsed back to exactly its parts, names, filenames, headers and
  bodies, when it is within the limits; bodies may hold line breaks and dashes.\<close>

theorem multipart_form_roundtrip:
  assumes "valid_boundary boundary" and "list_all (sendable opts boundary) ps"
    and "form_within opts (map as_part ps)"
    and "max_total_bytes (form_limits opts) = 0 \<or>
      length (render_form boundary ps) \<le> max_total_bytes (form_limits opts)"
  shows "\<exists>form. parse_multipart_form (render_content_type boundary) (render_form boundary ps) opts = Inr form \<and>
    parts form = map as_part ps"
proof -
  have "parse_multipart_form (render_content_type boundary) (render_form boundary ps) opts =
      Inr (rebuild_indexes (empty_form\<lparr>parts := map as_part ps\<rparr>))"
    using assms by (intro parse_render_form) auto
  then show ?thesis by simp
qed

theorem multipart_form_roundtrip_witness:
  "\<exists>form. parse_multipart_form (render_content_type ''b'') (render_form ''b'' sample_parts) sample_form_options
     = Inr form \<and> parts form = map as_part sample_parts"
proof -
  have "valid_boundary ''b''" "list_all (sendable sample_form_options ''b'') sample_parts"
    "form_within sample_form_options (map as_part sample_parts)"
    "length (render_form ''b'' sample_parts) \<le> max_total_bytes (form_limits sample_form_options)"
    by code_simp+
  then show ?thesis using multipart_form_roundtrip by blast
qed

text \<open>The safe filename of an upload is never empty and holds no path separator, no drive
  separator and no control character, whatever the client sent.\<close>

theorem safe_filename_safe:
  "make_safe_filename (Some f) \<noteq> [] \<and>
   set (make_safe_filename (Some f)) \<inter> {CHR ''/'', CHR 0x5C, CHR '':''} = {} \<and>
   \<not> contains_ctl (make_safe_filename (Some f))"
  by (auto simp: make_safe_filename_def contains_ctl_def list_ex_iff Let_def)

end
