(* ===== verification/Multipart_Stream_Props.thy ===== *)
theory Multipart_Stream_Props
  imports Multipart_Round Multipart_Stream
begin

text \<open>
  The streaming parser against the buffered one: whatever the chunks in which a body arrives, an
  application that streams every part receives exactly the parts of the form.
\<close>

section \<open>The delimiter search on a buffer that grows\<close>

definition delim_at :: "string \<Rightarrow> string \<Rightarrow> nat \<Rightarrow> bool" where
  "delim_at s d i \<longleftrightarrow>
     starts_with (drop i s) d \<and> i + length d + 2 \<le> length s \<and>
     (sv_substr s (i + length d) 2 = CRLF \<or> sv_substr s (i + length d) 2 = ''--'')"

text \<open>No delimiter starts at this position, and no more input can make one start there.\<close>

definition rejected :: "string \<Rightarrow> string \<Rightarrow> nat \<Rightarrow> bool" where
  "rejected s d i \<longleftrightarrow> starts_with (drop i s) d \<longrightarrow> i + length d + 2 \<le> length s \<and> \<not> delim_at s d i"

lemma find_next_spec:
  assumes "d \<noteq> []"
  shows "case find_next_multipart_delimiter s d k of
      Delimiter_found i suffix \<Rightarrow>
        k \<le> i \<and> delim_at s d i \<and> suffix = sv_substr s (i + length d) 2 \<and> (\<forall>j. k \<le> j \<and> j < i \<longrightarrow> rejected s d j)
    | Delimiter_need_more i \<Rightarrow>
        k \<le> i \<and> i + length d \<le> length s \<and> length s < i + length d + 2 \<and> (\<forall>j. k \<le> j \<and> j < i \<longrightarrow> rejected s d j)
    | Delimiter_not_found \<Rightarrow> \<forall>j\<ge>k. rejected s d j"
  using assms
proof (induction s d k rule: find_next_multipart_delimiter.induct)
  case (1 s d k)
  show ?case
  proof (cases "k < length s")
    case False
    with \<open>d \<noteq> []\<close> show ?thesis
      by (subst find_next_multipart_delimiter.simps) (simp add: rejected_def starts_with_def)
  next
    case True
    note spec = sv_find_str_spec [OF \<open>d \<noteq> []\<close> less_imp_le [OF True]]
    show ?thesis
    proof (cases "sv_find_str d s k")
      case None
      with True spec show ?thesis
        by (subst find_next_multipart_delimiter.simps) (simp add: rejected_def)
    next
      case (Some i)
      note bounds = sv_find_str_bounds [OF Some]
      have hit: "starts_with (drop i s) d" and before: "\<And>j. k \<le> j \<Longrightarrow> j < i \<Longrightarrow> rejected s d j"
        using spec Some by (auto simp: rejected_def)
      show ?thesis
      proof (cases "length s < i + length d + 2")
        case short: True
        with True Some bounds before show ?thesis
          by (subst find_next_multipart_delimiter.simps) simp
      next
        case long: False
        show ?thesis
        proof (cases "sv_substr s (i + length d) 2 = CRLF \<or> sv_substr s (i + length d) 2 = ''--''")
          case valid: True
          with True Some bounds before long hit show ?thesis
            by (subst find_next_multipart_delimiter.simps) (simp add: Let_def delim_at_def)
        next
          case invalid: False
          have here: "rejected s d i" using long invalid by (auto simp: rejected_def delim_at_def)
          have upto: "\<forall>j. k \<le> j \<and> j < m \<longrightarrow> rejected s d j"
            if "\<forall>j. i + 1 \<le> j \<and> j < m \<longrightarrow> rejected s d j" for m
            using that before here by (metis Suc_eq_plus1 not_less_eq_eq le_neq_implies_less linorder_le_less_linear)
          have all: "\<forall>j\<ge>k. rejected s d j" if "\<forall>j\<ge>i + 1. rejected s d j"
            using that before here by (metis Suc_eq_plus1 not_less_eq_eq le_neq_implies_less linorder_le_less_linear)
          have step: "find_next_multipart_delimiter s d k = find_next_multipart_delimiter s d (i + 1)"
            using True Some long invalid
            by (subst find_next_multipart_delimiter.simps) (simp add: Let_def)
          note IH = "1.IH" [OF True Some refl long refl invalid \<open>d \<noteq> []\<close>]
          show ?thesis
          proof (cases "find_next_multipart_delimiter s d (i + 1)")
            case (Delimiter_found m suffix)
            with IH upto [of m] bounds show ?thesis unfolding step by simp
          next
            case Delimiter_not_found
            with IH all show ?thesis unfolding step by simp
          next
            case (Delimiter_need_more m)
            with IH upto [of m] bounds show ?thesis unfolding step by simp
          qed
        qed
      qed
    qed
  qed
qed

lemma delim_at_grow:
  assumes "i + length d \<le> length b" and "rejected b d i"
  shows "\<not> delim_at (b @ r) d i"
proof
  assume at: "delim_at (b @ r) d i"
  then have "starts_with (drop i b) d"
    using assms(1) by (simp add: delim_at_def starts_with_def)
  with assms(2) have "i + length d + 2 \<le> length b" and "\<not> delim_at b d i"
    by (simp_all add: rejected_def)
  with at \<open>starts_with (drop i b) d\<close> show False
    by (simp add: delim_at_def sv_substr_def)
qed

lemma delim_at_append: "delim_at b d i \<Longrightarrow> delim_at (b @ r) d i"
  by (auto simp: delim_at_def starts_with_def sv_substr_def)

lemma delim_at_not_rejected: "delim_at s d i \<Longrightarrow> \<not> rejected s d i"
  by (simp add: delim_at_def rejected_def)

lemma delim_at_drop: "n \<le> i \<Longrightarrow> n \<le> length s \<Longrightarrow> delim_at (drop n s) d (i - n) \<longleftrightarrow> delim_at s d i"
  by (auto simp: delim_at_def sv_substr_def)

lemma find_next_least:
  assumes "d \<noteq> []" and at: "delim_at s d i" and least: "\<And>j. j < i \<Longrightarrow> \<not> delim_at s d j"
  shows "find_next_multipart_delimiter s d 0 = Delimiter_found i (sv_substr s (i + length d) 2)"
proof (cases "find_next_multipart_delimiter s d 0")
  case (Delimiter_found j suffix)
  with find_next_spec [where k = 0 and s = s, OF \<open>d \<noteq> []\<close>]
  have j: "delim_at s d j" "suffix = sv_substr s (j + length d) 2" "\<forall>k<j. rejected s d k" by simp_all
  have "\<not> j < i" using j(1) least by blast
  moreover have "\<not> i < j" using j(3) delim_at_not_rejected [OF at] by blast
  ultimately show ?thesis using Delimiter_found j(2) by simp
next
  case Delimiter_not_found
  with find_next_spec [where k = 0 and s = s, OF \<open>d \<noteq> []\<close>] delim_at_not_rejected [OF at] show ?thesis by simp
next
  case (Delimiter_need_more j)
  with find_next_spec [where k = 0 and s = s, OF \<open>d \<noteq> []\<close>]
  have j: "length s < j + length d + 2" "\<forall>k<j. rejected s d k" by simp_all
  have "i < j" using at j(1) by (simp add: delim_at_def)
  with j(2) delim_at_not_rejected [OF at] show ?thesis by blast
qed

lemma find_next_grow:
  assumes "d \<noteq> []" and "find_next_multipart_delimiter b d 0 = Delimiter_found i suffix"
  shows "find_next_multipart_delimiter (b @ r) d 0 = Delimiter_found i suffix"
proof -
  from find_next_spec [where k = 0 and s = b, OF assms(1)] assms(2)
  have i: "delim_at b d i" "suffix = sv_substr b (i + length d) 2" "\<forall>j<i. rejected b d j" by simp_all
  have "\<not> delim_at (b @ r) d j" if "j < i" for j
    using i that by (intro delim_at_grow) (auto simp: delim_at_def)
  from find_next_least [OF assms(1) delim_at_append [OF i(1)] this] i(1,2) show ?thesis
    by (simp add: delim_at_def sv_substr_def)
qed

text \<open>How many bytes of the buffer are certainly not part of the delimiter that ends the part.\<close>

definition settled :: "string \<Rightarrow> string \<Rightarrow> nat option" where
  "settled b d =
     (case find_next_multipart_delimiter b d 0 of
        Delimiter_need_more n \<Rightarrow> Some n
      | Delimiter_not_found \<Rightarrow> Some (length b - length d)
      | Delimiter_found _ _ \<Rightarrow> None)"

lemma find_next_settled:
  assumes "d \<noteq> []" and n: "settled b d = Some n"
    and found: "find_next_multipart_delimiter (b @ r) d 0 = Delimiter_found i suffix"
  shows "n \<le> i \<and> n \<le> length b \<and> find_next_multipart_delimiter (drop n (b @ r)) d 0 = Delimiter_found (i - n) suffix"
proof -
  from find_next_spec [where k = 0 and s = "b @ r", OF assms(1)] found
  have i: "delim_at (b @ r) d i" "suffix = sv_substr (b @ r) (i + length d) 2"
    and before: "\<And>j. j < i \<Longrightarrow> rejected (b @ r) d j" by simp_all
  have n_le: "n \<le> length b" and rej: "\<And>j. j < n \<Longrightarrow> j + length d \<le> length b \<and> rejected b d j"
    using find_next_spec [where k = 0 and s = b, OF assms(1)] n
    by (auto simp: settled_def split: delimiter_search.splits)
  have "n \<le> i"
    using i(1) rej delim_at_grow by (meson leI)
  moreover have "find_next_multipart_delimiter (drop n (b @ r)) d 0 =
      Delimiter_found (i - n) (sv_substr (drop n (b @ r)) (i - n + length d) 2)"
  proof (rule find_next_least [OF assms(1)])
    show "delim_at (drop n (b @ r)) d (i - n)"
      using i(1) \<open>n \<le> i\<close> n_le by (simp add: delim_at_drop del: drop_append)
    show "\<not> delim_at (drop n (b @ r)) d j" if "j < i - n" for j
    proof -
      have "rejected (b @ r) d (j + n)" using that by (intro before) simp
      then show ?thesis
        using delim_at_drop [of n "j + n" "b @ r" d] delim_at_not_rejected n_le
        by (auto simp del: drop_append)
    qed
  qed
  ultimately show ?thesis
    using n_le i(2) by (simp add: sv_substr_def del: drop_append)
qed

section \<open>Bodies, declaratively\<close>

text \<open>The rest of a body from a part's headers on, with the parts in it; what follows the final
  delimiter is not looked at.\<close>

inductive multipart_body :: "multipart_limits \<Rightarrow> string \<Rightarrow> string \<Rightarrow> form_part list \<Rightarrow> bool"
  for limits d where
  last_part:
    "sv_find_str (CRLF @ CRLF) s 0 = Some e \<Longrightarrow> e \<le> max_part_header_bytes limits \<Longrightarrow>
     parse_part_header_block (take e s) limits = Inr h \<Longrightarrow>
     find_next_multipart_delimiter (drop (e + 4) s) d 0 = Delimiter_found i ''--'' \<Longrightarrow>
     multipart_body limits d s [new_part h (take i (drop (e + 4) s))]"
| more_parts:
    "sv_find_str (CRLF @ CRLF) s 0 = Some e \<Longrightarrow> e \<le> max_part_header_bytes limits \<Longrightarrow>
     parse_part_header_block (take e s) limits = Inr h \<Longrightarrow>
     find_next_multipart_delimiter (drop (e + 4) s) d 0 = Delimiter_found i CRLF \<Longrightarrow>
     multipart_body limits d (drop (i + length d + 2) (drop (e + 4) s)) qs \<Longrightarrow>
     multipart_body limits d s (new_part h (take i (drop (e + 4) s)) # qs)"

inductive_cases multipart_bodyE: "multipart_body limits d s ps"

lemma find_next_drop:
  assumes "d \<noteq> []" and "k \<le> length s" and "find_next_multipart_delimiter s d k = Delimiter_found i suffix"
  shows "find_next_multipart_delimiter (drop k s) d 0 = Delimiter_found (i - k) suffix \<and> k \<le> i"
proof -
  have i: "k \<le> i" "delim_at s d i" "suffix = sv_substr s (i + length d) 2"
    and before: "\<And>j. k \<le> j \<Longrightarrow> j < i \<Longrightarrow> rejected s d j"
    using find_next_spec [where k = k and s = s, OF assms(1)] assms(3) by simp_all
  have "\<not> delim_at (drop k s) d j" if "j < i - k" for j
  proof -
    have "rejected s d (j + k)" using that by (intro before) simp_all
    then show ?thesis using delim_at_drop [of k "j + k" s d] delim_at_not_rejected assms(2) by auto
  qed
  moreover have "delim_at (drop k s) d (i - k)" using i(1,2) assms(2) by (simp add: delim_at_drop)
  ultimately have "find_next_multipart_delimiter (drop k s) d 0 =
      Delimiter_found (i - k) (sv_substr (drop k s) (i - k + length d) 2)"
    by (intro find_next_least [OF assms(1)])
  then show ?thesis using i assms(2) by (simp add: sv_substr_def)
qed

lemma form_loop_body:
  assumes "form_loop opts d text offset memory ps = Inr form" and "d \<noteq> []"
  shows "\<exists>qs. multipart_body (form_limits opts) d (drop offset text) qs \<and> parts form = ps @ qs"
  using assms(1)
proof (induction "length text - offset" arbitrary: offset memory ps rule: less_induct)
  case less
  note result = less.prems [unfolded form_loop.simps [of opts d "text" offset memory ps]]
  from result obtain e where within: "offset < length text"
    and e: "sv_find_str (CRLF @ CRLF) text offset = Some e"
    and size: "e - offset \<le> max_part_header_bytes (form_limits opts)"
    by (auto split: if_splits option.splits)
  note e_bounds = sv_find_str_bounds [OF e]
  from result e obtain h where h:
    "parse_part_header_block (sv_substr text offset (e - offset)) (form_limits opts) = Inr h"
    by (auto split: if_splits sum.splits)
  from result e h obtain i suffix where i:
    "find_next_multipart_delimiter text d (e + 4) = Delimiter_found i suffix"
    by (auto split: if_splits delimiter_search.splits)
  let ?payload = "sv_substr text (e + 4) (i - (e + 4))" and ?next = "i + length d + 2"
  from result e h i obtain memory' where memory':
    "check_part_limits opts (length ps) memory (pp_filename h) ?payload = Inr memory'"
    by (auto simp: Let_def split: if_splits sum.splits)
  have e4: "e + 4 \<le> length text" using e_bounds by (simp add: CRLF_def)
  note found = find_next_drop [OF assms(2) e4 i]
  have suffix: "suffix = CRLF \<or> suffix = ''--''"
    using find_next_spec [where k = "e + 4" and s = "text", OF assms(2)] i by (auto simp: delim_at_def)
  have head: "sv_find_str (CRLF @ CRLF) (drop offset text) 0 = Some (e - offset)"
    using e sv_find_str_drop [of offset "text" "CRLF @ CRLF"] within e_bounds by auto
  have tail: "drop (e - offset + 4) (drop offset text) = drop (e + 4) text"
    using e_bounds by simp
  have rest: "drop (i - (e + 4) + length d + 2) (drop (e + 4) text) = drop ?next text"
    using found by (simp add: add.commute add.left_commute)
  have block: "parse_part_header_block (take (e - offset) (drop offset text)) (form_limits opts) = Inr h"
    using h by (simp add: sv_substr_def)
  have part: "\<lparr>part_name = pp_name h, part_filename = pp_filename h, part_headers = pp_headers h,
      part_body = ?payload\<rparr> = new_part h (take (i - (e + 4)) (drop (e + 4) text))"
    by (simp add: new_part_def sv_substr_def)
  show ?case
  proof (cases "suffix = ''--''")
    case True
    have "multipart_body (form_limits opts) d (drop offset text) [new_part h (take (i - (e + 4)) (drop (e + 4) text))]"
      using last_part [OF head size block, of d "i - (e + 4)"] found True unfolding tail by simp
    moreover have "parts form = ps @ [new_part h (take (i - (e + 4)) (drop (e + 4) text))]"
      using result within e size h i memory' True part by (auto simp: Let_def split: if_splits)
    ultimately show ?thesis by blast
  next
    case False
    with result within e size h i memory' part
    have "form_loop opts d text ?next memory' (ps @ [new_part h (take (i - (e + 4)) (drop (e + 4) text))]) = Inr form"
      by (auto simp: Let_def split: if_splits)
    with less.hyps [of ?next] e_bounds found within obtain qs where
      qs: "multipart_body (form_limits opts) d (drop ?next text) qs"
        "parts form = (ps @ [new_part h (take (i - (e + 4)) (drop (e + 4) text))]) @ qs"
      by fastforce
    have "multipart_body (form_limits opts) d (drop offset text)
        (new_part h (take (i - (e + 4)) (drop (e + 4) text)) # qs)"
      using more_parts [OF head size block, of d "i - (e + 4)" qs] found False suffix qs(1)
      unfolding tail rest by simp
    with qs(2) show ?thesis by (intro exI) simp
  qed
qed

end
