(* ===== verification/Multipart_Stream_Equiv.thy ===== *)
theory Multipart_Stream_Equiv
  imports Multipart_Stream_Props
begin

text \<open>
  An application that streams every part receives the parts of the form, whatever the chunks.
\<close>

section \<open>What an application receives\<close>

definition streaming_app :: multipart_app where
  "streaming_app = \<lparr>handles_parts = True,
     app_calls = (\<lambda>evs. case last evs of On_part _ _ _ \<Rightarrow> [Call_stream] | _ \<Rightarrow> [])\<rparr>"

record received =
  r_parts :: "form_part list"
  r_current :: "form_part option"
  r_ended :: bool
  r_error :: bool

definition nothing_received :: received where
  "nothing_received = \<lparr>r_parts = [], r_current = None, r_ended = False, r_error = False\<rparr>"

fun receive :: "mp_event \<Rightarrow> received \<Rightarrow> received" where
  "receive (On_part n f h) c =
     c\<lparr>r_current := Some \<lparr>part_name = n, part_filename = f, part_headers = h, part_body = []\<rparr>\<rparr>"
| "receive (On_data bytes) c =
     c\<lparr>r_current := map_option (\<lambda>p. p\<lparr>part_body := part_body p @ bytes\<rparr>) (r_current c)\<rparr>"
| "receive On_part_end c =
     c\<lparr>r_parts := r_parts c @ (case r_current c of None \<Rightarrow> [] | Some p \<Rightarrow> [p]), r_current := None\<rparr>"
| "receive On_end c = c\<lparr>r_ended := True\<rparr>"
| "receive _ c = c\<lparr>r_error := True\<rparr>"

definition received_from :: "mp_event list \<Rightarrow> received" where
  "received_from evs = fold receive evs nothing_received"

lemma received_from_snoc [simp]: "received_from (evs @ [ev]) = receive ev (received_from evs)"
  by (simp add: received_from_def)

lemma received_from_append: "received_from (evs @ evs') = fold receive evs' (received_from evs)"
  by (simp add: received_from_def)

lemma received_from_Nil [simp]: "received_from [] = nothing_received"
  by (simp add: received_from_def)

lemma streaming_app_calls [simp]:
  "notify streaming_app (On_data c) st = log_event (On_data c) st"
  "notify streaming_app On_part_end st = log_event On_part_end st"
  "notify streaming_app (On_part n f h) st = select_mode Mode_stream (log_event (On_part n f h) st)"
  by (simp_all add: notify_def streaming_app_def log_event_def Let_def)

lemma handles_streaming [simp]: "handles_parts streaming_app" by (simp add: streaming_app_def)

section \<open>The invariant of a stream in progress\<close>

text \<open>\<open>r\<close> is the input still to come, \<open>target\<close> the parts of the whole body.\<close>

definition limits_fit :: "multipart_form_options \<Rightarrow> multipart_limits \<Rightarrow> form_part list \<Rightarrow> bool" where
  "limits_fit opts limits target \<longleftrightarrow>
     form_within opts target \<and>
     (\<exists>n\<ge>max_part_header_bytes (form_limits opts) + 3.
        limits = (form_limits opts)\<lparr>max_part_header_bytes := n\<rparr>)"

fun after_delimiter :: "multipart_limits \<Rightarrow> string \<Rightarrow> string \<Rightarrow> string \<Rightarrow> form_part list \<Rightarrow> bool" where
  "after_delimiter limits d suffix rest qs \<longleftrightarrow>
     suffix = ''--'' \<and> qs = [] \<or> suffix = CRLF \<and> multipart_body limits d rest qs"

definition at_start :: "multipart_limits \<Rightarrow> form_part list \<Rightarrow> string \<Rightarrow> multipart_stream_state \<Rightarrow> bool" where
  "at_start limits target r st \<longleftrightarrow>
     received_from (st_events st) = nothing_received \<and> st_count st = 0 \<and> st_current st = None \<and>
     (\<exists>suffix rest. length suffix = 2 \<and> st_buffer st @ r = st_first_delimiter st @ suffix @ rest \<and>
        after_delimiter limits (st_next_delimiter st) suffix rest target)"

definition at_headers :: "multipart_limits \<Rightarrow> form_part list \<Rightarrow> string \<Rightarrow> multipart_stream_state \<Rightarrow> bool" where
  "at_headers limits target r st \<longleftrightarrow>
     (\<exists>ps qs. received_from (st_events st) = nothing_received\<lparr>r_parts := ps\<rparr> \<and>
        st_count st = length ps \<and> st_current st = None \<and> ps @ qs = target \<and>
        multipart_body limits (st_next_delimiter st) (st_buffer st @ r) qs)"

definition at_body :: "multipart_limits \<Rightarrow> form_part list \<Rightarrow> string \<Rightarrow> multipart_stream_state \<Rightarrow> bool" where
  "at_body limits target r st \<longleftrightarrow>
     (\<exists>ps cp p i suffix qs.
        received_from (st_events st) = nothing_received\<lparr>r_parts := ps, r_current := Some cp\<rparr> \<and>
        st_current st = Some p \<and> ps_mode p = Mode_stream \<and> \<not> ps_ended p \<and>
        ps_received p = length (part_body cp) \<and> ps_filename p = part_filename cp \<and>
        st_count st = length ps + 1 \<and>
        find_next_multipart_delimiter (st_buffer st @ r) (st_next_delimiter st) 0 = Delimiter_found i suffix \<and>
        after_delimiter limits (st_next_delimiter st) suffix
          (drop (i + length (st_next_delimiter st) + 2) (st_buffer st @ r)) qs \<and>
        target = ps @ cp\<lparr>part_body := part_body cp @ take i (st_buffer st @ r)\<rparr> # qs)"

definition at_done :: "form_part list \<Rightarrow> multipart_stream_state \<Rightarrow> bool" where
  "at_done target st \<longleftrightarrow> received_from (st_events st) = nothing_received\<lparr>r_parts := target, r_ended := True\<rparr>"

definition stream_inv :: "multipart_form_options \<Rightarrow> form_part list \<Rightarrow> string \<Rightarrow> multipart_stream_state \<Rightarrow> bool" where
  "stream_inv opts target r st \<longleftrightarrow>
     \<not> st_failed st \<and> \<not> st_paused st \<and> st_next_delimiter st \<noteq> [] \<and>
     limits_fit opts (st_limits st) target \<and>
     (case st_phase st of
        First_boundary \<Rightarrow> at_start (form_limits opts) target r st
      | In_headers \<Rightarrow> at_headers (form_limits opts) target r st
      | In_body \<Rightarrow> at_body (form_limits opts) target r st
      | Phase_done \<Rightarrow> at_done target st
      | Phase_failed \<Rightarrow> False)"

text \<open>A round of the loop keeps the invariant, and stops short of the end only to wait for input.\<close>

definition good_step :: "multipart_form_options \<Rightarrow> form_part list \<Rightarrow> string \<Rightarrow> multipart_stream_state \<times> bool \<Rightarrow> bool" where
  "good_step opts target r result \<longleftrightarrow>
     stream_inv opts target r (fst result) \<and>
     (\<not> snd result \<and> r = [] \<longrightarrow> st_phase (fst result) = Phase_done)"

lemma stream_invI:
  assumes "\<not> st_failed st" "\<not> st_paused st" "st_next_delimiter st \<noteq> []" "limits_fit opts (st_limits st) target"
  shows "st_phase st = In_headers \<Longrightarrow> at_headers (form_limits opts) target r st \<Longrightarrow> stream_inv opts target r st"
    and "st_phase st = In_body \<Longrightarrow> at_body (form_limits opts) target r st \<Longrightarrow> stream_inv opts target r st"
    and "st_phase st = Phase_done \<Longrightarrow> at_done target st \<Longrightarrow> stream_inv opts target r st"
  using assms by (simp_all add: stream_inv_def)

lemma CRLF_not_dashes [simp]: "CRLF \<noteq> ''--''" "''--'' \<noteq> CRLF"
  by (simp_all add: CRLF_def CR_def)

lemma first_boundary_good:
  assumes inv: "stream_inv opts target r st" and phase: "st_phase st = First_boundary"
  shows "good_step opts target r (first_boundary_step app st)"
proof -
  have start: "at_start (form_limits opts) target r st" using inv phase by (simp add: stream_inv_def)
  then obtain suffix rest where whole: "st_buffer st @ r = st_first_delimiter st @ suffix @ rest"
    and size: "length suffix = 2"
    and after: "after_delimiter (form_limits opts) (st_next_delimiter st) suffix rest target"
    by (auto simp: at_start_def)
  let ?n = "length (st_first_delimiter st)"
  show ?thesis
  proof (cases "length (st_buffer st) < ?n + 2")
    case True
    then have "r \<noteq> []" using arg_cong [OF whole, of length] size by auto
    with True inv show ?thesis by (simp add: first_boundary_step_def good_step_def Let_def)
  next
    case False
    have "take (?n + 2) (st_buffer st @ r) = st_first_delimiter st @ suffix"
      unfolding whole using size by simp
    then have "take (?n + 2) (st_buffer st) = st_first_delimiter st @ suffix" using False by simp
    then obtain more where buffer: "st_buffer st = st_first_delimiter st @ suffix @ more" and rest: "rest = more @ r"
      by (metis append_assoc append_take_drop_id same_append_eq whole)
    have at: "starts_with (st_buffer st) (st_first_delimiter st)" "\<And>s. at_offset (st_buffer st) ?n s \<longleftrightarrow> s = suffix"
      unfolding buffer using size by (auto simp: starts_with_def at_offset_def sv_substr_def)
    show ?thesis
    proof (cases "suffix = ''--''")
      case True
      with after start False at inv show ?thesis
        by (simp add: first_boundary_step_def good_step_def Let_def finish_stream_def log_event_def
            erase_front_def stream_inv_def at_start_def at_done_def nothing_received_def)
    next
      case other: False
      then have "suffix = CRLF" "multipart_body (form_limits opts) (st_next_delimiter st) (more @ r) target"
        using after rest by simp_all
      moreover have "drop (?n + 2) (st_buffer st) = more" unfolding buffer using size by simp
      ultimately show ?thesis
        using start False at inv other
        by (simp add: first_boundary_step_def good_step_def Let_def erase_front_def stream_inv_def
            at_start_def at_headers_def nothing_received_def)
    qed
  qed
qed

section \<open>Headers\<close>

lemma multipart_body_head:
  assumes "multipart_body limits d s qs"
  obtains e h i suffix qs' where "sv_find_str (CRLF @ CRLF) s 0 = Some e" "e \<le> max_part_header_bytes limits"
    "parse_part_header_block (take e s) limits = Inr h"
    "find_next_multipart_delimiter (drop (e + 4) s) d 0 = Delimiter_found i suffix"
    "after_delimiter limits d suffix (drop (i + length d + 2) (drop (e + 4) s)) qs'"
    "qs = new_part h (take i (drop (e + 4) s)) # qs'"
  using assms by (cases rule: multipart_body.cases) (auto intro: that)

lemma parse_block_header_bytes:
  "parse_part_header_block block (limits\<lparr>max_part_header_bytes := n\<rparr>) = parse_part_header_block block limits"
proof -
  let ?limits = "limits\<lparr>max_part_header_bytes := n\<rparr>"
  have fields: "max_part_headers ?limits = max_part_headers limits"
    "max_field_name_bytes ?limits = max_field_name_bytes limits"
    "max_filename_bytes ?limits = max_filename_bytes limits" by simp_all
  show ?thesis unfolding parse_part_header_block_def fields ..
qed

lemma headers_good:
  assumes inv: "stream_inv opts target r st" and phase: "st_phase st = In_headers"
  shows "good_step opts target r (headers_step streaming_app st)"
proof -
  let ?d = "st_next_delimiter st" and ?b = "st_buffer st" and ?l = "form_limits opts"
  have base: "\<not> st_failed st" "\<not> st_paused st" "?d \<noteq> []" "limits_fit opts (st_limits st) target"
    and head: "at_headers ?l target r st"
    using inv phase by (simp_all add: stream_inv_def)
  from head obtain ps qs where got: "received_from (st_events st) = nothing_received\<lparr>r_parts := ps\<rparr>"
    and count: "st_count st = length ps" and current: "st_current st = None" and target: "ps @ qs = target"
    and body: "multipart_body ?l ?d (?b @ r) qs"
    by (auto simp: at_headers_def)
  from body obtain e h i suffix qs' where e: "sv_find_str (CRLF @ CRLF) (?b @ r) 0 = Some e"
    and small: "e \<le> max_part_header_bytes ?l"
    and h: "parse_part_header_block (take e (?b @ r)) ?l = Inr h"
    and found: "find_next_multipart_delimiter (drop (e + 4) (?b @ r)) ?d 0 = Delimiter_found i suffix"
    and after: "after_delimiter ?l ?d suffix (drop (i + length ?d + 2) (drop (e + 4) (?b @ r))) qs'"
    and qs: "qs = new_part h (take i (drop (e + 4) (?b @ r))) # qs'"
    by (rule multipart_body_head)
  have pat: "CRLF @ CRLF \<noteq> []" "length (CRLF @ CRLF) = 4" by (simp_all add: CRLF_def)
  obtain n where n: "max_part_header_bytes ?l + 3 \<le> n" "st_limits st = ?l\<lparr>max_part_header_bytes := n\<rparr>"
    and within: "form_within opts target"
    using base(4) by (auto simp: limits_fit_def)
  show ?thesis
  proof (cases "sv_find_str (CRLF @ CRLF) ?b 0")
    case None
    have "length ?b < e + 4" using sv_find_str_wait [OF pat(1) None e] pat(2) by simp
    then have "\<not> max_part_header_bytes (st_limits st) < length ?b" using small n by simp
    moreover have "r \<noteq> []" using None e by auto
    ultimately show ?thesis using None inv by (simp add: headers_step_def good_step_def)
  next
    case (Some e')
    have [simp]: "e' = e" using sv_find_str_grow [OF pat(1) Some, of r] e by simp
    have fits: "e + 4 \<le> length ?b" using sv_find_str_bounds [OF Some] pat(2) by simp
    have "length ps < max_parts ?l" using within target qs by (auto simp: form_within_def)
    then have parts_ok: "\<not> max_parts (st_limits st) < st_count st + 1" using count n(2) by simp
    let ?st = "parse_part_headers streaming_app (take e ?b) (erase_front (e + 4) st)"
    let ?p = "(new_part_state h)\<lparr>ps_mode := Mode_stream\<rparr>"
    have result: "?st = (log_event (On_part (pp_name h) (pp_filename h) (pp_headers h)) (erase_front (e + 4) st))
        \<lparr>st_count := st_count st + 1, st_current := Some ?p, st_phase := In_body\<rparr>"
      using h fits parts_ok base(1) n(2)
      by (simp add: parse_part_headers_def parse_block_header_bytes erase_front_def Let_def log_event_def
          select_mode_def part_consumed_def new_part_state_def)
    have "at_body ?l target r ?st"
      unfolding at_body_def result using fits found after qs target got count
      by (intro exI [of _ ps] exI [of _ "new_part h []"] exI [of _ ?p] exI [of _ i] exI [of _ suffix] exI [of _ qs'])
        (simp add: log_event_def erase_front_def new_part_def new_part_state_def nothing_received_def)
    moreover have "\<not> st_failed ?st" "\<not> st_paused ?st" "st_next_delimiter ?st \<noteq> []"
      "limits_fit opts (st_limits ?st) target" "st_phase ?st = In_body"
      unfolding result using base by (simp_all add: log_event_def erase_front_def)
    ultimately have "stream_inv opts target r ?st" by (intro stream_invI(2))
    moreover have "headers_step streaming_app st = (?st, True)"
      using Some small n by (simp add: headers_step_def)
    ultimately show ?thesis by (simp add: good_step_def)
  qed
qed

section \<open>Part bodies\<close>

text \<open>What a part may still receive is within its limit, because the whole body is.\<close>

lemma emit_streamed:
  assumes "st_current st = Some p" and "ps_mode p = Mode_stream" and "limits_fit opts (st_limits st) target"
    and "cp\<lparr>part_body := part_body cp @ chunk @ later\<rparr> \<in> set target"
    and "ps_received p = length (part_body cp)" and "ps_filename p = part_filename cp"
  shows "emit_current_data streaming_app chunk st =
    (if chunk = [] then st
     else log_event (On_data chunk)
       (st\<lparr>st_current := Some (p\<lparr>ps_received := ps_received p + length chunk\<rparr>)\<rparr>))"
proof (cases "chunk = []")
  case True
  with assms(1) show ?thesis by (simp add: emit_current_data_def)
next
  case False
  obtain n where limits: "st_limits st = (form_limits opts)\<lparr>max_part_header_bytes := n\<rparr>"
    and "part_within (form_limits opts) (cp\<lparr>part_body := part_body cp @ chunk @ later\<rparr>)"
    using assms(3,4) by (auto simp: limits_fit_def form_within_def list_all_iff)
  then have "case ps_filename p of
      None \<Rightarrow> ps_received p + length chunk \<le> max_field_bytes (st_limits st)
    | Some f \<Rightarrow> ps_received p + length chunk \<le> max_file_bytes (st_limits st)"
    using assms(5,6) by (auto simp: part_within_def split: option.splits)
  with False assms(1,2) show ?thesis
    by (auto simp: emit_current_data_def part_emit_data_def Let_def split: option.splits)
qed

text \<open>Delivering what is settled keeps the invariant.\<close>

lemma deliver_front_good:
  assumes inv: "stream_inv opts target r st" and phase: "st_phase st = In_body"
    and n: "settled (st_buffer st) (st_next_delimiter st) = Some n"
  shows "stream_inv opts target r (deliver_front streaming_app n st)"
proof -
  let ?d = "st_next_delimiter st" and ?b = "st_buffer st" and ?l = "form_limits opts"
  have base: "\<not> st_failed st" "\<not> st_paused st" "?d \<noteq> []" "limits_fit opts (st_limits st) target"
    and at: "at_body ?l target r st"
    using inv phase by (simp_all add: stream_inv_def)
  from at obtain ps cp p i suffix qs where
    got: "received_from (st_events st) = nothing_received\<lparr>r_parts := ps, r_current := Some cp\<rparr>"
    and p: "st_current st = Some p" "ps_mode p = Mode_stream" "\<not> ps_ended p"
      "ps_received p = length (part_body cp)" "ps_filename p = part_filename cp"
    and count: "st_count st = length ps + 1"
    and found: "find_next_multipart_delimiter (?b @ r) ?d 0 = Delimiter_found i suffix"
    and after: "after_delimiter ?l ?d suffix (drop (i + length ?d + 2) (?b @ r)) qs"
    and target: "target = ps @ cp\<lparr>part_body := part_body cp @ take i (?b @ r)\<rparr> # qs"
    unfolding at_body_def by blast
  have split: "n \<le> i" "n \<le> length ?b"
    and rest: "find_next_multipart_delimiter (drop n ?b @ r) ?d 0 = Delimiter_found (i - n) suffix"
    using find_next_settled [OF base(3) n found] by auto
  have take: "take i (?b @ r) = take n ?b @ take (i - n) (drop n ?b @ r)"
    using take_add [of n "i - n" "?b @ r"] split by simp
  have emit: "emit_current_data streaming_app (take n ?b) st =
      (if take n ?b = [] then st
       else log_event (On_data (take n ?b)) (st\<lparr>st_current := Some (p\<lparr>ps_received := ps_received p + n\<rparr>)\<rparr>))"
    using emit_streamed [OF p(1,2) base(4), of cp "take n ?b" "take (i - n) (drop n ?b @ r)"] p(4,5) target take split
    by simp
  have drop: "drop (i + length ?d + 2) (?b @ r) = drop (i - n + length ?d + 2) (drop n ?b @ r)"
    using drop_drop [of "i - n + length ?d + 2" n "?b @ r"] split by (simp add: add.commute add.left_commute)
  show ?thesis
  proof (cases "take n ?b = []")
    case True
    then have "n = 0" using split base by auto
    with inv emit base show ?thesis by (simp add: deliver_front_def erase_front_def)
  next
    case False
    let ?st = "deliver_front streaming_app n st"
    have result: "?st = erase_front n (log_event (On_data (take n ?b))
        (st\<lparr>st_current := Some (p\<lparr>ps_received := ps_received p + n\<rparr>)\<rparr>))"
      using emit False base by (simp add: deliver_front_def log_event_def)
    have "at_body ?l target r ?st"
      unfolding result at_body_def
      by (rule exI [of _ ps], rule exI [of _ "cp\<lparr>part_body := part_body cp @ take n ?b\<rparr>"],
          rule exI [of _ "p\<lparr>ps_received := ps_received p + n\<rparr>"], rule exI [of _ "i - n"],
          rule exI [of _ suffix], rule exI [of _ qs])
        (use p got count rest after target take drop split in
          \<open>simp add: log_event_def erase_front_def nothing_received_def\<close>)
    moreover have "\<not> st_failed ?st" "\<not> st_paused ?st" "st_next_delimiter ?st \<noteq> []"
      "limits_fit opts (st_limits ?st) target" "st_phase ?st = In_body"
      unfolding result using base phase by (simp_all add: log_event_def erase_front_def)
    ultimately show ?thesis by (intro stream_invI(2))
  qed
qed

lemma deliver_front_zero: "st_current st = Some p \<Longrightarrow> deliver_front app 0 st = st"
  by (simp add: deliver_front_def emit_current_data_def erase_front_def)

lemma body_waiting:
  assumes inv: "stream_inv opts target r st" and phase: "st_phase st = In_body"
    and n: "settled (st_buffer st) (st_next_delimiter st) = Some n"
  shows "body_step streaming_app st = (deliver_front streaming_app n st, False) \<and> r \<noteq> []"
proof -
  obtain p i suffix where "st_current st = Some p"
    and "find_next_multipart_delimiter (st_buffer st @ r) (st_next_delimiter st) 0 = Delimiter_found i suffix"
    using inv phase by (auto simp: stream_inv_def at_body_def)
  then show ?thesis
    using n deliver_front_zero [of st p streaming_app]
    by (auto simp: settled_def body_step_def Let_def split: delimiter_search.splits)
qed

lemma body_found_good:
  assumes inv: "stream_inv opts target r st" and phase: "st_phase st = In_body"
    and here: "find_next_multipart_delimiter (st_buffer st) (st_next_delimiter st) 0 = Delimiter_found i suffix"
  shows "good_step opts target r (body_step streaming_app st)"
proof -
  let ?d = "st_next_delimiter st" and ?b = "st_buffer st" and ?l = "form_limits opts"
  have base: "\<not> st_failed st" "\<not> st_paused st" "?d \<noteq> []" "limits_fit opts (st_limits st) target"
    and at: "at_body ?l target r st"
    using inv phase by (simp_all add: stream_inv_def)
  have bounds: "i + length ?d + 2 \<le> length ?b" using find_next_delimiter_bounds [OF here] by simp
  from at find_next_grow [OF base(3) here, of r] obtain ps cp p qs where
    got: "received_from (st_events st) = nothing_received\<lparr>r_parts := ps, r_current := Some cp\<rparr>"
    and p: "st_current st = Some p" "ps_mode p = Mode_stream" "\<not> ps_ended p"
      "ps_received p = length (part_body cp)" "ps_filename p = part_filename cp"
    and count: "st_count st = length ps + 1"
    and after: "after_delimiter ?l ?d suffix (drop (i + length ?d + 2) (?b @ r)) qs"
    and target: "target = ps @ cp\<lparr>part_body := part_body cp @ take i (?b @ r)\<rparr> # qs"
    unfolding at_body_def by auto
  let ?part = "cp\<lparr>part_body := part_body cp @ take i ?b\<rparr>"
  let ?emitted = "emit_current_data streaming_app (take i ?b) st"
  let ?st = "erase_front (i + length ?d + 2) (end_current_part streaming_app ?emitted)"
  have target': "target = ps @ ?part # qs" using target bounds by simp
  have emit: "?emitted = (if take i ?b = [] then st
      else log_event (On_data (take i ?b))
        (st\<lparr>st_current := Some (p\<lparr>ps_received := ps_received p + length (take i ?b)\<rparr>)\<rparr>))"
    using p(4,5) target' by (intro emit_streamed [OF p(1,2) base(4), where later = "[]"]) simp_all
  have flags: "\<not> st_failed ?emitted" "\<not> st_paused ?emitted"
    unfolding emit using base by (simp_all add: log_event_def)
  have ended: "received_from (st_events ?st) = nothing_received\<lparr>r_parts := ps @ [?part]\<rparr>"
    "st_count ?st = length (ps @ [?part])" "st_current ?st = None" "\<not> st_failed ?st" "\<not> st_paused ?st"
    "st_next_delimiter ?st = ?d" "st_limits ?st = st_limits st" "st_buffer ?st = drop (i + length ?d + 2) ?b"
    unfolding emit using p got count base
    by (simp_all add: end_current_part_def log_event_def erase_front_def Let_def nothing_received_def
        received_from_append)
  have step: "body_step streaming_app st =
      (if suffix = ''--''
       then (finish_stream streaming_app (if starts_with (st_buffer ?st) CRLF then erase_front 2 ?st else ?st), False)
       else (?st\<lparr>st_phase := In_headers\<rparr>, True))"
    using here flags by (simp add: body_step_def Let_def)
  show ?thesis
  proof (cases "suffix = ''--''")
    case True
    then have "target = ps @ [?part]" using after target' by simp
    with ended base(3,4) True show ?thesis
      unfolding step good_step_def stream_inv_def at_done_def
      by (simp add: finish_stream_def log_event_def erase_front_def nothing_received_def)
  next
    case False
    then have "multipart_body ?l ?d (st_buffer ?st @ r) qs" using after ended(8) bounds by simp
    then have "at_headers ?l target r (?st\<lparr>st_phase := In_headers\<rparr>)"
      unfolding at_headers_def using ended target'
      by (intro exI [of _ "ps @ [?part]"] exI [of _ qs]) simp
    then have "stream_inv opts target r (?st\<lparr>st_phase := In_headers\<rparr>)"
      using ended(4-7) base(3,4) by (intro stream_invI(1)) simp_all
    with False show ?thesis unfolding step good_step_def by simp
  qed
qed

lemma parse_step_good:
  assumes "stream_inv opts target r st"
  shows "good_step opts target r (parse_step streaming_app st)"
proof (cases "st_phase st")
  case First_boundary
  with first_boundary_good [OF assms] show ?thesis by (simp add: parse_step_def)
next
  case In_headers
  with headers_good [OF assms] show ?thesis by (simp add: parse_step_def)
next
  case In_body
  show ?thesis
  proof (cases "settled (st_buffer st) (st_next_delimiter st)")
    case None
    then obtain i suffix where
      "find_next_multipart_delimiter (st_buffer st) (st_next_delimiter st) 0 = Delimiter_found i suffix"
      by (auto simp: settled_def split: delimiter_search.splits)
    from body_found_good [OF assms In_body this] In_body show ?thesis by (simp add: parse_step_def)
  next
    case (Some n)
    from body_waiting [OF assms In_body Some] deliver_front_good [OF assms In_body Some] In_body
    show ?thesis by (simp add: parse_step_def good_step_def)
  qed
next
  case Phase_done
  with assms show ?thesis by (simp add: parse_step_def good_step_def)
next
  case Phase_failed
  with assms show ?thesis by (simp add: stream_inv_def)
qed

lemma stream_parse_good:
  "stream_inv opts target r st \<Longrightarrow> stream_inv opts target r (stream_parse streaming_app st) \<and>
    (r = [] \<longrightarrow> st_phase (stream_parse streaming_app st) = Phase_done)"
proof (induction "length (st_buffer st)" arbitrary: st rule: less_induct)
  case less
  have running: "\<not> st_failed st" "\<not> st_paused st" using less.prems by (simp_all add: stream_inv_def)
  obtain st' continues where step: "parse_step streaming_app st = (st', continues)" by fastforce
  have good: "good_step opts target r (st', continues)" using parse_step_good [OF less.prems] step by simp
  show ?case
  proof (cases continues)
    case True
    with less.hyps [of st'] parse_step_shrinks [of streaming_app st st'] step good running show ?thesis
      by (subst (1 2) stream_parse.simps) (simp add: good_step_def)
  next
    case False
    with step good running show ?thesis
      by (subst (1 2) stream_parse.simps) (simp add: good_step_def)
  qed
qed

section \<open>Chunks\<close>

lemma stream_inv_feed:
  "stream_inv opts target (c @ r) st \<Longrightarrow>
   stream_inv opts target r (st\<lparr>st_total := t, st_buffer := st_buffer st @ c\<rparr>)"
  by (simp add: stream_inv_def at_start_def at_headers_def at_body_def at_done_def
      split: multipart_parser_phase.splits)

lemma total_fixed [simp]:
  "st_total (stream_fail e st) = st_total st"
  "st_total (notify app ev st) = st_total st"
  "st_total (emit_current_data app c st) = st_total st"
  "st_total (end_current_part app st) = st_total st"
  using same_input_fail same_input_notify same_input_emit same_input_end_part
  by (simp_all add: same_input_def)

lemma total_parse_step [simp]: "st_total (fst (parse_step app st)) = st_total st"
  by (simp add: parse_step_def first_boundary_step_def headers_step_def body_step_def
      deliver_front_def finish_stream_def log_event_def erase_front_def parse_part_headers_def Let_def
      split: multipart_parser_phase.splits option.splits delimiter_search.splits sum.splits)

lemma total_stream_parse [simp]: "st_total (stream_parse app st) = st_total st"
proof (induction "length (st_buffer st)" arbitrary: st rule: less_induct)
  case less
  obtain st' continues where step: "parse_step app st = (st', continues)" by fastforce
  moreover have "st_total st' = st_total st" using total_parse_step [of app st] step by simp
  ultimately show ?case
    using less.hyps [of st'] parse_step_shrinks [of app st st']
    by (subst stream_parse.simps) (cases continues, simp_all)
qed

lemma on_body_data_good:
  assumes "stream_inv opts target (c @ r) st"
    and "max_total_bytes (form_limits opts) = 0 \<or>
      st_total st + length c \<le> max_total_bytes (form_limits opts)"
  shows "stream_inv opts target r (on_body_data streaming_app c st) \<and>
    st_total (on_body_data streaming_app c st) = st_total st + length c"
proof -
  have "max_total_bytes (st_limits st) = max_total_bytes (form_limits opts)"
    using assms(1) by (auto simp: stream_inv_def limits_fit_def)
  with assms(2) have run: "on_body_data streaming_app c st =
      stream_parse streaming_app (st\<lparr>st_total := st_total st + length c, st_buffer := st_buffer st @ c\<rparr>)"
    by (auto simp: on_body_data_def Let_def)
  show ?thesis
    unfolding run using stream_parse_good [OF stream_inv_feed [OF assms(1)]] by simp
qed

lemma fold_on_body_data_good:
  assumes "stream_inv opts target (concat chunks) st"
    and "max_total_bytes (form_limits opts) = 0 \<or>
      st_total st + length (concat chunks) \<le> max_total_bytes (form_limits opts)"
  shows "stream_inv opts target [] (fold (on_body_data streaming_app) chunks st)"
  using assms
proof (induction chunks arbitrary: st)
  case Nil
  then show ?case by simp
next
  case (Cons c chunks)
  have "stream_inv opts target (concat chunks) (on_body_data streaming_app c st) \<and>
      st_total (on_body_data streaming_app c st) = st_total st + length c"
    using Cons.prems by (intro on_body_data_good) auto
  with Cons.prems(2) show ?case by (auto intro: Cons.IH)
qed

lemma new_stream_good:
  assumes form: "parse_multipart_form content_type text opts = Inr form"
    and fit: "limits_fit opts limits (parts form)"
  shows "stream_inv opts (parts form) text (new_stream content_type limits)"
proof -
  obtain boundary where b: "parse_multipart_boundary content_type = Inr boundary"
    using form by (auto simp: parse_multipart_form_def Let_def split: if_splits sum.splits)
  let ?first = "''--'' @ boundary" and ?next = "CRLF @ ''--'' @ boundary"
  have rest: "starts_with text ?first"
    "at_offset text (length ?first) ''--'' \<and> form = empty_form \<or>
     at_offset text (length ?first) CRLF \<and> form_loop opts ?next text (length ?first + 2) 0 [] = Inr form"
    using form b unfolding parse_multipart_form_def Let_def by (auto split: if_splits)
  from rest(1) obtain t where t: "text = ?first @ t" by (rule starts_withE)
  have "after_delimiter (form_limits opts) ?next (take 2 t) (drop 2 t) (parts form) \<and> length (take 2 t) = 2"
    using rest(2)
  proof
    assume "at_offset text (length ?first) ''--'' \<and> form = empty_form"
    then have "take 2 t = ''--''" "parts form = []"
      unfolding t at_offset_def sv_substr_def by (simp_all add: empty_form_def)
    then show ?thesis by simp
  next
    assume loop: "at_offset text (length ?first) CRLF \<and> form_loop opts ?next text (length ?first + 2) 0 [] = Inr form"
    then have "take 2 t = CRLF" unfolding t at_offset_def sv_substr_def by simp
    moreover obtain qs where "multipart_body (form_limits opts) ?next (drop (length ?first + 2) text) qs" "parts form = qs"
      using form_loop_body [of opts ?next "text" "length ?first + 2" 0 "[]" form] loop by (auto simp: CRLF_def)
    ultimately show ?thesis unfolding t by (simp add: CRLF_def)
  qed
  then have "at_start (form_limits opts) (parts form) text (new_stream content_type limits)"
    unfolding at_start_def using b t
    by (intro conjI exI [of _ "take 2 t"] exI [of _ "drop 2 t"]) (simp_all add: new_stream_def blank_stream_def)
  with b fit show ?thesis
    by (simp add: stream_inv_def new_stream_def blank_stream_def CRLF_def)
qed

lemma stream_finish_good:
  assumes "stream_inv opts target [] st"
  shows "st_phase (stream_finish streaming_app st) = Phase_done \<and> at_done target (stream_finish streaming_app st)"
  using stream_parse_good [OF assms] assms by (auto simp: stream_finish_def Let_def stream_inv_def)

section \<open>Properties of the streaming parser\<close>



definition tight_limits :: multipart_limits where
  "tight_limits = \<lparr>max_total_bytes = 0, max_file_bytes = 9, max_field_bytes = 9, max_part_header_bytes = 39,
     max_part_headers = 2, max_parts = 2, max_field_name_bytes = 9, max_filename_bytes = 9\<rparr>"

text \<open>Without those three bytes the outcome depends on the chunks: the same body, whose part
  headers are exactly as long as the limit allows, is delivered when it comes at once and refused when
  a chunk ends inside the blank line after the headers.\<close>

theorem stream_header_limit_depends_on_chunks:
  "let head = ''--b'' @ CRLF @ ''Content-Disposition: form-data; name=a'' @ CRLF @ [CR];
       tail = [LF] @ ''x'' @ CRLF @ ''--b--'';
       start = new_stream ''multipart/form-data; boundary=b'' (tight_limits\<lparr>max_part_header_bytes := 38\<rparr>);
       whole = received_from (st_events (run_stream streaming_app [head @ tail] start));
       cut = received_from (st_events (run_stream streaming_app [head, tail] start))
   in r_ended whole \<and> \<not> r_error whole \<and> r_error cut \<and> r_parts cut = []"
  by code_simp

text \<open>An application that selects a consumer a second time when a part ends.\<close>

definition late_app :: multipart_app where
  "late_app = \<lparr>handles_parts = True,
     app_calls = (\<lambda>evs. case last evs of On_part _ _ _ \<Rightarrow> [Call_stream] | On_part_end \<Rightarrow> [Call_stream] | _ \<Rightarrow> [])\<rparr>"

text \<open>A stream that has reported an error can report a regular end after it: when the failure is
  raised from the callback that ends the last part, the parser overwrites the failed phase and calls
  \<open>on_end\<close>.\<close>

theorem stream_end_after_error:
  "let evs = st_events (run_stream late_app
         [''--b'' @ CRLF @ ''Content-Disposition: form-data; name=a'' @ CRLF @ CRLF @ ''x'' @ CRLF @ ''--b--'']
         (new_stream ''multipart/form-data; boundary=b'' tight_limits))
   in drop 3 evs = [On_error multipart_part_consumer_error, On_end]"
  by code_simp

end
