(* ===== verification/Multipart_Stream_Bounds.thy ===== *)
theory Multipart_Stream_Bounds
  imports Multipart_Stream
begin

text \<open>
  What a stream delivers is within its limits, for every application and every sequence of chunks,
  pauses, resumptions and errors.
\<close>

section \<open>Counting what the events deliver\<close>

record tally =
  t_parts :: nat
  t_file :: bool
  t_bytes :: nat
  t_ok :: bool

definition bytes_within :: "multipart_limits \<Rightarrow> bool \<Rightarrow> nat \<Rightarrow> bool" where
  "bytes_within limits is_file n \<longleftrightarrow>
     (if is_file then max_file_bytes limits = 0 \<or> n \<le> max_file_bytes limits else n \<le> max_field_bytes limits)"

fun tally_event :: "multipart_limits \<Rightarrow> mp_event \<Rightarrow> tally \<Rightarrow> tally" where
  "tally_event limits (On_part n f h) t = t\<lparr>t_parts := t_parts t + 1, t_file := (f \<noteq> None), t_bytes := 0\<rparr>"
| "tally_event limits (On_data bytes) t =
     t\<lparr>t_bytes := t_bytes t + length bytes,
       t_ok := (t_ok t \<and> bytes_within limits (t_file t) (t_bytes t + length bytes))\<rparr>"
| "tally_event limits (On_text (Inr s)) t =
     t\<lparr>t_ok := (t_ok t \<and> (max_field_bytes limits = 0 \<or> length s \<le> max_field_bytes limits))\<rparr>"
| "tally_event limits _ t = t"

definition tally_of :: "multipart_limits \<Rightarrow> mp_event list \<Rightarrow> tally" where
  "tally_of limits evs = fold (tally_event limits) evs \<lparr>t_parts = 0, t_file = False, t_bytes = 0, t_ok = True\<rparr>"

lemma tally_snoc [simp]: "tally_of limits (evs @ [ev]) = tally_event limits ev (tally_of limits evs)"
  by (simp add: tally_of_def)

definition delivered_within :: "multipart_limits \<Rightarrow> mp_event list \<Rightarrow> bool" where
  "delivered_within limits evs \<longleftrightarrow> t_ok (tally_of limits evs) \<and> t_parts (tally_of limits evs) \<le> max_parts limits"

section \<open>The invariant\<close>

definition part_bound :: "multipart_limits \<Rightarrow> tally \<Rightarrow> multipart_part_state \<Rightarrow> bool" where
  "part_bound limits t p \<longleftrightarrow>
     t_file t = (ps_filename p \<noteq> None) \<and> t_bytes t \<le> ps_received p \<and>
     (max_field_bytes limits \<noteq> 0 \<longrightarrow>
        length (ps_text p) \<le> max_field_bytes limits \<and> ps_max_text p \<le> max_field_bytes limits)"

definition bounds_inv :: "multipart_limits \<Rightarrow> multipart_stream_state \<Rightarrow> bool" where
  "bounds_inv limits st \<longleftrightarrow>
     st_limits st = limits \<and> delivered_within limits (st_events st) \<and>
     t_parts (tally_of limits (st_events st)) \<le> st_count st \<and>
     (\<forall>p. st_current st = Some p \<longrightarrow> part_bound limits (tally_of limits (st_events st)) p)"

lemma bounds_inv_updates [simp]:
  "bounds_inv limits (st\<lparr>st_buffer := b\<rparr>) = bounds_inv limits st"
  "bounds_inv limits (st\<lparr>st_phase := ph\<rparr>) = bounds_inv limits st"
  "bounds_inv limits (st\<lparr>st_failed := x\<rparr>) = bounds_inv limits st"
  "bounds_inv limits (st\<lparr>st_paused := x\<rparr>) = bounds_inv limits st"
  "bounds_inv limits (st\<lparr>st_body_paused := x\<rparr>) = bounds_inv limits st"
  "bounds_inv limits (st\<lparr>st_total := n\<rparr>) = bounds_inv limits st"
  by (simp_all add: bounds_inv_def)

lemma bounds_inv_no_current: "bounds_inv limits st \<Longrightarrow> bounds_inv limits (st\<lparr>st_current := None\<rparr>)"
  by (simp add: bounds_inv_def)

lemma bounds_inv_erase [simp]: "bounds_inv limits (erase_front n st) = bounds_inv limits st"
  by (simp add: erase_front_def)

lemma bounds_inv_current:
  "bounds_inv limits st \<Longrightarrow> st_current st = Some p \<Longrightarrow> part_bound limits (tally_of limits (st_events st)) p"
  by (simp add: bounds_inv_def)

text \<open>Events that deliver nothing.\<close>

definition silent :: "mp_event \<Rightarrow> bool" where
  "silent ev = (case ev of On_part _ _ _ \<Rightarrow> False | On_data _ \<Rightarrow> False | On_text (Inr _) \<Rightarrow> False | _ \<Rightarrow> True)"

lemma tally_silent: "silent ev \<Longrightarrow> tally_event limits ev t = t"
  by (cases "(limits, ev, t)" rule: tally_event.cases) (simp_all add: silent_def)

lemma bounds_inv_silent: "silent ev \<Longrightarrow> bounds_inv limits (log_event ev st) = bounds_inv limits st"
  by (simp add: bounds_inv_def log_event_def delivered_within_def tally_silent)

lemma silent_events [simp]:
  "silent (On_part_error e)" "silent (On_text (Inl e))" "silent (On_error e)" "silent On_end" "silent On_part_end"
  by (simp_all add: silent_def)

lemma bounds_inv_emit_error [simp]: "bounds_inv limits (part_emit_error p e st) = bounds_inv limits st"
  by (simp add: part_emit_error_def bounds_inv_silent split: multipart_part_mode.splits)

lemma bounds_fail: "bounds_inv limits st \<Longrightarrow> bounds_inv limits (stream_fail e st)"
  by (auto simp: stream_fail_def Let_def bounds_inv_silent bounds_inv_no_current split: option.splits)

lemma bounds_set_current:
  "bounds_inv limits st \<Longrightarrow> part_bound limits (tally_of limits (st_events st)) p \<Longrightarrow>
   bounds_inv limits (st\<lparr>st_current := Some p\<rparr>)"
  by (simp add: bounds_inv_def)

lemma part_bound_updates [simp]:
  "part_bound limits t (p\<lparr>ps_mode := m\<rparr>) = part_bound limits t p"
  "part_bound limits t (p\<lparr>ps_paused := x\<rparr>) = part_bound limits t p"
  "part_bound limits t (p\<lparr>ps_ended := x\<rparr>) = part_bound limits t p"
  by (simp_all add: part_bound_def)

lemma bounds_pause [simp]: "bounds_inv limits (stream_pause st) = bounds_inv limits st"
  by (simp add: stream_pause_def)

lemma bounds_part_pause: "bounds_inv limits st \<Longrightarrow> bounds_inv limits (part_pause st)"
  by (cases "st_current st")
    (simp_all add: part_pause_def bounds_inv_no_current bounds_set_current bounds_inv_current)

lemma bounds_select_mode: "bounds_inv limits st \<Longrightarrow> bounds_inv limits (select_mode m st)"
  by (cases "st_current st")
    (simp_all add: select_mode_def bounds_fail bounds_set_current bounds_inv_current)

lemma bounds_select_text:
  assumes inv: "bounds_inv limits st"
  shows "bounds_inv limits (select_text n st)"
proof (cases "st_current st")
  case None
  with inv show ?thesis by (simp add: select_text_def bounds_inv_silent)
next
  case (Some p)
  have "part_bound limits (tally_of limits (st_events st)) (p\<lparr>ps_mode := Mode_text, ps_max_text := m\<rparr>)"
    if "max_field_bytes limits \<noteq> 0 \<longrightarrow> m \<le> max_field_bytes limits" for m
    using that bounds_inv_current [OF inv Some] by (simp add: part_bound_def)
  moreover have "st_limits st = limits" using inv by (simp add: bounds_inv_def)
  ultimately show ?thesis
    using Some inv by (simp add: select_text_def Let_def bounds_inv_silent bounds_fail bounds_set_current)
qed

lemma bounds_call: "bounds_inv limits st \<Longrightarrow> bounds_inv limits (run_call c st)"
  by (cases c) (simp_all add: bounds_select_mode bounds_select_text bounds_part_pause)

lemma bounds_calls: "bounds_inv limits st \<Longrightarrow> bounds_inv limits (fold run_call cs st)"
  by (induction cs arbitrary: st) (simp_all add: bounds_call)

lemma bounds_notify: "bounds_inv limits (log_event ev st) \<Longrightarrow> bounds_inv limits (notify app ev st)"
  by (simp add: notify_def Let_def bounds_calls)

lemma bounds_emit:
  assumes inv: "bounds_inv limits st"
  shows "bounds_inv limits (emit_current_data app chunk st)"
proof (cases "st_current st")
  case None
  with inv show ?thesis by (simp add: emit_current_data_def)
next
  case (Some p)
  let ?p = "p\<lparr>ps_received := ps_received p + length chunk\<rparr>"
  let ?st = "st\<lparr>st_current := Some ?p\<rparr>"
  have bound: "part_bound limits (tally_of limits (st_events st)) p" using bounds_inv_current [OF inv Some] .
  have limits: "st_limits st = limits" and st: "bounds_inv limits ?st"
    using inv bound by (auto simp: bounds_inv_def part_bound_def)
  have data: "bounds_inv limits (log_event (On_data chunk) ?st)"
    if "bytes_within limits (ps_filename p \<noteq> None) (ps_received p + length chunk)"
  proof -
    have "bytes_within limits (ps_filename p \<noteq> None) (t_bytes (tally_of limits (st_events st)) + length chunk)"
      using that bound by (auto simp: bytes_within_def part_bound_def)
    with inv bound show ?thesis
      by (simp add: bounds_inv_def log_event_def delivered_within_def part_bound_def)
  qed
  have appended: "bounds_inv limits (st\<lparr>st_current := Some (?p\<lparr>ps_text := ps_text p @ chunk\<rparr>)\<rparr>)"
    if "length (ps_text p) + length chunk \<le> ps_max_text p"
    using that inv bound by (auto simp: bounds_inv_def part_bound_def)
  show ?thesis
    using Some data appended inv st limits bounds_fail [OF st] bounds_notify
    by (simp add: emit_current_data_def part_emit_data_def Let_def bytes_within_def not_less
        split: multipart_part_mode.splits)
qed

lemma bounds_end_part:
  assumes inv: "bounds_inv limits st"
  shows "bounds_inv limits (end_current_part app st)"
proof (cases "st_current st")
  case None
  with inv show ?thesis by (simp add: end_current_part_def)
next
  case (Some p)
  let ?st = "st\<lparr>st_current := Some (p\<lparr>ps_ended := True\<rparr>)\<rparr>"
  have "bounds_inv limits ?st" "max_field_bytes limits = 0 \<or> length (ps_text p) \<le> max_field_bytes limits"
    using inv bounds_inv_current [OF inv Some] by (auto simp: bounds_inv_def part_bound_def)
  then have "bounds_inv limits (log_event (On_text (Inr (ps_text p))) ?st)"
    by (simp add: bounds_inv_def log_event_def delivered_within_def part_bound_def)
  with Some \<open>bounds_inv limits ?st\<close> inv show ?thesis
    by (simp add: end_current_part_def Let_def bounds_inv_no_current bounds_notify bounds_inv_silent
        split: multipart_part_mode.splits)
qed

lemma flags_log [simp]:
  "st_failed (log_event ev st) = st_failed st" "st_phase (log_event ev st) = st_phase st"
  by (simp_all add: log_event_def)

lemma fail_clears_current:
  "\<not> st_failed st \<Longrightarrow> st_phase st \<noteq> Phase_done \<Longrightarrow> st_current (stream_fail e st) = None"
  by (simp add: stream_fail_def Let_def log_event_def split: option.splits)

text \<open>A part is announced only when the count allows it.\<close>

lemma bounds_parse_part_headers:
  assumes inv: "bounds_inv limits st" and idle: "\<not> st_failed st" "st_phase st = In_headers" "st_current st = None"
  shows "bounds_inv limits (parse_part_headers app block st)"
proof (cases "parse_part_header_block block (st_limits st)")
  case (Inl e)
  with inv show ?thesis by (simp add: parse_part_headers_def bounds_fail)
next
  case (Inr h)
  let ?counted = "st\<lparr>st_count := st_count st + 1\<rparr>"
  let ?new = "?counted\<lparr>st_current := Some (new_part_state h)\<rparr>"
  let ?told = "log_event (On_part (pp_name h) (pp_filename h) (pp_headers h)) ?new"
  have limits: "st_limits st = limits" and counted: "bounds_inv limits ?counted"
    using inv idle by (simp_all add: bounds_inv_def)
  have refused: "bounds_inv limits (stream_fail e ?new)" for e
  proof -
    have "stream_fail e ?new = stream_fail e ?counted"
      using idle by (simp add: stream_fail_def Let_def part_emit_error_def new_part_state_def log_event_def)
    then show ?thesis by (simp only: bounds_fail [OF counted])
  qed
  have told: "bounds_inv limits ?told" if "st_count st + 1 \<le> max_parts limits"
    using that inv
    by (auto simp: bounds_inv_def log_event_def delivered_within_def part_bound_def new_part_state_def)
  show ?thesis
    using Inr limits bounds_fail [OF counted] refused bounds_notify [OF told]
    by (simp add: parse_part_headers_def Let_def not_less bounds_fail)
qed

section \<open>Phases\<close>

text \<open>No callback moves the parser, it can only fail it.\<close>

definition keeps_phase :: "multipart_stream_state \<Rightarrow> multipart_stream_state \<Rightarrow> bool" where
  "keeps_phase st st' \<longleftrightarrow> st_failed st' \<or> \<not> st_failed st \<and> st_phase st' = st_phase st"

lemma keeps_phase_refl [simp]: "keeps_phase st st" by (auto simp: keeps_phase_def)

lemma keeps_phase_trans: "keeps_phase a b \<Longrightarrow> keeps_phase b c \<Longrightarrow> keeps_phase a c"
  by (auto simp: keeps_phase_def)

lemma keeps_phase_current [simp]:
  "keeps_phase (st\<lparr>st_current := c\<rparr>) st' = keeps_phase st st'"
  "keeps_phase st (st'\<lparr>st_current := c\<rparr>) = keeps_phase st st'"
  by (simp_all add: keeps_phase_def)

lemma keeps_phase_log [simp]: "keeps_phase st (log_event ev st') = keeps_phase st st'"
  by (simp add: keeps_phase_def)

lemma keeps_phase_fail [simp]: "keeps_phase st (stream_fail e st)"
  by (auto simp: keeps_phase_def stream_fail_def Let_def log_event_def part_emit_error_def
      split: option.splits multipart_part_mode.splits)

lemma keeps_phase_fail_current [simp]: "keeps_phase st (stream_fail e (st\<lparr>st_current := c\<rparr>))"
  using keeps_phase_fail [of "st\<lparr>st_current := c\<rparr>" e] by (simp only: keeps_phase_current)

lemma keeps_phase_call [simp]: "keeps_phase st (run_call c st)"
proof (cases c)
  case Call_pause
  then show ?thesis by (auto simp: part_pause_def stream_pause_def keeps_phase_def)
qed (auto simp: select_mode_def select_text_def Let_def split: option.splits)

lemma keeps_phase_calls [simp]: "keeps_phase st (fold run_call cs st)"
  by (induction cs arbitrary: st) (auto intro: keeps_phase_trans [OF keeps_phase_call])

lemma keeps_phase_notify [simp]: "keeps_phase st (notify app ev st)"
  using keeps_phase_calls [of "log_event ev st" "app_calls app (st_events (log_event ev st))"]
  by (simp add: notify_def Let_def keeps_phase_def)

lemma keeps_phase_notify_current [simp]: "keeps_phase st (notify app ev (st\<lparr>st_current := c\<rparr>))"
  using keeps_phase_notify [of "st\<lparr>st_current := c\<rparr>" app ev] by (simp only: keeps_phase_current)

lemma keeps_phase_emit [simp]: "keeps_phase st (emit_current_data app chunk st)"
  by (simp add: emit_current_data_def part_emit_data_def Let_def split: option.splits multipart_part_mode.splits)

definition mp_inv :: "multipart_limits \<Rightarrow> multipart_stream_state \<Rightarrow> bool" where
  "mp_inv limits st \<longleftrightarrow>
     bounds_inv limits st \<and>
     (\<not> st_failed st \<and> st_phase st \<in> {First_boundary, In_headers} \<longrightarrow> st_current st = None)"

lemma mp_inv_keeps:
  "bounds_inv limits st' \<Longrightarrow> keeps_phase st st' \<Longrightarrow> st_phase st = In_body \<Longrightarrow> mp_inv limits st'"
  by (auto simp: mp_inv_def keeps_phase_def)

lemma mp_inv_fail: "mp_inv limits st \<Longrightarrow> mp_inv limits (stream_fail e st)"
proof (cases "st_failed st \<or> st_phase st = Phase_done")
  case True
  then have "stream_fail e st = st" by (simp add: stream_fail_def)
  then show "mp_inv limits st \<Longrightarrow> mp_inv limits (stream_fail e st)" by simp
next
  case False
  then show "mp_inv limits st \<Longrightarrow> mp_inv limits (stream_fail e st)"
    using fail_clears_current [of st e] by (simp add: mp_inv_def bounds_fail)
qed

lemma mp_inv_erase [simp]: "mp_inv limits (erase_front n st) = mp_inv limits st"
  by (simp add: mp_inv_def erase_front_def)

lemma mp_inv_finish: "bounds_inv limits st \<Longrightarrow> mp_inv limits (finish_stream app st)"
  by (simp add: mp_inv_def finish_stream_def bounds_inv_silent)

lemma mp_inv_headers_phase:
  "bounds_inv limits st \<Longrightarrow> st_current st = None \<Longrightarrow> mp_inv limits (st\<lparr>st_phase := In_headers\<rparr>)"
  by (simp add: mp_inv_def)

lemma parse_part_headers_moves:
  assumes "\<not> st_failed st" "st_phase st = In_headers"
  shows "st_failed (parse_part_headers app block st) \<or> st_phase (parse_part_headers app block st) = In_body"
proof -
  have failing: "st_failed (stream_fail e s)" if "st_phase s \<noteq> Phase_done" for e s
    using that
    by (auto simp: stream_fail_def part_emit_error_def Let_def split: option.splits multipart_part_mode.splits)
  have told: "st_phase (notify app ev s) = In_headers"
    if "st_phase s = In_headers" "\<not> st_failed (notify app ev s)" for ev s
    using keeps_phase_notify [of s app ev] that by (auto simp: keeps_phase_def)
  show ?thesis
    using assms by (simp add: parse_part_headers_def Let_def failing told split: sum.splits)
qed

section \<open>Every operation keeps the invariant\<close>

lemma mp_inv_first_boundary:
  assumes inv: "mp_inv limits st" and "st_phase st = First_boundary" and "\<not> st_failed st"
  shows "mp_inv limits (fst (first_boundary_step app st))"
proof -
  have b: "bounds_inv limits st" and current: "st_current st = None"
    using assms by (simp_all add: mp_inv_def)
  then have "mp_inv limits ((erase_front n st)\<lparr>st_phase := In_headers\<rparr>)"
    "mp_inv limits (finish_stream app (erase_front n st))" for n
    by (simp_all add: mp_inv_headers_phase mp_inv_finish) (simp add: mp_inv_def erase_front_def)
  with inv show ?thesis by (simp add: first_boundary_step_def Let_def mp_inv_fail)
qed

lemma mp_inv_headers:
  assumes "mp_inv limits st" and "st_phase st = In_headers" and "\<not> st_failed st"
  shows "mp_inv limits (fst (headers_step app st))"
proof -
  have "mp_inv limits (parse_part_headers app block (erase_front n st))" for block n
    using bounds_parse_part_headers [of limits "erase_front n st" app block]
      parse_part_headers_moves [of "erase_front n st" app block] assms
    by (auto simp: mp_inv_def erase_front_def)
  with assms(1) show ?thesis by (simp add: headers_step_def mp_inv_fail split: option.splits)
qed

lemma mp_inv_body:
  assumes inv: "mp_inv limits st" and phase: "st_phase st = In_body"
  shows "mp_inv limits (fst (body_step app st))"
proof -
  have b: "bounds_inv limits st" using inv by (simp add: mp_inv_def)
  let ?emit = "\<lambda>n. emit_current_data app (take n (st_buffer st)) st"
  have emit: "mp_inv limits (?emit n)" for n
    using mp_inv_keeps [OF bounds_emit [OF b] keeps_phase_emit phase] .
  have deliver: "mp_inv limits (deliver_front app n st)" for n
    using emit [of n] by (simp add: deliver_front_def Let_def)
  have ended: "bounds_inv limits (end_current_part app (?emit n))" for n
    by (intro bounds_end_part bounds_emit b)
  have gone: "st_current (end_current_part app s) = None" for s
    by (simp add: end_current_part_def Let_def split: option.splits)
  have following: "mp_inv limits ((erase_front k (end_current_part app (?emit n)))\<lparr>st_phase := In_headers\<rparr>)" for n k
    using mp_inv_headers_phase [of limits "erase_front k (end_current_part app (?emit n))"] ended gone
    by (simp add: erase_front_def)
  show ?thesis
    using inv emit deliver following ended
    by (simp add: body_step_def Let_def mp_inv_finish split: delimiter_search.splits)
qed

lemma mp_inv_parse_step: "mp_inv limits st \<Longrightarrow> \<not> st_failed st \<Longrightarrow> mp_inv limits (fst (parse_step app st))"
  by (cases "st_phase st") (simp_all add: parse_step_def mp_inv_first_boundary mp_inv_headers mp_inv_body)

lemma mp_inv_parse: "mp_inv limits st \<Longrightarrow> mp_inv limits (stream_parse app st)"
proof (induction "length (st_buffer st)" arbitrary: st rule: less_induct)
  case less
  obtain st' continues where step: "parse_step app st = (st', continues)" by fastforce
  have "mp_inv limits st'" if "\<not> st_failed st" using mp_inv_parse_step [OF less.prems that, of app] step by simp
  with less step parse_step_shrinks [of app st st'] show ?case
    by (subst stream_parse.simps) simp
qed

datatype mp_op = Op_data string | Op_finish | Op_error "errc error" | Op_pause | Op_resume

fun mp_step :: "multipart_app \<Rightarrow> multipart_stream_state \<Rightarrow> mp_op \<Rightarrow> multipart_stream_state" where
  "mp_step app st (Op_data chunk) = on_body_data app chunk st"
| "mp_step app st Op_finish = stream_finish app st"
| "mp_step app st (Op_error e) = on_body_error e st"
| "mp_step app st Op_pause = part_pause st"
| "mp_step app st Op_resume = part_resume app st"

lemma mp_inv_updates [simp]:
  "mp_inv limits (st\<lparr>st_buffer := b\<rparr>) = mp_inv limits st"
  "mp_inv limits (st\<lparr>st_paused := x\<rparr>) = mp_inv limits st"
  "mp_inv limits (st\<lparr>st_body_paused := x\<rparr>) = mp_inv limits st"
  "mp_inv limits (st\<lparr>st_total := n\<rparr>) = mp_inv limits st"
  by (simp_all add: mp_inv_def)

lemma mp_inv_part_pause: "mp_inv limits st \<Longrightarrow> mp_inv limits (part_pause st)"
  by (auto simp: mp_inv_def bounds_part_pause) (auto simp: part_pause_def stream_pause_def split: if_splits)

lemma mp_inv_part_resume: "mp_inv limits st \<Longrightarrow> mp_inv limits (part_resume app st)"
proof -
  assume inv: "mp_inv limits st"
  let ?st = "st\<lparr>st_current := map_option (ps_paused_update (\<lambda>_. False)) (st_current st)\<rparr>"
  have "bounds_inv limits ?st"
    using inv by (cases "st_current st")
      (simp_all add: mp_inv_def bounds_inv_no_current bounds_set_current bounds_inv_current)
  then have st: "mp_inv limits ?st" using inv by (auto simp: mp_inv_def)
  then have "mp_inv limits (?st\<lparr>st_paused := False\<rparr>)" by (simp only: mp_inv_updates)
  from mp_inv_parse [OF this] st show ?thesis
    by (simp add: part_resume_def stream_resume_def Let_def)
qed

interpretation mp_run: inv_machine "mp_step app" "mp_inv limits" for app limits
proof
  fix st op
  assume inv: "mp_inv limits st"
  show "mp_inv limits (mp_step app st op)"
  proof (cases op)
    case (Op_data chunk)
    with inv show ?thesis
      by (simp add: on_body_data_def Let_def mp_inv_fail mp_inv_parse)
  next
    case Op_finish
    with inv show ?thesis by (simp add: stream_finish_def Let_def mp_inv_fail mp_inv_parse)
  qed (use inv in \<open>simp_all add: on_body_error_def mp_inv_fail mp_inv_part_pause mp_inv_part_resume\<close>)
qed

lemma mp_inv_new: "mp_inv limits (new_stream content_type limits)"
  by (simp add: mp_inv_def bounds_inv_def delivered_within_def new_stream_def blank_stream_def tally_of_def
      split: sum.splits)

text \<open>C28: Whatever the peer sends and whatever the application does, a stream never announces more
  parts than the limit, never delivers more bytes of a part than the limit of its kind, and never
  hands over a text longer than a non-zero field limit.\<close>

theorem stream_within_limits:
  "delivered_within limits (st_events (foldl (mp_step app) (new_stream content_type limits) ops))"
  using mp_run.run_inv [OF mp_inv_new] by (simp add: mp_inv_def bounds_inv_def)

end
