(* ===== verification/Server_Options.thy ===== *)
theory Server_Options
  imports Response Route_Path
begin

text \<open>
  The options of a server, \<open>src/http/server_options.cpp\<close>: setters that refuse a zero limit or a timeout
  that is not positive, and \<open>validate\<close>, which the server's constructor runs. A setter that throws leaves
  the options as they were.
\<close>

section \<open>Options and their setters\<close>

record server_options =
  so_max_header_bytes :: nat
  so_max_header_count :: nat
  so_max_body_bytes :: nat
  so_max_pending_write_bytes :: nat
  so_max_pending_responses :: nat
  so_header_timeout :: int
  so_body_timeout :: int
  so_idle_timeout :: int
  so_keep_alive :: bool
  so_server_header :: bool
  so_route_path_matching :: route_path_matching

definition default_server_options :: server_options where
  "default_server_options =
     \<lparr>so_max_header_bytes = 16 * 1024, so_max_header_count = 128, so_max_body_bytes = 1024 * 1024,
      so_max_pending_write_bytes = 1024 * 1024, so_max_pending_responses = 16, so_header_timeout = 10000,
      so_body_timeout = 30000, so_idle_timeout = 60000, so_keep_alive = True, so_server_header = True,
      so_route_path_matching = percent_decoded_segments\<rparr>"

definition require_positive :: "nat \<Rightarrow> string \<Rightarrow> 'a \<Rightarrow> string + 'a" where
  "require_positive v name r = (if v = 0 then Inl name else Inr r)"

definition require_positive_ms :: "int \<Rightarrow> string \<Rightarrow> 'a \<Rightarrow> string + 'a" where
  "require_positive_ms v name r = (if v \<le> 0 then Inl name else Inr r)"

definition set_max_header_bytes :: "nat \<Rightarrow> server_options \<Rightarrow> string + server_options" where
  "set_max_header_bytes v o' =
     require_positive v ''max_header_bytes must be greater than zero'' (o'\<lparr>so_max_header_bytes := v\<rparr>)"

definition set_max_header_count :: "nat \<Rightarrow> server_options \<Rightarrow> string + server_options" where
  "set_max_header_count v o' =
     require_positive v ''max_header_count must be greater than zero'' (o'\<lparr>so_max_header_count := v\<rparr>)"

definition set_max_body_bytes :: "nat \<Rightarrow> server_options \<Rightarrow> string + server_options" where
  "set_max_body_bytes v o' =
     require_positive v ''max_body_bytes must be greater than zero'' (o'\<lparr>so_max_body_bytes := v\<rparr>)"

definition set_max_pending_write_bytes :: "nat \<Rightarrow> server_options \<Rightarrow> string + server_options" where
  "set_max_pending_write_bytes v o' =
     require_positive v ''max_pending_write_bytes must be greater than zero'' (o'\<lparr>so_max_pending_write_bytes := v\<rparr>)"

definition set_max_pending_responses :: "nat \<Rightarrow> server_options \<Rightarrow> string + server_options" where
  "set_max_pending_responses v o' =
     require_positive v ''max_pending_responses_per_connection must be greater than zero''
       (o'\<lparr>so_max_pending_responses := v\<rparr>)"

definition set_header_timeout :: "int \<Rightarrow> server_options \<Rightarrow> string + server_options" where
  "set_header_timeout v o' =
     require_positive_ms v ''header_timeout must be greater than zero'' (o'\<lparr>so_header_timeout := v\<rparr>)"

definition set_body_timeout :: "int \<Rightarrow> server_options \<Rightarrow> string + server_options" where
  "set_body_timeout v o' =
     require_positive_ms v ''body_timeout must be greater than zero'' (o'\<lparr>so_body_timeout := v\<rparr>)"

definition set_idle_timeout :: "int \<Rightarrow> server_options \<Rightarrow> string + server_options" where
  "set_idle_timeout v o' =
     require_positive_ms v ''idle_timeout must be greater than zero'' (o'\<lparr>so_idle_timeout := v\<rparr>)"

definition set_keep_alive :: "bool \<Rightarrow> server_options \<Rightarrow> string + server_options" where
  "set_keep_alive v o' = Inr (o'\<lparr>so_keep_alive := v\<rparr>)"

definition set_server_header :: "bool \<Rightarrow> server_options \<Rightarrow> string + server_options" where
  "set_server_header v o' = Inr (o'\<lparr>so_server_header := v\<rparr>)"

definition set_route_path_matching :: "route_path_matching \<Rightarrow> server_options \<Rightarrow> string + server_options" where
  "set_route_path_matching v o' = Inr (o'\<lparr>so_route_path_matching := v\<rparr>)"

definition validate :: "server_options \<Rightarrow> string + unit" where
  "validate o' =
     (case require_positive (so_max_header_bytes o') ''max_header_bytes must be greater than zero'' () of Inl e \<Rightarrow> Inl e | Inr _ \<Rightarrow>
      case require_positive (so_max_header_count o') ''max_header_count must be greater than zero'' () of Inl e \<Rightarrow> Inl e | Inr _ \<Rightarrow>
      case require_positive (so_max_body_bytes o') ''max_body_bytes must be greater than zero'' () of Inl e \<Rightarrow> Inl e | Inr _ \<Rightarrow>
      case require_positive (so_max_pending_write_bytes o') ''max_pending_write_bytes must be greater than zero'' () of
        Inl e \<Rightarrow> Inl e | Inr _ \<Rightarrow>
      case require_positive (so_max_pending_responses o') ''max_pending_responses_per_connection must be greater than zero'' () of
        Inl e \<Rightarrow> Inl e | Inr _ \<Rightarrow>
      case require_positive_ms (so_header_timeout o') ''header_timeout must be greater than zero'' () of Inl e \<Rightarrow> Inl e | Inr _ \<Rightarrow>
      case require_positive_ms (so_body_timeout o') ''body_timeout must be greater than zero'' () of Inl e \<Rightarrow> Inl e | Inr _ \<Rightarrow>
      require_positive_ms (so_idle_timeout o') ''idle_timeout must be greater than zero'' ())"

section \<open>Options that were set are valid\<close>

datatype option_setter =
    Set_max_header_bytes nat | Set_max_header_count nat | Set_max_body_bytes nat
  | Set_max_pending_write_bytes nat | Set_max_pending_responses nat | Set_header_timeout int
  | Set_body_timeout int | Set_idle_timeout int | Set_keep_alive bool | Set_server_header bool
  | Set_route_path_matching route_path_matching

fun apply_setter :: "option_setter \<Rightarrow> server_options \<Rightarrow> string + server_options" where
  "apply_setter (Set_max_header_bytes v) = set_max_header_bytes v"
| "apply_setter (Set_max_header_count v) = set_max_header_count v"
| "apply_setter (Set_max_body_bytes v) = set_max_body_bytes v"
| "apply_setter (Set_max_pending_write_bytes v) = set_max_pending_write_bytes v"
| "apply_setter (Set_max_pending_responses v) = set_max_pending_responses v"
| "apply_setter (Set_header_timeout v) = set_header_timeout v"
| "apply_setter (Set_body_timeout v) = set_body_timeout v"
| "apply_setter (Set_idle_timeout v) = set_idle_timeout v"
| "apply_setter (Set_keep_alive v) = set_keep_alive v"
| "apply_setter (Set_server_header v) = set_server_header v"
| "apply_setter (Set_route_path_matching v) = set_route_path_matching v"

definition setter_step :: "server_options \<Rightarrow> option_setter \<Rightarrow> server_options" where
  "setter_step o' s = (case apply_setter s o' of Inl e \<Rightarrow> o' | Inr o' \<Rightarrow> o')"

definition options_valid :: "server_options \<Rightarrow> bool" where
  "options_valid o' \<longleftrightarrow>
     0 < so_max_header_bytes o' \<and> 0 < so_max_header_count o' \<and> 0 < so_max_body_bytes o' \<and>
     0 < so_max_pending_write_bytes o' \<and> 0 < so_max_pending_responses o' \<and>
     0 < so_header_timeout o' \<and> 0 < so_body_timeout o' \<and> 0 < so_idle_timeout o'"

lemma validate_iff: "validate o' = Inr () \<longleftrightarrow> options_valid o'"
  by (auto simp: validate_def options_valid_def require_positive_def require_positive_ms_def)

lemmas setter_defs = set_max_header_bytes_def set_max_header_count_def set_max_body_bytes_def
  set_max_pending_write_bytes_def set_max_pending_responses_def set_header_timeout_def set_body_timeout_def
  set_idle_timeout_def set_keep_alive_def set_server_header_def set_route_path_matching_def
  require_positive_def require_positive_ms_def

interpretation setters: inv_machine setter_step options_valid
proof
  fix o' s
  assume "options_valid o'"
  then show "options_valid (setter_step o' s)"
    by (cases s) (simp_all add: setter_step_def setter_defs options_valid_def)
qed

text \<open>
  Options built from the defaults by any setters, refused ones included, pass \<open>validate\<close>; the constructor of
  the server never throws on them.
\<close>

lemma built_options_validate: "validate (foldl setter_step default_server_options setters) = Inr ()"
proof -
  have "options_valid default_server_options" by (simp add: options_valid_def default_server_options_def)
  then show ?thesis by (simp add: validate_iff setters.run_inv)
qed

end
