(* ===== verification/Server_Wire.thy ===== *)
theory Server_Wire
  imports Server_Options
begin

text \<open>
  What a server puts on the wire, the free functions of \<open>src/http/server.cpp\<close>: the head of a response, its
  body, chunks, and the value of the Allow header. The reference is a client that reads responses back from
  the byte stream: status line, fields, and a body framed as HTTP/1.1 says.
\<close>

section \<open>Requests and methods\<close>

definition split_path_query :: "string \<Rightarrow> string \<times> string" where
  "split_path_query target =
     (let path = takeWhile (\<lambda>c. c \<noteq> CHR ''?'') target
      in if length path = length target then (target, []) else (path, drop (length path + 1) target))"

definition contains_method :: "http_method list \<Rightarrow> http_method \<Rightarrow> bool" where
  "contains_method methods m \<longleftrightarrow> m \<in> set methods"

fun join_comma :: "string list \<Rightarrow> string" where
  "join_comma [] = []"
| "join_comma [m] = m"
| "join_comma (m # ms) = m @ '', '' @ join_comma ms"

definition allow_methods :: "http_method list \<Rightarrow> http_method list" where
  "allow_methods methods =
     (let methods = (if contains_method methods method_get \<and> \<not> contains_method methods method_head
                     then methods @ [method_head] else methods);
          methods = (if \<not> contains_method methods method_options then methods @ [method_options] else methods)
      in sort_key method_index methods)"

definition allow_header_value :: "http_method list \<Rightarrow> string" where
  "allow_header_value methods = join_comma (map method_to_string (allow_methods methods))"

section \<open>Serialisation\<close>

definition crlf :: string where
  "crlf = [CHR 0x0D, CHR 0x0A]"

definition header_name_equals :: "string \<Rightarrow> string \<Rightarrow> bool" where
  "header_name_equals name expected = names_equal name expected"

definition has_header :: "headers \<Rightarrow> string \<Rightarrow> bool" where
  "has_header h expected = list_ex (\<lambda>(name, v). header_name_equals name expected) h"

definition sent_body :: "response_state \<Rightarrow> string" where
  "sent_body res = (if rs_status res = 204 then [] else rs_body res)"

definition header_line :: "string \<times> string \<Rightarrow> string" where
  "header_line f = fst f @ '': '' @ snd f @ crlf"

definition serialize_response_head ::
    "response_state \<Rightarrow> bool \<Rightarrow> server_options \<Rightarrow> bool \<Rightarrow> bool \<Rightarrow> string" where
  "serialize_response_head res keep_alive options chunked suppress_body =
     ''HTTP/1.1 '' @ print_number 10 (rs_status res) @ '' '' @ reason_phrase (int (rs_status res)) @ crlf @
     concat (map header_line
       (filter (\<lambda>(name, v). \<not> (header_name_equals name ''content-length'' \<and> chunked) \<and>
           \<not> header_name_equals name ''transfer-encoding'') (rs_headers res))) @
     (if chunked \<and> \<not> suppress_body then ''transfer-encoding: chunked'' @ crlf
      else if \<not> has_header (rs_headers res) ''content-length''
      then ''content-length: '' @ print_number 10 (length (sent_body res)) @ crlf
      else []) @
     (if \<not> has_header (rs_headers res) ''connection''
      then ''connection: '' @ (if keep_alive then ''keep-alive'' else ''close'') @ crlf else []) @
     (if so_server_header options \<and> \<not> has_header (rs_headers res) ''server''
      then ''server: uvpp-protocols'' @ crlf else []) @
     crlf"

definition serialize_response :: "response_state \<Rightarrow> bool \<Rightarrow> server_options \<Rightarrow> bool \<Rightarrow> string" where
  "serialize_response res keep_alive options suppress_body =
     serialize_response_head res keep_alive options False suppress_body @
     (if suppress_body then [] else sent_body res)"

definition serialize_chunk :: "string \<Rightarrow> string" where
  "serialize_chunk payload = print_number 16 (length payload) @ crlf @ payload @ crlf"

section \<open>A client\<close>

text \<open>Lines end with CR LF; white space around a field value is not part of it.\<close>

fun take_line :: "string \<Rightarrow> (string \<times> string) option" where
  "take_line [] = None"
| "take_line (c # t) =
     (if c = CHR 0x0D \<and> t \<noteq> [] \<and> hd t = CHR 0x0A then Some ([], tl t)
      else map_option (\<lambda>(l, r). (c # l, r)) (take_line t))"

lemma take_line_shorter: "take_line s = Some (l, r) \<Longrightarrow> length r < length s"
  by (induction s arbitrary: l) (fastforce split: if_splits)+

definition field_space :: "char \<Rightarrow> bool" where
  "field_space c \<longleftrightarrow> c = CHR '' '' \<or> c = CHR 0x09"

definition trim_field :: "string \<Rightarrow> string" where
  "trim_field v = rev (dropWhile field_space (rev (dropWhile field_space v)))"

function read_fields :: "string \<Rightarrow> (headers \<times> string) option" where
  "read_fields s =
     (case take_line s of
        None \<Rightarrow> None
      | Some (line, rest) \<Rightarrow>
          if line = [] then Some ([], rest)
          else
            let name = takeWhile (\<lambda>c. c \<noteq> CHR '':'') line
            in map_option (\<lambda>(fs, r). ((name, trim_field (drop (length name + 1) line)) # fs, r)) (read_fields rest))"
  by pat_completeness auto
termination by (relation "measure length") (auto dest: take_line_shorter sym [THEN take_line_shorter])

declare read_fields.simps [simp del]

definition read_head :: "string \<Rightarrow> (nat \<times> headers \<times> string) option" where
  "read_head s =
     (case take_line s of
        None \<Rightarrow> None
      | Some (line, rest) \<Rightarrow>
          if take 9 line \<noteq> ''HTTP/1.1 '' then None
          else case read_number 10 (takeWhile (\<lambda>c. c \<noteq> CHR '' '') (drop 9 line)) of
                 None \<Rightarrow> None
               | Some n \<Rightarrow> map_option (\<lambda>(fs, r). (n, fs, r)) (read_fields rest))"

function read_chunks :: "string \<Rightarrow> (string \<times> string) option" where
  "read_chunks s =
     (case take_line s of
        None \<Rightarrow> None
      | Some (line, rest) \<Rightarrow>
          (case read_number 16 line of
             None \<Rightarrow> None
           | Some n \<Rightarrow>
               if n = 0 then (case take_line rest of Some ([], r) \<Rightarrow> Some ([], r) | _ \<Rightarrow> None)
               else if take 2 (drop n rest) = crlf
               then map_option (\<lambda>(d, r). (take n rest @ d, r)) (read_chunks (drop (n + 2) rest))
               else None))"
  by pat_completeness auto
termination by (relation "measure length") (auto dest!: take_line_shorter sym [THEN take_line_shorter])

declare read_chunks.simps [simp del]

text \<open>
  The body follows the head unless the request was HEAD or the status has no body; a Transfer-Encoding
  overrides a Content-Length, and without either the body lasts until the connection closes.
\<close>

definition bodiless :: "nat \<Rightarrow> bool" where
  "bodiless n \<longleftrightarrow> n < 200 \<or> n = 204 \<or> n = 304"

definition read_body :: "bool \<Rightarrow> nat \<Rightarrow> headers \<Rightarrow> string \<Rightarrow> (string \<times> string) option" where
  "read_body head_request n fs rest =
     (if head_request \<or> bodiless n then Some ([], rest)
      else if headers_contains fs ''transfer-encoding'' then read_chunks rest
      else if headers_contains fs ''content-length'' then
        (case read_number 10 (headers_get fs ''content-length'') of
           None \<Rightarrow> None
         | Some k \<Rightarrow> if k \<le> length rest then Some (take k rest, drop k rest) else None)
      else Some (rest, []))"

record client_view =
  cv_status :: nat
  cv_fields :: headers
  cv_body :: string

definition read_response :: "bool \<Rightarrow> string \<Rightarrow> (client_view \<times> string) option" where
  "read_response head_request s =
     (case read_head s of
        None \<Rightarrow> None
      | Some (n, fs, rest) \<Rightarrow>
          map_option (\<lambda>(body, r). (\<lparr>cv_status = n, cv_fields = fs, cv_body = body\<rparr>, r))
            (read_body head_request n fs rest))"

end
