(* ===== verification/Server_Session.thy ===== *)
theory Server_Session
  imports Request Router Http1 Server_Wire
begin

text \<open>
  A connection of the server, \<open>server::impl::session\<close> of \<open>src/http/server.cpp\<close>: requests come out of the
  parser as events, every request gets a response slot, and slots are written in the order of the requests.

  Application code (handlers, hooks and the callbacks of responses and body streams) runs in the middle of
  these operations and calls back into them. The operations therefore take a parameter \<open>react\<close>, which runs a
  piece of application code on the session and says how it ended; \<open>Server_Run\<close> builds it from an arbitrary
  application. Slots and body streams live in stores and are named by their position, so the deque
  \<open>responses_\<close> is a list of positions. Two accesses the code may make to dead objects are recorded in
  \<open>ss_undefined\<close>: iterating over \<open>responses_\<close> while a callback changes it, and using an active request a
  callback has already finished. Endpoints of the connection are not modelled.
\<close>

section \<open>State\<close>

record server_write =
  sw_payload :: string
  sw_close_after :: bool
  sw_counts_response :: bool
  sw_upgrade :: "nat option"
  sw_slot :: "nat option"

record request_snapshot =
  sn_method :: http_method
  sn_target :: string
  sn_path :: string
  sn_query :: string
  sn_pattern :: string
  sn_params :: route_params

datatype response_outcome = Outcome_completed | Outcome_cancelled | Outcome_error

record response_info =
  ri_request :: request_snapshot
  ri_status :: nat
  ri_headers :: headers
  ri_body_bytes :: nat
  ri_outcome :: response_outcome

text \<open>
  \<open>sl_committed\<close>, \<open>sl_flushed\<close> and \<open>sl_written\<close> are for the proofs only: the response as it was when its head was
  serialised, whether it was serialised as a whole, and the pieces written to a stream.
\<close>

record response_slot =
  sl_res :: response_state
  sl_request :: request_snapshot
  sl_on_response :: "handler list"
  sl_completed :: bool
  sl_close_after :: bool
  sl_suppress_body :: bool
  sl_streaming :: bool
  sl_headers_queued :: bool
  sl_chunked :: bool
  sl_backpressured :: bool
  sl_stream_ended :: bool
  sl_hooks_ran :: bool
  sl_body_bytes :: nat
  sl_writes :: "server_write list"
  sl_committed :: response_state
  sl_flushed :: bool
  sl_written :: "string list"

definition empty_snapshot :: request_snapshot where
  "empty_snapshot = \<lparr>sn_method = method_unknown, sn_target = [], sn_path = [], sn_query = [], sn_pattern = [],
     sn_params = []\<rparr>"

definition new_slot :: "bool \<Rightarrow> bool \<Rightarrow> response_slot" where
  "new_slot close_after suppress_body =
     \<lparr>sl_res = new_response, sl_request = empty_snapshot, sl_on_response = [], sl_completed = False,
      sl_close_after = close_after, sl_suppress_body = suppress_body, sl_streaming = False,
      sl_headers_queued = False, sl_chunked = True, sl_backpressured = False, sl_stream_ended = False,
      sl_hooks_ran = False, sl_body_bytes = 0, sl_writes = [], sl_committed = new_response, sl_flushed = False, sl_written = []\<rparr>"

datatype timeout_phase = phase_none | phase_header | phase_body | phase_idle

record active_request =
  ar_id :: nat
  ar_headers :: http1_message
  ar_route :: match_result
  ar_parsed_path :: route_path
  ar_req :: request
  ar_body :: nat
  ar_slot :: "nat option"
  ar_received :: nat
  ar_rejected :: bool

datatype app_call =
    Call_hook handler nat
  | Call_handler handler nat string "nat option"
  | Call_not_found handler nat
  | Call_exception handler nat
  | Call_response_hook handler nat response_info
  | Call_cancel nat
  | Call_drain nat
  | Call_stream_error nat string
  | Call_body nat body_event
  | Call_upgrade handler route_params string
  | Call_upgraded nat

datatype app_outcome = Returned | Stopped | Threw

record session =
  ss_options :: server_options
  ss_router :: router
  ss_not_found :: "handler option"
  ss_exception :: "handler option"
  ss_upgrades :: "(route_path \<times> handler) list"
  ss_parser :: http1_machine
  ss_handled :: nat
  ss_pending_responses :: nat
  ss_pending_bytes :: nat
  ss_active :: "active_request option"
  ss_requests :: nat
  ss_slots :: "response_slot list"
  ss_bodies :: "body_stream list"
  ss_responses :: "nat list"
  ss_writes :: "server_write list"
  ss_sent :: "server_write list"
  ss_writing :: bool
  ss_dispatching :: bool
  ss_paused :: bool
  ss_closed :: bool
  ss_removed :: bool
  ss_timeout_closing :: bool
  ss_timer_active :: bool
  ss_timer_closed :: bool
  ss_phase :: timeout_phase
  ss_duration :: int
  ss_reading :: bool
  ss_calls :: "app_call list"
  ss_undefined :: bool

type_synonym react = "app_call \<Rightarrow> session \<Rightarrow> session \<times> app_outcome"

text \<open>\<open>add_listener\<close> makes a session for an accepted stream with the limits of the options.\<close>

definition new_session ::
    "server_options \<Rightarrow> router \<Rightarrow> handler option \<Rightarrow> handler option \<Rightarrow> (route_path \<times> handler) list \<Rightarrow> session" where
  "new_session options routes not_found exc upgrades =
     \<lparr>ss_options = options, ss_router = routes, ss_not_found = not_found, ss_exception = exc, ss_upgrades = upgrades,
      ss_parser = set_limits \<lparr>max_header_bytes = so_max_header_bytes options,
        max_header_count = so_max_header_count options\<rparr> new_machine,
      ss_handled = 0, ss_pending_responses = 0, ss_pending_bytes = 0, ss_active = None, ss_requests = 0,
      ss_slots = [], ss_bodies = [], ss_responses = [], ss_writes = [], ss_sent = [], ss_writing = False,
      ss_dispatching = False, ss_paused = False, ss_closed = False, ss_removed = False,
      ss_timeout_closing = False, ss_timer_active = False, ss_timer_closed = False, ss_phase = phase_none,
      ss_duration = 0, ss_reading = False, ss_calls = [], ss_undefined = False\<rparr>"

abbreviation slot :: "session \<Rightarrow> nat \<Rightarrow> response_slot" where
  "slot s i \<equiv> ss_slots s ! i"

definition upd_slot :: "nat \<Rightarrow> (response_slot \<Rightarrow> response_slot) \<Rightarrow> session \<Rightarrow> session" where
  "upd_slot i f s = s\<lparr>ss_slots := (ss_slots s)[i := f (ss_slots s ! i)]\<rparr>"

definition upd_res :: "nat \<Rightarrow> (response_state \<Rightarrow> response_state) \<Rightarrow> session \<Rightarrow> session" where
  "upd_res i f = upd_slot i (\<lambda>sl. sl\<lparr>sl_res := f (sl_res sl)\<rparr>)"

section \<open>Timeouts\<close>

definition stop_timeout :: "session \<Rightarrow> session" where
  "stop_timeout s = s\<lparr>ss_phase := phase_none, ss_timer_active := False\<rparr>"

definition start_timeout :: "timeout_phase \<Rightarrow> int \<Rightarrow> session \<Rightarrow> session" where
  "start_timeout phase duration s =
     (if ss_closed s \<or> ss_timer_closed s then s
      else (stop_timeout s)\<lparr>ss_phase := phase, ss_timer_active := True, ss_duration := duration\<rparr>)"

definition close_timeout_timer :: "session \<Rightarrow> session" where
  "close_timeout_timer s = (if ss_timer_closed s then s else (stop_timeout s)\<lparr>ss_timer_closed := True\<rparr>)"

definition request_has_body :: "http1_message \<Rightarrow> bool" where
  "request_has_body message =
     (let content_length = headers_get (msg_headers message) ''content-length''
      in if content_length \<noteq> [] \<and> content_length \<noteq> ''0'' then True
         else headers_get (msg_headers message) ''transfer-encoding'' \<noteq> [])"

definition route_body_limit :: "match_result \<Rightarrow> session \<Rightarrow> nat" where
  "route_body_limit route s =
     (if mr_max_body_bytes route = 0 then so_max_body_bytes (ss_options s) else mr_max_body_bytes route)"

definition route_body_timeout :: "match_result \<Rightarrow> session \<Rightarrow> int" where
  "route_body_timeout route s =
     (if mr_body_timeout route = 0 then so_body_timeout (ss_options s) else mr_body_timeout route)"

definition start_body_timeout_if_needed :: "session \<Rightarrow> session" where
  "start_body_timeout_if_needed s =
     (case ss_active s of
        None \<Rightarrow> s
      | Some a \<Rightarrow>
          if ar_rejected a \<or> ss_paused s \<or> \<not> request_has_body (ar_headers a) then s
          else if mr_handler (ar_route a) \<noteq> None
          then start_timeout phase_body (route_body_timeout (ar_route a) s) s
          else start_timeout phase_body (so_body_timeout (ss_options s)) s)"

definition refresh_body_timeout :: "session \<Rightarrow> session" where
  "refresh_body_timeout s = (if ss_phase s \<noteq> phase_body then s else start_body_timeout_if_needed s)"

definition maybe_start_idle_timeout :: "session \<Rightarrow> session" where
  "maybe_start_idle_timeout s =
     (if ss_closed s \<or> ss_timeout_closing s \<or> ss_phase s \<noteq> phase_none \<or> \<not> so_keep_alive (ss_options s) then s
      else if ss_active s \<noteq> None \<or> ss_paused s \<or> ss_writing s \<or> ss_writes s \<noteq> [] \<or> ss_responses s \<noteq> [] then s
      else if ss_pending_responses s \<noteq> 0 \<or> ss_handled s < length (h1_events (ss_parser s)) then s
      else start_timeout phase_idle (so_idle_timeout (ss_options s)) s)"

section \<open>Writes\<close>

definition sv_flush_next :: "session \<Rightarrow> session" where
  "sv_flush_next s = (if ss_closed s \<or> ss_writing s \<or> ss_writes s = [] then s else s\<lparr>ss_writing := True\<rparr>)"

definition sv_enqueue :: "string \<Rightarrow> bool \<Rightarrow> bool \<Rightarrow> nat option \<Rightarrow> session \<Rightarrow> session" where
  "sv_enqueue payload close_after counts_response i s =
     sv_flush_next (s\<lparr>ss_pending_bytes := ss_pending_bytes s + length payload,
       ss_writes := ss_writes s @ [\<lparr>sw_payload = payload, sw_close_after = close_after,
         sw_counts_response = counts_response, sw_upgrade = None, sw_slot = i\<rparr>]\<rparr>)"

definition queue_stream_write :: "nat \<Rightarrow> string \<Rightarrow> bool \<Rightarrow> session \<Rightarrow> session" where
  "queue_stream_write i payload close_after s =
     upd_slot i (\<lambda>sl. sl\<lparr>sl_writes := sl_writes sl @ [\<lparr>sw_payload = payload, sw_close_after = close_after,
         sw_counts_response = False, sw_upgrade = None, sw_slot = Some i\<rparr>]\<rparr>)
       (s\<lparr>ss_pending_bytes := ss_pending_bytes s + length payload\<rparr>)"

definition flush_stream_writes :: "nat \<Rightarrow> session \<Rightarrow> session" where
  "flush_stream_writes i s =
     sv_flush_next (upd_slot i (\<lambda>sl. sl\<lparr>sl_writes := []\<rparr>) (s\<lparr>ss_writes := ss_writes s @ sl_writes (slot s i)\<rparr>))"

definition send_error :: "nat \<Rightarrow> bool \<Rightarrow> session \<Rightarrow> session" where
  "send_error status_code keep_alive s =
     (let body = reason_phrase (int status_code) @ [CHR 0x0A];
          res = new_response\<lparr>rs_status := status_code,
            rs_headers := headers_set [] ''content-type'' ''text/plain; charset=utf-8'', rs_body := body, rs_ended := True\<rparr>
      in sv_enqueue (serialize_response res keep_alive (ss_options s) False) (\<not> keep_alive) False None s)"

section \<open>Response hooks and cancellation\<close>

definition response_body_size :: "response_slot \<Rightarrow> nat" where
  "response_body_size sl =
     (if sl_streaming sl then sl_body_bytes sl
      else if rs_status (sl_res sl) = 204 then 0
      else length (rs_body (sl_res sl)))"

definition run_response_hooks :: "react \<Rightarrow> nat \<Rightarrow> response_outcome \<Rightarrow> session \<Rightarrow> session" where
  "run_response_hooks react i outcome s =
     (if sl_hooks_ran (slot s i) then s
      else
        let s = upd_slot i (\<lambda>sl. sl\<lparr>sl_hooks_ran := True\<rparr>) s; sl = slot s i;
            info = \<lparr>ri_request = sl_request sl, ri_status = rs_status (sl_res sl), ri_headers = rs_headers (sl_res sl),
              ri_body_bytes = response_body_size sl, ri_outcome = outcome\<rparr>
        in foldl (\<lambda>s h. fst (react (Call_response_hook h i info) s)) s (rev (sl_on_response sl)))"

text \<open>
  A range-based loop over \<open>responses_\<close>: when the body changes the deque the iterators are invalid, and the model
  stops there.
\<close>

fun slots_loop :: "(nat \<Rightarrow> session \<Rightarrow> session) \<Rightarrow> nat list \<Rightarrow> session \<Rightarrow> session" where
  "slots_loop f [] s = s"
| "slots_loop f (i # is) s =
     (let s' = f i s
      in if ss_responses s' \<noteq> ss_responses s then s'\<lparr>ss_undefined := True\<rparr> else slots_loop f is s')"

definition for_slots :: "(nat \<Rightarrow> session \<Rightarrow> session) \<Rightarrow> session \<Rightarrow> session" where
  "for_slots f s = slots_loop f (ss_responses s) s"

text \<open>\<open>response_state::cancel\<close> with its callback.\<close>

definition cancel_response :: "react \<Rightarrow> nat \<Rightarrow> session \<Rightarrow> session" where
  "cancel_response react i s =
     (let r = rs_cancel (sl_res (slot s i)); s = upd_res i (\<lambda>st. fst r) s
      in if snd r then fst (react (Call_cancel i) s) else s)"

definition cancel_slot :: "react \<Rightarrow> response_outcome \<Rightarrow> nat \<Rightarrow> session \<Rightarrow> session" where
  "cancel_slot react outcome i s =
     (if sl_completed (slot s i) then s else run_response_hooks react i outcome (cancel_response react i s))"

definition cancel_pending_responses :: "react \<Rightarrow> response_outcome \<Rightarrow> session \<Rightarrow> session" where
  "cancel_pending_responses react outcome s = (for_slots (cancel_slot react outcome) s)\<lparr>ss_responses := []\<rparr>"

definition sv_close :: "react \<Rightarrow> session \<Rightarrow> session" where
  "sv_close react s =
     (if ss_closed s then s
      else (cancel_pending_responses react Outcome_cancelled (close_timeout_timer (s\<lparr>ss_closed := True\<rparr>)))\<lparr>ss_reading := False\<rparr>)"

definition notify_stream_errors :: "react \<Rightarrow> string \<Rightarrow> session \<Rightarrow> session" where
  "notify_stream_errors react e s =
     for_slots (\<lambda>i s.
       if sl_streaming (slot s i) \<and> \<not> sl_completed (slot s i) \<and> notify_stream_error (sl_res (slot s i))
       then fst (react (Call_stream_error i e) s) else s) s"

definition low_watermark :: "session \<Rightarrow> nat" where
  "low_watermark s = so_max_pending_write_bytes (ss_options s) div 2"

definition notify_drains :: "react \<Rightarrow> session \<Rightarrow> session" where
  "notify_drains react s =
     (if ss_pending_bytes s > low_watermark s then s
      else for_slots (\<lambda>i s.
             if \<not> sl_backpressured (slot s i) then s
             else
               let s = upd_slot i (\<lambda>sl. sl\<lparr>sl_backpressured := False\<rparr>) s
               in if notify_stream_drain (sl_res (slot s i)) then fst (react (Call_drain i) s) else s) s)"

section \<open>Slots\<close>

definition create_response_slot :: "react \<Rightarrow> bool \<Rightarrow> bool \<Rightarrow> session \<Rightarrow> session \<times> nat option" where
  "create_response_slot react close_after suppress_body s =
     (if length (ss_responses s) + ss_pending_responses s \<ge> so_max_pending_responses (ss_options s)
      then (sv_close react s, None)
      else
        let i = length (ss_slots s)
        in (s\<lparr>ss_slots := ss_slots s @ [new_slot close_after suppress_body], ss_responses := ss_responses s @ [i]\<rparr>, Some i))"

lemma flush_next_responses [simp]: "ss_responses (sv_flush_next s) = ss_responses s"
  by (simp add: sv_flush_next_def)

lemma flush_stream_writes_responses [simp]: "ss_responses (flush_stream_writes i s) = ss_responses s"
  by (simp add: flush_stream_writes_def upd_slot_def)

lemma upd_slot_responses [simp]: "ss_responses (upd_slot i f s) = ss_responses s"
  by (simp add: upd_slot_def)

lemma enqueue_responses [simp]: "ss_responses (sv_enqueue p c r i s) = ss_responses s"
  by (simp add: sv_enqueue_def)

function flush_response_slots :: "react \<Rightarrow> session \<Rightarrow> session" where
  "flush_response_slots react s =
     (case ss_responses s of
        [] \<Rightarrow> s
      | i # rest \<Rightarrow>
          if sl_streaming (slot s i) then
            let s = flush_stream_writes i s
            in if \<not> sl_completed (slot s i) \<or> sl_writes (slot s i) \<noteq> [] then s
               else
                 let s = s\<lparr>ss_responses := rest\<rparr>
                 in if sl_close_after (slot s i) then cancel_pending_responses react Outcome_cancelled s
                    else flush_response_slots react s
          else if \<not> sl_completed (slot s i) then s
          else
            let sl = slot s i;
                s = s\<lparr>ss_responses := rest, ss_pending_responses := ss_pending_responses s + 1\<rparr>;
                s = upd_slot i (\<lambda>sl. sl\<lparr>sl_committed := sl_res sl, sl_flushed := True\<rparr>) s;
                s = sv_enqueue (serialize_response (sl_res sl) (\<not> sl_close_after sl) (ss_options s) (sl_suppress_body sl))
                      (sl_close_after sl) True (Some i) s
            in if sl_close_after sl then cancel_pending_responses react Outcome_cancelled s
               else flush_response_slots react s)"
  by pat_completeness auto
termination by (relation "measure (\<lambda>(react, s). length (ss_responses s))") auto

declare flush_response_slots.simps [simp del]

definition complete_response :: "react \<Rightarrow> nat \<Rightarrow> session \<Rightarrow> session" where
  "complete_response react i s =
     (if sl_completed (slot s i) then s
      else
        let s = upd_slot i (\<lambda>sl. sl\<lparr>sl_completed := True\<rparr>) s;
            s = run_response_hooks react i Outcome_completed s
        in if ss_dispatching s then s else flush_response_slots react s)"

text \<open>Queue the head of a stream; \<open>close_after\<close> is set on it only at the end of a response to HEAD.\<close>

definition queue_stream_head :: "nat \<Rightarrow> bool \<Rightarrow> session \<Rightarrow> session" where
  "queue_stream_head i close_after s =
     (let s = upd_slot i (\<lambda>sl. sl\<lparr>sl_chunked := \<not> headers_contains (rs_headers (sl_res sl)) ''content-length'',
            sl_res := commit_headers (sl_res sl)\<rparr>) s;
          sl = slot s i;
          head = serialize_response_head (sl_res sl) (\<not> sl_close_after sl) (ss_options s) (sl_chunked sl) (sl_suppress_body sl);
          s = queue_stream_write i head close_after s
      in upd_slot i (\<lambda>sl. sl\<lparr>sl_headers_queued := True, sl_committed := sl_res sl\<rparr>) s)"

text \<open>What \<open>write_stream_chunk\<close> does to its slot before it flushes.\<close>

definition queue_piece :: "nat \<Rightarrow> string \<Rightarrow> session \<Rightarrow> session" where
  "queue_piece i payload s =
     (if \<not> sl_suppress_body (slot s i) \<and> payload \<noteq> [] then
        queue_stream_write i (if sl_chunked (slot s i) then serialize_chunk payload else payload) False
          (upd_slot i (\<lambda>sl. sl\<lparr>sl_body_bytes := sl_body_bytes sl + length payload,
             sl_written := sl_written sl @ [payload]\<rparr>) s)
      else s)"

definition write_stream_chunk :: "react \<Rightarrow> nat \<Rightarrow> string \<Rightarrow> session \<Rightarrow> session \<times> stream_write_result" where
  "write_stream_chunk react i payload s =
     (if ss_closed s \<or> sl_completed (slot s i) \<or> sl_stream_ended (slot s i) then (s, swr_rejected Not_connected)
      else if sl_backpressured (slot s i) then (s, swr_rejected Operation_would_block)
      else
        let s = upd_slot i (\<lambda>sl. sl\<lparr>sl_streaming := True\<rparr>) s
        in if sl_suppress_body (slot s i) then (s, swr_ready)
           else
             let s = (if \<not> sl_headers_queued (slot s i) then queue_stream_head i False s else s);
                 s = queue_piece i payload s;
                 s = flush_response_slots react s
             in if ss_pending_bytes s \<ge> so_max_pending_write_bytes (ss_options s)
                then (upd_slot i (\<lambda>sl. sl\<lparr>sl_backpressured := True\<rparr>) s, swr_backpressure)
                else (s, swr_ready))"

text \<open>What \<open>end_stream\<close> does to its slot before the response completes.\<close>

definition queue_end :: "nat \<Rightarrow> session \<Rightarrow> session" where
  "queue_end i s =
     (let s = upd_slot i (\<lambda>sl. sl\<lparr>sl_streaming := True, sl_stream_ended := True\<rparr>) s;
          s = (if \<not> sl_headers_queued (slot s i)
               then queue_stream_head i (sl_suppress_body (slot s i) \<and> sl_close_after (slot s i)) s else s)
      in if \<not> sl_suppress_body (slot s i) \<and> sl_chunked (slot s i)
         then queue_stream_write i (''0'' @ crlf @ crlf) (sl_close_after (slot s i)) s else s)"

definition end_stream :: "react \<Rightarrow> nat \<Rightarrow> session \<Rightarrow> session" where
  "end_stream react i s =
     (if ss_closed s \<or> sl_completed (slot s i) \<or> sl_stream_ended (slot s i) then s
      else
        let s = queue_end i s;
            before = sl_res (slot s i);
            s = upd_res i complete_stream s;
            s = (if rs_streaming before \<and> rs_active before then complete_response react i s else s)
        in if ss_dispatching s then s else flush_response_slots react s)"

end
