(* ===== verification/Server_Dispatch.thy ===== *)
theory Server_Dispatch
  imports Server_Session
begin

text \<open>
  The rest of a connection of the server, \<open>src/http/server.cpp\<close>: what an application may do to a session, the
  handling of the parser's events, upgrades, and the callbacks of the stream and of the timer.
\<close>

section \<open>Operations on a response\<close>

text \<open>The operations an application has; the others are private to the server.\<close>

fun public_op :: "res_op \<Rightarrow> bool" where
  "public_op Op_cancel = False"
| "public_op Op_commit = False"
| "public_op Op_complete_stream = False"
| "public_op Op_reset = False"
| "public_op _ = True"

text \<open>An operation on the response of a slot, and whether it threw; \<open>on_complete\<close> runs when it ends the response.\<close>

definition do_op :: "react \<Rightarrow> nat \<Rightarrow> res_op \<Rightarrow> session \<Rightarrow> session \<times> bool" where
  "do_op react i op s =
     (let before = sl_res (slot s i); r = res_op_result op before; after = res_step before op;
          s = upd_res i (\<lambda>st. after) s
      in (if \<not> rs_ended before \<and> rs_ended after then complete_response react i s else s, isl r))"

fun do_ops :: "react \<Rightarrow> nat \<Rightarrow> res_op list \<Rightarrow> session \<Rightarrow> session \<times> bool" where
  "do_ops react i [] s = (s, False)"
| "do_ops react i (op # ops) s =
     (case do_op react i op s of (s, threw) \<Rightarrow> if threw then (s, True) else do_ops react i ops s)"

definition open_response :: "response_state \<Rightarrow> bool" where
  "open_response res \<longleftrightarrow> \<not> rs_ended res \<and> \<not> rs_deferred res \<and> \<not> rs_streaming res"

definition finish_response_if_needed :: "react \<Rightarrow> nat \<Rightarrow> session \<Rightarrow> session" where
  "finish_response_if_needed react i s =
     (if open_response (sl_res (slot s i)) then fst (do_op react i Op_end s) else s)"

section \<open>Exceptions, hooks and observation\<close>

definition internal_error :: "react \<Rightarrow> nat \<Rightarrow> session \<Rightarrow> session" where
  "internal_error react i s =
     fst (do_ops react i [Op_status 500, Op_text (''internal server error'' @ [CHR 0x0A])] s)"

definition handle_exception :: "react \<Rightarrow> nat \<Rightarrow> handler option \<Rightarrow> session \<Rightarrow> session" where
  "handle_exception react i scoped s =
     (let s = upd_res i response_reset s;
          handler = (case scoped of Some h \<Rightarrow> Some h | None \<Rightarrow> ss_exception s)
      in case handler of
           None \<Rightarrow> internal_error react i s
         | Some h \<Rightarrow>
             (case react (Call_exception h i) s of
                (s, out) \<Rightarrow>
                  if out = Threw then internal_error react i (upd_res i response_reset s)
                  else finish_response_if_needed react i s))"

datatype hooks_end = Hooks_done | Hooks_stopped | Hooks_threw

fun run_hooks :: "react \<Rightarrow> handler list \<Rightarrow> nat \<Rightarrow> session \<Rightarrow> session \<times> hooks_end" where
  "run_hooks react [] i s = (s, Hooks_done)"
| "run_hooks react (h # hooks) i s =
     (case react (Call_hook h i) s of
        (s, out) \<Rightarrow>
          if out = Threw then (s, Hooks_threw)
          else if out = Stopped \<or> \<not> open_response (sl_res (slot s i)) then (s, Hooks_stopped)
          else run_hooks react hooks i s)"

definition snapshot_request :: "request \<Rightarrow> request_snapshot" where
  "snapshot_request req =
     \<lparr>sn_method = rq_method req, sn_target = rq_target req, sn_path = rq_path req, sn_query = rq_query req,
      sn_pattern = rq_pattern req, sn_params = rq_params req\<rparr>"

definition configure_response_observation :: "nat \<Rightarrow> request \<Rightarrow> handler list \<Rightarrow> session \<Rightarrow> session" where
  "configure_response_observation i req hooks s =
     upd_slot i (\<lambda>sl. sl\<lparr>sl_request := snapshot_request req, sl_on_response := hooks\<rparr>) s"

text \<open>The guard that holds responses back while a request is dispatched and flushes them when it ends.\<close>

definition with_dispatch_result :: "react \<Rightarrow> (session \<Rightarrow> session \<times> 'a) \<Rightarrow> session \<Rightarrow> session \<times> 'a" where
  "with_dispatch_result react f s =
     (case f (s\<lparr>ss_dispatching := True\<rparr>) of
        (s, r) \<Rightarrow> (flush_response_slots react (s\<lparr>ss_dispatching := False\<rparr>), r))"

definition with_dispatch :: "react \<Rightarrow> (session \<Rightarrow> session) \<Rightarrow> session \<Rightarrow> session" where
  "with_dispatch react f s = fst (with_dispatch_result react (\<lambda>s. (f s, ())) s)"

text \<open>Access to the active request of a number; it may be gone when application code has run.\<close>

definition reject_active :: "nat \<Rightarrow> session \<Rightarrow> session" where
  "reject_active k s =
     (case ss_active s of
        Some a \<Rightarrow> if ar_id a = k then s\<lparr>ss_active := Some (a\<lparr>ar_rejected := True\<rparr>)\<rparr> else s\<lparr>ss_undefined := True\<rparr>
      | None \<Rightarrow> s\<lparr>ss_undefined := True\<rparr>)"

definition check_active :: "nat \<Rightarrow> session \<Rightarrow> session" where
  "check_active k s =
     (case ss_active s of
        Some a \<Rightarrow> if ar_id a = k then s else s\<lparr>ss_undefined := True\<rparr>
      | None \<Rightarrow> s\<lparr>ss_undefined := True\<rparr>)"

definition set_active_slot :: "nat \<Rightarrow> session \<Rightarrow> session" where
  "set_active_slot i s =
     (case ss_active s of Some a \<Rightarrow> s\<lparr>ss_active := Some (a\<lparr>ar_slot := Some i\<rparr>)\<rparr> | None \<Rightarrow> s)"

text \<open>The answer says whether the request goes on.\<close>

definition run_on_request_hooks :: "react \<Rightarrow> active_request \<Rightarrow> bool \<Rightarrow> bool \<Rightarrow> session \<Rightarrow> session \<times> bool" where
  "run_on_request_hooks react a close_after suppress_body s =
     (if ms_on_request (mr_state (ar_route a)) = [] then (s, True)
      else
        case (case ar_slot a of
                Some i \<Rightarrow> (s, Some i)
              | None \<Rightarrow>
                  (case create_response_slot react close_after suppress_body s of
                     (s, Some i) \<Rightarrow> (set_active_slot i s, Some i)
                   | (s, None) \<Rightarrow> (reject_active (ar_id a) s, None))) of
          (s, None) \<Rightarrow> (s, False)
        | (s, Some i) \<Rightarrow>
            let route = ar_route a;
                s = configure_response_observation i (ar_req a) (ms_on_response (mr_state route)) s
            in with_dispatch_result react (\<lambda>s.
                 case run_hooks react (ms_on_request (mr_state route)) i s of
                   (s, Hooks_done) \<Rightarrow> (s, True)
                 | (s, Hooks_stopped) \<Rightarrow> (reject_active (ar_id a) (finish_response_if_needed react i s), False)
                 | (s, Hooks_threw) \<Rightarrow>
                     (reject_active (ar_id a) (handle_exception react i (ms_exception (mr_state route)) s), False)) s)"

section \<open>Dispatch\<close>

definition is_streaming_body_mode :: "body_mode \<Rightarrow> bool" where
  "is_streaming_body_mode m \<longleftrightarrow> m = body_mode.body_stream \<or> m = body_multipart_stream"

definition match_request_route :: "http_method \<Rightarrow> route_path \<Rightarrow> session \<Rightarrow> match_result" where
  "match_request_route m path s =
     (let route = router_match_path (ss_router s) m path
      in if mr_handler route = None \<and> m = method_head then router_match_path (ss_router s) method_get path else route)"

definition automatic_method_ops :: "http_method \<Rightarrow> http_method list \<Rightarrow> res_op list" where
  "automatic_method_ops m allowed =
     (let allow = allow_header_value allowed
      in if m = method_options then [Op_status 204, Op_header ''allow'' allow, Op_end]
         else [Op_status 405, Op_header ''allow'' allow, Op_text (''method not allowed'' @ [CHR 0x0A])])"

definition call_and_finish :: "react \<Rightarrow> app_call \<Rightarrow> nat \<Rightarrow> session \<Rightarrow> session \<times> bool" where
  "call_and_finish react c i s =
     (case react c s of
        (s, out) \<Rightarrow> if out = Threw then (s, True) else (finish_response_if_needed react i s, False))"

text \<open>The branch of \<open>handle_buffered_message\<close> for a request no route matches.\<close>

definition dispatch_unrouted :: "react \<Rightarrow> http_method \<Rightarrow> route_path \<Rightarrow> nat \<Rightarrow> session \<Rightarrow> session" where
  "dispatch_unrouted react m path i s =
     (let fallback = fallback_path (ss_router s) path;
          allowed = allowed_methods_path (ss_router s) path
      in case (if allowed \<noteq> [] then do_ops react i (automatic_method_ops m allowed) s
               else case (case fb_not_found fallback of Some h \<Rightarrow> Some h | None \<Rightarrow> ss_not_found s) of
                      Some h \<Rightarrow> call_and_finish react (Call_not_found h i) i s
                    | None \<Rightarrow> do_ops react i [Op_status 404, Op_text (''not found'' @ [CHR 0x0A])] s) of
           (s, True) \<Rightarrow> handle_exception react i (fb_exception fallback) s
         | (s, False) \<Rightarrow> finish_response_if_needed react i s)"

definition dispatch_routed :: "react \<Rightarrow> match_result \<Rightarrow> string \<Rightarrow> nat \<Rightarrow> session \<Rightarrow> session" where
  "dispatch_routed react route body i s =
     (case run_hooks react (ms_pre_handler (mr_state route)) i s of
        (s, Hooks_stopped) \<Rightarrow> finish_response_if_needed react i s
      | (s, Hooks_threw) \<Rightarrow> handle_exception react i (ms_exception (mr_state route)) s
      | (s, Hooks_done) \<Rightarrow>
          (case call_and_finish react (Call_handler (the (mr_handler route)) i body None) i s of
             (s, True) \<Rightarrow> handle_exception react i (ms_exception (mr_state route)) s
           | (s, False) \<Rightarrow> s))"

definition routed_request :: "http1_message \<Rightarrow> string \<Rightarrow> match_result \<Rightarrow> route_path \<Rightarrow> request" where
  "routed_request message body route path =
     (let (raw_path, query) = split_path_query (msg_target message);
          req = make_request (msg_method message) (msg_target message) raw_path query (msg_headers message) body []
                  (decoded_segments path)
      in if mr_handler route = None then req
         else req\<lparr>rq_params := ms_params (mr_state route), rq_pattern := mr_pattern route\<rparr>)"

definition handle_buffered_message ::
    "react \<Rightarrow> http1_message \<Rightarrow> match_result \<Rightarrow> route_path \<Rightarrow> nat option \<Rightarrow> session \<Rightarrow> session" where
  "handle_buffered_message react message route path existing s =
     (let keep_alive = so_keep_alive (ss_options s) \<and> msg_keep_alive message
      in case (case existing of
                 Some i \<Rightarrow> (s, Some i)
               | None \<Rightarrow> create_response_slot react (\<not> keep_alive) (msg_method message = method_head) s) of
           (s, None) \<Rightarrow> s
         | (s, Some i) \<Rightarrow>
             with_dispatch react (\<lambda>s.
               if mr_handler route = None then dispatch_unrouted react (msg_method message) path i s
               else dispatch_routed react route (msg_body message) i
                      (configure_response_observation i (routed_request message (msg_body message) route path)
                         (ms_on_response (mr_state route)) s)) s)"

definition handle_message :: "react \<Rightarrow> http1_message \<Rightarrow> session \<Rightarrow> session" where
  "handle_message react message s =
     (let path = parse_route_path (fst (split_path_query (msg_target message)))
      in if \<not> valid path then send_error 400 False s
         else handle_buffered_message react message (match_request_route (msg_method message) path s) path None s)"

definition dispatch_stream_request :: "react \<Rightarrow> active_request \<Rightarrow> nat \<Rightarrow> session \<Rightarrow> session" where
  "dispatch_stream_request react a i s =
     with_dispatch react (\<lambda>s.
       let failed = (\<lambda>s. reject_active (ar_id a) (handle_exception react i (ms_exception (mr_state (ar_route a))) s))
       in case run_hooks react (ms_pre_handler (mr_state (ar_route a))) i s of
            (s, Hooks_stopped) \<Rightarrow> reject_active (ar_id a) (finish_response_if_needed react i s)
          | (s, Hooks_threw) \<Rightarrow> failed s
          | (s, Hooks_done) \<Rightarrow>
              (case react (Call_handler (the (mr_handler (ar_route a))) i [] (Some (ar_body a))) (check_active (ar_id a) s) of
                 (s, out) \<Rightarrow> if out = Threw then failed s else s)) s"

section \<open>Parser events\<close>

definition new_active :: "http1_message \<Rightarrow> match_result \<Rightarrow> route_path \<Rightarrow> request \<Rightarrow> session \<Rightarrow> active_request" where
  "new_active message route path req s =
     \<lparr>ar_id = ss_requests s, ar_headers = message, ar_route = route, ar_parsed_path = path, ar_req = req,
      ar_body = length (ss_bodies s), ar_slot = None, ar_received = 0, ar_rejected = False\<rparr>"

definition set_active :: "active_request \<Rightarrow> session \<Rightarrow> session" where
  "set_active a s =
     s\<lparr>ss_active := Some a, ss_requests := ss_requests s + 1, ss_bodies := ss_bodies s @ [new_body_stream]\<rparr>"

definition handle_headers :: "react \<Rightarrow> http1_message \<Rightarrow> session \<Rightarrow> session" where
  "handle_headers react message s =
     (let s = stop_timeout s; path = parse_route_path (fst (split_path_query (msg_target message)))
      in if \<not> valid path then
           send_error 400 False
             (set_active ((new_active message no_match empty_route_path
                (make_request method_unknown [] [] [] [] [] [] []) s)\<lparr>ar_rejected := True\<rparr>) s)
         else
           let route = match_request_route (msg_method message) path s;
               req = routed_request message [] route path;
               a = new_active message route path req s;
               k = ar_id a;
               head = (rq_method req = method_head);
               s = set_active a s
           in if mr_handler route = None \<or> \<not> is_streaming_body_mode (mr_body route) then
                if mr_handler route \<noteq> None \<and> mr_body route = body_none \<and> request_has_body message
                then send_error 400 False (reject_active k s)
                else
                  let s = start_body_timeout_if_needed s
                  in if mr_handler route = None then s
                     else
                       let keep_alive = so_keep_alive (ss_options s) \<and> msg_keep_alive message \<and> \<not> request_has_body message
                       in (case run_on_request_hooks react a (\<not> keep_alive) head s of
                             (s, goes_on) \<Rightarrow> if goes_on then s else stop_timeout s)
              else
                let keep_alive = so_keep_alive (ss_options s) \<and> msg_keep_alive message;
                    s = start_body_timeout_if_needed s
                in case create_response_slot react (\<not> keep_alive) head s of
                     (s, None) \<Rightarrow> stop_timeout (reject_active k s)
                   | (s, Some i) \<Rightarrow>
                       let s = configure_response_observation i req (ms_on_response (mr_state route)) (set_active_slot i s)
                       in (case run_on_request_hooks react (a\<lparr>ar_slot := Some i\<rparr>) (\<not> keep_alive) head s of
                             (s, goes_on) \<Rightarrow>
                               if goes_on then dispatch_stream_request react a i s else stop_timeout s))"

text \<open>An event of a body stream for the application or for the session itself.\<close>

definition upd_body :: "nat \<Rightarrow> (body_stream \<Rightarrow> body_stream) \<Rightarrow> session \<Rightarrow> session" where
  "upd_body b f s = s\<lparr>ss_bodies := (ss_bodies s)[b := f (ss_bodies s ! b)]\<rparr>"

definition emit_body :: "react \<Rightarrow> nat \<Rightarrow> (body_stream \<Rightarrow> body_stream \<times> body_event list) \<Rightarrow> session \<Rightarrow> session" where
  "emit_body react b f s =
     (let r = f (ss_bodies s ! b)
      in foldl (\<lambda>s ev. fst (react (Call_body b ev) s)) (upd_body b (\<lambda>_. fst r) s) (snd r))"

definition handle_body_chunk :: "react \<Rightarrow> string \<Rightarrow> session \<Rightarrow> session" where
  "handle_body_chunk react chunk s =
     (case ss_active s of
        None \<Rightarrow> s
      | Some a \<Rightarrow>
          if ar_rejected a then s
          else
            let s = refresh_body_timeout s;
                received = ar_received a + length chunk;
                s = s\<lparr>ss_active := Some (a\<lparr>ar_received := received\<rparr>)\<rparr>;
                streaming = is_streaming_body_mode (mr_body (ar_route a))
            in if mr_handler (ar_route a) \<noteq> None \<and> received > route_body_limit (ar_route a) s then
                 let s = stop_timeout (reject_active (ar_id a) s);
                     s = (if streaming then check_active (ar_id a) (emit_body react (ar_body a) (bs_emit_error ''message_size'') s)
                          else s)
                 in if streaming \<and> mr_body (ar_route a) = body_multipart_stream then s
                    else send_error 413 False s
               else if mr_handler (ar_route a) \<noteq> None \<and> streaming then
                 let s = check_active (ar_id a) (emit_body react (ar_body a) (bs_emit_data chunk) s)
                 in if bs_paused (ss_bodies s ! ar_body a) then s\<lparr>ss_paused := True\<rparr> else s
               else s)"

definition handle_message_complete :: "react \<Rightarrow> http1_message \<Rightarrow> session \<Rightarrow> session" where
  "handle_message_complete react message s =
     (case ss_active s of
        None \<Rightarrow> handle_message react message s
      | Some a \<Rightarrow>
          let s = stop_timeout (s\<lparr>ss_active := None\<rparr>)
          in if ar_rejected a then s
             else if mr_handler (ar_route a) \<noteq> None \<and> is_streaming_body_mode (mr_body (ar_route a))
             then emit_body react (ar_body a) bs_emit_end s
             else handle_buffered_message react message (ar_route a) (ar_parsed_path a) (ar_slot a) s)"

fun handle_event :: "react \<Rightarrow> http1_event \<Rightarrow> session \<Rightarrow> session" where
  "handle_event react (Headers_event m) s = handle_headers react m s"
| "handle_event react (Body_event chunk) s = handle_body_chunk react chunk s"
| "handle_event react (Complete_event m) s = handle_message_complete react m s"

fun is_complete_event :: "http1_event \<Rightarrow> bool" where
  "is_complete_event (Complete_event m) = True"
| "is_complete_event _ = False"

text \<open>
  The loop over the events, with the number of events not handled yet as fuel: every turn handles one, and no
  event is added meanwhile.
\<close>

fun events_loop :: "react \<Rightarrow> bool \<Rightarrow> nat \<Rightarrow> session \<Rightarrow> session" where
  "events_loop react stop_before_complete 0 s = s"
| "events_loop react stop_before_complete (Suc n) s =
     (let events = h1_events (ss_parser s)
      in if ss_closed s \<or> ss_paused s \<or> \<not> ss_handled s < length events then s
         else if stop_before_complete \<and> is_complete_event (events ! ss_handled s) then s
         else events_loop react stop_before_complete n
                (handle_event react (events ! ss_handled s) (s\<lparr>ss_handled := ss_handled s + 1\<rparr>)))"

definition process_parser_events :: "react \<Rightarrow> bool \<Rightarrow> session \<Rightarrow> session" where
  "process_parser_events react stop_before_complete s =
     events_loop react stop_before_complete (length (h1_events (ss_parser s)) - ss_handled s) s"

section \<open>Pausing and upgrades\<close>

definition pause_request_body :: "session \<Rightarrow> session" where
  "pause_request_body s = (stop_timeout s)\<lparr>ss_paused := True, ss_reading := False\<rparr>"

definition start_read :: "session \<Rightarrow> session" where
  "start_read s = (if ss_closed s then s else s\<lparr>ss_reading := True\<rparr>)"

definition resume_request_body :: "react \<Rightarrow> session \<Rightarrow> session" where
  "resume_request_body react s =
     (if ss_closed s then s
      else
        let s = process_parser_events react False (start_body_timeout_if_needed (s\<lparr>ss_paused := False\<rparr>))
        in if \<not> ss_closed s \<and> \<not> ss_paused s then start_read s else s)"

definition accept_upgrade :: "string \<Rightarrow> nat \<Rightarrow> session \<Rightarrow> session" where
  "accept_upgrade response on_accept s =
     (let s = (close_timeout_timer s)\<lparr>ss_reading := False\<rparr>
      in sv_flush_next (s\<lparr>ss_writes := ss_writes s @ [\<lparr>sw_payload = response, sw_close_after = False,
           sw_counts_response = False, sw_upgrade = Some on_accept, sw_slot = None\<rparr>]\<rparr>))"

fun find_upgrade :: "(route_path \<times> handler) list \<Rightarrow> route_path \<Rightarrow> route_path_matching \<Rightarrow> (handler \<times> route_params) option" where
  "find_upgrade [] path m = None"
| "find_upgrade ((pat, h) # routes) path m =
     (case route_pattern_matches pat path m [] of
        (True, params) \<Rightarrow> Some (h, params)
      | (False, _) \<Rightarrow> find_upgrade routes path m)"

definition handle_upgrade :: "react \<Rightarrow> string \<Rightarrow> session \<Rightarrow> session" where
  "handle_upgrade react extra_bytes s =
     (case ss_active s of
        None \<Rightarrow> send_error 400 False s
      | Some a \<Rightarrow>
          let path = parse_route_path (fst (split_path_query (msg_target (ar_headers a))))
          in if \<not> valid path then send_error 400 False s
             else case find_upgrade (ss_upgrades s) path (so_route_path_matching (ss_options s)) of
                    None \<Rightarrow> send_error 404 False s
                  | Some (h, params) \<Rightarrow>
                      (case react (Call_upgrade h params extra_bytes) s of
                         (s, out) \<Rightarrow> if out = Threw then send_error 500 False s else s))"

section \<open>Callbacks of the stream and of the timer\<close>

definition sv_start :: "session \<Rightarrow> session" where
  "sv_start s = start_read (start_timeout phase_header (so_header_timeout (ss_options s)) s)"

definition header_timeout_on_read :: "session \<Rightarrow> session" where
  "header_timeout_on_read s =
     (if ss_phase s = phase_idle
      then start_timeout phase_header (so_header_timeout (ss_options s)) (stop_timeout s)
      else if ss_phase s = phase_none \<and> ss_active s = None
      then start_timeout phase_header (so_header_timeout (ss_options s)) s
      else s)"

datatype read_event = Read_eof | Read_error string | Read_bytes string "callback list" llhttp_end

definition sv_on_read :: "react \<Rightarrow> read_event \<Rightarrow> session \<Rightarrow> session" where
  "sv_on_read react ev s =
     (if ss_closed s \<or> ss_timeout_closing s then s
      else case ev of
             Read_eof \<Rightarrow> sv_close react (notify_stream_errors react ''connection_reset'' s)
           | Read_error e \<Rightarrow> sv_close react (notify_stream_errors react e s)
           | Read_bytes bytes cbs outcome \<Rightarrow>
               let s = header_timeout_on_read s;
                   (p, r) = h1_parse cbs outcome bytes (ss_parser s);
                   s = s\<lparr>ss_parser := p\<rparr>
               in (case pr_code r of
                     parse_error \<Rightarrow> send_error 400 False (stop_timeout s)
                   | parse_upgrade \<Rightarrow>
                       handle_upgrade react (drop (min (pr_parsed_bytes r) (length bytes)) bytes)
                         (process_parser_events react True s)
                   | parse_ok \<Rightarrow> process_parser_events react False s))"

definition sv_on_write :: "react \<Rightarrow> string option \<Rightarrow> session \<Rightarrow> session" where
  "sv_on_write react e s =
     (let s = s\<lparr>ss_writing := False\<rparr>
      in if ss_closed s then s
         else case e of
                Some e \<Rightarrow> sv_close react (cancel_pending_responses react Outcome_error (notify_stream_errors react e s))
              | None \<Rightarrow>
                  (case ss_writes s of
                     [] \<Rightarrow> maybe_start_idle_timeout (sv_flush_next (notify_drains react s))
                   | w # ws \<Rightarrow>
                       let s = s\<lparr>ss_pending_bytes := ss_pending_bytes s - min (ss_pending_bytes s) (length (sw_payload w)),
                             ss_pending_responses := (if sw_counts_response w \<and> ss_pending_responses s > 0
                               then ss_pending_responses s - 1 else ss_pending_responses s),
                             ss_writes := ws, ss_sent := ss_sent s @ [w]\<rparr>
                       in (case sw_upgrade w of
                             Some cb \<Rightarrow> fst (react (Call_upgraded cb) (s\<lparr>ss_closed := True, ss_removed := True\<rparr>))
                           | None \<Rightarrow>
                               let s = notify_drains react s
                               in if sw_close_after w then sv_close react s
                                  else maybe_start_idle_timeout (sv_flush_next s))))"

definition sv_on_timeout :: "react \<Rightarrow> timeout_phase \<Rightarrow> session \<Rightarrow> session" where
  "sv_on_timeout react phase s =
     (if ss_closed s \<or> ss_timer_closed s \<or> phase \<noteq> ss_phase s then s
      else
        let s = s\<lparr>ss_timer_active := False, ss_phase := phase_none\<rparr>
        in case phase of
             phase_header \<Rightarrow> send_error 408 False (s\<lparr>ss_timeout_closing := True, ss_reading := False\<rparr>)
           | phase_body \<Rightarrow>
               let s = s\<lparr>ss_timeout_closing := True\<rparr>;
                   s = (case ss_active s of
                          Some a \<Rightarrow>
                            if mr_handler (ar_route a) \<noteq> None \<and> is_streaming_body_mode (mr_body (ar_route a))
                            then emit_body react (ar_body a) (bs_emit_error ''timed_out'') s else s
                        | None \<Rightarrow> s)
               in sv_close react (cancel_pending_responses react Outcome_error (notify_stream_errors react ''timed_out'' s))
           | phase_idle \<Rightarrow> sv_close react s
           | phase_none \<Rightarrow> s)"

text \<open>The close callback of the stream.\<close>

definition sv_on_closed :: "session \<Rightarrow> session" where
  "sv_on_closed s = s\<lparr>ss_removed := True\<rparr>"

end
