(* ===== verification/Server_Run.thy ===== *)
theory Server_Run
  imports Server_Dispatch
begin

text \<open>
  Runs of a server session. An application is a function that says, for every piece of its code the session
  runs and for the state it finds, what that code does and how it ends: it is arbitrary, so the list of actions
  covers code that decides as it goes. Application code that is run while other application code is running
  nests; \<open>react_depth d\<close> is the reaction of an application that nests at most \<open>d\<close> deep, and all that is proved
  holds for every \<open>d\<close>.
\<close>

section \<open>Actions of an application\<close>

datatype app_action =
    Do_op nat res_op
  | Try_op nat res_op
  | Write_chunk nat string
  | Send_event nat sse_event
  | End_stream nat
  | Listen_body nat
  | Pause_body nat
  | Resume_body nat
  | Close_server
  | Accept_upgrade string nat

definition stream_write_action :: "react \<Rightarrow> nat \<Rightarrow> string \<Rightarrow> session \<Rightarrow> session" where
  "stream_write_action react i chunk s =
     fst (streaming_write (Some (\<lambda>s c. write_stream_chunk react i c s)) (sl_res (slot s i)) s chunk)"

definition pause_body_action :: "nat \<Rightarrow> session \<Rightarrow> session" where
  "pause_body_action b s =
     (let r = bs_pause (ss_bodies s ! b); s = upd_body b (\<lambda>_. fst r) s
      in if snd r = [] then s else pause_request_body s)"

definition resume_body_action :: "react \<Rightarrow> nat \<Rightarrow> session \<Rightarrow> session" where
  "resume_body_action react b s =
     (let r = bs_resume (ss_bodies s ! b); s = upd_body b (\<lambda>_. fst r) s
      in if snd r = [] then s else resume_request_body react s)"

text \<open>
  A handle to a slot or to a body the application has not been given yet does nothing. \<open>Try_op\<close> is an operation
  whose exception the application catches.
\<close>

fun perform :: "react \<Rightarrow> app_action \<Rightarrow> session \<Rightarrow> session \<times> bool" where
  "perform react (Do_op i op) s =
     (if i < length (ss_slots s) \<and> public_op op then do_op react i op s else (s, False))"
| "perform react (Try_op i op) s =
     (if i < length (ss_slots s) \<and> public_op op then (fst (do_op react i op s), False) else (s, False))"
| "perform react (Write_chunk i chunk) s =
     (if i < length (ss_slots s) then (stream_write_action react i chunk s, False) else (s, False))"
| "perform react (Send_event i ev) s =
     (if i < length (ss_slots s)
      then (case sse_send ev of None \<Rightarrow> s | Some frame \<Rightarrow> stream_write_action react i frame s, False) else (s, False))"
| "perform react (End_stream i) s =
     (if i < length (ss_slots s) \<and> stream_lock (sl_res (slot s i)) then (end_stream react i s, False) else (s, False))"
| "perform react (Listen_body b) s =
     (if b < length (ss_bodies s)
      then (upd_body b (\<lambda>x. bs_set_on_data (bs_set_on_end (bs_set_on_error x))) s, False) else (s, False))"
| "perform react (Pause_body b) s =
     (if b < length (ss_bodies s) then (pause_body_action b s, False) else (s, False))"
| "perform react (Resume_body b) s =
     (if b < length (ss_bodies s) then (resume_body_action react b s, False) else (s, False))"
| "perform react Close_server s = (sv_close react s, False)"
| "perform react (Accept_upgrade response cb) s = (accept_upgrade response cb s, False)"

fun run_actions :: "react \<Rightarrow> app_action list \<Rightarrow> session \<Rightarrow> session \<times> bool" where
  "run_actions react [] s = (s, False)"
| "run_actions react (a # as) s =
     (case perform react a s of (s, threw) \<Rightarrow> if threw then (s, True) else run_actions react as s)"

type_synonym app = "app_call \<Rightarrow> session \<Rightarrow> app_action list \<times> app_outcome"

definition log_call :: "app_call \<Rightarrow> session \<Rightarrow> session" where
  "log_call c s = s\<lparr>ss_calls := ss_calls s @ [c]\<rparr>"

fun react_depth :: "nat \<Rightarrow> app \<Rightarrow> react" where
  "react_depth 0 app c s = (log_call c s, Returned)"
| "react_depth (Suc d) app c s =
     (let s = log_call c s; (acts, out) = app c s; (s, threw) = run_actions (react_depth d app) acts s
      in (s, if threw then Threw else out))"

section \<open>Events\<close>

text \<open>
  What happens to a session from outside: data and the end of writes from the stream, the timer, the application
  acting on its own (a deferred response, a stream), and the stream closing.
\<close>

datatype server_event =
    Ev_read read_event
  | Ev_written "string option"
  | Ev_timeout timeout_phase
  | Ev_app "app_action list"
  | Ev_closed

fun sv_step :: "nat \<Rightarrow> app \<Rightarrow> session \<Rightarrow> server_event \<Rightarrow> session" where
  "sv_step d app s (Ev_read ev) = sv_on_read (react_depth d app) ev s"
| "sv_step d app s (Ev_written e) = (if ss_writing s then sv_on_write (react_depth d app) e s else s)"
| "sv_step d app s (Ev_timeout phase) = (if ss_timer_active s then sv_on_timeout (react_depth d app) phase s else s)"
| "sv_step d app s (Ev_app acts) = fst (run_actions (react_depth d app) acts s)"
| "sv_step d app s Ev_closed = (if ss_closed s then sv_on_closed s else s)"

section \<open>A server\<close>

text \<open>
  The sessions of a server, \<open>server::impl\<close>, by the number of their connection. Listeners are started with the
  server and accept until it is closed.
\<close>

record server =
  srv_options :: server_options
  srv_router :: router
  srv_not_found :: "handler option"
  srv_exception :: "handler option"
  srv_upgrades :: "(route_path \<times> handler) list"
  srv_sessions :: "(nat \<times> session) list"
  srv_accepted :: nat
  srv_listening :: bool

definition new_server :: "server_options \<Rightarrow> string + server" where
  "new_server options =
     (case validate options of
        Inl e \<Rightarrow> Inl e
      | Inr _ \<Rightarrow>
          Inr \<lparr>srv_options = options, srv_router = new_router (so_route_path_matching options), srv_not_found = None,
               srv_exception = None, srv_upgrades = [], srv_sessions = [], srv_accepted = 0, srv_listening = False\<rparr>)"

definition add_upgrade_route :: "string \<Rightarrow> handler \<Rightarrow> server \<Rightarrow> string + server" where
  "add_upgrade_route pattern h srv =
     (let parsed_pattern = parse_route_path pattern
      in if \<not> valid parsed_pattern then Inl ''HTTP upgrade route pattern contains invalid percent encoding''
         else Inr (srv\<lparr>srv_upgrades := srv_upgrades srv @ [(parsed_pattern, h)]\<rparr>))"

definition add_listener :: "server \<Rightarrow> server" where
  "add_listener srv = srv\<lparr>srv_listening := True\<rparr>"

definition server_accept :: "server \<Rightarrow> server" where
  "server_accept srv =
     (let accepted = new_session (srv_options srv) (srv_router srv) (srv_not_found srv) (srv_exception srv) (srv_upgrades srv)
      in srv\<lparr>srv_sessions := srv_sessions srv @ [(srv_accepted srv, sv_start accepted)],
             srv_accepted := srv_accepted srv + 1\<rparr>)"

definition server_deliver :: "nat \<Rightarrow> app \<Rightarrow> nat \<Rightarrow> server_event \<Rightarrow> server \<Rightarrow> server" where
  "server_deliver d app k ev srv =
     srv\<lparr>srv_sessions := map (\<lambda>(j, s). (j, if j = k then sv_step d app s ev else s)) (srv_sessions srv)\<rparr>"

definition remove_sessions :: "server \<Rightarrow> server" where
  "remove_sessions srv = srv\<lparr>srv_sessions := filter (\<lambda>(k, s). \<not> ss_removed s) (srv_sessions srv)\<rparr>"

definition server_close :: "nat \<Rightarrow> app \<Rightarrow> server \<Rightarrow> server" where
  "server_close d app srv =
     srv\<lparr>srv_listening := False, srv_sessions := map (\<lambda>(k, s). (k, sv_close (react_depth d app) s)) (srv_sessions srv)\<rparr>"

end
