(* ===== verification/Server_Invariant.thy ===== *)
theory Server_Invariant
  imports Server_Run
begin

text \<open>
  The invariant of a server session. It relates the queue of writes to the slots: writes are in the order of the
  requests, the bytes queued for a slot are exactly its response, the counters say what is pending, and a write
  is in flight only when there is one. The operations are proved to keep it for every reaction of the application
  that does, in a locale; the reaction of an arbitrary application is an instance.
\<close>

section \<open>What the writes say\<close>

definition tags :: "server_write list \<Rightarrow> nat list" where
  "tags ws = List.map_filter sw_slot ws"

definition bytes_of :: "nat \<Rightarrow> server_write list \<Rightarrow> string" where
  "bytes_of i ws = concat (map sw_payload (filter (\<lambda>w. sw_slot w = Some i) ws))"

lemma tags_simps [simp]:
  "tags [] = []" "tags (w # ws) = (case sw_slot w of None \<Rightarrow> tags ws | Some i \<Rightarrow> i # tags ws)"
  "tags (ws @ ws') = tags ws @ tags ws'"
  by (simp_all add: tags_def List.map_filter_def split: option.splits)

lemma bytes_of_simps [simp]:
  "bytes_of i [] = []" "bytes_of i (w # ws) = (if sw_slot w = Some i then sw_payload w else []) @ bytes_of i ws"
  "bytes_of i (ws @ ws') = bytes_of i ws @ bytes_of i ws'"
  by (simp_all add: bytes_of_def)

lemma bytes_of_other: "\<forall>w\<in>set ws. sw_slot w = Some j \<Longrightarrow> i \<noteq> j \<Longrightarrow> bytes_of i ws = []"
  by (induction ws) auto

lemma tags_same: "\<forall>w\<in>set ws. sw_slot w = Some i \<Longrightarrow> tags ws = replicate (length ws) i"
  by (induction ws) auto

definition payload_bytes :: "server_write list \<Rightarrow> nat" where
  "payload_bytes ws = sum_list (map (\<lambda>w. if sw_upgrade w = None then length (sw_payload w) else 0) ws)"

lemma payload_bytes_simps [simp]:
  "payload_bytes [] = 0"
  "payload_bytes (w # ws) = (if sw_upgrade w = None then length (sw_payload w) else 0) + payload_bytes ws"
  "payload_bytes (ws @ ws') = payload_bytes ws + payload_bytes ws'"
  by (simp_all add: payload_bytes_def)

text \<open>The bytes a slot is to be sent as.\<close>

definition stream_head :: "server_options \<Rightarrow> response_slot \<Rightarrow> string" where
  "stream_head opts sl =
     serialize_response_head (sl_committed sl) (\<not> sl_close_after sl) opts (sl_chunked sl) (sl_suppress_body sl)"

definition stream_body :: "response_slot \<Rightarrow> string" where
  "stream_body sl = (if sl_chunked sl then concat (map serialize_chunk (sl_written sl)) else concat (sl_written sl))"

definition stream_tail :: "response_slot \<Rightarrow> string" where
  "stream_tail sl = (if sl_stream_ended sl \<and> \<not> sl_suppress_body sl \<and> sl_chunked sl then ''0'' @ crlf @ crlf else [])"

definition slot_bytes :: "server_options \<Rightarrow> response_slot \<Rightarrow> string" where
  "slot_bytes opts sl =
     (if sl_streaming sl then if sl_headers_queued sl then stream_head opts sl @ stream_body sl @ stream_tail sl else []
      else if sl_flushed sl then serialize_response (sl_committed sl) (\<not> sl_close_after sl) opts (sl_suppress_body sl)
      else [])"

section \<open>The invariant\<close>

definition slot_ok :: "nat \<Rightarrow> response_slot \<Rightarrow> bool" where
  "slot_ok i sl \<longleftrightarrow>
     (\<forall>w\<in>set (sl_writes sl). sw_slot w = Some i \<and> \<not> sw_counts_response w \<and> sw_upgrade w = None) \<and>
     (\<not> sl_streaming sl \<longrightarrow> \<not> sl_headers_queued sl \<and> \<not> sl_stream_ended sl \<and> sl_writes sl = []) \<and>
     (\<not> sl_headers_queued sl \<longrightarrow> sl_written sl = [] \<and> \<not> sl_stream_ended sl) \<and>
     (sl_headers_queued sl \<longrightarrow> sl_chunked sl = (\<not> headers_contains (rs_headers (sl_committed sl)) ''content-length'')) \<and>
     (sl_flushed sl \<longrightarrow> sl_completed sl \<and> \<not> sl_streaming sl) \<and>
     (sl_suppress_body sl \<longrightarrow> sl_written sl = []) \<and> (\<forall>p\<in>set (sl_written sl). p \<noteq> [])"

definition order_inv :: "session \<Rightarrow> bool" where
  "order_inv s \<longleftrightarrow>
     sorted_wrt (<) (ss_responses s) \<and> (\<forall>i\<in>set (ss_responses s). i < length (ss_slots s)) \<and>
     sorted (tags (ss_sent s @ ss_writes s)) \<and>
     (\<forall>t\<in>set (tags (ss_sent s @ ss_writes s)). t < length (ss_slots s) \<and> (\<forall>i\<in>set (ss_responses s). t \<le> i))"

definition slots_inv :: "session \<Rightarrow> bool" where
  "slots_inv s \<longleftrightarrow>
     (\<forall>i < length (ss_slots s). slot_ok i (slot s i) \<and> (i \<in> set (ss_responses s) \<longrightarrow> \<not> sl_flushed (slot s i)) \<and>
        bytes_of i (ss_sent s @ ss_writes s) @ bytes_of i (sl_writes (slot s i)) = slot_bytes (ss_options s) (slot s i))"

definition stream_bytes_pending :: "session \<Rightarrow> nat" where
  "stream_bytes_pending s = sum_list (map (\<lambda>i. payload_bytes (sl_writes (slot s i))) (ss_responses s))"

definition count_inv :: "session \<Rightarrow> bool" where
  "count_inv s \<longleftrightarrow>
     ss_pending_responses s = length (filter sw_counts_response (ss_writes s)) \<and>
     length (ss_responses s) + ss_pending_responses s \<le> so_max_pending_responses (ss_options s) \<and>
     (\<not> ss_closed s \<longrightarrow> payload_bytes (ss_writes s) + stream_bytes_pending s \<le> ss_pending_bytes s)"

definition writing_inv :: "session \<Rightarrow> bool" where
  "writing_inv s \<longleftrightarrow> (ss_writing s \<longrightarrow> ss_closed s \<or> ss_writes s \<noteq> [])"

definition sv_inv :: "session \<Rightarrow> bool" where
  "sv_inv s \<longleftrightarrow> order_inv s \<and> slots_inv s \<and> count_inv s \<and> writing_inv s"

lemma new_session_inv: "sv_inv (new_session options routes nf exc upgrades)"
  by (simp add: sv_inv_def order_inv_def slots_inv_def count_inv_def writing_inv_def stream_bytes_pending_def new_session_def)

text \<open>Nothing waits although it could be sent.\<close>

definition write_started :: "session \<Rightarrow> bool" where
  "write_started s \<longleftrightarrow> ss_closed s \<or> ss_writes s = [] \<or> ss_writing s"

definition front_pending :: "session \<Rightarrow> bool" where
  "front_pending s \<longleftrightarrow> ss_dispatching s \<or> ss_responses s = [] \<or> \<not> sl_completed (slot s (hd (ss_responses s)))"

section \<open>Steps\<close>

definition slot_grows :: "response_slot \<Rightarrow> response_slot \<Rightarrow> bool" where
  "slot_grows sl sl' \<longleftrightarrow>
     (sl_completed sl \<longrightarrow> sl_completed sl') \<and> (sl_streaming sl \<longrightarrow> sl_streaming sl') \<and>
     (sl_hooks_ran sl \<longrightarrow> sl_hooks_ran sl') \<and> (sl_stream_ended sl \<longrightarrow> sl_stream_ended sl') \<and>
     (sl_flushed sl \<longrightarrow> sl_flushed sl') \<and>
     sl_close_after sl' = sl_close_after sl \<and> sl_suppress_body sl' = sl_suppress_body sl"

definition grows :: "session \<Rightarrow> session \<Rightarrow> bool" where
  "grows s s' \<longleftrightarrow>
     ss_options s' = ss_options s \<and> length (ss_slots s) \<le> length (ss_slots s') \<and>
     (\<forall>i < length (ss_slots s). slot_grows (slot s i) (slot s' i)) \<and>
     (ss_closed s \<longrightarrow> ss_closed s') \<and>
     h1_events (ss_parser s') = h1_events (ss_parser s) \<and> ss_handled s \<le> ss_handled s'"

definition steps0 :: "session \<Rightarrow> session \<Rightarrow> bool" where
  "steps0 s s' \<longleftrightarrow> sv_inv s' \<and> grows s s' \<and> (ss_dispatching s' \<longrightarrow> ss_dispatching s)"

definition steps :: "session \<Rightarrow> session \<Rightarrow> bool" where
  "steps s s' \<longleftrightarrow> steps0 s s' \<and> (write_started s \<longrightarrow> write_started s') \<and> (front_pending s \<longrightarrow> front_pending s')"

lemma slot_grows_refl [simp]: "slot_grows sl sl"
  by (simp add: slot_grows_def)

lemma grows_refl [simp]: "grows s s"
  by (simp add: grows_def)

lemma slot_grows_trans: "slot_grows a b \<Longrightarrow> slot_grows b c \<Longrightarrow> slot_grows a c"
  by (simp add: slot_grows_def)

lemma grows_trans: "grows s t \<Longrightarrow> grows t u \<Longrightarrow> grows s u"
  by (auto simp: grows_def intro: slot_grows_trans)

lemma steps_refl: "sv_inv s \<Longrightarrow> steps s s"
  by (simp add: steps_def steps0_def)

lemma steps0_trans: "steps0 s t \<Longrightarrow> steps0 t u \<Longrightarrow> steps0 s u"
  by (auto simp: steps0_def intro: grows_trans)

lemma steps_trans: "steps s t \<Longrightarrow> steps t u \<Longrightarrow> steps s u"
  by (auto simp: steps_def intro: steps0_trans)

lemma steps_inv: "steps s s' \<Longrightarrow> sv_inv s'" and steps_steps0: "steps s s' \<Longrightarrow> steps0 s s'"
  and steps0_inv: "steps0 s s' \<Longrightarrow> sv_inv s'"
  by (simp_all add: steps_def steps0_def)

lemma steps0_slots: "steps0 s s' \<Longrightarrow> i < length (ss_slots s) \<Longrightarrow> i < length (ss_slots s')"
  and steps_slots: "steps s s' \<Longrightarrow> i < length (ss_slots s) \<Longrightarrow> i < length (ss_slots s')"
  by (simp_all add: steps_def steps0_def grows_def)

text \<open>Changes of fields the invariant does not look at.\<close>

definition core_eq :: "session \<Rightarrow> session \<Rightarrow> bool" where
  "core_eq s s' \<longleftrightarrow>
     ss_options s' = ss_options s \<and> ss_pending_responses s' = ss_pending_responses s \<and>
     ss_pending_bytes s' = ss_pending_bytes s \<and> ss_slots s' = ss_slots s \<and> ss_responses s' = ss_responses s \<and>
     ss_writes s' = ss_writes s \<and> ss_sent s' = ss_sent s \<and> ss_writing s' = ss_writing s \<and> ss_closed s' = ss_closed s \<and>
     h1_events (ss_parser s') = h1_events (ss_parser s) \<and> ss_handled s \<le> ss_handled s'"

lemma core_eq_inv: "core_eq s s' \<Longrightarrow> sv_inv s' = sv_inv s"
  by (simp add: core_eq_def sv_inv_def order_inv_def slots_inv_def count_inv_def writing_inv_def stream_bytes_pending_def)

lemma core_eq_steps: "sv_inv s \<Longrightarrow> core_eq s s' \<Longrightarrow> ss_dispatching s' = ss_dispatching s \<Longrightarrow> steps s s'"
  using core_eq_inv [of s s']
  by (simp add: steps_def steps0_def grows_def write_started_def front_pending_def core_eq_def)

section \<open>Changes of a slot\<close>

lemma pending_update_other:
  "i \<notin> set js \<Longrightarrow>
    (\<Sum>j\<leftarrow>js. payload_bytes (sl_writes (xs[i := sl] ! j))) = (\<Sum>j\<leftarrow>js. payload_bytes (sl_writes (xs ! j)))"
  by (induction js) auto

text \<open>A slot may change in any way that queues as many bytes as its response grows by.\<close>

lemma slot_change_steps0:
  assumes inv: "sv_inv s" and i: "i < length (ss_slots s)" and ok: "slot_ok i sl" and g: "slot_grows (slot s i) sl"
    and fl: "sl_flushed sl = sl_flushed (slot s i)" and ws: "sl_writes sl = sl_writes (slot s i) @ ws"
    and bytes: "slot_bytes (ss_options s) sl = slot_bytes (ss_options s) (slot s i) @ bytes_of i ws"
    and n: "ss_pending_bytes s + payload_bytes ws \<le> n"
  shows "steps0 s (s\<lparr>ss_pending_bytes := n, ss_slots := (ss_slots s)[i := sl]\<rparr>)"
proof -
  let ?s = "s\<lparr>ss_pending_bytes := n, ss_slots := (ss_slots s)[i := sl]\<rparr>"
  have "slots_inv ?s"
    using inv ok fl ws bytes i by (auto simp: sv_inv_def slots_inv_def nth_list_update)
  moreover have "stream_bytes_pending ?s \<le> stream_bytes_pending s + payload_bytes ws"
  proof -
    have "sum_list (map (\<lambda>j. payload_bytes (sl_writes (slot ?s j))) is) \<le>
        sum_list (map (\<lambda>j. payload_bytes (sl_writes (slot s j))) is) + payload_bytes ws"
      if "distinct is" for "is"
      using that
    proof (induction "is")
      case (Cons j js)
      show ?case
      proof (cases "j = i")
        case True
        then show ?thesis using Cons.prems i ws by (simp add: pending_update_other)
      next
        case False
        then show ?thesis using Cons by simp
      qed
    qed simp
    moreover have "distinct (ss_responses s)"
      using inv by (simp add: sv_inv_def order_inv_def strict_sorted_iff)
    ultimately show ?thesis by (simp add: stream_bytes_pending_def)
  qed
  then have "count_inv ?s" using inv n by (auto simp: sv_inv_def count_inv_def)
  ultimately have "sv_inv ?s" using inv by (simp add: sv_inv_def order_inv_def writing_inv_def)
  moreover have "grows s ?s" using g i by (auto simp: grows_def nth_list_update)
  ultimately show ?thesis by (simp add: steps0_def)
qed

lemma slot_change_steps:
  assumes "sv_inv s" "i < length (ss_slots s)" "slot_ok i sl" "slot_grows (slot s i) sl"
    "sl_flushed sl = sl_flushed (slot s i)" "sl_writes sl = sl_writes (slot s i) @ ws"
    "slot_bytes (ss_options s) sl = slot_bytes (ss_options s) (slot s i) @ bytes_of i ws"
    "ss_pending_bytes s + payload_bytes ws \<le> n" "sl_completed sl = sl_completed (slot s i)"
  shows "steps s (s\<lparr>ss_pending_bytes := n, ss_slots := (ss_slots s)[i := sl]\<rparr>)"
  using slot_change_steps0 [OF assms(1-8)] assms(2,9)
  by (auto simp: steps_def write_started_def front_pending_def nth_list_update)

definition harmless :: "response_slot \<Rightarrow> response_slot \<Rightarrow> bool" where
  "harmless sl sl' \<longleftrightarrow>
     sl_writes sl' = sl_writes sl \<and> sl_streaming sl' = sl_streaming sl \<and> sl_headers_queued sl' = sl_headers_queued sl \<and>
     sl_chunked sl' = sl_chunked sl \<and> sl_stream_ended sl' = sl_stream_ended sl \<and> sl_flushed sl' = sl_flushed sl \<and>
     sl_committed sl' = sl_committed sl \<and> sl_written sl' = sl_written sl \<and> sl_close_after sl' = sl_close_after sl \<and>
     sl_suppress_body sl' = sl_suppress_body sl \<and> (sl_hooks_ran sl \<longrightarrow> sl_hooks_ran sl') \<and>
     (sl_completed sl \<longrightarrow> sl_completed sl')"

lemma harmless_change:
  assumes "harmless sl sl'"
  shows "slot_grows sl sl'" "slot_bytes opts sl' = slot_bytes opts sl" "slot_ok i sl \<Longrightarrow> slot_ok i sl'"
  using assms
  by (simp_all add: harmless_def slot_grows_def slot_bytes_def stream_head_def stream_body_def stream_tail_def slot_ok_def)

lemma sv_inv_slot_ok: "sv_inv s \<Longrightarrow> i < length (ss_slots s) \<Longrightarrow> slot_ok i (slot s i)"
  by (simp add: sv_inv_def slots_inv_def)

lemma same_pending [simp]: "s\<lparr>ss_pending_bytes := ss_pending_bytes s\<rparr> = s"
  by simp

lemma upd_slot_beyond: "\<not> i < length (ss_slots s) \<Longrightarrow> upd_slot i f s = s"
  by (simp add: upd_slot_def not_less list_update_beyond)

lemma upd_slot_steps0:
  assumes "sv_inv s" "harmless (slot s i) (f (slot s i))"
  shows "steps0 s (upd_slot i f s)"
proof (cases "i < length (ss_slots s)")
  case True
  then show ?thesis
    using slot_change_steps0 [OF assms(1) True, of "f (slot s i)" "[]" "ss_pending_bytes s"] harmless_change [OF assms(2)]
      sv_inv_slot_ok [OF assms(1) True] assms(2)
    by (simp add: upd_slot_def harmless_def)
next
  case False
  then show ?thesis using steps_refl [OF assms(1)] by (simp add: upd_slot_beyond steps_steps0)
qed

lemma upd_slot_steps:
  assumes "sv_inv s" "harmless (slot s i) (f (slot s i))" "sl_completed (f (slot s i)) = sl_completed (slot s i)"
  shows "steps s (upd_slot i f s)"
proof (cases "i < length (ss_slots s)")
  case True
  then show ?thesis using upd_slot_steps0 [of s i f] assms
    by (auto simp: steps_def write_started_def front_pending_def upd_slot_def nth_list_update)
next
  case False
  then show ?thesis using assms by (simp add: upd_slot_beyond steps_refl)
qed

lemma upd_res_steps: "sv_inv s \<Longrightarrow> steps s (upd_res i f s)"
  unfolding upd_res_def by (rule upd_slot_steps) (simp_all add: harmless_def)

section \<open>Writes\<close>

lemma flush_next_started: "write_started (sv_flush_next s)"
  by (simp add: write_started_def sv_flush_next_def)

lemma flush_next_steps: "sv_inv s \<Longrightarrow> steps s (sv_flush_next s)"
  by (auto simp: steps_def steps0_def sv_flush_next_def sv_inv_def order_inv_def slots_inv_def count_inv_def writing_inv_def
      stream_bytes_pending_def grows_def write_started_def front_pending_def)

lemma flush_next_steps_via:
  assumes "steps0 s t" and "front_pending s \<longrightarrow> front_pending t"
  shows "steps s (sv_flush_next t)"
proof -
  have "steps t (sv_flush_next t)" using assms by (simp add: flush_next_steps steps0_inv)
  then show ?thesis using assms flush_next_started [of t] steps0_trans [of s t] by (auto simp: steps_def)
qed

text \<open>A write that belongs to no slot: an error response or the answer to an upgrade.\<close>

lemma push_untagged_steps0:
  assumes inv: "sv_inv s" and w: "sw_slot w = None" "\<not> sw_counts_response w"
    and n: "ss_pending_bytes s + (if sw_upgrade w = None then length (sw_payload w) else 0) \<le> n"
  shows "steps0 s (s\<lparr>ss_pending_bytes := n, ss_writes := ss_writes s @ [w]\<rparr>)"
  using assms
  by (auto simp: steps0_def grows_def sv_inv_def order_inv_def slots_inv_def count_inv_def writing_inv_def
      stream_bytes_pending_def)

lemma enqueue_untagged_steps: "sv_inv s \<Longrightarrow> steps s (sv_enqueue payload close_after False None s)"
  unfolding sv_enqueue_def
  by (rule flush_next_steps_via, rule push_untagged_steps0) (simp_all add: front_pending_def)

lemma send_error_steps: "sv_inv s \<Longrightarrow> steps s (send_error n ka s)"
  by (simp add: send_error_def Let_def enqueue_untagged_steps)

text \<open>The writes of the first slot move to the queue.\<close>

lemma flush_stream_writes_steps:
  assumes inv: "sv_inv s" and r: "ss_responses s = i # rest"
  shows "steps s (flush_stream_writes i s)"
proof -
  let ?t = "upd_slot i (\<lambda>sl. sl\<lparr>sl_writes := []\<rparr>) (s\<lparr>ss_writes := ss_writes s @ sl_writes (slot s i)\<rparr>)"
  let ?ws = "sl_writes (slot s i)"
  have i: "i < length (ss_slots s)" and rest: "\<forall>j\<in>set rest. i < j" and le: "\<forall>t\<in>set (tags (ss_sent s @ ss_writes s)). t \<le> i"
    using inv r by (auto simp: sv_inv_def order_inv_def)
  have ok: "\<forall>w\<in>set ?ws. sw_slot w = Some i \<and> \<not> sw_counts_response w \<and> sw_upgrade w = None"
    using sv_inv_slot_ok [OF inv i] by (simp add: slot_ok_def)
  have tags: "tags ?ws = replicate (length ?ws) i" using ok by (intro tags_same) simp
  have sorted: "sorted (tags (ss_sent s @ ss_writes s))" using inv by (simp add: sv_inv_def order_inv_def)
  have "order_inv ?t"
    using inv sorted le rest i r
    by (auto simp: sv_inv_def order_inv_def upd_slot_def tags sorted_append sorted_replicate)
  moreover have "slots_inv ?t"
    unfolding slots_inv_def
  proof (intro allI impI)
    fix j
    assume "j < length (ss_slots ?t)"
    then have j: "j < length (ss_slots s)" by (simp add: upd_slot_def)
    have old: "slot_ok j (slot s j)" "j \<in> set (ss_responses s) \<longrightarrow> \<not> sl_flushed (slot s j)"
      "bytes_of j (ss_sent s @ ss_writes s) @ bytes_of j (sl_writes (slot s j)) = slot_bytes (ss_options s) (slot s j)"
      using inv j by (simp_all add: sv_inv_def slots_inv_def)
    have emptied: "slot_bytes opts (sl\<lparr>sl_writes := []\<rparr>) = slot_bytes opts sl" "slot_ok k sl \<Longrightarrow> slot_ok k (sl\<lparr>sl_writes := []\<rparr>)"
      for opts sl k
      by (simp_all add: slot_bytes_def stream_head_def stream_body_def stream_tail_def slot_ok_def)
    show "slot_ok j (slot ?t j) \<and> (j \<in> set (ss_responses ?t) \<longrightarrow> \<not> sl_flushed (slot ?t j)) \<and>
        bytes_of j (ss_sent ?t @ ss_writes ?t) @ bytes_of j (sl_writes (slot ?t j)) = slot_bytes (ss_options ?t) (slot ?t j)"
    proof (cases "j = i")
      case True
      then show ?thesis using old i by (simp add: upd_slot_def emptied)
    next
      case False
      have "bytes_of j ?ws = []" using ok False by (intro bytes_of_other [of _ i]) auto
      then show ?thesis using old False by (simp add: upd_slot_def)
    qed
  qed
  moreover have "count_inv ?t"
  proof -
    have "i \<notin> set rest" using rest by auto
    then have "stream_bytes_pending s = payload_bytes ?ws + stream_bytes_pending ?t"
      using r i by (simp add: stream_bytes_pending_def upd_slot_def pending_update_other)
    moreover have "filter sw_counts_response ?ws = []" using ok by (simp add: filter_empty_conv)
    ultimately show ?thesis using inv by (auto simp: sv_inv_def count_inv_def upd_slot_def)
  qed
  moreover have "writing_inv ?t" using inv by (auto simp: sv_inv_def writing_inv_def upd_slot_def)
  moreover have "grows s ?t" using i by (auto simp: grows_def upd_slot_def nth_list_update slot_grows_def)
  ultimately have "steps0 s ?t" by (simp add: steps0_def sv_inv_def upd_slot_def)
  moreover have "front_pending s \<longrightarrow> front_pending ?t" using r i by (auto simp: front_pending_def upd_slot_def)
  ultimately show ?thesis unfolding flush_stream_writes_def by (rule flush_next_steps_via)
qed

lemma pop_steps0: "sv_inv s \<Longrightarrow> ss_responses s = i # rest \<Longrightarrow> steps0 s (s\<lparr>ss_responses := rest\<rparr>)"
  by (auto simp: steps0_def grows_def sv_inv_def order_inv_def slots_inv_def count_inv_def writing_inv_def
      stream_bytes_pending_def)

lemma clear_steps: "sv_inv s \<Longrightarrow> steps s (s\<lparr>ss_responses := []\<rparr>)"
  by (auto simp: steps_def steps0_def grows_def sv_inv_def order_inv_def slots_inv_def count_inv_def writing_inv_def
      stream_bytes_pending_def write_started_def front_pending_def)

text \<open>A completed response that is not a stream leaves the deque as one write.\<close>

definition pop_buffered :: "nat \<Rightarrow> nat list \<Rightarrow> session \<Rightarrow> session" where
  "pop_buffered i rest s =
     (let sl = slot s i;
          s = s\<lparr>ss_responses := rest, ss_pending_responses := ss_pending_responses s + 1\<rparr>;
          s = upd_slot i (\<lambda>sl. sl\<lparr>sl_committed := sl_res sl, sl_flushed := True\<rparr>) s
      in sv_enqueue (serialize_response (sl_res sl) (\<not> sl_close_after sl) (ss_options s) (sl_suppress_body sl))
           (sl_close_after sl) True (Some i) s)"

lemma pop_buffered_steps0:
  assumes inv: "sv_inv s" and r: "ss_responses s = i # rest" and c: "sl_completed (slot s i)" and b: "\<not> sl_streaming (slot s i)"
  shows "steps0 s (pop_buffered i rest s) \<and> write_started (pop_buffered i rest s)"
proof -
  let ?p = "serialize_response (sl_res (slot s i)) (\<not> sl_close_after (slot s i)) (ss_options s) (sl_suppress_body (slot s i))"
  let ?w = "\<lparr>sw_payload = ?p, sw_close_after = sl_close_after (slot s i), sw_counts_response = True,
    sw_upgrade = None, sw_slot = Some i\<rparr>"
  let ?sl = "(slot s i)\<lparr>sl_committed := sl_res (slot s i), sl_flushed := True\<rparr>"
  let ?t = "s\<lparr>ss_responses := rest, ss_pending_responses := ss_pending_responses s + 1,
    ss_slots := (ss_slots s)[i := ?sl], ss_pending_bytes := ss_pending_bytes s + length ?p, ss_writes := ss_writes s @ [?w]\<rparr>"
  have i: "i < length (ss_slots s)" and rest: "\<forall>j\<in>set rest. i < j" and le: "\<forall>t\<in>set (tags (ss_sent s @ ss_writes s)). t \<le> i"
    using inv r by (auto simp: sv_inv_def order_inv_def)
  have ok: "slot_ok i (slot s i)" and nf: "\<not> sl_flushed (slot s i)"
    using inv i r by (auto simp: sv_inv_def slots_inv_def)
  have "order_inv ?t"
    using inv r i rest le by (auto simp: sv_inv_def order_inv_def sorted_append)
  moreover have "slots_inv ?t"
  proof -
    have "sl_writes (slot s i) = []" and "slot_ok i ?sl" using ok b c by (simp_all add: slot_ok_def)
    moreover have "bytes_of i (ss_sent s @ ss_writes s) = []"
      using inv i b nf ok by (fastforce simp: sv_inv_def slots_inv_def slot_bytes_def)
    ultimately show ?thesis
      using inv i b rest r by (auto simp: sv_inv_def slots_inv_def nth_list_update slot_bytes_def)
  qed
  moreover have "count_inv ?t"
  proof -
    have "i \<notin> set rest" using rest by auto
    then have "stream_bytes_pending s = payload_bytes (sl_writes (slot s i)) + stream_bytes_pending ?t"
      using r by (simp add: stream_bytes_pending_def pending_update_other)
    then show ?thesis using inv r by (auto simp: sv_inv_def count_inv_def)
  qed
  moreover have "writing_inv ?t" by (simp add: writing_inv_def)
  moreover have "grows s ?t" using i by (auto simp: grows_def nth_list_update slot_grows_def)
  ultimately have "steps0 s ?t" by (simp add: steps0_def sv_inv_def)
  moreover have "pop_buffered i rest s = sv_flush_next ?t"
    by (simp add: pop_buffered_def sv_enqueue_def upd_slot_def Let_def)
  ultimately show ?thesis using flush_next_started [of ?t] flush_next_steps [of ?t] steps0_trans [of s ?t]
    by (simp add: steps0_inv steps_steps0)
qed

end
