(* ===== verification/Server_Reactive.thy ===== *)
theory Server_Reactive
  imports Server_Invariant
begin

text \<open>
  Every operation of a session keeps the invariant, whatever application code it runs, as long as that code only
  acts on the session through its operations. The interface is the locale \<open>reactive\<close>; its instance is
  \<open>react_depth d app\<close>, for every application and every depth.
\<close>

section \<open>Composing steps\<close>

definition steps1 :: "session \<Rightarrow> session \<Rightarrow> bool" where
  "steps1 s s' \<longleftrightarrow> steps0 s s' \<and> (write_started s \<longrightarrow> write_started s')"

lemma steps1_trans: "steps1 s t \<Longrightarrow> steps1 t u \<Longrightarrow> steps1 s u"
  by (auto simp: steps1_def intro: steps0_trans)

lemma steps_steps1: "steps s t \<Longrightarrow> steps1 s t"
  by (simp add: steps_def steps1_def)

lemma steps1_steps: "steps1 s t \<Longrightarrow> front_pending t \<Longrightarrow> steps s t"
  by (simp add: steps_def steps1_def)

lemma steps1_inv: "steps1 s t \<Longrightarrow> sv_inv t"
  by (auto simp: steps1_def dest: steps0_inv)

lemma steps_bind: "steps s t \<Longrightarrow> (sv_inv t \<Longrightarrow> steps t u) \<Longrightarrow> steps s u"
  by (blast intro: steps_trans steps_inv)

lemma foldl_steps: "(\<And>s x. sv_inv s \<Longrightarrow> steps s (f s x)) \<Longrightarrow> sv_inv s \<Longrightarrow> steps s (foldl f s xs)"
proof (induction xs arbitrary: s)
  case Nil
  then show ?case by (simp add: steps_refl)
next
  case (Cons x xs)
  have "steps s (f s x)" using Cons.prems by blast
  moreover have "steps (f s x) (foldl f (f s x) xs)"
    using Cons.prems calculation by (intro Cons.IH) (auto dest: steps_inv)
  ultimately show ?case by (auto intro: steps_trans)
qed

lemma slots_loop_steps:
  assumes f: "\<And>i s. sv_inv s \<Longrightarrow> i < length (ss_slots s) \<Longrightarrow> steps s (f i s)"
  shows "sv_inv s \<Longrightarrow> \<forall>i\<in>set is. i < length (ss_slots s) \<Longrightarrow> steps s (slots_loop f is s)"
proof (induction "is" arbitrary: s)
  case Nil
  then show ?case by (simp add: steps_refl)
next
  case (Cons i "is")
  have st: "steps s (f i s)" using Cons.prems f by simp
  show ?case
  proof (cases "ss_responses (f i s) = ss_responses s")
    case True
    have "steps (f i s) (slots_loop f is (f i s))"
      using Cons.prems st by (intro Cons.IH) (auto dest: steps_inv steps_slots)
    then show ?thesis using True st by (auto simp: Let_def intro: steps_trans)
  next
    case False
    have "steps (f i s) ((f i s)\<lparr>ss_undefined := True\<rparr>)"
      using st by (intro core_eq_steps) (auto simp: core_eq_def dest: steps_inv)
    then show ?thesis using False st by (auto simp: Let_def intro: steps_trans)
  qed
qed

lemma sv_inv_responses: "sv_inv s \<Longrightarrow> \<forall>i\<in>set (ss_responses s). i < length (ss_slots s)"
  by (simp add: sv_inv_def order_inv_def)

lemma for_slots_steps:
  "(\<And>i s. sv_inv s \<Longrightarrow> i < length (ss_slots s) \<Longrightarrow> steps s (f i s)) \<Longrightarrow> sv_inv s \<Longrightarrow> steps s (for_slots f s)"
  unfolding for_slots_def by (rule slots_loop_steps) (simp_all add: sv_inv_responses)

lemma close_flag_steps: "sv_inv s \<Longrightarrow> steps s (s\<lparr>ss_closed := True\<rparr>)"
  by (auto simp: steps_def steps0_def grows_def sv_inv_def order_inv_def slots_inv_def count_inv_def writing_inv_def
      stream_bytes_pending_def write_started_def front_pending_def)

text \<open>Operations that do not touch the core.\<close>

lemma timeout_core [simp]:
  "core_eq s (stop_timeout s)" "core_eq s (start_timeout p n s)" "core_eq s (close_timeout_timer s)"
  "core_eq s (start_body_timeout_if_needed s)" "core_eq s (refresh_body_timeout s)" "core_eq s (maybe_start_idle_timeout s)"
  "core_eq s (pause_request_body s)" "core_eq s (start_read s)" "core_eq s (upd_body b f s)" "core_eq s (log_call c s)"
  "core_eq s (reject_active k s)" "core_eq s (check_active k s)" "core_eq s (set_active_slot i s)" "core_eq s (set_active a s)"
  "core_eq s (header_timeout_on_read s)" "core_eq s (sv_on_closed s)"
  by (auto simp: core_eq_def stop_timeout_def start_timeout_def close_timeout_timer_def start_body_timeout_if_needed_def
      refresh_body_timeout_def maybe_start_idle_timeout_def pause_request_body_def start_read_def upd_body_def log_call_def
      reject_active_def check_active_def set_active_slot_def set_active_def header_timeout_on_read_def sv_on_closed_def
      split: option.splits)

lemma timeout_dispatching [simp]:
  "ss_dispatching (stop_timeout s) = ss_dispatching s" "ss_dispatching (start_timeout p n s) = ss_dispatching s"
  "ss_dispatching (close_timeout_timer s) = ss_dispatching s"
  "ss_dispatching (start_body_timeout_if_needed s) = ss_dispatching s"
  "ss_dispatching (refresh_body_timeout s) = ss_dispatching s" "ss_dispatching (maybe_start_idle_timeout s) = ss_dispatching s"
  "ss_dispatching (pause_request_body s) = ss_dispatching s" "ss_dispatching (start_read s) = ss_dispatching s"
  "ss_dispatching (upd_body b f s) = ss_dispatching s" "ss_dispatching (log_call c s) = ss_dispatching s"
  "ss_dispatching (reject_active k s) = ss_dispatching s" "ss_dispatching (check_active k s) = ss_dispatching s"
  "ss_dispatching (set_active_slot i s) = ss_dispatching s" "ss_dispatching (set_active a s) = ss_dispatching s"
  "ss_dispatching (header_timeout_on_read s) = ss_dispatching s" "ss_dispatching (sv_on_closed s) = ss_dispatching s"
  by (auto simp: stop_timeout_def start_timeout_def close_timeout_timer_def start_body_timeout_if_needed_def
      refresh_body_timeout_def maybe_start_idle_timeout_def pause_request_body_def start_read_def upd_body_def log_call_def
      reject_active_def check_active_def set_active_slot_def set_active_def header_timeout_on_read_def sv_on_closed_def
      split: option.splits)

section \<open>Streams\<close>

lemma slot_bytes_pieces:
  "sl_streaming sl \<Longrightarrow> sl_headers_queued sl \<Longrightarrow>
    slot_bytes opts sl = stream_head opts sl @ stream_body sl @ stream_tail sl"
  by (simp add: slot_bytes_def)

lemma slot_ok_not_flushed: "slot_ok i sl \<Longrightarrow> \<not> sl_completed sl \<Longrightarrow> \<not> sl_flushed sl"
  by (auto simp: slot_ok_def)

lemma set_streaming_steps:
  assumes inv: "sv_inv s" and i: "i < length (ss_slots s)" and c: "\<not> sl_completed (slot s i)"
  shows "steps s (upd_slot i (\<lambda>sl. sl\<lparr>sl_streaming := True\<rparr>) s)"
proof -
  have ok: "slot_ok i (slot s i)" using sv_inv_slot_ok [OF inv i] .
  have nf: "\<not> sl_flushed (slot s i)" using slot_ok_not_flushed [OF ok c] .
  let ?sl = "(slot s i)\<lparr>sl_streaming := True\<rparr>"
  have "slot_ok i ?sl" using ok nf by (auto simp: slot_ok_def)
  moreover have "slot_bytes (ss_options s) ?sl = slot_bytes (ss_options s) (slot s i)"
    using ok nf by (auto simp: slot_bytes_def slot_ok_def stream_head_def stream_body_def stream_tail_def)
  ultimately show ?thesis
    using slot_change_steps [OF inv i, of ?sl "[]" "ss_pending_bytes s"] by (simp add: upd_slot_def slot_grows_def)
qed

definition head_slot :: "server_options \<Rightarrow> nat \<Rightarrow> bool \<Rightarrow> response_slot \<Rightarrow> response_slot" where
  "head_slot opts i c sl =
     (let chunked = (\<not> headers_contains (rs_headers (sl_res sl)) ''content-length''); res = commit_headers (sl_res sl);
          h = serialize_response_head res (\<not> sl_close_after sl) opts chunked (sl_suppress_body sl)
      in sl\<lparr>sl_chunked := chunked, sl_res := res,
          sl_writes := sl_writes sl @ [\<lparr>sw_payload = h, sw_close_after = c, sw_counts_response = False,
            sw_upgrade = None, sw_slot = Some i\<rparr>],
          sl_headers_queued := True, sl_committed := res\<rparr>)"

lemma queue_stream_head_eq:
  "i < length (ss_slots s) \<Longrightarrow> queue_stream_head i c s =
     s\<lparr>ss_pending_bytes := ss_pending_bytes s + length (sw_payload (last (sl_writes (head_slot (ss_options s) i c (slot s i))))),
       ss_slots := (ss_slots s)[i := head_slot (ss_options s) i c (slot s i)]\<rparr>"
  by (simp add: queue_stream_head_def queue_stream_write_def upd_slot_def head_slot_def Let_def)

lemma queue_stream_head_steps:
  assumes inv: "sv_inv s" and i: "i < length (ss_slots s)" and st: "sl_streaming (slot s i)"
    and q: "\<not> sl_headers_queued (slot s i)" and e: "\<not> sl_stream_ended (slot s i)"
  shows "steps s (queue_stream_head i c s)"
proof -
  have ok: "slot_ok i (slot s i)" using sv_inv_slot_ok [OF inv i] .
  let ?sl = "head_slot (ss_options s) i c (slot s i)"
  let ?w = "last (sl_writes ?sl)"
  have "slot_ok i ?sl" using ok st by (auto simp: slot_ok_def head_slot_def Let_def commit_headers_def)
  moreover have "slot_bytes (ss_options s) ?sl = slot_bytes (ss_options s) (slot s i) @ bytes_of i [?w]"
    using ok st q e by (simp add: slot_bytes_def stream_head_def stream_body_def stream_tail_def slot_ok_def head_slot_def Let_def)
  ultimately show ?thesis unfolding queue_stream_head_eq [OF i]
    using inv i by (intro slot_change_steps [where ws = "[?w]"]) (simp_all add: slot_grows_def head_slot_def Let_def)
qed

lemma queue_piece_steps:
  assumes inv: "sv_inv s" and i: "i < length (ss_slots s)" and st: "sl_streaming (slot s i)"
    and q: "sl_headers_queued (slot s i)" and e: "\<not> sl_stream_ended (slot s i)"
  shows "steps s (queue_piece i payload s)"
proof (cases "\<not> sl_suppress_body (slot s i) \<and> payload \<noteq> []")
  case True
  have ok: "slot_ok i (slot s i)" using sv_inv_slot_ok [OF inv i] .
  let ?p = "if sl_chunked (slot s i) then serialize_chunk payload else payload"
  let ?w = "\<lparr>sw_payload = ?p, sw_close_after = False, sw_counts_response = False, sw_upgrade = None, sw_slot = Some i\<rparr>"
  let ?sl = "(slot s i)\<lparr>sl_body_bytes := sl_body_bytes (slot s i) + length payload,
      sl_written := sl_written (slot s i) @ [payload], sl_writes := sl_writes (slot s i) @ [?w]\<rparr>"
  have "slot_ok i ?sl" using ok st q True by (auto simp: slot_ok_def)
  moreover have "slot_bytes (ss_options s) ?sl = slot_bytes (ss_options s) (slot s i) @ bytes_of i [?w]"
    using st q e by (simp add: slot_bytes_def stream_head_def stream_body_def stream_tail_def)
  ultimately have "steps s (s\<lparr>ss_pending_bytes := ss_pending_bytes s + length ?p, ss_slots := (ss_slots s)[i := ?sl]\<rparr>)"
    using inv i by (intro slot_change_steps [where ws = "[?w]"]) (simp_all add: slot_grows_def)
  moreover have "queue_piece i payload s =
      s\<lparr>ss_pending_bytes := ss_pending_bytes s + length ?p, ss_slots := (ss_slots s)[i := ?sl]\<rparr>"
    using i True by (simp add: queue_piece_def queue_stream_write_def upd_slot_def)
  ultimately show ?thesis by simp
next
  case False
  then have "queue_piece i payload s = s" unfolding queue_piece_def by (rule if_not_P)
  then show ?thesis using inv by (simp add: steps_refl)
qed

lemma head_slot_ended:
  "head_slot opts i c (sl\<lparr>sl_streaming := a, sl_stream_ended := b\<rparr>) = (head_slot opts i c (sl\<lparr>sl_streaming := a\<rparr>))\<lparr>sl_stream_ended := b\<rparr>"
  by (cases sl) (simp add: head_slot_def Let_def)

lemma head_slot_flags: "sl_suppress_body (head_slot opts i c sl) = sl_suppress_body sl" "sl_close_after (head_slot opts i c sl) = sl_close_after sl"
  by (simp_all add: head_slot_def Let_def)

text \<open>The same with the two flags set at the end, which keeps the invariant on the way.\<close>

lemma queue_end_steps:
  assumes inv: "sv_inv s" and i: "i < length (ss_slots s)" and c: "\<not> sl_completed (slot s i)"
    and e: "\<not> sl_stream_ended (slot s i)"
  shows "steps s (queue_end i s)"
proof -
  let ?s1 = "upd_slot i (\<lambda>sl. sl\<lparr>sl_streaming := True\<rparr>) s"
  define s2 where "s2 = (if \<not> sl_headers_queued (slot ?s1 i)
      then queue_stream_head i (sl_suppress_body (slot ?s1 i) \<and> sl_close_after (slot ?s1 i)) ?s1 else ?s1)"
  have s1: "steps s ?s1" using inv i c by (rule set_streaming_steps)
  have i1: "i < length (ss_slots ?s1)" using steps_slots [OF s1 i] .
  have sl1: "slot ?s1 i = (slot s i)\<lparr>sl_streaming := True\<rparr>" using i by (simp add: upd_slot_def)
  have s2: "steps ?s1 s2"
  proof (cases "sl_headers_queued (slot s i)")
    case True
    then show ?thesis using steps_inv [OF s1] by (simp add: s2_def sl1 steps_refl)
  next
    case False
    then show ?thesis using steps_inv [OF s1] i1 e unfolding s2_def by (simp add: sl1 queue_stream_head_steps)
  qed
  let ?sl = "slot s2 i"
  have q: "sl_streaming ?sl" "sl_headers_queued ?sl" "\<not> sl_stream_ended ?sl" "sl_completed ?sl = sl_completed (slot s i)"
    using i1 e by (auto simp: s2_def queue_stream_head_eq sl1 head_slot_def Let_def)
  have i2: "i < length (ss_slots s2)" using steps_slots [OF s2 i1] .
  have inv2: "sv_inv s2" using s2 by (rule steps_inv)
  have ok: "slot_ok i ?sl" using sv_inv_slot_ok [OF inv2 i2] .
  have nf: "\<not> sl_flushed ?sl" using slot_ok_not_flushed [OF ok] q c by simp
  let ?last = "\<not> sl_suppress_body ?sl \<and> sl_chunked ?sl"
  let ?w = "\<lparr>sw_payload = ''0'' @ crlf @ crlf, sw_close_after = sl_close_after ?sl, sw_counts_response = False,
      sw_upgrade = None, sw_slot = Some i\<rparr>"
  let ?ws = "if ?last then [?w] else []"
  let ?sl' = "?sl\<lparr>sl_stream_ended := True, sl_writes := sl_writes ?sl @ ?ws\<rparr>"
  have "slot_ok i ?sl'" using ok q by (auto simp: slot_ok_def)
  moreover have "slot_bytes (ss_options s2) ?sl' = slot_bytes (ss_options s2) ?sl @ bytes_of i ?ws"
    using q by (auto simp: slot_bytes_def stream_head_def stream_body_def stream_tail_def)
  ultimately have "steps s2 (s2\<lparr>ss_pending_bytes := ss_pending_bytes s2 + payload_bytes ?ws, ss_slots := (ss_slots s2)[i := ?sl']\<rparr>)"
    using inv2 i2 by (intro slot_change_steps [where ws = ?ws]) (simp_all add: slot_grows_def)
  moreover have "queue_end i s =
      s2\<lparr>ss_pending_bytes := ss_pending_bytes s2 + payload_bytes ?ws, ss_slots := (ss_slots s2)[i := ?sl']\<rparr>"
  proof (cases "sl_headers_queued (slot s i)")
    case True
    then show ?thesis using i by (simp add: queue_end_def s2_def queue_stream_write_def upd_slot_def Let_def)
  next
    case False
    then show ?thesis using i
      by (cases "sl_suppress_body (slot s i)")
        (simp_all add: queue_end_def s2_def queue_stream_head_eq queue_stream_write_def upd_slot_def Let_def head_slot_ended head_slot_flags)
  qed
  ultimately show ?thesis using s1 s2 by (auto intro: steps_trans)
qed

section \<open>Operations under a reaction\<close>

locale reactive =
  fixes react :: react
  assumes react_steps: "sv_inv s \<Longrightarrow> steps s (fst (react c s))"
begin

lemma react_steps_pair: "sv_inv s \<Longrightarrow> react c s = (t, out) \<Longrightarrow> steps s t"
  using react_steps [of s c] by simp

lemma run_response_hooks_steps:
  assumes "sv_inv s"
  shows "steps s (run_response_hooks react i outcome s)"
proof (cases "sl_hooks_ran (slot s i)")
  case True
  then show ?thesis using assms by (simp add: run_response_hooks_def steps_refl)
next
  case False
  let ?t = "upd_slot i (\<lambda>sl. sl\<lparr>sl_hooks_ran := True\<rparr>) s"
  have t: "steps s ?t" using assms by (intro upd_slot_steps) (simp_all add: harmless_def)
  have "steps ?t (run_response_hooks react i outcome s)"
    using False steps_inv [OF t] by (simp add: run_response_hooks_def Let_def foldl_steps react_steps)
  then show ?thesis by (rule steps_trans [OF t])
qed

lemma cancel_response_steps:
  assumes "sv_inv s"
  shows "steps s (cancel_response react i s)"
proof -
  have "steps s (upd_res i f s)" for f using assms by (rule upd_res_steps)
  then show ?thesis by (auto simp: cancel_response_def Let_def intro: steps_bind react_steps)
qed

lemma cancel_slot_steps:
  assumes "sv_inv s"
  shows "steps s (cancel_slot react outcome i s)"
proof -
  have c: "steps s (cancel_response react i s)" using assms by (rule cancel_response_steps)
  then have "steps (cancel_response react i s) (run_response_hooks react i outcome (cancel_response react i s))"
    by (intro run_response_hooks_steps) (rule steps_inv)
  then show ?thesis using assms c by (auto simp: cancel_slot_def intro: steps_refl steps_trans)
qed

lemma cancel_pending_steps:
  assumes "sv_inv s"
  shows "steps s (cancel_pending_responses react outcome s)"
proof -
  have "steps s (for_slots (cancel_slot react outcome) s)" using assms by (intro for_slots_steps cancel_slot_steps)
  then show ?thesis unfolding cancel_pending_responses_def by (rule steps_bind) (rule clear_steps)
qed

lemma cancel_pending_front: "front_pending (cancel_pending_responses react outcome s)"
  by (simp add: cancel_pending_responses_def front_pending_def)

lemma sv_close_steps:
  assumes "sv_inv s"
  shows "steps s (sv_close react s)"
proof (cases "ss_closed s")
  case True
  then show ?thesis using assms by (simp add: sv_close_def steps_refl)
next
  case False
  have a: "steps s (s\<lparr>ss_closed := True\<rparr>)" using assms by (rule close_flag_steps)
  have b: "steps (s\<lparr>ss_closed := True\<rparr>) (close_timeout_timer (s\<lparr>ss_closed := True\<rparr>))"
    using steps_inv [OF a] by (intro core_eq_steps) simp_all
  let ?t = "cancel_pending_responses react Outcome_cancelled (close_timeout_timer (s\<lparr>ss_closed := True\<rparr>))"
  have c: "steps (close_timeout_timer (s\<lparr>ss_closed := True\<rparr>)) ?t" using steps_inv [OF b] by (rule cancel_pending_steps)
  have d: "steps ?t (?t\<lparr>ss_reading := False\<rparr>)" using steps_inv [OF c] by (intro core_eq_steps) (simp_all add: core_eq_def)
  show ?thesis using False a b c d by (auto simp: sv_close_def intro: steps_trans)
qed

lemma notify_stream_errors_steps: "sv_inv s \<Longrightarrow> steps s (notify_stream_errors react e s)"
  unfolding notify_stream_errors_def by (rule for_slots_steps) (simp_all add: react_steps steps_refl)

lemma notify_drains_steps:
  assumes "sv_inv s"
  shows "steps s (notify_drains react s)"
proof -
  have relieve: "steps s (upd_slot i (\<lambda>sl. sl\<lparr>sl_backpressured := False\<rparr>) s)" if "sv_inv s" "i < length (ss_slots s)" for i s
    using that by (intro upd_slot_steps) (simp_all add: harmless_def)
  then have "steps s (if \<not> sl_backpressured (slot s i) then s
      else let s = upd_slot i (\<lambda>sl. sl\<lparr>sl_backpressured := False\<rparr>) s
           in if notify_stream_drain (sl_res (slot s i)) then fst (react (Call_drain i) s) else s)"
    if "sv_inv s" "i < length (ss_slots s)" for i s
    using that relieve [OF that] steps_bind [OF relieve [OF that] react_steps] by (simp add: Let_def steps_refl)
  then show ?thesis using assms unfolding notify_drains_def by (auto intro: steps_refl for_slots_steps)
qed

lemma flush_response_slots_steps:
  "sv_inv s \<Longrightarrow> steps1 s (flush_response_slots react s) \<and> front_pending (flush_response_slots react s)"
proof (induction "length (ss_responses s)" arbitrary: s rule: less_induct)
  case less
  note inv = less.prems
  show ?case
  proof (cases "ss_responses s")
    case Nil
    then show ?thesis using inv
      by (simp add: flush_response_slots.simps front_pending_def steps_steps1 [OF steps_refl])
  next
    case (Cons i rest)
    have cancelled: "steps1 s t \<Longrightarrow> steps1 s (cancel_pending_responses react Outcome_cancelled t) \<and>
        front_pending (cancel_pending_responses react Outcome_cancelled t)" for t
      by (blast intro: steps1_trans steps_steps1 cancel_pending_steps cancel_pending_front steps1_inv)
    have continue: "steps1 s t \<Longrightarrow> ss_responses t = rest \<Longrightarrow>
        steps1 s (flush_response_slots react t) \<and> front_pending (flush_response_slots react t)" for t
      using less.hyps [of t] Cons by (auto intro: steps1_trans dest: steps1_inv)
    show ?thesis
    proof (cases "sl_streaming (slot s i)")
      case True
      let ?t = "flush_stream_writes i s"
      have t: "steps s ?t" using inv Cons by (rule flush_stream_writes_steps)
      have rt: "ss_responses ?t = i # rest" using Cons by simp
      have "steps0 ?t (?t\<lparr>ss_responses := rest\<rparr>)" using steps_inv [OF t] rt by (rule pop_steps0)
      then have "steps1 ?t (?t\<lparr>ss_responses := rest\<rparr>)" by (auto simp: steps1_def write_started_def)
      then have u: "steps1 s (?t\<lparr>ss_responses := rest\<rparr>)" using t by (blast intro: steps1_trans steps_steps1)
      have i: "i < length (ss_slots s)" using inv Cons by (auto dest: sv_inv_responses)
      then have w: "sl_writes (slot ?t i) = []" by (simp add: flush_stream_writes_def sv_flush_next_def upd_slot_def)
      show ?thesis
      proof (cases "sl_completed (slot ?t i)")
        case False
        then have "flush_response_slots react s = ?t"
          using True Cons by (subst flush_response_slots.simps) simp
        then show ?thesis using t False rt by (simp add: steps_steps1 front_pending_def)
      next
        case finished: True
        then have "flush_response_slots react s =
            (if sl_close_after (slot ?t i) then cancel_pending_responses react Outcome_cancelled (?t\<lparr>ss_responses := rest\<rparr>)
             else flush_response_slots react (?t\<lparr>ss_responses := rest\<rparr>))"
          using True Cons w by (subst flush_response_slots.simps) (simp add: Let_def)
        then show ?thesis using cancelled [OF u] continue [OF u] by simp
      qed
    next
      case False
      show ?thesis
      proof (cases "sl_completed (slot s i)")
        case True
        let ?t = "pop_buffered i rest s"
        have t: "steps1 s ?t" using pop_buffered_steps0 [OF inv Cons True False] by (simp add: steps1_def)
        have "flush_response_slots react s =
            (if sl_close_after (slot s i) then cancel_pending_responses react Outcome_cancelled ?t
             else flush_response_slots react ?t)"
          using True False Cons by (subst flush_response_slots.simps) (simp add: pop_buffered_def Let_def)
        moreover have "ss_responses ?t = rest" by (simp add: pop_buffered_def Let_def)
        ultimately show ?thesis using cancelled [OF t] continue [OF t] by simp
      next
        case open_slot: False
        then have "flush_response_slots react s = s" using False Cons by (subst flush_response_slots.simps) simp
        then show ?thesis using inv open_slot Cons by (simp add: steps_steps1 [OF steps_refl] front_pending_def)
      qed
    qed
  qed
qed

lemma flush_steps: "sv_inv s \<Longrightarrow> steps s (flush_response_slots react s)"
  using flush_response_slots_steps by (blast intro: steps1_steps)

lemma complete_response_steps:
  assumes "sv_inv s"
  shows "steps s (complete_response react i s)"
proof (cases "sl_completed (slot s i)")
  case True
  then show ?thesis using assms by (simp add: complete_response_def steps_refl)
next
  case False
  let ?t = "upd_slot i (\<lambda>sl. sl\<lparr>sl_completed := True\<rparr>) s"
  let ?u = "run_response_hooks react i Outcome_completed ?t"
  have t0: "steps0 s ?t" using assms by (intro upd_slot_steps0) (simp_all add: harmless_def)
  then have t: "steps1 s ?t" by (simp add: steps1_def write_started_def upd_slot_def)
  have "steps ?t ?u" using t0 by (intro run_response_hooks_steps) (rule steps0_inv)
  then have u: "steps1 s ?u" using t by (blast intro: steps1_trans steps_steps1)
  show ?thesis
  proof (cases "ss_dispatching ?u")
    case True
    then have "complete_response react i s = ?u" using False by (simp add: complete_response_def Let_def)
    then show ?thesis using u True by (intro steps1_steps) (simp_all add: front_pending_def)
  next
    case disp: False
    then have eq: "complete_response react i s = flush_response_slots react ?u"
      using False by (simp add: complete_response_def Let_def)
    have "steps1 ?u (flush_response_slots react ?u) \<and> front_pending (flush_response_slots react ?u)"
      using steps1_inv [OF u] by (rule flush_response_slots_steps)
    then show ?thesis unfolding eq using u by (blast intro: steps1_steps steps1_trans)
  qed
qed

end

end
