(* ===== verification/Server_Keeps.thy ===== *)
theory Server_Keeps
  imports Server_Reactive
begin

text \<open>
  The operations of the application, the events of the parser and the callbacks of the stream and the timer keep
  the invariant of a session; with that, every reachable session has it.
\<close>

lemma pending_append:
  "\<forall>j\<in>set js. j < length xs \<Longrightarrow>
    (\<Sum>j\<leftarrow>js. payload_bytes (sl_writes ((xs @ ys) ! j))) = (\<Sum>j\<leftarrow>js. payload_bytes (sl_writes (xs ! j)))"
  by (induction js) (simp_all add: nth_append)

section \<open>Between events\<close>

text \<open>What holds of a session between two events.\<close>

definition settled :: "session \<Rightarrow> bool" where
  "settled s \<longleftrightarrow> sv_inv s \<and> write_started s \<and> front_pending s \<and> \<not> ss_dispatching s"

lemma steps_settled: "steps s t \<Longrightarrow> settled s \<Longrightarrow> settled t"
  by (auto simp: settled_def steps_def steps0_def)

text \<open>The events of the parser grow only while data is read; then everything else goes on from there.\<close>

definition parsed :: "callback list \<Rightarrow> llhttp_end \<Rightarrow> string \<Rightarrow> session \<Rightarrow> session" where
  "parsed cbs outcome bytes s =
     (header_timeout_on_read s)\<lparr>ss_parser := fst (h1_parse cbs outcome bytes (ss_parser (header_timeout_on_read s)))\<rparr>"

lemma parsed_same:
  "sv_inv (parsed cbs outcome bytes s) = sv_inv s" "ss_dispatching (parsed cbs outcome bytes s) = ss_dispatching s"
  "write_started (parsed cbs outcome bytes s) = write_started s" "front_pending (parsed cbs outcome bytes s) = front_pending s"
  using timeout_core(15) [of s]
  by (simp_all add: parsed_def core_eq_def sv_inv_def order_inv_def slots_inv_def count_inv_def writing_inv_def
      stream_bytes_pending_def write_started_def front_pending_def)

text \<open>A write has ended: its entry leaves the queue.\<close>

definition write_done :: "server_write \<Rightarrow> server_write list \<Rightarrow> session \<Rightarrow> session" where
  "write_done w ws s =
     s\<lparr>ss_pending_bytes := ss_pending_bytes s - min (ss_pending_bytes s) (length (sw_payload w)),
       ss_pending_responses := (if sw_counts_response w \<and> ss_pending_responses s > 0
         then ss_pending_responses s - 1 else ss_pending_responses s),
       ss_writes := ws, ss_sent := ss_sent s @ [w]\<rparr>"

lemma write_done_inv:
  assumes "sv_inv s" and "ss_writes s = w # ws" and "\<not> ss_writing s" and "sw_upgrade w = None"
  shows "steps0 s (write_done w ws s) \<and> (front_pending s \<longrightarrow> front_pending (write_done w ws s))"
proof -
  have "order_inv (write_done w ws s)"
    using assms by (simp add: sv_inv_def order_inv_def write_done_def)
  moreover have "slots_inv (write_done w ws s)"
    using assms by (simp add: sv_inv_def slots_inv_def write_done_def)
  moreover have "count_inv (write_done w ws s)"
    using assms by (auto simp: sv_inv_def count_inv_def write_done_def stream_bytes_pending_def split: if_splits)
  ultimately show ?thesis using assms(3)
    by (simp add: steps0_def sv_inv_def grows_def writing_inv_def write_done_def front_pending_def)
qed

lemma upgrade_done_inv:
  assumes "sv_inv s" and "ss_writes s = w # ws" and "\<not> ss_writing s"
  shows "steps s ((write_done w ws s)\<lparr>ss_closed := True, ss_removed := True\<rparr>)"
proof -
  let ?t = "(write_done w ws s)\<lparr>ss_closed := True, ss_removed := True\<rparr>"
  have "order_inv ?t" using assms by (simp add: sv_inv_def order_inv_def write_done_def)
  moreover have "slots_inv ?t" using assms by (simp add: sv_inv_def slots_inv_def write_done_def)
  moreover have "count_inv ?t"
    using assms by (auto simp: sv_inv_def count_inv_def write_done_def split: if_splits)
  ultimately show ?thesis
    by (simp add: steps_def steps0_def sv_inv_def grows_def writing_inv_def write_done_def front_pending_def write_started_def)
qed

context reactive
begin

lemma core_steps: "steps s t \<Longrightarrow> core_eq t u \<Longrightarrow> ss_dispatching u = ss_dispatching t \<Longrightarrow> steps s u"
  by (rule steps_bind) (auto intro: core_eq_steps)

section \<open>Streams\<close>

lemma write_stream_chunk_steps:
  assumes inv: "sv_inv s" and i: "i < length (ss_slots s)"
  shows "steps s (fst (write_stream_chunk react i payload s))"
proof (cases "ss_closed s \<or> sl_completed (slot s i) \<or> sl_stream_ended (slot s i) \<or> sl_backpressured (slot s i)")
  case True
  then show ?thesis using inv by (auto simp: write_stream_chunk_def steps_refl)
next
  case False
  let ?t = "upd_slot i (\<lambda>sl. sl\<lparr>sl_streaming := True\<rparr>) s"
  have t: "steps s ?t" using inv i False by (intro set_streaming_steps) simp_all
  have st: "slot ?t i = (slot s i)\<lparr>sl_streaming := True\<rparr>" using i by (simp add: upd_slot_def)
  have it: "i < length (ss_slots ?t)" using steps_slots [OF t i] .
  show ?thesis
  proof (cases "sl_suppress_body (slot s i)")
    case True
    then have "fst (write_stream_chunk react i payload s) = ?t" using False st by (simp add: write_stream_chunk_def Let_def)
    then show ?thesis using t by simp
  next
    case body: False
    define u where "u = (if \<not> sl_headers_queued (slot ?t i) then queue_stream_head i False ?t else ?t)"
    have u: "steps ?t u"
    proof (cases "sl_headers_queued (slot s i)")
      case True
      then show ?thesis using steps_inv [OF t] by (simp add: u_def st steps_refl)
    next
      case no_head: False
      then show ?thesis using steps_inv [OF t] it False unfolding u_def by (simp add: st queue_stream_head_steps)
    qed
    have iu: "i < length (ss_slots u)" using steps_slots [OF u it] .
    have "sl_streaming (slot u i)" "sl_headers_queued (slot u i)" "\<not> sl_stream_ended (slot u i)"
      using False it by (auto simp: u_def st queue_stream_head_eq head_slot_def Let_def)
    then have v: "steps u (queue_piece i payload u)" using steps_inv [OF u] iu by (intro queue_piece_steps)
    let ?w = "flush_response_slots react (queue_piece i payload u)"
    have w: "steps (queue_piece i payload u) ?w" using steps_inv [OF v] by (rule flush_steps)
    have sw: "steps s ?w" using t u v w by (blast intro: steps_trans)
    have "steps ?w (upd_slot i (\<lambda>sl. sl\<lparr>sl_backpressured := True\<rparr>) ?w)"
      using steps_inv [OF w] by (intro upd_slot_steps) (simp_all add: harmless_def)
    then have "steps s (upd_slot i (\<lambda>sl. sl\<lparr>sl_backpressured := True\<rparr>) ?w)" using sw by (rule steps_trans [rotated])
    moreover have "fst (write_stream_chunk react i payload s) =
        (if ss_pending_bytes ?w \<ge> so_max_pending_write_bytes (ss_options ?w)
         then upd_slot i (\<lambda>sl. sl\<lparr>sl_backpressured := True\<rparr>) ?w else ?w)"
      using False body st by (simp add: write_stream_chunk_def Let_def u_def)
    ultimately show ?thesis using sw by simp
  qed
qed

lemma end_stream_steps:
  assumes inv: "sv_inv s" and i: "i < length (ss_slots s)"
  shows "steps s (end_stream react i s)"
proof (cases "ss_closed s \<or> sl_completed (slot s i) \<or> sl_stream_ended (slot s i)")
  case True
  then show ?thesis using inv by (simp add: end_stream_def steps_refl)
next
  case False
  define t where "t = queue_end i s"
  define u where "u = upd_res i complete_stream t"
  define v where "v = (if rs_streaming (sl_res (slot t i)) \<and> rs_active (sl_res (slot t i)) then complete_response react i u else u)"
  have t: "steps s t" unfolding t_def using inv i False by (intro queue_end_steps) simp_all
  have u: "steps t u" unfolding u_def using steps_inv [OF t] by (rule upd_res_steps)
  have v: "steps u v" unfolding v_def using steps_inv [OF u] by (simp add: complete_response_steps steps_refl)
  have sv: "steps s v" using t u v by (blast intro: steps_trans)
  have "end_stream react i s = (if ss_dispatching v then v else flush_response_slots react v)"
    using False by (simp add: end_stream_def Let_def v_def u_def t_def)
  then show ?thesis using sv steps_trans [OF sv flush_steps [OF steps_inv [OF sv]]] by simp
qed

lemma stream_write_action_steps:
  "sv_inv s \<Longrightarrow> i < length (ss_slots s) \<Longrightarrow> steps s (stream_write_action react i chunk s)"
  by (simp add: stream_write_action_def streaming_write_def write_stream_chunk_steps steps_refl)

section \<open>Responses and hooks\<close>

lemma do_op_steps:
  assumes "sv_inv s"
  shows "steps s (fst (do_op react i op s))"
proof -
  have u: "steps s (upd_res i f s)" for f using assms by (rule upd_res_steps)
  have "steps (upd_res i f s) (complete_response react i (upd_res i f s))" for f
    using steps_inv [OF u [of f]] by (rule complete_response_steps)
  then have "steps s (complete_response react i (upd_res i f s))" for f by (rule steps_trans [OF u])
  then show ?thesis using u by (simp add: do_op_def Let_def)
qed

lemma do_ops_steps: "sv_inv s \<Longrightarrow> steps s (fst (do_ops react i ops s))"
proof (induction ops arbitrary: s)
  case Nil
  then show ?case by (simp add: steps_refl)
next
  case (Cons op ops)
  have t: "steps s (fst (do_op react i op s))" using Cons.prems by (rule do_op_steps)
  have "steps (fst (do_op react i op s)) (fst (do_ops react i ops (fst (do_op react i op s))))"
    using steps_inv [OF t] by (rule Cons.IH)
  then show ?case using t steps_trans [OF t] by (simp add: case_prod_beta)
qed

lemma finish_steps: "sv_inv s \<Longrightarrow> steps s (finish_response_if_needed react i s)"
  by (simp add: finish_response_if_needed_def do_op_steps steps_refl)

lemma internal_error_steps: "sv_inv s \<Longrightarrow> steps s (internal_error react i s)"
  unfolding internal_error_def by (rule do_ops_steps)

lemma handle_exception_steps:
  assumes "sv_inv s"
  shows "steps s (handle_exception react i scoped s)"
proof -
  let ?t = "upd_res i response_reset s"
  have t: "steps s ?t" using assms by (rule upd_res_steps)
  show ?thesis
  proof (cases "case scoped of Some h \<Rightarrow> Some h | None \<Rightarrow> ss_exception ?t")
    case None
    then show ?thesis using steps_bind [OF t internal_error_steps] by (simp add: handle_exception_def)
  next
    case (Some h)
    obtain u out where u: "react (Call_exception h i) ?t = (u, out)" by (cases "react (Call_exception h i) ?t")
    have su: "steps s u" using t react_steps_pair [OF steps_inv [OF t] u] by (rule steps_trans)
    have "steps s (internal_error react i (upd_res i response_reset u))"
      by (rule steps_bind [OF steps_bind [OF su upd_res_steps] internal_error_steps])
    moreover have "steps s (finish_response_if_needed react i u)" by (rule steps_bind [OF su finish_steps])
    ultimately show ?thesis using Some u by (auto simp: handle_exception_def Let_def)
  qed
qed

lemma run_hooks_steps:
  "sv_inv s \<Longrightarrow> run_hooks react hooks i s = (t, r) \<Longrightarrow> steps s t"
proof (induction hooks arbitrary: s)
  case Nil
  then show ?case by (simp add: steps_refl)
next
  case (Cons h hooks)
  obtain u out where u: "react (Call_hook h i) s = (u, out)" by (cases "react (Call_hook h i) s")
  have "steps s u" using Cons.prems(1) u by (rule react_steps_pair)
  then show ?case using Cons.prems Cons.IH [of u] u by (auto split: if_splits intro: steps_trans dest: steps_inv)
qed

lemma configure_steps:
  "sv_inv s \<Longrightarrow> steps s (configure_response_observation i req hooks s)"
  unfolding configure_response_observation_def by (rule upd_slot_steps) (simp_all add: harmless_def)

text \<open>The invariant does not look at the dispatch flag.\<close>

lemma dispatching_inv: "sv_inv (s\<lparr>ss_dispatching := b\<rparr>) = sv_inv s"
  by (rule core_eq_inv) (simp add: core_eq_def)

lemma dispatching_grows: "grows (s\<lparr>ss_dispatching := b\<rparr>) t = grows s t" "grows s (t\<lparr>ss_dispatching := b\<rparr>) = grows s t"
  by (simp_all add: grows_def)

lemma dispatching_started: "write_started (s\<lparr>ss_dispatching := b\<rparr>) = write_started s"
  by (simp add: write_started_def)

lemma with_dispatch_result_steps:
  assumes "sv_inv s" and f: "steps (s\<lparr>ss_dispatching := True\<rparr>) (fst (f (s\<lparr>ss_dispatching := True\<rparr>)))"
  shows "steps s (fst (with_dispatch_result react f s))"
proof -
  obtain t r where t: "f (s\<lparr>ss_dispatching := True\<rparr>) = (t, r)" by (cases "f (s\<lparr>ss_dispatching := True\<rparr>)")
  let ?u = "t\<lparr>ss_dispatching := False\<rparr>"
  have g: "grows s ?u" and inv: "sv_inv ?u" and w: "write_started s \<longrightarrow> write_started ?u"
    using f t by (simp_all add: steps_def steps0_def dispatching_inv dispatching_grows dispatching_started)
  have fl: "steps1 ?u (flush_response_slots react ?u)" "front_pending (flush_response_slots react ?u)"
    using flush_response_slots_steps [OF inv] by auto
  then have "steps s (flush_response_slots react ?u)"
    using g w by (auto simp: steps_def steps1_def steps0_def intro: grows_trans)
  then show ?thesis by (simp add: with_dispatch_result_def t)
qed

lemma with_dispatch_steps:
  assumes "sv_inv s" and "steps (s\<lparr>ss_dispatching := True\<rparr>) (f (s\<lparr>ss_dispatching := True\<rparr>))"
  shows "steps s (with_dispatch react f s)"
  unfolding with_dispatch_def using assms by (intro with_dispatch_result_steps) simp_all

lemma create_slot_steps:
  assumes "sv_inv s" and "create_response_slot react close_after suppress s = (t, r)"
  shows "steps s t"
proof (cases "length (ss_responses s) + ss_pending_responses s \<ge> so_max_pending_responses (ss_options s)")
  case True
  then show ?thesis using assms sv_close_steps [of s] by (auto simp: create_response_slot_def)
next
  case False
  let ?i = "length (ss_slots s)"
  let ?t = "s\<lparr>ss_slots := ss_slots s @ [new_slot close_after suppress], ss_responses := ss_responses s @ [?i]\<rparr>"
  have lt: "\<forall>j\<in>set (ss_responses s). j < ?i" using assms(1) by (rule sv_inv_responses)
  have old: "\<forall>t\<in>set (tags (ss_sent s @ ss_writes s)). t < ?i"
    using assms(1) by (simp add: sv_inv_def order_inv_def)
  have none: "bytes_of ?i ws = []" if "\<forall>t\<in>set (tags ws). t < ?i" for ws
    using that by (induction ws) (auto split: option.splits)
  have "order_inv ?t" using assms(1) lt old by (auto simp: sv_inv_def order_inv_def sorted_wrt_append less_imp_le less_SucI)
  moreover have "slots_inv ?t"
    unfolding slots_inv_def
  proof (intro allI impI)
    fix j
    assume "j < length (ss_slots ?t)"
    then consider "j < ?i" | "j = ?i" by (auto simp: less_Suc_eq)
    then show "slot_ok j (slot ?t j) \<and> (j \<in> set (ss_responses ?t) \<longrightarrow> \<not> sl_flushed (slot ?t j)) \<and>
        bytes_of j (ss_sent ?t @ ss_writes ?t) @ bytes_of j (sl_writes (slot ?t j)) = slot_bytes (ss_options ?t) (slot ?t j)"
    proof cases
      case 1
      then show ?thesis using assms(1) by (auto simp: sv_inv_def slots_inv_def nth_append)
    next
      case 2
      then show ?thesis using none [OF old] by (simp add: slot_ok_def new_slot_def slot_bytes_def)
    qed
  qed
  moreover have "count_inv ?t"
  proof -
    have "stream_bytes_pending ?t = stream_bytes_pending s"
      using pending_append [OF lt] by (simp add: stream_bytes_pending_def new_slot_def)
    then show ?thesis using assms(1) False by (simp add: sv_inv_def count_inv_def)
  qed
  moreover have "writing_inv ?t" using assms(1) by (simp add: sv_inv_def writing_inv_def)
  moreover have "grows s ?t" by (simp add: grows_def nth_append)
  moreover have "front_pending s \<longrightarrow> front_pending ?t"
    using lt by (cases "ss_responses s") (auto simp: front_pending_def nth_append new_slot_def)
  ultimately have "steps s ?t" by (simp add: steps_def steps0_def sv_inv_def write_started_def)
  then show ?thesis using assms(2) False by (auto simp: create_response_slot_def Let_def)
qed

section \<open>Dispatch\<close>

lemma reject_active_steps: "steps s t \<Longrightarrow> steps s (reject_active k t)"
  by (rule core_steps) simp_all

lemma finish_after: "steps s t \<Longrightarrow> steps s (finish_response_if_needed react i t)"
  by (rule steps_bind [OF _ finish_steps])

lemma handle_exception_after: "steps s t \<Longrightarrow> steps s (handle_exception react i scoped t)"
  by (rule steps_bind [OF _ handle_exception_steps])

lemma call_and_finish_steps: "sv_inv s \<Longrightarrow> steps s (fst (call_and_finish react c i s))"
  using react_steps [of s c] by (simp add: call_and_finish_def case_prod_beta finish_after)

lemma run_on_request_hooks_steps:
  assumes "sv_inv s"
  shows "steps s (fst (run_on_request_hooks react a close_after suppress s))"
proof (cases "ms_on_request (mr_state (ar_route a)) = []")
  case True
  then show ?thesis using assms by (simp add: run_on_request_hooks_def steps_refl)
next
  case False
  define found where "found = (case ar_slot a of
      Some i \<Rightarrow> (s, Some i)
    | None \<Rightarrow>
        (case create_response_slot react close_after suppress s of
           (s, Some i) \<Rightarrow> (set_active_slot i s, Some i)
         | (s, None) \<Rightarrow> (reject_active (ar_id a) s, None)))"
  have "steps s (fst found)"
  proof (cases "ar_slot a")
    case None
    obtain t r where t: "create_response_slot react close_after suppress s = (t, r)"
      by (cases "create_response_slot react close_after suppress s")
    have "steps s t" using assms t by (rule create_slot_steps)
    then show ?thesis using None t by (cases r) (auto simp: found_def intro: core_steps)
  next
    case (Some i)
    then show ?thesis using assms by (simp add: found_def steps_refl)
  qed
  then obtain t r where t: "found = (t, r)" and st: "steps s t" by (cases found) auto
  show ?thesis
  proof (cases r)
    case None
    then show ?thesis using False st t by (simp add: run_on_request_hooks_def found_def [symmetric])
  next
    case (Some i)
    let ?route = "ar_route a"
    let ?c = "configure_response_observation i (ar_req a) (ms_on_response (mr_state ?route)) t"
    let ?f = "\<lambda>s. case run_hooks react (ms_on_request (mr_state ?route)) i s of
        (s, Hooks_done) \<Rightarrow> (s, True)
      | (s, Hooks_stopped) \<Rightarrow> (reject_active (ar_id a) (finish_response_if_needed react i s), False)
      | (s, Hooks_threw) \<Rightarrow> (reject_active (ar_id a) (handle_exception react i (ms_exception (mr_state ?route)) s), False)"
    have c: "steps s ?c" by (rule steps_bind [OF st configure_steps])
    have f: "steps u (fst (?f u))" if "sv_inv u" for u
      using run_hooks_steps [OF that]
      by (auto split: prod.splits hooks_end.splits
          intro!: reject_active_steps finish_after handle_exception_after)
    have "steps ?c (fst (with_dispatch_result react ?f ?c))"
      using steps_inv [OF c] by (intro with_dispatch_result_steps f) (simp_all add: dispatching_inv)
    then have "steps s (fst (with_dispatch_result react ?f ?c))" by (rule steps_trans [OF c])
    then show ?thesis using False Some t by (simp add: run_on_request_hooks_def found_def [symmetric] Let_def)
  qed
qed

lemma dispatch_unrouted_steps:
  assumes "sv_inv s"
  shows "steps s (dispatch_unrouted react m path i s)"
proof -
  let ?fb = "fallback_path (ss_router s) path" and ?allowed = "allowed_methods_path (ss_router s) path"
  define answer where "answer =
    (if ?allowed \<noteq> [] then do_ops react i (automatic_method_ops m ?allowed) s
     else case (case fb_not_found ?fb of Some h \<Rightarrow> Some h | None \<Rightarrow> ss_not_found s) of
            Some h \<Rightarrow> call_and_finish react (Call_not_found h i) i s
          | None \<Rightarrow> do_ops react i [Op_status 404, Op_text (''not found'' @ [CHR 0x0A])] s)"
  have "steps s (fst answer)"
    using do_ops_steps [OF assms, of i] call_and_finish_steps [OF assms, of _ i]
    unfolding answer_def by (cases "case fb_not_found ?fb of Some h \<Rightarrow> Some h | None \<Rightarrow> ss_not_found s") (simp_all del: do_ops.simps)
  then show ?thesis unfolding dispatch_unrouted_def Let_def answer_def [symmetric]
    by (cases answer; cases "snd answer") (simp_all add: finish_after handle_exception_after)
qed

lemma dispatch_routed_steps:
  assumes "sv_inv s"
  shows "steps s (dispatch_routed react route body i s)"
proof -
  obtain t r where t: "run_hooks react (ms_pre_handler (mr_state route)) i s = (t, r)"
    by (cases "run_hooks react (ms_pre_handler (mr_state route)) i s")
  have st: "steps s t" using assms t by (rule run_hooks_steps)
  obtain u b where u: "call_and_finish react (Call_handler (the (mr_handler route)) i body None) i t = (u, b)"
    by (cases "call_and_finish react (Call_handler (the (mr_handler route)) i body None) i t")
  have su: "steps s u"
    using call_and_finish_steps [OF steps_inv [OF st], of "Call_handler (the (mr_handler route)) i body None" i] u st
    by (auto intro: steps_trans)
  show ?thesis
    using st su by (auto simp: dispatch_routed_def t u split: hooks_end.splits bool.splits
        intro!: finish_after handle_exception_after)
qed

lemma handle_buffered_message_steps:
  assumes "sv_inv s"
  shows "steps s (handle_buffered_message react message route path existing s)"
proof -
  let ?ka = "so_keep_alive (ss_options s) \<and> msg_keep_alive message"
  define found where "found = (case existing of
      Some i \<Rightarrow> (s, Some i)
    | None \<Rightarrow> create_response_slot react (\<not> ?ka) (msg_method message = method_head) s)"
  have "steps s (fst found)"
    using assms create_slot_steps [OF assms, of "\<not> ?ka" "msg_method message = method_head"]
    by (cases existing; cases found) (auto simp: found_def steps_refl)
  then obtain t r where t: "found = (t, r)" and st: "steps s t" by (cases found) auto
  show ?thesis
  proof (cases r)
    case None
    then show ?thesis using st t unfolding handle_buffered_message_def Let_def found_def [symmetric] by simp
  next
    case (Some i)
    let ?f = "\<lambda>s. if mr_handler route = None then dispatch_unrouted react (msg_method message) path i s
        else dispatch_routed react route (msg_body message) i
               (configure_response_observation i (routed_request message (msg_body message) route path)
                  (ms_on_response (mr_state route)) s)"
    have "steps u (?f u)" if "sv_inv u" for u
      using that steps_bind [OF configure_steps dispatch_routed_steps] by (simp add: dispatch_unrouted_steps)
    then have "steps t (with_dispatch react ?f t)"
      using steps_inv [OF st] by (intro with_dispatch_steps) (simp_all add: dispatching_inv)
    then show ?thesis using Some st t unfolding handle_buffered_message_def Let_def found_def [symmetric]
      by (auto intro: steps_trans)
  qed
qed

lemma handle_message_steps: "sv_inv s \<Longrightarrow> steps s (handle_message react message s)"
  by (simp add: handle_message_def Let_def send_error_steps handle_buffered_message_steps)

lemma dispatch_stream_request_steps:
  assumes "sv_inv s"
  shows "steps s (dispatch_stream_request react a i s)"
  unfolding dispatch_stream_request_def
proof (rule with_dispatch_steps [OF assms])
  let ?s = "s\<lparr>ss_dispatching := True\<rparr>" and ?exc = "ms_exception (mr_state (ar_route a))"
  let ?call = "Call_handler (the (mr_handler (ar_route a))) i [] (Some (ar_body a))"
  obtain t r where t: "run_hooks react (ms_pre_handler (mr_state (ar_route a))) i ?s = (t, r)"
    by (cases "run_hooks react (ms_pre_handler (mr_state (ar_route a))) i ?s")
  have st: "steps ?s t" using run_hooks_steps [OF _ t] assms by (simp add: dispatching_inv)
  have ct: "steps ?s (check_active (ar_id a) t)" using st by (rule core_steps) simp_all
  obtain u out where u: "react ?call (check_active (ar_id a) t) = (u, out)"
    by (cases "react ?call (check_active (ar_id a) t)")
  have su: "steps ?s u" using ct react_steps_pair [OF steps_inv [OF ct] u] by (rule steps_trans)
  show "steps ?s
     (let failed = (\<lambda>s. reject_active (ar_id a) (handle_exception react i ?exc s))
      in case run_hooks react (ms_pre_handler (mr_state (ar_route a))) i ?s of
           (s, Hooks_done) \<Rightarrow> (case react ?call (check_active (ar_id a) s) of (s, out) \<Rightarrow> if out = Threw then failed s else s)
         | (s, Hooks_stopped) \<Rightarrow> reject_active (ar_id a) (finish_response_if_needed react i s)
         | (s, Hooks_threw) \<Rightarrow> failed s)"
    using st su by (cases r) (auto simp: t u Let_def intro!: reject_active_steps finish_after handle_exception_after)
qed

section \<open>Events\<close>

lemma handle_headers_steps:
  assumes "sv_inv s"
  shows "steps s (handle_headers react message s)"
proof -
  let ?s0 = "stop_timeout s" and ?path = "parse_route_path (fst (split_path_query (msg_target message)))"
  have s0: "steps s ?s0" using assms by (intro core_eq_steps) simp_all
  have active: "steps s (set_active a ?s0)" for a using s0 by (rule core_steps) simp_all
  have error: "steps s t \<Longrightarrow> steps s (send_error n ka t)" for t n ka by (rule steps_bind [OF _ send_error_steps])
  have started: "steps s (start_body_timeout_if_needed (set_active a ?s0))" for a using active [of a] by (rule core_steps) simp_all
  have hooks: "steps s (fst (run_on_request_hooks react a c h t))" if "steps s t" for a c h t
    using that by (rule steps_bind) (rule run_on_request_hooks_steps)
  have stopped: "steps s t \<Longrightarrow> steps s (stop_timeout t)" for t by (rule core_steps) simp_all
  have after_hooks: "steps s (case run_on_request_hooks react a c h t of (t, goes_on) \<Rightarrow> if goes_on then t else stop_timeout t)"
    if "steps s t" for a c h t
    using hooks [OF that] stopped [OF hooks [OF that]] by (simp add: case_prod_beta)
  have stream: "steps s (case run_on_request_hooks react a c h t of
        (t, goes_on) \<Rightarrow> if goes_on then dispatch_stream_request react b i t else stop_timeout t)"
    if "steps s t" for a b c h i t
    using steps_bind [OF hooks [OF that] dispatch_stream_request_steps] stopped [OF hooks [OF that]]
    by (simp add: case_prod_beta)
  have slot: "steps s (case create_response_slot react c h t of
        (t, None) \<Rightarrow> stop_timeout (reject_active k t)
      | (t, Some i) \<Rightarrow>
          let t = configure_response_observation i req hs (set_active_slot i t)
          in (case run_on_request_hooks react (b\<lparr>ar_slot := Some i\<rparr>) c h t of
                (t, goes_on) \<Rightarrow> if goes_on then dispatch_stream_request react b i t else stop_timeout t))"
    if t: "steps s t" for b c h k req hs t
  proof -
    obtain u r where u: "create_response_slot react c h t = (u, r)" by (cases "create_response_slot react c h t")
    have su: "steps s u" using t create_slot_steps [OF steps_inv [OF t] u] by (rule steps_trans)
    have "steps s (configure_response_observation i req hs (set_active_slot i u))" for i
      by (rule steps_bind [OF core_steps [OF su] configure_steps]) simp_all
    then show ?thesis using su by (cases r) (auto simp: u Let_def intro!: stream stopped reject_active_steps)
  qed
  show ?thesis
    unfolding handle_headers_def Let_def
    by (simp add: error active reject_active_steps started after_hooks slot [unfolded Let_def])
qed

lemma emit_body_steps:
  assumes "sv_inv s"
  shows "steps s (emit_body react b f s)"
proof -
  have t: "steps s (upd_body b g s)" for g using assms by (intro core_eq_steps) simp_all
  have "steps (upd_body b g s) (foldl (\<lambda>s ev. fst (react (Call_body b ev) s)) (upd_body b g s) evs)" for g evs
    using steps_inv [OF t] by (intro foldl_steps react_steps)
  then show ?thesis unfolding emit_body_def Let_def by (rule steps_trans [OF t])
qed

lemma field_steps:
  "steps s t \<Longrightarrow> steps s (t\<lparr>ss_active := a\<rparr>)" "steps s t \<Longrightarrow> steps s (t\<lparr>ss_paused := p\<rparr>)"
  "steps s t \<Longrightarrow> steps s (t\<lparr>ss_handled := Suc (ss_handled t)\<rparr>)"
  "steps s t \<Longrightarrow> steps s (t\<lparr>ss_timeout_closing := c\<rparr>)" "steps s t \<Longrightarrow> steps s (t\<lparr>ss_reading := r\<rparr>)"
  by (auto elim!: core_steps simp: core_eq_def)

lemma after_core:
  "steps s t \<Longrightarrow> steps s (stop_timeout t)" "steps s t \<Longrightarrow> steps s (check_active k t)"
  "steps s t \<Longrightarrow> steps s (start_body_timeout_if_needed t)" "steps s t \<Longrightarrow> steps s (refresh_body_timeout t)"
  "steps s t \<Longrightarrow> steps s (start_read t)" "steps s t \<Longrightarrow> steps s (maybe_start_idle_timeout t)"
  "steps s t \<Longrightarrow> steps s (header_timeout_on_read t)"
  by (auto elim!: core_steps)

lemma after_ops:
  "steps s t \<Longrightarrow> steps s (send_error n ka t)" "steps s t \<Longrightarrow> steps s (emit_body react b f t)"
  "steps s t \<Longrightarrow> steps s (handle_buffered_message react m route path e t)" "steps s t \<Longrightarrow> steps s (sv_close react t)"
  "steps s t \<Longrightarrow> steps s (notify_stream_errors react err t)" "steps s t \<Longrightarrow> steps s (cancel_pending_responses react outcome t)"
  "steps s t \<Longrightarrow> steps s (fst (react c t))"
  by (erule steps_bind, rule send_error_steps emit_body_steps handle_buffered_message_steps sv_close_steps
      notify_stream_errors_steps cancel_pending_steps react_steps, assumption)+

lemma handle_body_chunk_steps:
  assumes "sv_inv s"
  shows "steps s (handle_body_chunk react chunk s)"
  using steps_refl [OF assms]
  by (cases "ss_active s")
    (auto simp: handle_body_chunk_def Let_def intro!: field_steps after_core after_ops reject_active_steps)

lemma handle_message_complete_steps:
  assumes "sv_inv s"
  shows "steps s (handle_message_complete react message s)"
  using steps_refl [OF assms] assms
  by (cases "ss_active s")
    (auto simp: handle_message_complete_def Let_def handle_message_steps intro!: field_steps after_core after_ops)

lemma handle_event_steps: "sv_inv s \<Longrightarrow> steps s (handle_event react ev s)"
  by (cases ev) (simp_all add: handle_headers_steps handle_body_chunk_steps handle_message_complete_steps)

lemma events_loop_steps: "sv_inv s \<Longrightarrow> steps s (events_loop react stop n s)"
proof (induction n arbitrary: s)
  case 0
  then show ?case by (simp add: steps_refl)
next
  case (Suc n)
  let ?t = "handle_event react (h1_events (ss_parser s) ! ss_handled s) (s\<lparr>ss_handled := ss_handled s + 1\<rparr>)"
  have "steps s (s\<lparr>ss_handled := ss_handled s + 1\<rparr>)" using field_steps(3) [OF steps_refl [OF Suc.prems]] by simp
  then have t: "steps s ?t" by (rule steps_bind) (rule handle_event_steps)
  then have "steps s (events_loop react stop n ?t)" by (rule steps_bind) (rule Suc.IH)
  then show ?case using steps_refl [OF Suc.prems] by (simp add: Let_def)
qed

lemma process_parser_events_after: "steps s t \<Longrightarrow> steps s (process_parser_events react stop t)"
  unfolding process_parser_events_def by (erule steps_bind) (rule events_loop_steps)

lemma resume_request_body_steps: "sv_inv s \<Longrightarrow> steps s (resume_request_body react s)"
  by (auto simp: resume_request_body_def Let_def
      intro!: after_core process_parser_events_after field_steps steps_refl)

lemma accept_upgrade_steps:
  assumes "sv_inv s"
  shows "steps s (accept_upgrade response cb s)"
proof -
  let ?t = "(close_timeout_timer s)\<lparr>ss_reading := False\<rparr>"
  let ?w = "\<lparr>sw_payload = response, sw_close_after = False, sw_counts_response = False, sw_upgrade = Some cb, sw_slot = None\<rparr>"
  have t: "steps s ?t" by (rule field_steps, rule core_steps [OF steps_refl [OF assms]]) simp_all
  have "steps0 ?t (?t\<lparr>ss_pending_bytes := ss_pending_bytes ?t, ss_writes := ss_writes ?t @ [?w]\<rparr>)"
    using steps_inv [OF t] by (rule push_untagged_steps0) simp_all
  then have "steps0 ?t (?t\<lparr>ss_writes := ss_writes ?t @ [?w]\<rparr>)" by simp
  then have "steps ?t (accept_upgrade response cb s)"
    unfolding accept_upgrade_def Let_def by (rule flush_next_steps_via) (simp add: front_pending_def)
  then show ?thesis by (rule steps_trans [OF t])
qed

lemma handle_upgrade_after:
  assumes "steps s t"
  shows "steps s (handle_upgrade react extra t)"
  using assms after_ops(7) [OF assms]
  by (auto simp: handle_upgrade_def Let_def case_prod_beta split: option.splits intro!: after_ops(1))

section \<open>Callbacks of the stream and of the timer\<close>

lemma sv_on_read_bytes_steps:
  assumes "sv_inv s" and "\<not> ss_closed s" and "\<not> ss_timeout_closing s"
  shows "steps (parsed cbs outcome bytes s) (sv_on_read react (Read_bytes bytes cbs outcome) s)"
proof -
  obtain p r where p: "h1_parse cbs outcome bytes (ss_parser (header_timeout_on_read s)) = (p, r)"
    by (cases "h1_parse cbs outcome bytes (ss_parser (header_timeout_on_read s))")
  have r: "steps (parsed cbs outcome bytes s) (parsed cbs outcome bytes s)"
    using assms by (intro steps_refl) (simp add: parsed_same)
  then have "steps (parsed cbs outcome bytes s) ((header_timeout_on_read s)\<lparr>ss_parser := p\<rparr>)"
    by (simp add: parsed_def p)
  then show ?thesis using assms p
    by (auto simp: sv_on_read_def Let_def split: parse_status.splits
        intro!: after_ops after_core handle_upgrade_after process_parser_events_after)
qed

lemma sv_on_read_end_steps:
  "sv_inv s \<Longrightarrow> ev = Read_eof \<or> ev = Read_error e \<Longrightarrow> steps s (sv_on_read react ev s)"
  using steps_refl [of s] by (auto simp: sv_on_read_def intro!: after_ops)

lemma sv_on_read_settled:
  assumes "settled s"
  shows "settled (sv_on_read react ev s)"
proof (cases "ss_closed s \<or> ss_timeout_closing s")
  case True
  then show ?thesis using assms by (auto simp: sv_on_read_def)
next
  case False
  show ?thesis
  proof (cases ev)
    case (Read_bytes bytes cbs outcome)
    have "settled (parsed cbs outcome bytes s)" using assms by (simp add: settled_def parsed_same)
    moreover have "steps (parsed cbs outcome bytes s) (sv_on_read react ev s)"
      using assms False Read_bytes by (simp add: settled_def sv_on_read_bytes_steps)
    ultimately show ?thesis by (rule steps_settled [rotated])
  next
    case Read_eof
    then show ?thesis using assms by (intro steps_settled [OF sv_on_read_end_steps _]) (auto simp: settled_def)
  next
    case (Read_error e)
    then show ?thesis using assms by (intro steps_settled [OF sv_on_read_end_steps _]) (auto simp: settled_def)
  qed
qed

lemma sv_on_timeout_steps:
  assumes "sv_inv s"
  shows "steps s (sv_on_timeout react phase s)"
proof -
  let ?t = "s\<lparr>ss_timer_active := False, ss_phase := phase_none\<rparr>"
  have t: "steps s ?t" using assms by (intro core_eq_steps) (simp_all add: core_eq_def)
  then show ?thesis using steps_refl [OF assms]
    by (cases phase; cases "ss_active s")
      (auto simp: sv_on_timeout_def Let_def split: option.splits intro!: after_ops field_steps)
qed

lemma sv_close_closed:
  assumes "sv_inv s"
  shows "ss_closed (sv_close react s)"
proof (cases "ss_closed s")
  case True
  then show ?thesis by (simp add: sv_close_def)
next
  case False
  have a: "steps s (s\<lparr>ss_closed := True\<rparr>)" using assms by (rule close_flag_steps)
  have b: "steps (s\<lparr>ss_closed := True\<rparr>) (close_timeout_timer (s\<lparr>ss_closed := True\<rparr>))"
    using steps_inv [OF a] by (intro core_eq_steps) simp_all
  have "steps (s\<lparr>ss_closed := True\<rparr>)
      (cancel_pending_responses react Outcome_cancelled (close_timeout_timer (s\<lparr>ss_closed := True\<rparr>)))"
    using b by (rule after_ops)
  then show ?thesis using False by (simp add: sv_close_def steps_def steps0_def grows_def)
qed

lemma steps_closed: "steps s t \<Longrightarrow> ss_closed s \<Longrightarrow> ss_closed t"
  by (simp add: steps_def steps0_def grows_def)

lemma sv_on_write_steps:
  assumes inv: "sv_inv s"
  shows "steps s (sv_on_write react e s)"
proof -
  let ?s = "s\<lparr>ss_writing := False\<rparr>"
  have s0: "steps0 s ?s" and front: "front_pending s \<longrightarrow> front_pending ?s"
    using inv by (auto simp: steps0_def sv_inv_def order_inv_def slots_inv_def count_inv_def writing_inv_def
        stream_bytes_pending_def grows_def front_pending_def)
  have via: "steps s t" if "steps0 ?s t" "front_pending ?s \<longrightarrow> front_pending t" "write_started t" for t
    using that s0 front steps0_trans by (auto simp: steps_def)
  have ends: "steps s t" if "steps ?s t" "ss_closed t" for t
    using that via by (auto simp: steps_def write_started_def)
  have refl: "steps ?s ?s" using steps0_inv [OF s0] by (rule steps_refl)
  show ?thesis
  proof (cases "ss_closed s")
    case True
    then show ?thesis using ends [OF refl] by (simp add: sv_on_write_def)
  next
    case opened: False
    show ?thesis
    proof (cases e)
      case (Some err)
      let ?t = "cancel_pending_responses react Outcome_error (notify_stream_errors react err ?s)"
      have t: "steps ?s ?t" by (intro after_ops refl)
      have "steps s (sv_close react ?t)"
        using after_ops(4) [OF t] sv_close_closed [OF steps_inv [OF t]] by (rule ends)
      then show ?thesis using opened Some by (simp add: sv_on_write_def)
    next
      case None
      have drained: "steps s (maybe_start_idle_timeout (sv_flush_next (notify_drains react t)))"
        if "steps0 s t" "front_pending s \<longrightarrow> front_pending t" for t
      proof -
        have d: "steps t (notify_drains react t)" using steps0_inv [OF that(1)] by (rule notify_drains_steps)
        have "steps s (sv_flush_next (notify_drains react t))"
          using that d by (intro flush_next_steps_via) (auto simp: steps_def intro: steps0_trans)
        then show ?thesis by (rule after_core)
      qed
      show ?thesis
      proof (cases "ss_writes s")
        case Nil
        then show ?thesis using opened None drained [OF s0 front] by (simp add: sv_on_write_def)
      next
        case (Cons w ws)
        let ?t = "write_done w ws ?s"
        show ?thesis
        proof (cases "sw_upgrade w")
          case (Some cb)
          have u: "steps ?s (?t\<lparr>ss_closed := True, ss_removed := True\<rparr>)"
            using steps0_inv [OF s0] Cons by (intro upgrade_done_inv) simp_all
          have "steps ?s (fst (react (Call_upgraded cb) (?t\<lparr>ss_closed := True, ss_removed := True\<rparr>)))"
            using u by (rule after_ops)
          moreover have "ss_closed (fst (react (Call_upgraded cb) (?t\<lparr>ss_closed := True, ss_removed := True\<rparr>)))"
            using react_steps [OF steps_inv [OF u]] by (rule steps_closed) simp
          ultimately show ?thesis using opened None Cons Some ends
            by (simp add: sv_on_write_def write_done_def Let_def)
        next
          case no_upgrade: None
          have t: "steps0 ?s ?t" "front_pending ?s \<longrightarrow> front_pending ?t"
            using write_done_inv [of ?s w ws] steps0_inv [OF s0] Cons no_upgrade by auto
          have st: "steps0 s ?t" "front_pending s \<longrightarrow> front_pending ?t" using t s0 front by (auto intro: steps0_trans)
          have d: "steps ?t (notify_drains react ?t)" using steps0_inv [OF st(1)] by (rule notify_drains_steps)
          have "steps ?t (sv_close react (notify_drains react ?t))" using d by (rule after_ops)
          moreover have "ss_closed (sv_close react (notify_drains react ?t))" using steps_inv [OF d] by (rule sv_close_closed)
          ultimately have "steps s (sv_close react (notify_drains react ?t))"
            using st by (auto simp: steps_def write_started_def intro: steps0_trans)
          then show ?thesis using opened None Cons no_upgrade drained [OF st]
            by (simp add: sv_on_write_def write_done_def Let_def)
        qed
      qed
    qed
  qed
qed

section \<open>Actions\<close>

lemma perform_steps:
  assumes "sv_inv s"
  shows "steps s (fst (perform react a s))"
proof -
  have r: "steps s s" using assms by (rule steps_refl)
  have body: "steps s (upd_body b f s)" for b f using r by (rule core_steps) simp_all
  have "steps s (pause_request_body (upd_body b f s))" for b f using body [of b f] by (rule core_steps) simp_all
  then have pause: "steps s (pause_body_action b s)" for b
    using body by (simp add: pause_body_action_def Let_def)
  have resume: "steps s (resume_body_action react b s)" for b
    using body steps_bind [OF body resume_request_body_steps] by (simp add: resume_body_action_def Let_def)
  show ?thesis
    by (cases a) (use assms r body pause resume in \<open>auto simp: do_op_steps stream_write_action_steps end_stream_steps
        sv_close_steps accept_upgrade_steps split: option.splits\<close>)
qed

lemma run_actions_steps: "sv_inv s \<Longrightarrow> steps s (fst (run_actions react acts s))"
proof (induction acts arbitrary: s)
  case Nil
  then show ?case by (simp add: steps_refl)
next
  case (Cons a acts)
  have t: "steps s (fst (perform react a s))" using Cons.prems by (rule perform_steps)
  have "steps s (fst (run_actions react acts (fst (perform react a s))))"
    using t by (rule steps_bind) (rule Cons.IH)
  then show ?case using t by (simp add: case_prod_beta)
qed

end

section \<open>Every application\<close>

lemma react_depth_reactive: "reactive (react_depth d app)"
proof (induction d)
  case 0
  show ?case by unfold_locales (simp add: core_eq_steps)
next
  case (Suc d)
  show ?case
  proof
    fix s c
    assume "sv_inv s"
    then have t: "steps s (log_call c s)" by (intro core_eq_steps) simp_all
    have "steps s (fst (run_actions (react_depth d app) acts (log_call c s)))" for acts
      using t reactive.run_actions_steps [OF Suc, of "log_call c s"] by (rule steps_bind)
    then show "steps s (fst (react_depth (Suc d) app c s))"
      by (simp add: case_prod_beta Let_def)
  qed
qed

interpretation sv: reactive "react_depth d app" for d app
  by (rule react_depth_reactive)

lemma sv_step_settled:
  assumes "settled s"
  shows "settled (sv_step d app s ev)"
proof -
  have inv: "sv_inv s" using assms by (simp add: settled_def)
  have closed: "steps s (sv_on_closed s)" using inv by (intro core_eq_steps) simp_all
  show ?thesis
    using assms steps_settled [OF sv.sv_on_write_steps [OF inv, of d app] assms]
      steps_settled [OF sv.sv_on_timeout_steps [OF inv, of d app] assms]
      steps_settled [OF sv.run_actions_steps [OF inv, of d app] assms] steps_settled [OF closed assms]
    by (cases ev) (simp_all add: sv.sv_on_read_settled)
qed

interpretation sv_run: inv_machine "sv_step d app" settled for d app
  by unfold_locales (rule sv_step_settled)

end
