(* ===== verification/Server_Wire_Props.thy ===== *)
theory Server_Wire_Props
  imports Server_Wire
begin

text \<open>
  A client reads every response back: the status, the fields and the body that were sent, and nothing of the
  response that follows on the connection.
\<close>

section \<open>Lines and fields\<close>

lemma take_line_line: "CHR 0x0D \<notin> set l \<Longrightarrow> take_line (l @ crlf @ t) = Some (l, t)"
  by (induction l) (auto simp: crlf_def)

lemma take_line_crlf [simp]: "take_line (crlf @ t) = Some ([], t)"
  using take_line_line [of "[]" t] by simp

definition sendable_field :: "string \<times> string \<Rightarrow> bool" where
  "sendable_field f \<longleftrightarrow>
     fst f \<noteq> [] \<and> list_all (\<lambda>c. c \<noteq> CHR '':'' \<and> c \<noteq> CHR 0x0D \<and> c \<noteq> CHR 0x0A) (fst f) \<and>
     list_all (\<lambda>c. c \<noteq> CHR 0x0D \<and> c \<noteq> CHR 0x0A) (snd f) \<and> trim_field (snd f) = snd f"

lemma trim_field_space: "trim_field (CHR '' '' # v) = trim_field v"
  by (simp add: trim_field_def field_space_def)

lemma read_fields_end: "read_fields (crlf @ rest) = Some ([], rest)"
  by (subst read_fields.simps) simp

lemma read_fields_line:
  assumes "sendable_field f"
  shows "read_fields (header_line f @ s) = map_option (\<lambda>(fs, r). (f # fs, r)) (read_fields s)"
proof -
  obtain n v where f: "f = (n, v)" by (cases f)
  have line: "take_line (header_line f @ s) = Some (n @ '': '' @ v, s)"
    using assms take_line_line [of "n @ '': '' @ v" s]
    by (auto simp: f header_line_def sendable_field_def list_all_iff)
  have "takeWhile (\<lambda>c. c \<noteq> CHR '':'') (n @ CHR '':'' # w) = n" for w
    using assms by (intro takeWhile_append_stop) (auto simp: f sendable_field_def list_all_iff)
  moreover have "trim_field (CHR '' '' # v) = v"
    using assms by (simp add: f sendable_field_def trim_field_space)
  ultimately show ?thesis using assms
    by (subst read_fields.simps) (simp add: line [unfolded f] f Let_def)
qed

lemma read_fields_lines:
  "list_all sendable_field fs \<Longrightarrow> read_fields (concat (map header_line fs) @ crlf @ rest) = Some (fs, rest)"
  by (induction fs) (simp_all add: read_fields_line read_fields_end)

section \<open>Heads\<close>

text \<open>The fields of a head, as a list.\<close>

definition framing_field :: "response_state \<Rightarrow> bool \<Rightarrow> headers" where
  "framing_field res chunked_body =
     (if chunked_body then [(''transfer-encoding'', ''chunked'')]
      else if \<not> has_header (rs_headers res) ''content-length''
      then [(''content-length'', print_number 10 (length (sent_body res)))] else [])"

definition connection_fields :: "response_state \<Rightarrow> bool \<Rightarrow> server_options \<Rightarrow> headers" where
  "connection_fields res keep_alive options =
     (if \<not> has_header (rs_headers res) ''connection''
      then [(''connection'', if keep_alive then ''keep-alive'' else ''close'')] else []) @
     (if so_server_header options \<and> \<not> has_header (rs_headers res) ''server''
      then [(''server'', ''uvpp-protocols'')] else [])"

definition own_fields :: "response_state \<Rightarrow> bool \<Rightarrow> headers" where
  "own_fields res chunked =
     filter (\<lambda>(name, v). \<not> (header_name_equals name ''content-length'' \<and> chunked) \<and>
         \<not> header_name_equals name ''transfer-encoding'') (rs_headers res)"

definition response_fields :: "response_state \<Rightarrow> bool \<Rightarrow> server_options \<Rightarrow> bool \<Rightarrow> bool \<Rightarrow> headers" where
  "response_fields res keep_alive options chunked suppress_body =
     own_fields res chunked @ framing_field res (chunked \<and> \<not> suppress_body) @
     connection_fields res keep_alive options"

definition status_line :: "response_state \<Rightarrow> string" where
  "status_line res = ''HTTP/1.1 '' @ print_number 10 (rs_status res) @ '' '' @ reason_phrase (int (rs_status res))"

lemma head_layout:
  "serialize_response_head res ka opts chunked hd_req =
     status_line res @ crlf @ concat (map header_line (response_fields res ka opts chunked hd_req)) @ crlf"
  by (simp add: serialize_response_head_def response_fields_def own_fields_def framing_field_def
      connection_fields_def status_line_def header_line_def)

lemma number_chars:
  assumes "2 \<le> b" and "b \<le> 16"
  shows "CHR 0x0D \<notin> set (print_number b n)" "CHR 0x0A \<notin> set (print_number b n)" "CHR '' '' \<notin> set (print_number b n)"
    "CHR 0x09 \<notin> set (print_number b n)"
  using number_digits [OF assms] by (force simp: digit_of_def)+

lemma trim_field_plain: "\<not> field_space (hd v) \<Longrightarrow> \<not> field_space (last v) \<Longrightarrow> trim_field v = v"
proof (cases v)
  case (Cons c t)
  assume h: "\<not> field_space (hd v)" "\<not> field_space (last v)"
  then have "dropWhile field_space v = v" by (simp add: Cons)
  moreover have "dropWhile field_space (rev v) = rev v"
    using h Cons by (metis dropWhile.simps(2) last_rev list.exhaust_sel list.distinct(1) rev_is_Nil_conv rev_rev_ident hd_rev)
  ultimately show ?thesis by (simp add: trim_field_def)
qed (simp add: trim_field_def)

lemma number_sendable: "list_all (\<lambda>c. c \<noteq> CHR 0x0D \<and> c \<noteq> CHR 0x0A) (print_number 10 n) \<and> trim_field (print_number 10 n) = print_number 10 n"
proof
  show "list_all (\<lambda>c. c \<noteq> CHR 0x0D \<and> c \<noteq> CHR 0x0A) (print_number 10 n)"
    using number_chars(1,2) [of 10 n] by (auto simp: list_all_iff)
  have "\<not> field_space c" if "c \<in> set (print_number 10 n)" for c
    using that number_chars(3,4) [of 10 n] by (auto simp: field_space_def)
  then show "trim_field (print_number 10 n) = print_number 10 n"
    by (intro trim_field_plain) simp_all
qed

lemma response_fields_sendable:
  assumes "list_all sendable_field (rs_headers res)"
  shows "list_all sendable_field (response_fields res ka opts chunked hd_req)"
proof -
  have "list_all sendable_field (own_fields res chunked)"
    using assms by (auto simp: own_fields_def list_all_iff)
  moreover have "list_all sendable_field (framing_field res c)" for c
    using number_sendable by (simp add: framing_field_def sendable_field_def trim_field_def field_space_def)
  moreover have "list_all sendable_field (connection_fields res ka opts)"
    by (simp add: connection_fields_def sendable_field_def trim_field_def field_space_def)
  ultimately show ?thesis by (simp add: response_fields_def)
qed

lemma reason_phrase_one_line: "CHR 0x0D \<notin> set (reason_phrase n)"
  by (simp add: reason_phrase_def)

lemma read_head_head:
  assumes "list_all sendable_field (rs_headers res)"
  shows "read_head (serialize_response_head res ka opts chunked hd_req @ rest) =
    Some (rs_status res, response_fields res ka opts chunked hd_req, rest)"
proof -
  let ?fs = "response_fields res ka opts chunked hd_req"
  have "CHR 0x0D \<notin> set (status_line res)"
    by (simp add: status_line_def number_chars reason_phrase_one_line)
  then have line: "take_line (status_line res @ crlf @ w) = Some (status_line res, w)" for w
    by (rule take_line_line)
  have "takeWhile (\<lambda>c. c \<noteq> CHR '' '') (print_number 10 (rs_status res) @ CHR '' '' # w) = print_number 10 (rs_status res)" for w
    using number_chars(3) [of 10 "rs_status res"] by (intro takeWhile_append_stop) auto
  then have n: "read_number 10 (takeWhile (\<lambda>c. c \<noteq> CHR '' '') (drop 9 (status_line res))) = Some (rs_status res)"
    by (simp add: status_line_def read_number_number)
  have "read_fields (concat (map header_line ?fs) @ crlf @ rest) = Some (?fs, rest)"
    using response_fields_sendable [OF assms] by (rule read_fields_lines)
  then show ?thesis using n line [of "concat (map header_line ?fs) @ crlf @ rest"]
    by (simp add: read_head_def head_layout) (simp add: status_line_def)
qed

section \<open>Framing\<close>

lemma headers_contains_append [simp]:
  "headers_contains (a @ b) n \<longleftrightarrow> headers_contains a n \<or> headers_contains b n"
  by (induction a) auto

lemma headers_get_append: "headers_get (a @ b) n = (if headers_contains a n then headers_get a n else headers_get b n)"
  by (induction a) auto

lemma has_header_iff: "has_header h n \<longleftrightarrow> headers_contains h n"
  by (induction h) (auto simp: has_header_def header_name_equals_def)

lemma headers_contains_filter:
  assumes "\<And>k v. names_equal k n \<Longrightarrow> P (k, v)"
  shows "headers_contains (filter P h) n = headers_contains h n" "headers_get (filter P h) n = headers_get h n"
  using assms by (induction h) auto

lemma headers_contains_filter_out:
  "(\<And>k v. names_equal k n \<Longrightarrow> \<not> P (k, v)) \<Longrightarrow> \<not> headers_contains (filter P h) n"
  by (induction h) auto

lemma names_equal_length: "names_equal a b \<Longrightarrow> length a = length b"
  by (simp add: names_equal_def split: if_splits)

lemma names_equal_transfer_encoding:
  "names_equal ''content-length'' ''transfer-encoding'' = False" "names_equal ''connection'' ''transfer-encoding'' = False"
  "names_equal ''server'' ''transfer-encoding'' = False" "names_equal ''transfer-encoding'' ''transfer-encoding'' = True"
  by code_simp+

lemma names_equal_content_length:
  "names_equal ''content-length'' ''content-length'' = True" "names_equal ''connection'' ''content-length'' = False"
  "names_equal ''server'' ''content-length'' = False" "names_equal ''transfer-encoding'' ''content-length'' = False"
  by code_simp+

lemma connection_fields_framing:
  "\<not> headers_contains (connection_fields res ka opts) ''transfer-encoding''"
  "\<not> headers_contains (connection_fields res ka opts) ''content-length''"
  by (simp_all add: connection_fields_def names_equal_transfer_encoding names_equal_content_length)

lemma own_fields_transfer_encoding: "\<not> headers_contains (own_fields res chunked) ''transfer-encoding''"
  unfolding own_fields_def by (rule headers_contains_filter_out) (simp add: header_name_equals_def)

lemma own_fields_content_length:
  "headers_contains (own_fields res True) ''content-length'' = False"
  "headers_contains (own_fields res False) ''content-length'' = headers_contains (rs_headers res) ''content-length''"
  "headers_get (own_fields res False) ''content-length'' = headers_get (rs_headers res) ''content-length''"
proof -
  show "headers_contains (own_fields res True) ''content-length'' = False"
    unfolding own_fields_def by (rule eq_False [THEN iffD2], rule headers_contains_filter_out) (simp add: header_name_equals_def)
  have "\<not> names_equal k ''transfer-encoding''" if "names_equal k ''content-length''" for k
    using that by (auto dest!: names_equal_length)
  then show "headers_contains (own_fields res False) ''content-length'' = headers_contains (rs_headers res) ''content-length''"
    and "headers_get (own_fields res False) ''content-length'' = headers_get (rs_headers res) ''content-length''"
    unfolding own_fields_def by (intro headers_contains_filter; simp add: header_name_equals_def)+
qed

lemma response_fields_framing:
  "headers_contains (response_fields res ka opts chunked hd_req) ''transfer-encoding'' \<longleftrightarrow> chunked \<and> \<not> hd_req"
  "headers_contains (response_fields res ka opts True False) ''content-length'' = False"
  "headers_contains (response_fields res ka opts False hd_req) ''content-length''"
  by (simp_all add: response_fields_def framing_field_def own_fields_transfer_encoding own_fields_content_length
      connection_fields_framing has_header_iff names_equal_transfer_encoding names_equal_content_length)

lemma response_fields_length:
  assumes "has_header (rs_headers res) ''content-length'' \<Longrightarrow> headers_get (rs_headers res) ''content-length'' = print_number 10 k"
    and "\<not> has_header (rs_headers res) ''content-length'' \<Longrightarrow> k = length (sent_body res)"
  shows "headers_get (response_fields res ka opts False hd_req) ''content-length'' = print_number 10 k"
  using assms
  by (auto simp: response_fields_def framing_field_def headers_get_append own_fields_content_length has_header_iff
      names_equal_content_length)

section \<open>Whole responses\<close>

text \<open>
  A response whose fields can be sent, and whose explicit Content-Length, if any, tells the truth. A 304 has no
  body on the wire, so it must not be given one.
\<close>

definition well_formed_response :: "response_state \<Rightarrow> bool" where
  "well_formed_response res \<longleftrightarrow>
     list_all sendable_field (rs_headers res) \<and> 200 \<le> rs_status res \<and> (rs_status res = 304 \<longrightarrow> rs_body res = []) \<and>
     (has_header (rs_headers res) ''content-length'' \<longrightarrow>
        headers_get (rs_headers res) ''content-length'' = print_number 10 (length (sent_body res)))"

text \<open>C19: A client reads a response the server serialised, followed by anything, back as its status, its fields
  and exactly its body, and stops where the response ends; a response to HEAD is read as having no body. Exactly
  one framing field is sent, a Content-Length and no Transfer-Encoding.
\<close>

theorem serialize_response_read:
  assumes "well_formed_response res"
  shows "read_response hd_req (serialize_response res ka opts hd_req @ rest) =
      Some (\<lparr>cv_status = rs_status res, cv_fields = response_fields res ka opts False hd_req,
             cv_body = (if hd_req then [] else sent_body res)\<rparr>, rest) \<and>
    headers_contains (response_fields res ka opts False hd_req) ''content-length'' \<and>
    \<not> headers_contains (response_fields res ka opts False hd_req) ''transfer-encoding''"
proof -
  let ?fs = "response_fields res ka opts False hd_req" and ?b = "if hd_req then [] else sent_body res"
  have head: "read_head (serialize_response res ka opts hd_req @ rest) = Some (rs_status res, ?fs, ?b @ rest)"
    using assms read_head_head [of res ka opts False hd_req "?b @ rest"]
    by (simp add: serialize_response_def well_formed_response_def)
  have "headers_get ?fs ''content-length'' = print_number 10 (length (sent_body res))"
    using assms by (intro response_fields_length) (auto simp: well_formed_response_def)
  moreover have "bodiless (rs_status res) \<Longrightarrow> sent_body res = []"
    using assms by (auto simp: bodiless_def well_formed_response_def sent_body_def)
  ultimately have "read_body hd_req (rs_status res) ?fs (?b @ rest) = Some (?b, rest)"
    by (auto simp: read_body_def response_fields_framing read_number_number)
  then show ?thesis by (simp add: read_response_def head response_fields_framing)
qed

definition small_options :: server_options where
  "small_options =
     \<lparr>so_max_header_bytes = 64, so_max_header_count = 4, so_max_body_bytes = 64, so_max_pending_write_bytes = 32,
      so_max_pending_responses = 2, so_header_timeout = 10, so_body_timeout = 10, so_idle_timeout = 10,
      so_keep_alive = True, so_server_header = True, so_route_path_matching = percent_decoded_segments\<rparr>"

theorem serialize_response_read_witness:
  "read_response False (serialize_response
       (new_response\<lparr>rs_status := 404, rs_headers := [(''Content-Type'', ''text/plain'')], rs_body := ''gone''\<rparr>)
       True small_options False @ ''HTTP'') =
     Some (\<lparr>cv_status = 404,
        cv_fields = [(''Content-Type'', ''text/plain''), (''content-length'', ''4''), (''connection'', ''keep-alive''),
          (''server'', ''uvpp-protocols'')],
        cv_body = ''gone''\<rparr>, ''HTTP'')"
proof -
  let ?res = "new_response\<lparr>rs_status := 404, rs_headers := [(''Content-Type'', ''text/plain'')], rs_body := ''gone''\<rparr>"
  have "well_formed_response ?res" by code_simp
  moreover have "response_fields ?res True small_options False False =
      [(''Content-Type'', ''text/plain''), (''content-length'', ''4''), (''connection'', ''keep-alive''),
       (''server'', ''uvpp-protocols'')]"
    by code_simp
  moreover have "sent_body ?res = ''gone''" and "rs_status ?res = 404" by (simp_all add: sent_body_def)
  ultimately show ?thesis
    using serialize_response_read [of ?res False True small_options "''HTTP''"] by (simp only: if_False simp_thms)
qed

section \<open>Chunked bodies\<close>

abbreviation final_chunk :: string where
  "final_chunk \<equiv> ''0'' @ crlf @ crlf"

lemma read_chunks_final: "read_chunks (final_chunk @ rest) = Some ([], rest)"
proof -
  have "take_line (''0'' @ crlf @ crlf @ rest) = Some (''0'', crlf @ rest)" by (rule take_line_line) simp
  moreover have "read_number 16 ''0'' = Some 0" by code_simp
  ultimately show ?thesis by (subst read_chunks.simps) simp
qed

lemma read_chunks_chunk:
  assumes "p \<noteq> []"
  shows "read_chunks (serialize_chunk p @ s) = map_option (\<lambda>(d, r). (p @ d, r)) (read_chunks s)"
proof -
  have "take_line (serialize_chunk p @ s) = Some (print_number 16 (length p), p @ crlf @ s)"
    using take_line_line [of "print_number 16 (length p)"] by (simp add: serialize_chunk_def number_chars)
  then show ?thesis using assms
    by (subst read_chunks.simps) (simp add: read_number_number crlf_def)
qed

lemma read_chunks_stream:
  "\<forall>p\<in>set ps. p \<noteq> [] \<Longrightarrow> read_chunks (concat (map serialize_chunk ps) @ final_chunk @ rest) = Some (concat ps, rest)"
  by (induction ps) (simp_all add: read_chunks_chunk read_chunks_final [simplified])

text \<open>A client reads a streamed response with a chunked body back as the concatenation of the pieces the
  application wrote and stops after the last chunk. The head then has a Transfer-Encoding and no
  Content-Length, whatever the application set.
\<close>

theorem streamed_response_read:
  assumes "list_all sendable_field (rs_headers res)" and "\<not> bodiless (rs_status res)" and "\<forall>p\<in>set ps. p \<noteq> []"
  shows "read_response False
      (serialize_response_head res ka opts True False @ concat (map serialize_chunk ps) @ final_chunk @ rest) =
      Some (\<lparr>cv_status = rs_status res, cv_fields = response_fields res ka opts True False, cv_body = concat ps\<rparr>, rest) \<and>
    headers_contains (response_fields res ka opts True False) ''transfer-encoding'' \<and>
    \<not> headers_contains (response_fields res ka opts True False) ''content-length''"
  using assms read_head_head [OF assms(1), of ka opts True False] read_chunks_stream [OF assms(3), of rest]
  by (simp add: read_response_def read_body_def response_fields_framing)

theorem streamed_response_read_witness:
  "read_response False
      (serialize_response_head new_response True small_options True False @
       concat (map serialize_chunk [''abc'', ''de'']) @ final_chunk @ ''HTTP'') =
     Some (\<lparr>cv_status = 200,
        cv_fields = [(''transfer-encoding'', ''chunked''), (''connection'', ''keep-alive''), (''server'', ''uvpp-protocols'')],
        cv_body = ''abcde''\<rparr>, ''HTTP'')"
proof -
  have "list_all sendable_field (rs_headers new_response)" and "\<not> bodiless (rs_status new_response)" by code_simp+
  moreover have "response_fields new_response True small_options True False =
      [(''transfer-encoding'', ''chunked''), (''connection'', ''keep-alive''), (''server'', ''uvpp-protocols'')]"
    by code_simp
  moreover have "rs_status new_response = 200" by code_simp
  moreover have "\<forall>p\<in>set [''abc'', ''de'']. p \<noteq> []" and "concat [''abc'', ''de''] = ''abcde''" by simp_all
  ultimately show ?thesis
    using streamed_response_read [of new_response "[''abc'', ''de'']" True small_options "''HTTP''"]
    by (simp only: simp_thms True_implies_equals)
qed

text \<open>
  A 304 with a body desynchronises the connection: a client takes the response to end after the head, and the
  body is read as the start of the next response.
\<close>

lemma not_modified_body_leaks:
  "map_option snd (read_response False
     (serialize_response (new_response\<lparr>rs_status := 304, rs_body := ''stale''\<rparr>) True small_options False)) =
   Some ''stale''"
  by code_simp

text \<open>
  Header values are not checked: a value with a line break becomes a field of its own.
\<close>

lemma response_header_injection:
  "map_option (\<lambda>(v, r). headers_get (cv_fields v) ''set-cookie'') (read_response False
     (case response_header ''location'' (''/'' @ crlf @ ''Set-Cookie: a=b'') new_response of
        Inr res \<Rightarrow> serialize_response res True small_options False)) =
   Some ''a=b''"
  by code_simp

end
