(* ===== verification/Server_Props.thy ===== *)
theory Server_Props
  imports Server_Keeps Server_Wire_Props
begin

text \<open>
  The properties of a server session, for every configuration, application and sequence of events, and what its
  client reads.
\<close>

section \<open>Reachable sessions\<close>

definition reachable_session ::
    "nat \<Rightarrow> app \<Rightarrow> server_options \<Rightarrow> router \<Rightarrow> handler option \<Rightarrow> handler option \<Rightarrow> (route_path \<times> handler) list \<Rightarrow>
     server_event list \<Rightarrow> session" where
  "reachable_session d app options routes nf exc upgrades evs =
     foldl (sv_step d app) (sv_start (new_session options routes nf exc upgrades)) evs"

lemma reachable_settled: "settled (reachable_session d app options routes nf exc upgrades evs)"
proof -
  let ?s = "new_session options routes nf exc upgrades"
  have "steps ?s (sv_start ?s)"
    unfolding sv_start_def using new_session_inv [of options routes nf exc upgrades]
    by (intro core_eq_steps) (simp_all add: core_eq_def start_read_def start_timeout_def stop_timeout_def)
  moreover have "settled ?s"
    using new_session_inv [of options routes nf exc upgrades]
    by (simp add: settled_def write_started_def front_pending_def new_session_def)
  ultimately have "settled (sv_start ?s)" by (rule steps_settled)
  then show ?thesis unfolding reachable_session_def by (rule sv_run.run_inv)
qed

lemma reachable_inv: "sv_inv (reachable_session d app options routes nf exc upgrades evs)"
  using reachable_settled [of d app options routes nf exc upgrades evs] by (simp add: settled_def)



text \<open>C8: Nothing is left waiting: between two events of an open connection a queued write is always in flight,
  and the first response of the queue is one the application has not completed yet.\<close>

theorem server_never_stalls:
  assumes "s = reachable_session d app options routes nf exc upgrades evs" and "\<not> ss_closed s"
  shows "(ss_writes s \<noteq> [] \<longrightarrow> ss_writing s) \<and> (ss_writing s \<longrightarrow> ss_writes s \<noteq> []) \<and>
    (ss_responses s \<noteq> [] \<longrightarrow> \<not> sl_completed (slot s (hd (ss_responses s))))"
  using reachable_settled [of d app options routes nf exc upgrades evs] assms(2) unfolding assms(1) [symmetric]
  by (auto simp: settled_def write_started_def front_pending_def sv_inv_def writing_inv_def)

section \<open>What the client reads\<close>

text \<open>The view a client has of the response of a slot.\<close>

definition slot_view :: "server_options \<Rightarrow> response_slot \<Rightarrow> client_view" where
  "slot_view opts sl =
     \<lparr>cv_status = rs_status (sl_committed sl),
      cv_fields = response_fields (sl_committed sl) (\<not> sl_close_after sl) opts (sl_streaming sl \<and> sl_chunked sl)
        (sl_suppress_body sl),
      cv_body = (if sl_suppress_body sl then [] else if sl_streaming sl then concat (sl_written sl)
        else sent_body (sl_committed sl))\<rparr>"

text \<open>
  A response that is finished and well-formed: serialised as a whole, or a stream that was ended, whose head can
  be sent and whose pieces make up its Content-Length if it has one.
\<close>

definition finished_slot :: "response_slot \<Rightarrow> bool" where
  "finished_slot sl \<longleftrightarrow>
     (if sl_streaming sl then
        sl_stream_ended sl \<and> sl_headers_queued sl \<and> list_all sendable_field (rs_headers (sl_committed sl)) \<and>
        (sl_suppress_body sl \<or> \<not> bodiless (rs_status (sl_committed sl)) \<and>
          (\<not> sl_chunked sl \<longrightarrow>
             headers_get (rs_headers (sl_committed sl)) ''content-length'' = print_number 10 (length (concat (sl_written sl)))))
      else sl_flushed sl \<and> well_formed_response (sl_committed sl))"

lemma read_head_response:
  "list_all sendable_field (rs_headers res) \<Longrightarrow>
    read_response True (serialize_response_head res ka opts chunked hd_req @ rest) =
      Some (\<lparr>cv_status = rs_status res, cv_fields = response_fields res ka opts chunked hd_req, cv_body = []\<rparr>, rest)"
  by (simp add: read_response_def read_head_head read_body_def)

lemma read_chunked_response:
  assumes "list_all sendable_field (rs_headers res)" and "\<not> bodiless (rs_status res)" and "\<forall>p\<in>set ps. p \<noteq> []"
  shows "read_response False
      (serialize_response_head res ka opts True False @ concat (map serialize_chunk ps) @ ''0'' @ crlf @ crlf @ rest) =
      Some (\<lparr>cv_status = rs_status res, cv_fields = response_fields res ka opts True False, cv_body = concat ps\<rparr>, rest)"
  using assms read_head_head [OF assms(1), of ka opts True False] read_chunks_stream [OF assms(3), of rest]
  by (simp add: read_response_def read_body_def response_fields_framing)

lemma read_plain_stream:
  assumes "list_all sendable_field (rs_headers res)" and "\<not> bodiless (rs_status res)"
    and "headers_contains (rs_headers res) ''content-length''"
    and "headers_get (rs_headers res) ''content-length'' = print_number 10 (length body)"
  shows "read_response False (serialize_response_head res ka opts False False @ body @ rest) =
      Some (\<lparr>cv_status = rs_status res, cv_fields = response_fields res ka opts False False, cv_body = body\<rparr>, rest)"
proof -
  have "headers_get (response_fields res ka opts False False) ''content-length'' = print_number 10 (length body)"
    using assms by (intro response_fields_length) (simp_all add: has_header_iff)
  then show ?thesis using assms(2) read_head_head [OF assms(1), of ka opts False False]
    by (simp add: read_response_def read_body_def response_fields_framing read_number_number)
qed

lemma read_whole_response:
  assumes "well_formed_response res"
  shows "read_response hd_req (serialize_response res ka opts hd_req @ rest) =
      Some (\<lparr>cv_status = rs_status res, cv_fields = response_fields res ka opts False hd_req,
             cv_body = (if hd_req then [] else sent_body res)\<rparr>, rest)"
proof -
  let ?fs = "response_fields res ka opts False hd_req" and ?b = "if hd_req then [] else sent_body res"
  have head: "read_head (serialize_response res ka opts hd_req @ rest) = Some (rs_status res, ?fs, ?b @ rest)"
    using assms read_head_head [of res ka opts False hd_req "?b @ rest"]
    by (simp add: serialize_response_def well_formed_response_def)
  have "headers_get ?fs ''content-length'' = print_number 10 (length (sent_body res))"
    using assms by (intro response_fields_length) (auto simp: well_formed_response_def)
  moreover have "bodiless (rs_status res) \<Longrightarrow> sent_body res = []"
    using assms by (auto simp: bodiless_def well_formed_response_def sent_body_def)
  ultimately have "read_body hd_req (rs_status res) ?fs (?b @ rest) = Some (?b, rest)"
    by (auto simp: read_body_def response_fields_framing read_number_number)
  then show ?thesis by (simp add: read_response_def head)
qed

lemma read_slot:
  assumes "slot_ok i sl" and "finished_slot sl"
  shows "read_response (sl_suppress_body sl) (slot_bytes opts sl @ rest) = Some (slot_view opts sl, rest)"
proof (cases "sl_streaming sl")
  case False
  then show ?thesis using assms by (simp add: finished_slot_def slot_bytes_def slot_view_def read_whole_response)
next
  case True
  note st = this
  have f: "sl_stream_ended sl" "sl_headers_queued sl" "list_all sendable_field (rs_headers (sl_committed sl))"
    using assms(2) st by (simp_all add: finished_slot_def)
  have ok: "sl_chunked sl = (\<not> headers_contains (rs_headers (sl_committed sl)) ''content-length'')"
    "sl_suppress_body sl \<Longrightarrow> sl_written sl = []" "\<forall>p\<in>set (sl_written sl). p \<noteq> []"
    using assms(1) f(2) by (simp_all add: slot_ok_def)
  show ?thesis
  proof (cases "sl_suppress_body sl")
    case True
    then show ?thesis using st f ok
      by (simp add: slot_bytes_def slot_view_def stream_head_def stream_body_def stream_tail_def read_head_response)
  next
    case False
    then have b: "\<not> bodiless (rs_status (sl_committed sl))" using assms(2) st by (simp add: finished_slot_def)
    show ?thesis
    proof (cases "sl_chunked sl")
      case True
      then show ?thesis using st f False read_chunked_response [OF f(3) b ok(3), of "\<not> sl_close_after sl" opts rest]
        by (simp add: slot_bytes_def slot_view_def stream_head_def stream_body_def stream_tail_def)
    next
      case plain: False
      have cl: "headers_get (rs_headers (sl_committed sl)) ''content-length'' = print_number 10 (length (concat (sl_written sl)))"
        using assms(2) st False plain by (simp add: finished_slot_def)
      have "headers_contains (rs_headers (sl_committed sl)) ''content-length''" using ok(1) plain by simp
      then show ?thesis using st f False plain read_plain_stream [OF f(3) b _ cl, of "\<not> sl_close_after sl" opts rest]
        by (simp add: slot_bytes_def slot_view_def stream_head_def stream_body_def stream_tail_def)
    qed
  qed
qed

text \<open>A client that reads one response after the other; it knows which requests were HEAD.\<close>

fun read_all :: "bool list \<Rightarrow> string \<Rightarrow> (client_view list \<times> string) option" where
  "read_all [] bytes = Some ([], bytes)"
| "read_all (head_request # hs) bytes =
     (case read_response head_request bytes of
        None \<Rightarrow> None
      | Some (v, rest) \<Rightarrow> map_option (\<lambda>(vs, r). (v # vs, r)) (read_all hs rest))"

lemma sorted_remdups_hd:
  "sorted ts \<Longrightarrow> i \<in> set ts \<Longrightarrow> \<forall>t\<in>set ts. i \<le> (t :: nat) \<Longrightarrow> \<exists>r. remdups ts = i # r \<and> i \<notin> set r"
proof (induction ts)
  case (Cons t ts)
  then have "t = i" by (auto intro: antisym)
  then show ?case using Cons by auto
qed simp

lemma payloads_by_slot:
  "sorted (tags ws) \<Longrightarrow> \<forall>w\<in>set ws. sw_slot w \<noteq> None \<Longrightarrow>
    concat (map sw_payload ws) = concat (map (\<lambda>i. bytes_of i ws) (remdups (tags ws)))"
proof (induction ws)
  case (Cons w ws)
  obtain i where i: "sw_slot w = Some i" using Cons.prems by auto
  have ih: "concat (map sw_payload ws) = concat (map (\<lambda>j. bytes_of j ws) (remdups (tags ws)))"
    using Cons i by simp
  have other: "concat (map (\<lambda>j. (if i = j then sw_payload w else []) @ bytes_of j ws) js) = concat (map (\<lambda>j. bytes_of j ws) js)"
    if "i \<notin> set js" for js
    using that by (induction js) auto
  show ?case
  proof (cases "i \<in> set (tags ws)")
    case True
    obtain r where r: "remdups (tags ws) = i # r" "i \<notin> set r"
      using sorted_remdups_hd [OF _ True] Cons.prems i by auto
    then show ?thesis using ih i True other [OF r(2)] by simp
  next
    case False
    have "bytes_of i ws = []" using False by (induction ws) (auto split: option.splits)
    then show ?thesis using ih i False other [of "remdups (tags ws)"] by simp
  qed
qed simp

lemma read_all_slots:
  assumes "\<forall>i\<in>set is. slot_ok i (f i) \<and> finished_slot (f i)"
  shows "read_all (map (\<lambda>i. sl_suppress_body (f i)) is) (concat (map (\<lambda>i. slot_bytes opts (f i)) is) @ rest) =
    Some (map (\<lambda>i. slot_view opts (f i)) is, rest)"
  using assms
proof (induction "is")
  case (Cons i "is")
  have "read_response (sl_suppress_body (f i)) (slot_bytes opts (f i) @ concat (map (\<lambda>i. slot_bytes opts (f i)) is) @ rest) =
      Some (slot_view opts (f i), concat (map (\<lambda>i. slot_bytes opts (f i)) is) @ rest)"
    using Cons.prems by (intro read_slot [of i]) simp_all
  then show ?case using Cons by simp
qed simp


section \<open>Events are not lost\<close>


end
