(* ===== verification/Server_Scenarios.thy ===== *)
theory Server_Scenarios
  imports Server_Props
begin

text \<open>
  Concrete connections: the properties of a session at work on two pipelined requests, and connections on which
  the server misbehaves.
\<close>

section \<open>Requests and routes\<close>

definition demo_router :: router where
  "demo_router = fst (add_route method_get ''/a'' body_none 0 0 1 (new_router percent_decoded_segments))"

definition get_request :: "bool \<Rightarrow> callback list" where
  "get_request keep_alive =
     [Cb_message_begin, Cb_url ''/a'', Cb_headers_complete HTTP_GET 1 1, Cb_message_complete keep_alive]"

definition demo_read :: "callback list \<Rightarrow> server_event" where
  "demo_read cbs = Ev_read (Read_bytes ''...'' cbs Exec_ok)"

text \<open>An application whose handlers all do the same.\<close>

definition handler_app :: "(nat \<Rightarrow> app_action list) \<Rightarrow> app_outcome \<Rightarrow> app" where
  "handler_app acts out c s =
     (case c of Call_handler h i body b \<Rightarrow> (acts i, out) | _ \<Rightarrow> ([], Returned))"

definition demo_run :: "app \<Rightarrow> router \<Rightarrow> server_event list \<Rightarrow> session" where
  "demo_run app routes evs = reachable_session 3 app small_options routes None None [] evs"

section \<open>Two pipelined requests\<close>

text \<open>Both responses are deferred, and the second is completed first.\<close>

definition two_requests :: session where
  "two_requests = demo_run (handler_app (\<lambda>i. [Do_op i Op_defer]) Returned) demo_router
     [demo_read (get_request True @ get_request True), Ev_app [Do_op 1 (Op_try_text ''b'')],
      Ev_app [Do_op 0 (Op_try_text ''a'')], Ev_written None]"

lemma two_requests_reachable:
  "two_requests = reachable_session 3 (handler_app (\<lambda>i. [Do_op i Op_defer]) Returned) small_options demo_router
     None None [] [demo_read (get_request True @ get_request True), Ev_app [Do_op 1 (Op_try_text ''b'')],
       Ev_app [Do_op 0 (Op_try_text ''a'')], Ev_written None]"
  by (simp add: two_requests_def demo_run_def)

definition two_requests_digest :: "session \<Rightarrow> bool" where
  "two_requests_digest s \<longleftrightarrow>
     map sw_slot (ss_sent s) = [Some 0] \<and> map sw_slot (ss_writes s) = [Some 1] \<and> length (ss_slots s) = 2 \<and>
     \<not> ss_closed s \<and> map sl_suppress_body (ss_slots s) = [False, False] \<and> list_all finished_slot (ss_slots s) \<and>
     map sl_writes (ss_slots s) = [[], []] \<and>
     map (\<lambda>sl. cv_body (slot_view (ss_options s) sl)) (ss_slots s) = [''a'', ''b'']"

lemma two_requests_facts: "two_requests_digest two_requests"
  by code_simp

section \<open>The properties on this connection\<close>



theorem server_never_stalls_witness: "ss_writing two_requests"
proof -
  have "\<not> ss_closed two_requests" and "ss_writes two_requests \<noteq> []"
    using two_requests_facts by (auto simp: two_requests_digest_def)
  then show ?thesis using server_never_stalls [OF two_requests_reachable] by simp
qed


text \<open>A session with two parsed requests whose events it has not handled yet.\<close>

definition two_parsed :: session where
  "two_parsed = (new_session small_options demo_router None None [])
     \<lparr>ss_parser := fst (run_callbacks (get_request True @ get_request True)
        (set_limits \<lparr>max_header_bytes = 9, max_header_count = 9\<rparr> new_machine, HPE_OK))\<rparr>"

definition two_parsed_app :: app where
  "two_parsed_app = handler_app (\<lambda>i. [Do_op i Op_defer]) Returned"


section \<open>Connections that go wrong\<close>

text \<open>The first request is still deferred when the second one turns out malformed.\<close>

definition error_overtakes :: session where
  "error_overtakes = demo_run (handler_app (\<lambda>i. [Do_op i Op_defer]) Returned) demo_router
     [demo_read (get_request True), Ev_read (Read_bytes ''?'' [] (Exec_error ''HPE_INVALID_METHOD''))]"

lemma error_response_overtakes:
  "map sw_slot (ss_writes error_overtakes) = [None] \<and> ss_responses error_overtakes = [0] \<and> ss_writing error_overtakes"
  by code_simp

text \<open>A handler streams the first piece of a body and then throws.\<close>

definition stream_throws :: session where
  "stream_throws = demo_run (handler_app (\<lambda>i. [Do_op i Op_stream, Write_chunk i ''x'']) Threw) demo_router
     [demo_read (get_request True), Ev_written None, Ev_written None]"


text \<open>A streamed response with a Content-Length on a connection that is to be closed.\<close>

definition length_stream :: session where
  "length_stream = demo_run
     (handler_app (\<lambda>i. [Do_op i (Op_header ''content-length'' ''1''), Do_op i Op_stream, Write_chunk i ''x'', End_stream i]) Returned)
     demo_router [demo_read (get_request False), Ev_written None, Ev_written None]"

lemma length_stream_not_closed:
  "let s = length_stream
   in list_all sl_close_after (ss_slots s) \<and> ss_responses s = [] \<and> ss_writes s = [] \<and> length (ss_sent s) = 2 \<and> \<not> ss_closed s"
  by code_simp

text \<open>A handler ends its response and then throws; a response hook is watching.\<close>

definition hooked_router :: router where
  "hooked_router = fst (add_on_response_hook [] 9 demo_router)"

definition late_throw :: session where
  "late_throw = demo_run (handler_app (\<lambda>i. [Do_op i (Op_text ''ok'')]) Threw) hooked_router [demo_read (get_request True)]"

lemma response_hook_sees_wrong_status:
  "let s = late_throw
   in [ri_status info. Call_response_hook h i info \<leftarrow> ss_calls s] = [200] \<and>
      map_option (cv_status \<circ> fst) (read_response False (concat (map sw_payload (ss_writes s)))) = Some 500"
  by code_simp

text \<open>An application that ends its stream when it is told that the stream has drained.\<close>

definition drain_app :: app where
  "drain_app c s =
     (case c of
        Call_handler h i body b \<Rightarrow> ([Do_op i Op_stream, Do_op i Op_on_drain, Write_chunk i ''x''], Returned)
      | Call_drain i \<Rightarrow> ([End_stream i], Returned)
      | _ \<Rightarrow> ([], Returned))"

definition drain_ends :: session where
  "drain_ends = demo_run drain_app demo_router [demo_read (get_request True), Ev_written None, Ev_written None]"

text \<open>Ending a stream from its drain callback pops the slot from the deque of responses while
  \<open>notify_drains\<close> iterates over it, so the loop goes on with an invalid iterator.\<close>

theorem end_in_drain_invalidates_iterator: "ss_undefined drain_ends"
  by code_simp

text \<open>A handler of a streamed body that pauses and resumes it while it handles a piece.\<close>

definition upload_router :: router where
  "upload_router = fst (add_route method_post ''/a'' body_mode.body_stream 0 0 1 (new_router percent_decoded_segments))"

definition pause_app :: app where
  "pause_app c s =
     (case c of
        Call_handler h i body (Some b) \<Rightarrow> ([Listen_body b], Returned)
      | Call_body b (Body_data chunk) \<Rightarrow> ([Pause_body b, Resume_body b], Returned)
      | _ \<Rightarrow> ([], Returned))"

definition post_request :: "callback list" where
  "post_request =
     [Cb_message_begin, Cb_url ''/a'', Cb_header_field ''content-length'', Cb_header_value ''1'',
      Cb_headers_complete HTTP_POST 1 1, Cb_body ''x'', Cb_message_complete True]"

definition pause_resume :: session where
  "pause_resume = demo_run pause_app upload_router [demo_read post_request]"

lemma resume_in_data_callback_uses_dead_request: "ss_undefined pause_resume"
  by code_simp

text \<open>A streamed upload on a connection the client wants to keep.\<close>

definition upload_ends :: session where
  "upload_ends = demo_run (handler_app (\<lambda>i. [Do_op i (Op_text ''ok'')]) Returned) upload_router
     [demo_read post_request, Ev_written None]"

lemma upload_connection_closed:
  "let s = upload_ends
   in \<not> ss_undefined s \<and> ss_closed s \<and>
      map_option (\<lambda>(v, r). headers_get (cv_fields v) ''connection'') (read_response False (concat (map sw_payload (ss_sent s)))) =
        Some ''close''"
  by code_simp

text \<open>The headers of a request are reported before it is known whether the connection is kept, and the report
  says it is not: the server, which decides at that point for routes that stream their body or have request
  hooks, closes the connection after every such request.\<close>

theorem headers_event_never_keeps_alive:
  assumes "Headers_event m \<in> set (h1_events (fst (run_callbacks cbs (set_limits l new_machine, HPE_OK))))"
  shows "\<not> msg_keep_alive m"
proof -
  define ok where "ok s \<longleftrightarrow> \<not> msg_keep_alive (current s) \<and> (\<forall>m. Headers_event m \<in> set (h1_events s) \<longrightarrow> \<not> msg_keep_alive m)"
    for s :: http1_machine
  have "ok s \<Longrightarrow> ok (fst (run_callback cb s))" for s cb
    by (cases cb) (auto simp: ok_def on_message_begin_def on_url_def on_header_field_def on_header_value_def
        on_headers_complete_def on_body_def on_message_complete_def reserve_header_bytes_def commit_pending_header_def
        empty_message_def Let_def)
  then have "ok (fst r) \<Longrightarrow> ok (fst (run_callbacks cbs r))" for r
    unfolding run_callbacks_def by (induction cbs arbitrary: r) (auto simp: callback_step_def)
  moreover have "ok (set_limits l new_machine)"
    by (simp add: ok_def set_limits_def new_machine_def empty_message_def)
  ultimately have "ok (fst (run_callbacks cbs (set_limits l new_machine, HPE_OK)))" by simp
  then show ?thesis using assms by (simp add: ok_def)
qed

theorem headers_event_never_keeps_alive_witness:
  "\<not> msg_keep_alive (empty_message\<lparr>msg_target := ''/a'', msg_method := method_get\<rparr>)"
proof -
  have "Headers_event (empty_message\<lparr>msg_target := ''/a'', msg_method := method_get\<rparr>) \<in>
      set (h1_events (fst (run_callbacks (get_request True) (set_limits \<lparr>max_header_bytes = 9, max_header_count = 9\<rparr> new_machine, HPE_OK))))"
    by code_simp
  then show ?thesis by (rule headers_event_never_keeps_alive)
qed

end
