(* ===== verification/Client_Wire.thy ===== *)
theory Client_Wire
  imports Url String_Search Server_Wire_Props
begin

text \<open>
  How the client reads a response, the free functions of \<open>src/http/client.cpp\<close>: the head, chunked bodies, and a
  whole buffered response. Numbers are read into an \<open>unsigned int\<close> of 32 bits and the arithmetic on them
  wraps; what a function throws is the left alternative of its result.
\<close>

section \<open>Errors\<close>

definition make_client_error :: "errc \<Rightarrow> string \<Rightarrow> errc error" where
  "make_client_error c d = Error c d"

text \<open>The source of a wrapped error has a category of its own, with its own messages.\<close>

definition wrap_client_error :: "('c \<Rightarrow> string) \<Rightarrow> errc \<Rightarrow> 'c error \<Rightarrow> errc error" where
  "wrap_client_error message c source =
     make_client_error c (case source of Error sc sd \<Rightarrow> if sd = [] then message sc else sd)"

datatype client_exn = Out_of_range | Response_exn res_exn

section \<open>Text and numbers\<close>

definition client_lowercase :: "string \<Rightarrow> string" where
  "client_lowercase v = map (\<lambda>ch. if 65 \<le> ord ch \<and> ord ch \<le> 90 then char_of (ord ch + 32) else ch) v"

definition client_trim :: "string \<Rightarrow> string" where
  "client_trim v =
     rev (dropWhile (\<lambda>c. c = CHR '' '' \<or> c = CHR 0x09 \<or> c = CHR 0x0D)
       (rev (dropWhile (\<lambda>c. c = CHR '' '' \<or> c = CHR 0x09) v)))"

text \<open>\<open>std::from_chars\<close> with a base: letters of either case are digits.\<close>

definition uint_digit :: "char \<Rightarrow> int option" where
  "uint_digit c =
     (if 48 \<le> ord c \<and> ord c \<le> 57 then Some (ord c - 48)
      else if 97 \<le> ord c \<and> ord c \<le> 122 then Some (ord c - 87)
      else if 65 \<le> ord c \<and> ord c \<le> 90 then Some (ord c - 55) else None)"

fun uint_value :: "int \<Rightarrow> int \<Rightarrow> string \<Rightarrow> int option" where
  "uint_value base acc [] = Some acc"
| "uint_value base acc (c # cs) =
     (case uint_digit c of
        None \<Rightarrow> None
      | Some d \<Rightarrow> if d < base then uint_value base (base * acc + d) cs else None)"

definition uint_limit :: int where
  "uint_limit = 4294967296"

definition parse_uint :: "int \<Rightarrow> string \<Rightarrow> int option" where
  "parse_uint base v =
     (if v = [] then None
      else case uint_value base 0 v of None \<Rightarrow> None | Some n \<Rightarrow> if n < uint_limit then Some n else None)"

definition client_serialize_chunk :: "string \<Rightarrow> string" where
  "client_serialize_chunk chunk = print_number 16 (length chunk) @ crlf @ chunk @ crlf"

section \<open>What a response says about its body\<close>

definition response_must_not_have_body :: "http_method \<Rightarrow> nat \<Rightarrow> bool" where
  "response_must_not_have_body request_method status_code \<longleftrightarrow>
     request_method = method_head \<or> 100 \<le> status_code \<and> status_code < 200 \<or> status_code = 204 \<or> status_code = 304"

definition response_is_redirect :: "nat \<Rightarrow> bool" where
  "response_is_redirect status_code \<longleftrightarrow>
     status_code = 301 \<or> status_code = 302 \<or> status_code = 303 \<or> status_code = 307 \<or> status_code = 308"

definition method_can_follow_redirect :: "http_method \<Rightarrow> bool" where
  "method_can_follow_redirect m \<longleftrightarrow> m = method_get \<or> m = method_head"

definition contains_str :: "string \<Rightarrow> string \<Rightarrow> bool" where
  "contains_str p s \<longleftrightarrow> sv_find_str p s 0 \<noteq> None"

record response_head =
  rh_status :: nat
  rh_headers :: headers

definition connection_requests_close :: "headers \<Rightarrow> bool" where
  "connection_requests_close h \<longleftrightarrow> contains_str ''close'' (client_lowercase (headers_get h ''connection''))"

definition is_chunked :: "headers \<Rightarrow> bool" where
  "is_chunked h \<longleftrightarrow> contains_str ''chunked'' (client_lowercase (headers_get h ''transfer-encoding''))"

definition response_has_reusable_framing :: "http_method \<Rightarrow> response_head \<Rightarrow> bool" where
  "response_has_reusable_framing request_method head \<longleftrightarrow>
     response_must_not_have_body request_method (rh_status head) \<or>
     is_chunked (rh_headers head) \<or> headers_get (rh_headers head) ''content-length'' \<noteq> []"

definition origin_key :: "url \<Rightarrow> string" where
  "origin_key u =
     scheme u @ ''://'' @ hostname u @ '':'' @
     (case effective_port u of Inr p \<Rightarrow> print_number 10 (unat p) | Inl e \<Rightarrow> port u)"

section \<open>Heads\<close>

definition malformed :: "string \<Rightarrow> errc error" where
  "malformed d = make_client_error client_malformed_response d"

text \<open>The loop over the header lines of a block, from an offset.\<close>

function header_lines :: "string \<Rightarrow> nat \<Rightarrow> headers \<Rightarrow> errc error + headers" where
  "header_lines block line_offset h =
     (if line_offset < length block then
        let line_end = sv_find_str crlf block line_offset;
            line = sv_substr block line_offset ((case line_end of None \<Rightarrow> length block | Some e \<Rightarrow> e) - line_offset)
        in case sv_find (CHR '':'') line of
             None \<Rightarrow> Inl (malformed ''response header line is invalid'')
           | Some colon \<Rightarrow>
               if colon = 0 then Inl (malformed ''response header line is invalid'')
               else
                 let h = headers_add h (take colon line) (client_trim (drop (colon + 1) line))
                 in case line_end of None \<Rightarrow> Inr h | Some e \<Rightarrow> header_lines block (e + 2) h
      else Inr h)"
  by pat_completeness auto
termination
  by (relation "measure (\<lambda>(block, line_offset, h). length block - line_offset)")
    (auto dest!: sv_find_str_bounds sym [THEN sv_find_str_bounds] simp: crlf_def)

declare header_lines.simps [simp del]

definition parse_status_line :: "string \<Rightarrow> errc error + nat" where
  "parse_status_line line =
     (if \<not> starts_with line ''HTTP/'' then Inl (malformed ''response status line is invalid'')
      else case sv_find (CHR '' '') line of
             None \<Rightarrow> Inl (malformed ''response status code is missing'')
           | Some status_start \<Rightarrow>
               if length line < status_start + 4 then Inl (malformed ''response status code is missing'')
               else case parse_uint 10 (sv_substr line (status_start + 1) 3) of
                      None \<Rightarrow> Inl (malformed ''response status code is invalid'')
                    | Some n \<Rightarrow> Inr (nat n))"

definition parse_response_head :: "string \<Rightarrow> nat \<Rightarrow> errc error + (response_head \<times> nat)" where
  "parse_response_head bytes max_header_bytes =
     (case sv_find_str (crlf @ crlf) bytes 0 of
        None \<Rightarrow> Inl (malformed ''response headers are incomplete'')
      | Some header_end \<Rightarrow>
          if header_end + 4 > max_header_bytes then Inl (make_client_error client_header_limit_exceeded [])
          else
            let header_block = take header_end bytes;
                first_line_end = sv_find_str crlf header_block 0
            in case parse_status_line (sv_until header_block first_line_end) of
                 Inl e \<Rightarrow> Inl e
               | Inr status_code \<Rightarrow>
                   (case header_lines header_block
                       (case first_line_end of None \<Rightarrow> length header_block | Some e \<Rightarrow> e + 2) [] of
                      Inl e \<Rightarrow> Inl e
                    | Inr h \<Rightarrow> Inr (\<lparr>rh_status = status_code, rh_headers = h\<rparr>, header_end + 4)))"

section \<open>Chunked bodies\<close>

text \<open>
  The loop of \<open>decode_chunked\<close>. A false answer comes with its message. The size of a chunk is an
  \<open>unsigned int\<close>, and so is that size plus two; a substring that starts after the end throws.
\<close>

function decode_chunks :: "string \<Rightarrow> nat \<Rightarrow> string \<Rightarrow> client_exn + (string + string)" where
  "decode_chunks encoded offset out =
     (case sv_find_str crlf encoded offset of
        None \<Rightarrow> Inr (Inl ''chunk size line is incomplete'')
      | Some line_end \<Rightarrow>
          let size_line = sv_substr encoded offset (line_end - offset);
              size_line = sv_until size_line (sv_find (CHR '';'') size_line)
          in case parse_uint 16 size_line of
               None \<Rightarrow> Inr (Inl ''chunk size is invalid'')
             | Some chunk_size \<Rightarrow>
                 let offset = line_end + 2
                 in if chunk_size = 0 then
                      if sv_substr encoded offset 2 = crlf \<and> offset + 2 = length encoded then Inr (Inr out)
                      else case sv_find_str (crlf @ crlf) encoded offset of
                             None \<Rightarrow> Inr (Inl ''chunk trailers are incomplete'')
                           | Some trailer_end \<Rightarrow>
                               if trailer_end + 4 \<noteq> length encoded
                               then Inr (Inl ''unexpected bytes after chunked body'')
                               else Inr (Inr out)
                    else if int (length encoded - offset) < (chunk_size + 2) mod uint_limit
                    then Inr (Inl ''chunk body is incomplete'')
                    else if int (length encoded) < int offset + chunk_size then Inl Out_of_range
                    else
                      let out = out @ sv_substr encoded offset (nat chunk_size);
                          offset = offset + nat chunk_size
                      in if sv_substr encoded offset 2 \<noteq> crlf then Inr (Inl ''chunk body is not terminated'')
                         else decode_chunks encoded (offset + 2) out)"
  by pat_completeness auto
termination
  by (relation "measure (\<lambda>(encoded, offset, out). Suc (length encoded) - offset)")
    (auto dest!: sv_find_str_bounds sym [THEN sv_find_str_bounds] simp: crlf_def)

declare decode_chunks.simps [simp del]

definition decode_chunked :: "string \<Rightarrow> client_exn + (string + string)" where
  "decode_chunked encoded = decode_chunks encoded 0 []"

section \<open>A whole response\<close>

definition response_of :: "response_head \<Rightarrow> string \<Rightarrow> client_exn + response_state" where
  "response_of head body =
     (case response_status (rh_status head) new_response of
        Inl (e, st) \<Rightarrow> Inl (Response_exn e)
      | Inr st \<Rightarrow>
          (case foldl (\<lambda>r (name, v). case r of Inl e \<Rightarrow> Inl e | Inr st \<Rightarrow> response_header name v st) (Inr st)
               (rh_headers head) of
             Inl (e, st) \<Rightarrow> Inl (Response_exn e)
           | Inr st \<Rightarrow>
               (case response_bytes body st of Inl (e, st) \<Rightarrow> Inl (Response_exn e) | Inr st \<Rightarrow> Inr st)))"

definition response_body :: "http_method \<Rightarrow> response_head \<Rightarrow> string \<Rightarrow> nat \<Rightarrow> client_exn + (errc error + string)" where
  "response_body request_method head raw_body max_body_bytes =
     (if response_must_not_have_body request_method (rh_status head) then Inr (Inr [])
      else if is_chunked (rh_headers head) then
        (case decode_chunked raw_body of
           Inl e \<Rightarrow> Inl e | Inr (Inl message) \<Rightarrow> Inr (Inl (malformed message)) | Inr (Inr body) \<Rightarrow> Inr (Inr body))
      else if headers_get (rh_headers head) ''content-length'' \<noteq> [] then
        (case parse_uint 10 (headers_get (rh_headers head) ''content-length'') of
           None \<Rightarrow> Inr (Inl (malformed ''content-length is invalid''))
         | Some content_length \<Rightarrow>
             if content_length > int max_body_bytes then Inr (Inl (make_client_error client_body_limit_exceeded []))
             else if int (length raw_body) < content_length then Inr (Inl (malformed ''response body is incomplete''))
             else Inr (Inr (take (nat content_length) raw_body)))
      else Inr (Inr raw_body))"

definition parse_response ::
    "http_method \<Rightarrow> string \<Rightarrow> nat \<Rightarrow> nat \<Rightarrow> client_exn + (errc error + response_state)" where
  "parse_response request_method bytes max_header_bytes max_body_bytes =
     (case parse_response_head bytes max_header_bytes of
        Inl e \<Rightarrow> Inr (Inl e)
      | Inr (head, body_offset) \<Rightarrow>
          (case response_body request_method head (drop body_offset bytes) max_body_bytes of
             Inl e \<Rightarrow> Inl e
           | Inr (Inl e) \<Rightarrow> Inr (Inl e)
           | Inr (Inr body) \<Rightarrow>
               if length body > max_body_bytes then Inr (Inl (make_client_error client_body_limit_exceeded []))
               else case response_of head body of Inl e \<Rightarrow> Inl e | Inr res \<Rightarrow> Inr (Inr res)))"

end
