(* ===== verification/Dns.thy ===== *)
theory Dns
  imports Prelude
begin

text \<open>
  Name resolution, \<open>src/dns.cpp\<close>: a query, the addresses of an answer, and \<open>resolve_state\<close>, which calls its
  callback once whatever happens first. The system resolver is outside: its answer is an event, with a status or
  the entries of the \<open>addrinfo\<close> list.
\<close>

section \<open>Errors\<close>

datatype dns_errc =
    dns_invalid_query
  | dns_unsupported_address_family
  | dns_name_not_found
  | dns_temporary_failure
  | dns_no_usable_addresses
  | dns_cancelled
  | dns_system_failure

fun dns_message :: "dns_errc \<Rightarrow> string" where
  "dns_message dns_invalid_query = ''DNS query is invalid''"
| "dns_message dns_unsupported_address_family = ''DNS address family is unsupported''"
| "dns_message dns_name_not_found = ''DNS name was not found''"
| "dns_message dns_temporary_failure = ''temporary DNS resolution failure''"
| "dns_message dns_no_usable_addresses = ''DNS returned no usable addresses''"
| "dns_message dns_cancelled = ''DNS resolution was cancelled''"
| "dns_message dns_system_failure = ''DNS resolution failed''"

definition make_dns_error :: "dns_errc \<Rightarrow> string \<Rightarrow> dns_errc error" where
  "make_dns_error c d = Error c d"

text \<open>The status of \<open>uv_getaddrinfo\<close>, by the names the sources distinguish.\<close>

datatype uv_status = UV_ECANCELED | UV_EAI_NONAME | UV_EAI_AGAIN | UV_other int

fun map_uv_error :: "uv_status \<Rightarrow> dns_errc" where
  "map_uv_error UV_ECANCELED = dns_cancelled"
| "map_uv_error UV_EAI_NONAME = dns_name_not_found"
| "map_uv_error UV_EAI_AGAIN = dns_temporary_failure"
| "map_uv_error (UV_other n) = dns_system_failure"

section \<open>Queries and addresses\<close>

datatype address_family = family_any | family_ipv4 | family_ipv6

datatype native_family = AF_UNSPEC | AF_INET | AF_INET6 | AF_other int

fun to_native_family :: "address_family \<Rightarrow> native_family" where
  "to_native_family family_any = AF_UNSPEC"
| "to_native_family family_ipv4 = AF_INET"
| "to_native_family family_ipv6 = AF_INET6"

fun from_native_family :: "native_family \<Rightarrow> address_family" where
  "from_native_family AF_INET = family_ipv4"
| "from_native_family AF_INET6 = family_ipv6"
| "from_native_family _ = family_any"

record dns_query =
  dq_host :: string
  dq_service :: string
  dq_family :: address_family

definition empty_query :: dns_query where
  "empty_query = \<lparr>dq_host = [], dq_service = [], dq_family = family_any\<rparr>"

definition query_port :: "nat \<Rightarrow> dns_query \<Rightarrow> dns_query" where
  "query_port n q = q\<lparr>dq_service := print_number 10 n\<rparr>"

record address =
  ad_family :: address_family
  ad_host :: string
  ad_port :: nat

text \<open>An entry of the native list: its family, whether its address is one of IPv4 or IPv6, and the address.\<close>

record native_entry =
  ne_family :: native_family
  ne_is_v4 :: bool
  ne_is_v6 :: bool
  ne_host :: string
  ne_port :: nat

definition copy_addresses :: "native_entry list \<Rightarrow> address list" where
  "copy_addresses entries =
     map (\<lambda>e. \<lparr>ad_family = from_native_family (ne_family e), ad_host = ne_host e, ad_port = ne_port e\<rparr>)
       (filter (\<lambda>e. ne_is_v4 e \<or> ne_is_v6 e) entries)"

section \<open>A resolution\<close>

record resolve_state =
  rv_request :: dns_query
  rv_callback :: bool
  rv_native :: "(string \<times> string \<times> native_family) option"
  rv_cancelled :: bool
  rv_completed :: bool
  rv_calls :: "(dns_errc, address list) result list"

definition new_resolve :: "dns_query \<Rightarrow> bool \<Rightarrow> resolve_state" where
  "new_resolve q callback =
     \<lparr>rv_request = q, rv_callback = callback, rv_native = None, rv_cancelled = False, rv_completed = False, rv_calls = []\<rparr>"

definition resolve_complete :: "(dns_errc, address list) result \<Rightarrow> resolve_state \<Rightarrow> resolve_state" where
  "resolve_complete r s =
     (if rv_completed s then s
      else s\<lparr>rv_completed := True, rv_callback := False,
             rv_calls := (if rv_callback s then rv_calls s @ [r] else rv_calls s)\<rparr>)"

definition resolve_start :: "resolve_state \<Rightarrow> resolve_state" where
  "resolve_start s =
     (if \<not> rv_callback s then resolve_complete (Inl (make_dns_error dns_invalid_query ''missing DNS callback'')) s
      else if dq_host (rv_request s) = [] \<or> dq_service (rv_request s) = []
      then resolve_complete (Inl (make_dns_error dns_invalid_query ''DNS host and service are required'')) s
      else s\<lparr>rv_native := Some (dq_host (rv_request s), dq_service (rv_request s), to_native_family (dq_family (rv_request s)))\<rparr>)"

definition resolve_cancel :: "resolve_state \<Rightarrow> resolve_state" where
  "resolve_cancel s =
     (if rv_completed s then s
      else resolve_complete (Inl (make_dns_error dns_cancelled [])) (s\<lparr>rv_cancelled := True\<rparr>))"

text \<open>The answer of the system: a status with its message, or entries.\<close>

definition resolve_answered :: "(uv_status \<times> string) + native_entry list \<Rightarrow> resolve_state \<Rightarrow> resolve_state" where
  "resolve_answered r s =
     (if rv_completed s then s
      else if rv_cancelled s then resolve_complete (Inl (make_dns_error dns_cancelled [])) s
      else case r of
             Inl (status, message) \<Rightarrow> resolve_complete (Inl (make_dns_error (map_uv_error status) message)) s
           | Inr entries \<Rightarrow>
               let addresses = copy_addresses entries
               in if addresses = [] then resolve_complete (Inl (make_dns_error dns_no_usable_addresses [])) s
                  else resolve_complete (Inr addresses) s)"

datatype resolve_event = Rv_cancel | Rv_answer "(uv_status \<times> string) + native_entry list"

fun resolve_step :: "resolve_state \<Rightarrow> resolve_event \<Rightarrow> resolve_state" where
  "resolve_step s Rv_cancel = resolve_cancel s"
| "resolve_step s (Rv_answer r) = resolve_answered r s"

section \<open>One answer, and only usable addresses\<close>

text \<open>What a call of the callback may say.\<close>

definition resolve_answer_ok :: "(dns_errc, address list) result \<Rightarrow> bool" where
  "resolve_answer_ok r = (case r of Inl e \<Rightarrow> True | Inr as \<Rightarrow> as \<noteq> [])"

definition resolve_inv :: "resolve_state \<Rightarrow> bool" where
  "resolve_inv s \<longleftrightarrow>
     (rv_cancelled s \<longrightarrow> rv_completed s) \<and> (\<not> rv_completed s \<longrightarrow> rv_calls s = [] \<and> rv_callback s) \<and>
     (rv_completed s \<longrightarrow> length (rv_calls s) = 1) \<and> list_all resolve_answer_ok (rv_calls s)"

lemma resolve_complete_inv:
  "\<not> rv_completed s \<Longrightarrow> rv_calls s = [] \<Longrightarrow> rv_callback s \<Longrightarrow> resolve_answer_ok r \<Longrightarrow> resolve_inv (resolve_complete r s)"
  by (simp add: resolve_inv_def resolve_complete_def)

lemma resolve_start_inv: "resolve_inv (resolve_start (new_resolve q True))"
  by (auto simp: resolve_start_def new_resolve_def resolve_inv_def resolve_complete_def resolve_answer_ok_def)

interpretation resolving: stopping_machine resolve_step resolve_inv rv_completed
proof
  fix s e
  assume inv: "resolve_inv s"
  show "resolve_inv (resolve_step s e)"
  proof (cases "rv_completed s")
    case True
    then show ?thesis using inv by (cases e) (simp_all add: resolve_cancel_def resolve_answered_def)
  next
    case False
    then have "rv_calls s = []" "rv_callback s" "\<not> rv_cancelled s" using inv by (auto simp: resolve_inv_def)
    then show ?thesis using False
      by (cases e) (auto simp: resolve_cancel_def resolve_answered_def resolve_answer_ok_def Let_def
          intro!: resolve_complete_inv split: sum.split)
  qed
next
  fix s e
  assume "resolve_inv s" "rv_completed s"
  then show "resolve_step s e = s" by (cases e) (simp_all add: resolve_cancel_def resolve_answered_def)
qed

text \<open>A resolution answers at most once whatever order answers and cancellations come in, has answered once after
  the first of them, and a success has at least one address.\<close>

theorem resolve_answers_once:
  assumes "s = foldl resolve_step (resolve_start (new_resolve q True)) evs"
  shows "length (rv_calls s) \<le> 1 \<and> (evs \<noteq> [] \<longrightarrow> length (rv_calls s) = 1) \<and>
    (\<forall>as. Inr as \<in> set (rv_calls s) \<longrightarrow> as \<noteq> [])"
proof -
  let ?s0 = "resolve_start (new_resolve q True)"
  have inv: "resolve_inv s" unfolding assms by (rule resolving.run_inv [OF resolve_start_inv])
  have fin: "rv_completed (resolve_step ?s0 e)" for e
    by (cases e) (auto simp: resolve_cancel_def resolve_answered_def resolve_complete_def Let_def split: sum.split)
  have "rv_completed s" if "evs \<noteq> []"
  proof -
    obtain e es where evs: "evs = e # es" using \<open>evs \<noteq> []\<close> by (cases evs) auto
    have "s = resolve_step ?s0 e"
      using resolving.stopped_run [OF resolving.step_inv [OF resolve_start_inv] fin] by (simp add: assms evs)
    then show ?thesis using fin by simp
  qed
  moreover have "as \<noteq> []" if "Inr as \<in> set (rv_calls s)" for as
    using inv that by (auto simp: resolve_inv_def resolve_answer_ok_def list_all_iff)
  ultimately show ?thesis using inv by (auto simp: resolve_inv_def)
qed

end
