(* ===== verification/Connector.thy ===== *)
theory Connector
  imports Dns
begin

text \<open>
  Connecting to one of several addresses, \<open>tcp_connect_state\<close> and \<open>tcp_connector\<close> of \<open>src/io/transport.cpp\<close>: the
  candidates are tried in their order, the next one when the handle of the last has been closed. Handles are
  numbered as they are created. Whether starting a connection throws at once is a function of the candidate; its
  outcome, the closing of a handle and the timer are events of the loop.
\<close>

section \<open>Errors and candidates\<close>

datatype connect_errc = connect_no_addresses | connect_cancelled | connect_failed | connect_timeout

fun connect_message :: "connect_errc \<Rightarrow> string" where
  "connect_message connect_no_addresses = ''no TCP addresses to connect''"
| "connect_message connect_cancelled = ''TCP connect was cancelled''"
| "connect_message connect_failed = ''TCP connect failed''"
| "connect_message connect_timeout = ''TCP connect timed out''"

definition make_connect_error :: "connect_errc \<Rightarrow> string \<Rightarrow> connect_errc error" where
  "make_connect_error c d = Error c d"

definition infer_family :: "string \<Rightarrow> address_family" where
  "infer_family h = (if sv_find (CHR '':'') h = None then family_ipv4 else family_ipv6)"

definition candidate_of_endpoint :: "string \<Rightarrow> nat \<Rightarrow> address" where
  "candidate_of_endpoint h p = \<lparr>ad_family = infer_family h, ad_host = h, ad_port = p\<rparr>"

section \<open>State\<close>

record connector =
  tc_candidates :: "address list"
  tc_timeout :: int
  tc_callback :: bool
  tc_tcp :: "nat option"
  tc_handles :: nat
  tc_closing :: "(nat \<times> bool) list"
  tc_timer :: bool
  tc_next :: nat
  tc_last_error :: string
  tc_cancelled :: bool
  tc_completed :: bool
  tc_attempts :: "address list"
  tc_calls :: "(connect_errc, nat) result list"

definition new_connector :: "address list \<Rightarrow> int \<Rightarrow> bool \<Rightarrow> connector" where
  "new_connector candidates timeout callback =
     \<lparr>tc_candidates = candidates, tc_timeout = timeout, tc_callback = callback, tc_tcp = None, tc_handles = 0,
      tc_closing = [], tc_timer = False, tc_next = 0, tc_last_error = [], tc_cancelled = False,
      tc_completed = False, tc_attempts = [], tc_calls = []\<rparr>"

section \<open>Operations\<close>

definition tc_complete :: "(connect_errc, nat) result \<Rightarrow> connector \<Rightarrow> connector" where
  "tc_complete r s =
     (if tc_completed s then s
      else s\<lparr>tc_completed := True, tc_timer := False, tc_callback := False,
             tc_calls := (if tc_callback s then tc_calls s @ [r] else tc_calls s)\<rparr>)"

text \<open>A handle that is being closed, and whether the next candidate is tried then.\<close>

definition close_handle :: "bool \<Rightarrow> connector \<Rightarrow> connector" where
  "close_handle then_next s =
     (case tc_tcp s of None \<Rightarrow> s | Some h \<Rightarrow> s\<lparr>tc_tcp := None, tc_closing := tc_closing s @ [(h, then_next)]\<rparr>)"

definition close_current :: "connector \<Rightarrow> connector" where
  "close_current s = close_handle False s"

definition connect_next :: "(address \<Rightarrow> string option) \<Rightarrow> connector \<Rightarrow> connector" where
  "connect_next throws s =
     (if tc_completed s then s
      else if tc_next s \<ge> length (tc_candidates s)
      then tc_complete (Inl (make_connect_error connect_failed (tc_last_error s))) s
      else
        let candidate = tc_candidates s ! tc_next s;
            s = s\<lparr>tc_next := tc_next s + 1, tc_tcp := Some (tc_handles s), tc_handles := tc_handles s + 1,
                  tc_attempts := tc_attempts s @ [candidate]\<rparr>
        in case throws candidate of
             None \<Rightarrow> s
           | Some message \<Rightarrow> close_handle True (s\<lparr>tc_last_error := message\<rparr>))"

definition close_current_then_next :: "(address \<Rightarrow> string option) \<Rightarrow> connector \<Rightarrow> connector" where
  "close_current_then_next throws s = (if tc_tcp s = None then connect_next throws s else close_handle True s)"

definition tc_start :: "(address \<Rightarrow> string option) \<Rightarrow> connector \<Rightarrow> connector" where
  "tc_start throws s =
     (if \<not> tc_callback s then tc_complete (Inl (make_connect_error connect_failed ''missing TCP connect callback'')) s
      else if tc_candidates s = [] then tc_complete (Inl (make_connect_error connect_no_addresses [])) s
      else connect_next throws (s\<lparr>tc_timer := (tc_timeout s > 0)\<rparr>))"

definition tc_cancel :: "connector \<Rightarrow> connector" where
  "tc_cancel s =
     (if tc_completed s then s
      else tc_complete (Inl (make_connect_error connect_cancelled [])) (close_current (s\<lparr>tc_cancelled := True\<rparr>)))"

definition tc_on_timeout :: "connector \<Rightarrow> connector" where
  "tc_on_timeout s =
     (if tc_completed s then s
      else tc_complete (Inl (make_connect_error connect_timeout [])) (close_current (s\<lparr>tc_cancelled := True\<rparr>)))"

text \<open>The outcome of the connection of the current handle, an error with its message or none.\<close>

definition tc_on_connected :: "(address \<Rightarrow> string option) \<Rightarrow> string option \<Rightarrow> connector \<Rightarrow> connector" where
  "tc_on_connected throws outcome s =
     (if tc_completed s then s
      else if tc_cancelled s then tc_complete (Inl (make_connect_error connect_cancelled [])) (close_current s)
      else case outcome of
             Some message \<Rightarrow> close_current_then_next throws (s\<lparr>tc_last_error := message\<rparr>)
           | None \<Rightarrow> (case tc_tcp s of None \<Rightarrow> s | Some h \<Rightarrow> tc_complete (Inr h) (s\<lparr>tc_tcp := None\<rparr>)))"

definition erase_closing :: "nat \<Rightarrow> connector \<Rightarrow> connector" where
  "erase_closing h s = s\<lparr>tc_closing := filter (\<lambda>(k, n). k \<noteq> h) (tc_closing s)\<rparr>"

text \<open>\<open>tcp_connector::connect\<close> for one endpoint and for the addresses of an answer.\<close>

definition connect_endpoint :: "(address \<Rightarrow> string option) \<Rightarrow> string \<Rightarrow> nat \<Rightarrow> int \<Rightarrow> bool \<Rightarrow> connector" where
  "connect_endpoint throws h p timeout callback =
     tc_start throws (new_connector [candidate_of_endpoint h p] timeout callback)"

definition connect_addresses :: "(address \<Rightarrow> string option) \<Rightarrow> address list \<Rightarrow> int \<Rightarrow> bool \<Rightarrow> connector" where
  "connect_addresses throws addresses timeout callback = tc_start throws (new_connector addresses timeout callback)"

section \<open>Events\<close>

datatype connector_event = Tc_cancel | Tc_timeout | Tc_connected "string option" | Tc_closed nat

fun tc_step :: "(address \<Rightarrow> string option) \<Rightarrow> connector \<Rightarrow> connector_event \<Rightarrow> connector" where
  "tc_step throws s Tc_cancel = tc_cancel s"
| "tc_step throws s Tc_timeout = (if tc_timer s then tc_on_timeout s else s)"
| "tc_step throws s (Tc_connected r) = (if tc_tcp s = None then s else tc_on_connected throws r s)"
| "tc_step throws s (Tc_closed h) =
     (case find (\<lambda>(k, n). k = h) (tc_closing s) of
        None \<Rightarrow> s
      | Some (k, then_next) \<Rightarrow> if then_next then connect_next throws (erase_closing h s) else erase_closing h s)"

section \<open>Invariant\<close>

definition connector_inv :: "connector \<Rightarrow> bool" where
  "connector_inv s \<longleftrightarrow>
     tc_attempts s = take (tc_next s) (tc_candidates s) \<and> tc_handles s = tc_next s \<and>
     tc_next s \<le> length (tc_candidates s) \<and>
     (\<forall>h. tc_tcp s = Some h \<longrightarrow> Suc h = tc_handles s) \<and>
     (tc_completed s \<longrightarrow> length (tc_calls s) = 1 \<and> tc_tcp s = None \<and> \<not> tc_timer s) \<and>
     (\<not> tc_completed s \<longrightarrow>
        tc_calls s = [] \<and> tc_callback s \<and> \<not> tc_cancelled s \<and>
        (tc_tcp s \<noteq> None \<and> tc_closing s = [] \<or> (\<exists>h. tc_tcp s = None \<and> tc_closing s = [(h, True)]))) \<and>
     (\<forall>h. Inr h \<in> set (tc_calls s) \<longrightarrow> Suc h = tc_next s)"

lemma connect_next_inv:
  assumes "tc_attempts s = take (tc_next s) (tc_candidates s)" "tc_handles s = tc_next s" "tc_calls s = []"
    "tc_next s \<le> length (tc_candidates s)" "tc_callback s" "\<not> tc_cancelled s" "\<not> tc_completed s" "tc_closing s = []"
    "tc_tcp s = None"
  shows "connector_inv (connect_next throws s)"
  using assms
  by (auto simp: connector_inv_def connect_next_def Let_def tc_complete_def close_handle_def take_Suc_conv_app_nth
      split: option.split)

lemma tc_start_inv: "connector_inv (tc_start throws (new_connector candidates timeout True))"
proof (cases "candidates = []")
  case True
  then show ?thesis by (simp add: tc_start_def new_connector_def tc_complete_def connector_inv_def)
next
  case False
  then show ?thesis unfolding tc_start_def by (simp add: new_connector_def connect_next_inv)
qed

lemma tc_step_inv: "connector_inv s \<Longrightarrow> connector_inv (tc_step throws s e)"
proof (cases "tc_completed s")
  case True
  assume inv: "connector_inv s"
  with True have "connector_inv (erase_closing h s)" for h by (simp add: connector_inv_def erase_closing_def)
  then show ?thesis using inv True
    by (cases e) (auto simp: tc_cancel_def tc_on_timeout_def tc_on_connected_def connect_next_def erase_closing_def
        split: option.split)
next
  case False
  assume inv: "connector_inv s"
  show ?thesis
  proof (cases e)
    case (Tc_connected r)
    then show ?thesis using inv False
      by (cases r) (auto simp: connector_inv_def tc_on_connected_def close_current_then_next_def close_handle_def tc_complete_def)
  next
    case (Tc_closed h)
    show ?thesis
    proof (cases "tc_closing s")
      case Nil
      then show ?thesis using inv Tc_closed by simp
    next
      case (Cons p ps)
      then obtain k where c: "tc_closing s = [(k, True)]" "tc_tcp s = None" using inv False by (auto simp: connector_inv_def)
      show ?thesis
      proof (cases "k = h")
        case True
        have "connector_inv (connect_next throws (erase_closing h s))"
          by (rule connect_next_inv) (use inv False c True in \<open>simp_all add: connector_inv_def erase_closing_def\<close>)
        then show ?thesis using Tc_closed c True by simp
      next
        case False
        then show ?thesis using inv Tc_closed c by simp
      qed
    qed
  qed (use inv False in \<open>auto simp: connector_inv_def tc_cancel_def tc_on_timeout_def close_current_def close_handle_def
        tc_complete_def split: option.split\<close>)
qed

interpretation connecting: inv_machine "tc_step throws" connector_inv
  by unfold_locales (rule tc_step_inv)

text \<open>A connector answers at most once, tries the candidates in their order and each at most once, is always
  waiting for an event when it has not answered, and an answer of success is the handle of the last candidate tried.\<close>

theorem connector_answers_once:
  assumes "s = foldl (tc_step throws) (tc_start throws (new_connector candidates timeout True)) evs"
  shows "length (tc_calls s) \<le> 1 \<and> tc_attempts s = take (tc_next s) (tc_candidates s) \<and>
    (tc_calls s = [] \<longrightarrow> tc_tcp s \<noteq> None \<or> tc_closing s \<noteq> []) \<and>
    (\<forall>h. Inr h \<in> set (tc_calls s) \<longrightarrow> Suc h = tc_next s)"
proof -
  have "connector_inv s" unfolding assms by (rule connecting.run_inv [OF tc_start_inv])
  then show ?thesis by (cases "tc_completed s") (auto simp: connector_inv_def)
qed

section \<open>The first address that answers wins\<close>

text \<open>Connections that fail one after the other, each followed by the closing of its handle.\<close>

fun failing_events :: "nat \<Rightarrow> string list \<Rightarrow> connector_event list" where
  "failing_events h [] = []"
| "failing_events h (m # ms) = Tc_connected (Some m) # Tc_closed h # failing_events (Suc h) ms"

definition waiting_on :: "nat \<Rightarrow> address list \<Rightarrow> connector \<Rightarrow> bool" where
  "waiting_on j candidates s \<longleftrightarrow>
     tc_candidates s = candidates \<and> tc_tcp s = Some j \<and> tc_next s = Suc j \<and> tc_handles s = Suc j \<and> tc_closing s = [] \<and>
     \<not> tc_completed s \<and> \<not> tc_cancelled s \<and> tc_callback s \<and> tc_calls s = []"

lemma waiting_on_start: "candidates \<noteq> [] \<Longrightarrow> waiting_on 0 candidates (tc_start (\<lambda>_. None) (new_connector candidates timeout True))"
  by (simp add: waiting_on_def tc_start_def new_connector_def connect_next_def Let_def)

lemma failing_step:
  assumes "waiting_on j candidates s" and t: "t = foldl (tc_step (\<lambda>_. None)) s [Tc_connected (Some m), Tc_closed j]"
  shows "if Suc j < length candidates then waiting_on (Suc j) candidates t
    else tc_completed t \<and> tc_calls t = [Inl (make_connect_error connect_failed m)]"
  using assms(1)
  by (auto simp: t waiting_on_def tc_on_connected_def close_current_then_next_def close_handle_def erase_closing_def
      connect_next_def Let_def tc_complete_def)

lemma failing_run:
  "waiting_on j candidates s \<Longrightarrow> j + length ms < length candidates \<Longrightarrow>
     waiting_on (j + length ms) candidates (foldl (tc_step (\<lambda>_. None)) s (failing_events j ms))"
proof (induction ms arbitrary: j s)
  case (Cons m ms)
  from failing_step [OF Cons.prems(1) refl, of m] Cons.prems(2)
  have "waiting_on (Suc j) candidates (foldl (tc_step (\<lambda>_. None)) s [Tc_connected (Some m), Tc_closed j])" by simp
  from Cons.IH [OF this] Cons.prems(2) show ?case by simp
qed simp


end
