(* ===== verification/Client_Pool.thy ===== *)
theory Client_Pool
  imports Client_Wire Connector "HOL-Library.AList"
begin

text \<open>
  The options of a client (\<open>include/uvpp/protocols/http/client.hpp\<close>) and the pool of its idle connections,
  \<open>connection_pool\<close> of \<open>src/http/client.cpp\<close>. A stream is its number; what is done to streams, and what is asked
  of the resolver, the connector and TLS, is a log in the order of the calls.
\<close>

section \<open>Options\<close>

record client_options =
  co_max_header_bytes :: nat
  co_max_body_bytes :: nat
  co_max_pending_request_body_bytes :: nat
  co_max_idle_connections_per_origin :: nat
  co_max_redirects :: nat
  co_idle_connection_timeout :: int
  co_dns_timeout :: int
  co_connect_timeout :: int
  co_tls_handshake_timeout :: int
  co_request_body_timeout :: int
  co_response_header_timeout :: int
  co_response_body_timeout :: int
  co_follow_redirects :: bool
  co_tls_default_verify_paths :: bool
  co_proxy_url :: string
  co_proxy_authorization :: string
  co_tls_ca_file :: string
  co_tls_ca_path :: string

definition default_client_options :: client_options where
  "default_client_options =
     \<lparr>co_max_header_bytes = 64 * 1024, co_max_body_bytes = 4 * 1024 * 1024,
      co_max_pending_request_body_bytes = 2 * 1024 * 1024, co_max_idle_connections_per_origin = 0, co_max_redirects = 5,
      co_idle_connection_timeout = 30000, co_dns_timeout = 0, co_connect_timeout = 0, co_tls_handshake_timeout = 0,
      co_request_body_timeout = 0, co_response_header_timeout = 0, co_response_body_timeout = 0,
      co_follow_redirects = False, co_tls_default_verify_paths = True, co_proxy_url = [], co_proxy_authorization = [],
      co_tls_ca_file = [], co_tls_ca_path = []\<rparr>"

section \<open>Streams and the log\<close>

type_synonym stream_id = nat

datatype stream_op =
    Op_resolve string nat
  | Op_connect "address list" int
  | Op_tls stream_id string
  | Op_write stream_id string
  | Op_read_start stream_id
  | Op_read_stop stream_id
  | Op_ref stream_id
  | Op_unref stream_id
  | Op_close stream_id

section \<open>The pool\<close>

text \<open>
  An entry holds its stream from the moment it is made, and streams are never shared, so the stream identifies
  the entry. The timer of an entry is running or there is none.
\<close>

record pool_entry =
  pe_origin :: string
  pe_stream :: stream_id
  pe_timer :: bool

record client_io =
  io_idle :: "(string \<times> pool_entry list) list"
  io_ops :: "stream_op list"

definition new_client_io :: client_io where
  "new_client_io = \<lparr>io_idle = [], io_ops = []\<rparr>"

definition io_log :: "stream_op list \<Rightarrow> client_io \<Rightarrow> client_io" where
  "io_log ops io = io\<lparr>io_ops := io_ops io @ ops\<rparr>"

definition idle_queue :: "string \<Rightarrow> client_io \<Rightarrow> pool_entry list" where
  "idle_queue origin io = (case map_of (io_idle io) origin of None \<Rightarrow> [] | Some q \<Rightarrow> q)"

text \<open>A queue that has become empty is erased.\<close>

definition set_idle_queue :: "string \<Rightarrow> pool_entry list \<Rightarrow> client_io \<Rightarrow> client_io" where
  "set_idle_queue origin q io =
     io\<lparr>io_idle := (if q = [] then AList.delete origin (io_idle io) else AList.update origin q (io_idle io))\<rparr>"

definition pool_take :: "string \<Rightarrow> client_io \<Rightarrow> client_io \<times> stream_id option" where
  "pool_take origin io =
     (case map_of (io_idle io) origin of
        None \<Rightarrow> (io, None)
      | Some [] \<Rightarrow> (set_idle_queue origin [] io, None)
      | Some (item # queue) \<Rightarrow>
          (set_idle_queue origin queue (io_log [Op_ref (pe_stream item)] io), Some (pe_stream item)))"

definition close_entry :: "pool_entry \<Rightarrow> client_io \<Rightarrow> client_io" where
  "close_entry item io = io_log [Op_ref (pe_stream item), Op_close (pe_stream item)] io"

definition pool_release :: "string \<Rightarrow> stream_id \<Rightarrow> nat \<Rightarrow> int \<Rightarrow> client_io \<Rightarrow> client_io" where
  "pool_release origin stream max_idle idle_timeout io =
     (let item = \<lparr>pe_origin = origin, pe_stream = stream, pe_timer = (idle_timeout > 0)\<rparr>
      in if max_idle = 0 then close_entry (item\<lparr>pe_origin := [], pe_timer := False\<rparr>) io
         else
           let queue = idle_queue origin io @ [item]; evicted = take (length queue - max_idle) queue
           in foldl (\<lambda>io item. close_entry item io)
                (set_idle_queue origin (drop (length queue - max_idle) queue) (io_log [Op_unref stream] io)) evicted)"

definition pool_close_all :: "client_io \<Rightarrow> client_io" where
  "pool_close_all io =
     (foldl (\<lambda>io item. close_entry item io) io (concat (map snd (io_idle io))))\<lparr>io_idle := []\<rparr>"

definition pool_expire :: "pool_entry \<Rightarrow> client_io \<Rightarrow> client_io" where
  "pool_expire item io =
     close_entry item
       (case map_of (io_idle io) (pe_origin item) of
          None \<Rightarrow> io
        | Some queue \<Rightarrow> set_idle_queue (pe_origin item) (filter (\<lambda>c. pe_stream c \<noteq> pe_stream item) queue) io)"

text \<open>The timers of the pool.\<close>

definition pool_timer :: "stream_id \<Rightarrow> client_io \<Rightarrow> client_io" where
  "pool_timer stream io =
     (case find (\<lambda>item. pe_stream item = stream \<and> pe_timer item) (concat (map snd (io_idle io))) of
        None \<Rightarrow> io | Some item \<Rightarrow> pool_expire item io)"

section \<open>What the pool keeps\<close>

definition io_closed :: "client_io \<Rightarrow> stream_id set" where
  "io_closed io = {s. Op_close s \<in> set (io_ops io)}"

definition pooled :: "client_io \<Rightarrow> stream_id set" where
  "pooled io = {s. \<exists>k. s \<in> pe_stream ` set (idle_queue k io)}"

text \<open>
  No origin has two queues; an entry stands under its own origin; no stream is pooled twice, and none that is
  pooled has been closed.
\<close>

definition pool_inv :: "client_io \<Rightarrow> bool" where
  "pool_inv io \<longleftrightarrow>
     distinct (map fst (io_idle io)) \<and>
     (\<forall>k. distinct (map pe_stream (idle_queue k io)) \<and>
        (\<forall>item\<in>set (idle_queue k io). pe_origin item = k \<and> pe_stream item \<notin> io_closed io)) \<and>
     (\<forall>k k' s. s \<in> pe_stream ` set (idle_queue k io) \<longrightarrow> s \<in> pe_stream ` set (idle_queue k' io) \<longrightarrow> k = k')"

lemma io_log_simps [simp]:
  "io_idle (io_log ops io) = io_idle io" "io_ops (io_log ops io) = io_ops io @ ops"
  "idle_queue k (io_log ops io) = idle_queue k io"
  by (simp_all add: io_log_def idle_queue_def)

lemma set_idle_queue_simps [simp]:
  "io_ops (set_idle_queue k q io) = io_ops io"
  "idle_queue k' (set_idle_queue k q io) = (if k' = k then q else idle_queue k' io)"
  by (auto simp: set_idle_queue_def idle_queue_def delete_conv' update_conv')

lemma set_idle_queue_keys: "distinct (map fst (io_idle io)) \<Longrightarrow> distinct (map fst (io_idle (set_idle_queue k q io)))"
  by (auto simp: set_idle_queue_def distinct_update distinct_delete)

lemma close_entries_simps [simp]:
  "io_idle (foldl (\<lambda>io item. close_entry item io) io items) = io_idle io"
  "idle_queue k (foldl (\<lambda>io item. close_entry item io) io items) = idle_queue k io"
  by (induction items arbitrary: io) (simp_all add: close_entry_def)

lemma close_entries_closed:
  "io_closed (foldl (\<lambda>io item. close_entry item io) io items) = io_closed io \<union> pe_stream ` set items"
  by (induction items arbitrary: io) (auto simp: close_entry_def io_closed_def)

lemma idle_queues: "distinct (map fst (io_idle io)) \<Longrightarrow> set (concat (map snd (io_idle io))) = (\<Union>k. set (idle_queue k io))"
  by (force simp: idle_queue_def split: option.splits dest: map_of_SomeD)

lemma new_client_io_inv: "pool_inv new_client_io"
  by (simp add: pool_inv_def new_client_io_def idle_queue_def io_closed_def)

lemma io_log_inv:
  "pool_inv io \<Longrightarrow> \<forall>s. Op_close s \<in> set ops \<longrightarrow> s \<notin> pooled io \<Longrightarrow> pool_inv (io_log ops io)"
  by (auto simp: pool_inv_def io_closed_def pooled_def)

text \<open>A queue may be cut: what leaves it may be closed.\<close>

lemma set_idle_queue_inv:
  assumes inv: "pool_inv io" and sub: "set q \<subseteq> set (idle_queue k io)" and dist: "distinct (map pe_stream q)"
  shows "pool_inv (set_idle_queue k q io)"
proof -
  have closed: "io_closed (set_idle_queue k q io) = io_closed io" by (simp add: io_closed_def)
  have *: "pe_stream ` set (idle_queue k' (set_idle_queue k q io)) \<subseteq> pe_stream ` set (idle_queue k' io)" for k'
    using sub by auto
  show ?thesis
    unfolding pool_inv_def
  proof (intro conjI allI impI)
    show "distinct (map fst (io_idle (set_idle_queue k q io)))" using inv by (simp add: pool_inv_def set_idle_queue_keys)
    show "distinct (map pe_stream (idle_queue k' (set_idle_queue k q io)))" for k'
      using inv dist by (simp add: pool_inv_def)
    show "\<forall>item\<in>set (idle_queue k' (set_idle_queue k q io)). pe_origin item = k' \<and> pe_stream item \<notin> io_closed (set_idle_queue k q io)" for k'
      using inv sub unfolding closed by (auto simp: pool_inv_def)
    show "k1 = k2" if "s \<in> pe_stream ` set (idle_queue k1 (set_idle_queue k q io))"
      "s \<in> pe_stream ` set (idle_queue k2 (set_idle_queue k q io))" for k1 k2 s
      using inv subsetD [OF * that(1)] subsetD [OF * that(2)] unfolding pool_inv_def by metis
  qed
qed

lemma pooled_split:
  "s \<in> pooled io \<longleftrightarrow> s \<in> pe_stream ` set (idle_queue k io) \<or> (\<exists>k'. k' \<noteq> k \<and> s \<in> pe_stream ` set (idle_queue k' io))"
  unfolding pooled_def mem_Collect_eq by metis

lemma pooled_cut:
  assumes inv: "pool_inv io" and q: "set (idle_queue k io) = set a \<union> set b"
    and disj: "pe_stream ` set a \<inter> pe_stream ` set b = {}"
  shows "pooled (set_idle_queue k b io) = pooled io - pe_stream ` set a"
proof (rule set_eqI)
  fix s
  have other: "s \<notin> pe_stream ` set (idle_queue k' io)" if "s \<in> pe_stream ` set a" "k' \<noteq> k" for k'
  proof
    assume "s \<in> pe_stream ` set (idle_queue k' io)"
    moreover have "s \<in> pe_stream ` set (idle_queue k io)" using q that(1) by auto
    ultimately have "k' = k" using inv unfolding pool_inv_def by metis
    with that(2) show False by simp
  qed
  have 1: "s \<in> pooled (set_idle_queue k b io) \<longleftrightarrow>
      s \<in> pe_stream ` set b \<or> (\<exists>k'. k' \<noteq> k \<and> s \<in> pe_stream ` set (idle_queue k' io))"
    by (subst pooled_split [of _ _ k]) auto
  have 2: "s \<in> pooled io \<longleftrightarrow>
      s \<in> pe_stream ` set a \<or> s \<in> pe_stream ` set b \<or> (\<exists>k'. k' \<noteq> k \<and> s \<in> pe_stream ` set (idle_queue k' io))"
    unfolding pooled_split [of _ _ k] q by auto
  show "s \<in> pooled (set_idle_queue k b io) \<longleftrightarrow> s \<in> pooled io - pe_stream ` set a"
    using 1 2 other disj by blast
qed

lemma pooled_log [simp]: "pooled (io_log ops io) = pooled io"
  by (simp add: pooled_def)

lemma pooled_close_entries [simp]:
  "pooled (foldl (\<lambda>io item. close_entry item io) io items) = pooled io"
  by (simp add: pooled_def)

lemma close_entries_inv:
  "pool_inv io \<Longrightarrow> pe_stream ` set items \<inter> pooled io = {} \<Longrightarrow> pool_inv (foldl (\<lambda>io item. close_entry item io) io items)"
proof (induction items arbitrary: io)
  case (Cons item items)
  have "pool_inv (close_entry item io)"
    unfolding close_entry_def using Cons.prems by (intro io_log_inv) auto
  then show ?case using Cons by (simp add: close_entry_def)
qed simp

lemma pool_inv_distinct: "pool_inv io \<Longrightarrow> distinct (map pe_stream (idle_queue k io))"
  by (simp add: pool_inv_def)

lemma pool_inv_open: "pool_inv io \<Longrightarrow> pooled io \<inter> io_closed io = {}"
  unfolding pool_inv_def pooled_def by fast

text \<open>The stream that is taken was pooled under the origin asked for, and is pooled no more.\<close>

lemma pool_take_spec:
  assumes inv: "pool_inv io" and take: "pool_take k io = (io', r)"
  shows "pool_inv io' \<and> io_closed io' = io_closed io \<and>
    (r = None \<longrightarrow> pooled io' = pooled io) \<and>
    (\<forall>s. r = Some s \<longrightarrow> s \<in> pe_stream ` set (idle_queue k io) \<and> pooled io' = pooled io - {s}) \<and>
    (\<forall>k'. length (idle_queue k' io') \<le> length (idle_queue k' io))"
proof (cases "idle_queue k io")
  case Nil
  have "pool_inv (set_idle_queue k [] io)" using inv by (rule set_idle_queue_inv) simp_all
  moreover have "idle_queue k' (set_idle_queue k [] io) = idle_queue k' io" for k' using Nil by simp
  moreover from this have "pooled (set_idle_queue k [] io) = pooled io" by (simp add: pooled_def)
  moreover have "(io', r) = (io, None) \<or> (io', r) = (set_idle_queue k [] io, None)"
    using take Nil by (auto simp: pool_take_def idle_queue_def split: option.splits)
  ultimately show ?thesis using inv by (auto simp: io_closed_def)
next
  case (Cons item queue)
  define io1 where "io1 = io_log [Op_ref (pe_stream item)] io"
  from Cons have "map_of (io_idle io) k = Some (item # queue)" by (auto simp: idle_queue_def split: option.splits)
  then have io': "io' = set_idle_queue k queue io1" and r: "r = Some (pe_stream item)"
    using take by (auto simp: pool_take_def io1_def)
  have d: "distinct (map pe_stream (item # queue))" using pool_inv_distinct [OF inv, of k] Cons by simp
  have inv1: "pool_inv io1" unfolding io1_def using inv by (rule io_log_inv) simp
  have "pooled io' = pooled io1 - pe_stream ` set [item]"
    unfolding io' by (rule pooled_cut [OF inv1]) (use Cons d in \<open>auto simp: io1_def\<close>)
  moreover have "pool_inv io'" unfolding io' by (rule set_idle_queue_inv [OF inv1]) (use Cons d in \<open>auto simp: io1_def\<close>)
  ultimately show ?thesis using r Cons by (simp add: io' io1_def io_closed_def)
qed

text \<open>A stream that is given back and is neither pooled nor closed is pooled under its origin, or closed.\<close>

lemma pool_release_spec:
  assumes inv: "pool_inv io" and s: "s \<notin> pooled io" "s \<notin> io_closed io" and io': "io' = pool_release k s max_idle timeout io"
  shows "pool_inv io' \<and> io_closed io \<subseteq> io_closed io' \<and> pooled io' \<union> io_closed io' = insert s (pooled io \<union> io_closed io) \<and>
    (\<forall>k'. length (idle_queue k' io) \<le> max_idle \<longrightarrow> length (idle_queue k' io') \<le> max_idle)"
proof (cases "max_idle = 0")
  case True
  then have "io' = foldl (\<lambda>io item. close_entry item io) io [\<lparr>pe_origin = [], pe_stream = s, pe_timer = False\<rparr>]"
    using io' by (simp add: pool_release_def)
  then show ?thesis using close_entries_inv [OF inv, of "[\<lparr>pe_origin = [], pe_stream = s, pe_timer = False\<rparr>]"] s
    by (auto simp: io_closed_def close_entry_def)
next
  case False
  define item where "item = \<lparr>pe_origin = k, pe_stream = s, pe_timer = (timeout > 0)\<rparr>"
  define q where "q = idle_queue k io @ [item]"
  define n where "n = length q - max_idle"
  define io1 where "io1 = set_idle_queue k q (io_log [Op_unref s] io)"
  have q1: "idle_queue k' io1 = (if k' = k then q else idle_queue k' io)" for k' by (simp add: io1_def)
  have s': "s \<notin> pe_stream ` set (idle_queue k' io)" for k' using s by (auto simp: pooled_def)
  have fresh: "t \<in> pe_stream ` set (idle_queue k' io) \<or> t = s \<and> k' = k"
    if "t \<in> pe_stream ` set (idle_queue k' io1)" for t k' using that unfolding q1 q_def item_def by (auto split: if_splits)
  have inv1: "pool_inv io1"
    unfolding pool_inv_def
  proof (intro conjI allI impI)
    show "distinct (map fst (io_idle io1))" using inv by (simp add: io1_def pool_inv_def set_idle_queue_keys)
    show "distinct (map pe_stream (idle_queue k' io1))" for k'
      using inv s' [of k] by (auto simp: q1 q_def item_def pool_inv_def)
    show "\<forall>item\<in>set (idle_queue k' io1). pe_origin item = k' \<and> pe_stream item \<notin> io_closed io1" for k'
      using inv s by (auto simp: q1 q_def item_def pool_inv_def io_closed_def io1_def)
    show "k1 = k2" if "t \<in> pe_stream ` set (idle_queue k1 io1)" "t \<in> pe_stream ` set (idle_queue k2 io1)" for k1 k2 t
      using fresh [OF that(1)] fresh [OF that(2)] inv s' [of k1] s' [of k2] unfolding pool_inv_def by metis
  qed
  have p1: "pooled io1 = insert s (pooled io)"
  proof (rule set_eqI)
    fix x
    show "x \<in> pooled io1 \<longleftrightarrow> x \<in> insert s (pooled io)"
      using pooled_split [of x io1 k] pooled_split [of x io k] by (auto simp: q1 q_def item_def)
  qed
  define io2 where "io2 = set_idle_queue k (drop n q) io1"
  have "n < length q" using False by (simp add: n_def q_def)
  then have "io2 = set_idle_queue k (drop n q) (io_log [Op_unref s] io)"
    by (auto simp: io1_def io2_def set_idle_queue_def)
  then have io'_def: "io' = foldl (\<lambda>io item. close_entry item io) io2 (take n q)"
    using False io' by (simp add: pool_release_def n_def Let_def q_def item_def)
  have dq: "distinct (map pe_stream q)" using pool_inv_distinct [OF inv1, of k] by (simp add: q1)
  then have disj: "pe_stream ` set (take n q) \<inter> pe_stream ` set (drop n q) = {}"
    by (metis append_take_drop_id distinct_append map_append set_map)
  have parts: "set q = set (take n q) \<union> set (drop n q)" by (metis append_take_drop_id set_append)
  have p2: "pooled io2 = pooled io1 - pe_stream ` set (take n q)"
    unfolding io2_def by (rule pooled_cut [OF inv1]) (use disj parts in \<open>simp_all add: q1\<close>)
  have inv2: "pool_inv io2" unfolding io2_def
    by (rule set_idle_queue_inv [OF inv1]) (use dq in \<open>auto simp: q1 drop_map [symmetric] dest: in_set_dropD\<close>)
  have inv': "pool_inv io'" unfolding io'_def by (rule close_entries_inv [OF inv2]) (use p2 in auto)
  have c: "io_closed io' = io_closed io \<union> pe_stream ` set (take n q)"
    unfolding io'_def close_entries_closed by (simp add: io2_def io1_def io_closed_def)
  have p': "pooled io' = pooled io1 - pe_stream ` set (take n q)" by (simp add: io'_def p2)
  have sub: "pe_stream ` set (take n q) \<subseteq> pooled io1"
  proof -
    have "set (idle_queue k io1) = set q" by (simp add: q1)
    moreover have "set (take n q) \<subseteq> set q" by (rule set_take_subset)
    ultimately show ?thesis unfolding pooled_def by blast
  qed
  have "length (idle_queue k' io') \<le> max_idle" if "length (idle_queue k' io) \<le> max_idle" for k'
    using that by (auto simp: io'_def io2_def q1 n_def)
  moreover have "pooled io' \<union> io_closed io' = insert s (pooled io \<union> io_closed io)" using c p' sub p1 by blast
  moreover have "io_closed io \<subseteq> io_closed io'" using c by blast
  ultimately show ?thesis using inv' by simp
qed

lemma pool_expire_spec:
  assumes inv: "pool_inv io" and item: "item \<in> set (idle_queue (pe_origin item) io)" and io': "io' = pool_expire item io"
  shows "pool_inv io' \<and> pooled io' = pooled io - {pe_stream item} \<and> io_closed io' = insert (pe_stream item) (io_closed io) \<and>
    (\<forall>k'. length (idle_queue k' io') \<le> length (idle_queue k' io))"
proof -
  define k where "k = pe_origin item"
  define q where "q = filter (\<lambda>c. pe_stream c \<noteq> pe_stream item) (idle_queue k io)"
  have "io' = close_entry item (set_idle_queue k q io)"
    using item by (auto simp: io' pool_expire_def k_def q_def idle_queue_def split: option.splits)
  then have io'': "io' = foldl (\<lambda>io item. close_entry item io) (set_idle_queue k q io) [item]" by simp
  have p: "pooled (set_idle_queue k q io) = pooled io - pe_stream ` set [c \<leftarrow> idle_queue k io. pe_stream c = pe_stream item]"
    by (rule pooled_cut [OF inv]) (auto simp: q_def)
  moreover have "pe_stream ` set [c \<leftarrow> idle_queue k io. pe_stream c = pe_stream item] = {pe_stream item}"
    using item by (auto simp: k_def)
  ultimately have p': "pooled (set_idle_queue k q io) = pooled io - {pe_stream item}" by simp
  have "pool_inv (set_idle_queue k q io)"
    by (rule set_idle_queue_inv [OF inv]) (use pool_inv_distinct [OF inv, of k] in \<open>auto simp: q_def distinct_map_filter\<close>)
  then have "pool_inv io'" unfolding io'' by (rule close_entries_inv) (simp add: p')
  moreover have "io_closed io' = insert (pe_stream item) (io_closed io)"
    unfolding io'' close_entries_closed by (simp add: io_closed_def)
  moreover have "length (idle_queue k' io') \<le> length (idle_queue k' io)" for k'
    unfolding io'' by (simp add: q_def close_entry_def)
  ultimately show ?thesis using p' by (simp add: io'' close_entry_def)
qed

lemma pool_close_all_spec:
  assumes inv: "pool_inv io" and io': "io' = pool_close_all io"
  shows "pool_inv io' \<and> pooled io' = {} \<and> io_closed io' = io_closed io \<union> pooled io"
proof -
  have "set (concat (map snd (io_idle io))) = (\<Union>k. set (idle_queue k io))"
    using inv by (intro idle_queues) (simp add: pool_inv_def)
  then have "pe_stream ` set (concat (map snd (io_idle io))) = pooled io" unfolding pooled_def by (auto simp: image_iff)
  then have "io_closed io' = io_closed io \<union> pooled io"
    using close_entries_closed [of io "concat (map snd (io_idle io))"] by (simp add: io' pool_close_all_def io_closed_def)
  moreover have "idle_queue k io' = []" for k by (simp add: io' pool_close_all_def idle_queue_def)
  ultimately show ?thesis by (simp add: pool_inv_def pooled_def io' pool_close_all_def)
qed

section \<open>The pool writes nothing\<close>

definition no_writes :: "stream_op list \<Rightarrow> bool" where
  "no_writes ops \<longleftrightarrow> (\<forall>i p. Op_write i p \<notin> set ops)"

lemma no_writes_append [simp]: "no_writes (a @ b) \<longleftrightarrow> no_writes a \<and> no_writes b"
  by (auto simp: no_writes_def)

lemma no_writes_simps [simp]:
  "no_writes []" "no_writes [Op_close i]" "no_writes [Op_read_start i]" "no_writes [Op_resolve h p]"
  "no_writes [Op_connect as t]" "no_writes [Op_tls i h]" "no_writes [Op_ref i]" "no_writes [Op_read_stop i]"
  by (simp_all add: no_writes_def)

lemma pool_take_log: "pool_take k io = (io', r) \<Longrightarrow> \<exists>ops. io_ops io' = io_ops io @ ops \<and> no_writes ops"
  by (auto simp: pool_take_def no_writes_def split: option.splits list.splits)

lemma close_entries_log:
  "\<exists>ops. io_ops (foldl (\<lambda>io item. close_entry item io) io items) = io_ops io @ ops \<and> no_writes ops"
proof (induction items arbitrary: io)
  case Nil
  then show ?case by (simp add: no_writes_def)
next
  case (Cons item items)
  obtain ops where "io_ops (foldl (\<lambda>io item. close_entry item io) (close_entry item io) items) = io_ops (close_entry item io) @ ops"
    "no_writes ops" using Cons.IH by blast
  then show ?case by (intro exI [of _ "[Op_ref (pe_stream item), Op_close (pe_stream item)] @ ops"])
      (simp add: close_entry_def, simp add: no_writes_def)
qed

lemma pool_release_log: "\<exists>ops. io_ops (pool_release k i m timeout io) = io_ops io @ ops \<and> no_writes ops"
proof (cases "m = 0")
  case True
  then show ?thesis by (simp add: pool_release_def close_entry_def no_writes_def)
next
  case False
  let ?q = "idle_queue k io @ [\<lparr>pe_origin = k, pe_stream = i, pe_timer = 0 < timeout\<rparr>]"
  let ?io = "set_idle_queue k (drop (length ?q - m) ?q) (io_log [Op_unref i] io)"
  obtain ops where "io_ops (foldl (\<lambda>io item. close_entry item io) ?io (take (length ?q - m) ?q)) = io_ops ?io @ ops" "no_writes ops"
    using close_entries_log by blast
  then show ?thesis using False
    by (intro exI [of _ "Op_unref i # ops"]) (simp add: pool_release_def Let_def, simp add: no_writes_def)
qed

end
