(* ===== verification/Tls_Types.thy ===== *)
theory Tls_Types
  imports Prelude
begin

text \<open>The error codes of the TLS layer, \<open>include/uvpp/protocols/tls/error.hpp\<close> and \<open>src/tls/error.cpp\<close>.\<close>

datatype tls_errc =
    tls_ok
  | tls_openssl_error
  | tls_handshake_failed
  | tls_verification_failed
  | tls_protocol_error
  | tls_closed
  | tls_cancelled
  | tls_timeout
  | tls_pending_handshake_limit
  | tls_write_buffer_limit
  | tls_read_buffer_limit
  | tls_unexpected_eof

fun tls_message :: "tls_errc \<Rightarrow> string" where
  "tls_message tls_ok = ''success''"
| "tls_message tls_openssl_error = ''OpenSSL error''"
| "tls_message tls_handshake_failed = ''TLS handshake failed''"
| "tls_message tls_verification_failed = ''TLS peer verification failed''"
| "tls_message tls_protocol_error = ''TLS protocol error''"
| "tls_message tls_closed = ''TLS stream is closed''"
| "tls_message tls_cancelled = ''TLS operation cancelled''"
| "tls_message tls_timeout = ''TLS operation timed out''"
| "tls_message tls_pending_handshake_limit = ''TLS pending handshake limit reached''"
| "tls_message tls_write_buffer_limit = ''TLS write buffer limit reached''"
| "tls_message tls_read_buffer_limit = ''TLS read buffer limit reached''"
| "tls_message tls_unexpected_eof = ''TLS stream ended without close_notify''"

end
