(* ===== verification/Client_Fetch.thy ===== *)
theory Client_Fetch
  imports Client_Pool Tls_Types
begin

text \<open>
  A buffered request, \<open>request_state\<close> of \<open>src/http/client.cpp\<close>: URL, proxy, pool, name resolution, connection, TLS,
  the request, the response, redirects, timeouts and cancellation. The application's callback is the last thing a
  call does, so its calls are a log. The answers of the resolver, the connector, TLS, the stream and the timer are
  events that come after the call that asked for them, as the TCP streams of \<open>src/io/transport.cpp\<close> give them.
\<close>

section \<open>State\<close>

datatype fetch_phase =
    phase_none | phase_dns | phase_tls_handshake | phase_request_body | phase_response_header | phase_response_body

record fetch =
  cf_options :: client_options
  cf_method :: http_method
  cf_url_input :: string
  cf_callback :: bool
  cf_url :: url
  cf_proxy_url :: url
  cf_origin_key :: string
  cf_proxy_key :: string
  cf_forward_proxy :: bool
  cf_dns :: bool
  cf_connect :: bool
  cf_tls :: bool
  cf_stream :: "stream_id option"
  cf_restart :: "url option"
  cf_phase :: fetch_phase
  cf_received :: string
  cf_redirects :: nat
  cf_headers_complete :: bool
  cf_cancelled :: bool
  cf_timed_out :: bool
  cf_completed :: bool
  cf_calls :: "(errc, response_state) result list"
  cf_thrown :: "client_exn option"
  cf_io :: client_io

definition new_fetch :: "client_options \<Rightarrow> http_method \<Rightarrow> string \<Rightarrow> bool \<Rightarrow> client_io \<Rightarrow> fetch" where
  "new_fetch options m url_input callback io =
     \<lparr>cf_options = options, cf_method = m, cf_url_input = url_input, cf_callback = callback, cf_url = empty_url,
      cf_proxy_url = empty_url, cf_origin_key = [], cf_proxy_key = [], cf_forward_proxy = False, cf_dns = False,
      cf_connect = False, cf_tls = False, cf_stream = None, cf_restart = None, cf_phase = phase_none, cf_received = [],
      cf_redirects = 0, cf_headers_complete = False, cf_cancelled = False, cf_timed_out = False, cf_completed = False,
      cf_calls = [], cf_thrown = None, cf_io = io\<rparr>"

definition cf_log :: "stream_op list \<Rightarrow> fetch \<Rightarrow> fetch" where
  "cf_log ops s = s\<lparr>cf_io := io_log ops (cf_io s)\<rparr>"

section \<open>Completion and timeouts\<close>

definition stop_phase_timeout :: "fetch \<Rightarrow> fetch" where
  "stop_phase_timeout s = s\<lparr>cf_phase := phase_none\<rparr>"

text \<open>A timer runs exactly while the phase is not none.\<close>

definition start_phase_timeout :: "fetch_phase \<Rightarrow> int \<Rightarrow> fetch \<Rightarrow> fetch" where
  "start_phase_timeout phase duration s =
     (let s = stop_phase_timeout s in if duration \<le> 0 then s else s\<lparr>cf_phase := phase\<rparr>)"

definition cf_complete :: "(errc, response_state) result \<Rightarrow> fetch \<Rightarrow> fetch" where
  "cf_complete r s =
     (if cf_completed s then s
      else
        let s = stop_phase_timeout (s\<lparr>cf_completed := True\<rparr>)
        in s\<lparr>cf_callback := False, cf_calls := (if cf_callback s then cf_calls s @ [r] else cf_calls s)\<rparr>)"

definition cf_fail :: "errc \<Rightarrow> string \<Rightarrow> fetch \<Rightarrow> fetch" where
  "cf_fail c d s = cf_complete (Inl (make_client_error c d)) s"

definition cf_close_stream :: "fetch \<Rightarrow> fetch" where
  "cf_close_stream s = (case cf_stream s of None \<Rightarrow> s | Some i \<Rightarrow> cf_log [Op_close i] s)"

text \<open>The common start of the handlers of an answer.\<close>

definition cf_answered :: "(fetch \<Rightarrow> fetch) \<Rightarrow> fetch \<Rightarrow> fetch" where
  "cf_answered f s =
     (if cf_completed s then s
      else if cf_cancelled s then (if cf_timed_out s then s else cf_fail client_cancelled [] s)
      else f s)"

text \<open>An operation that is cancelled answers at once, with an error; nothing of the answer is looked at then.\<close>

definition cancel_operations :: "fetch \<Rightarrow> fetch" where
  "cancel_operations s =
     (let s = (if cf_dns s then cf_answered id (s\<lparr>cf_dns := False\<rparr>) else s);
          s = (if cf_connect s then cf_answered id (s\<lparr>cf_connect := False\<rparr>) else s)
      in (if cf_tls s then cf_answered id (s\<lparr>cf_tls := False\<rparr>) else s))"

definition fetch_cancel :: "fetch \<Rightarrow> fetch" where
  "fetch_cancel s =
     (if cf_completed s then s
      else cf_fail client_cancelled [] (cf_close_stream (cancel_operations (s\<lparr>cf_cancelled := True\<rparr>))))"

fun timeout_phase_name :: "fetch_phase \<Rightarrow> string" where
  "timeout_phase_name phase_dns = ''DNS resolution timed out''"
| "timeout_phase_name phase_tls_handshake = ''TLS handshake timed out''"
| "timeout_phase_name phase_request_body = ''request body timed out''"
| "timeout_phase_name phase_response_header = ''response headers timed out''"
| "timeout_phase_name phase_response_body = ''response body timed out''"
| "timeout_phase_name phase_none = ''request timed out''"

definition cf_on_timeout :: "fetch_phase \<Rightarrow> fetch \<Rightarrow> fetch" where
  "cf_on_timeout phase s =
     (if cf_completed s \<or> phase \<noteq> cf_phase s then s
      else cf_fail client_timeout (timeout_phase_name phase)
             (cf_close_stream (cancel_operations (s\<lparr>cf_cancelled := True, cf_timed_out := True\<rparr>))))"

section \<open>The request\<close>

definition request_head_start :: "http_method \<Rightarrow> string \<Rightarrow> url \<Rightarrow> string" where
  "request_head_start m target u =
     method_to_string m @ '' '' @ target @ '' HTTP/1.1'' @ crlf @ ''Host: '' @ host u @
     (if has_port u then '':'' @ port u else []) @ crlf"

definition buffered_request :: "fetch \<Rightarrow> string" where
  "buffered_request s =
     request_head_start (cf_method s)
       (if cf_forward_proxy s then absolute_form_target (cf_url s) else origin_form_target (cf_url s)) (cf_url s) @
     ''User-Agent: uvpp-protocols/0'' @ crlf @ ''Accept: */*'' @ crlf @
     (if cf_forward_proxy s \<and> co_proxy_authorization (cf_options s) \<noteq> []
      then ''Proxy-Authorization: '' @ co_proxy_authorization (cf_options s) @ crlf else []) @
     (if co_max_idle_connections_per_origin (cf_options s) = 0 then ''Connection: close'' @ crlf else []) @
     crlf"

definition write_buffered_request :: "stream_id \<Rightarrow> fetch \<Rightarrow> fetch" where
  "write_buffered_request i s =
     cf_log [Op_write i (buffered_request s)]
       (start_phase_timeout phase_request_body (co_request_body_timeout (cf_options s)) (s\<lparr>cf_stream := Some i\<rparr>))"

section \<open>Starting\<close>

text \<open>Without a proxy the endpoint is the one of the URL, which \<open>start\<close> has found to have one.\<close>

definition select_connect_endpoint :: "url_scheme_t \<Rightarrow> fetch \<Rightarrow> fetch \<times> (errc, url_authority_endpoint) result" where
  "select_connect_endpoint target_scheme s =
     (let s = s\<lparr>cf_forward_proxy := False, cf_proxy_key := [], cf_proxy_url := empty_url\<rparr>
      in if co_proxy_url (cf_options s) = [] then
           (s, case authority_endpoint (cf_url s) of
                 Inl e \<Rightarrow> Inl (wrap_client_error url_error_message client_invalid_url e) | Inr ep \<Rightarrow> Inr ep)
         else if target_scheme \<noteq> scheme_http then
           (s, Inl (make_client_error client_proxy_failed ''HTTP CONNECT proxying is not implemented''))
         else case parse_url (co_proxy_url (cf_options s)) of
                Inl e \<Rightarrow> (s, Inl (wrap_client_error url_error_message client_proxy_failed e))
              | Inr proxy \<Rightarrow>
                  let s = s\<lparr>cf_proxy_url := proxy\<rparr>
                  in if scheme_id proxy \<noteq> scheme_http
                     then (s, Inl (make_client_error client_proxy_failed ''proxy scheme is unsupported''))
                     else case authority_endpoint proxy of
                            Inl e \<Rightarrow> (s, Inl (wrap_client_error url_error_message client_proxy_failed e))
                          | Inr ep \<Rightarrow> (s\<lparr>cf_forward_proxy := True, cf_proxy_key := origin_key proxy\<rparr>, Inr ep))"

definition connection_pool_key :: "fetch \<Rightarrow> string" where
  "connection_pool_key s =
     origin_key (cf_url s) @ (if cf_forward_proxy s then '' via '' @ cf_proxy_key s else [])"

definition start_connection :: "url_authority_endpoint \<Rightarrow> fetch \<Rightarrow> fetch" where
  "start_connection ep s =
     (let s = s\<lparr>cf_origin_key := connection_pool_key s\<rparr>
      in case pool_take (cf_origin_key s) (cf_io s) of
           (io, Some i) \<Rightarrow> write_buffered_request i (s\<lparr>cf_io := io\<rparr>)
         | (io, None) \<Rightarrow>
             start_phase_timeout phase_dns (co_dns_timeout (cf_options s))
               (cf_log [Op_resolve (ep_host ep) (unat (ep_port ep))] (s\<lparr>cf_io := io, cf_dns := True\<rparr>)))"

definition fetch_start_url :: "(url_errc, url) result \<Rightarrow> fetch \<Rightarrow> fetch" where
  "fetch_start_url parsed s =
     (case parsed of
        Inl e \<Rightarrow> cf_complete (Inl (wrap_client_error url_error_message client_invalid_url e)) s
      | Inr u \<Rightarrow>
          let s = s\<lparr>cf_url := u\<rparr>; sch = scheme_id u
          in if sch \<noteq> scheme_http \<and> sch \<noteq> scheme_https then cf_fail client_unsupported_scheme [] s
             else case authority_endpoint u of
                    Inl e \<Rightarrow> cf_complete (Inl (wrap_client_error url_error_message client_invalid_url e)) s
                  | Inr _ \<Rightarrow>
                      (case select_connect_endpoint sch s of
                         (s, Inl e) \<Rightarrow> cf_complete (Inl e) s
                       | (s, Inr ep) \<Rightarrow> start_connection ep s))"

definition fetch_start :: "fetch \<Rightarrow> fetch" where
  "fetch_start s = fetch_start_url (parse_url (cf_url_input s)) s"

section \<open>Connecting\<close>

definition cf_on_resolved :: "(dns_errc, address list) result \<Rightarrow> fetch \<Rightarrow> fetch" where
  "cf_on_resolved r =
     cf_answered (\<lambda>s.
       case r of
         Inl e \<Rightarrow> cf_complete (Inl (wrap_client_error dns_message client_dns_failed e)) s
       | Inr addresses \<Rightarrow>
           cf_log [Op_connect addresses (co_connect_timeout (cf_options s))] ((stop_phase_timeout s)\<lparr>cf_connect := True\<rparr>))"

text \<open>Setting TLS up may throw, with a message; otherwise a handshake is under way.\<close>

definition cf_start_tls :: "string option \<Rightarrow> stream_id \<Rightarrow> fetch \<Rightarrow> fetch" where
  "cf_start_tls throws lower s =
     (case throws of
        Some message \<Rightarrow> cf_fail client_tls_failed message s
      | None \<Rightarrow>
          cf_log [Op_tls lower (hostname (cf_url s))]
            ((start_phase_timeout phase_tls_handshake (co_tls_handshake_timeout (cf_options s)) s)\<lparr>cf_tls := True\<rparr>))"

definition cf_on_connected :: "string option \<Rightarrow> (connect_errc, stream_id) result \<Rightarrow> fetch \<Rightarrow> fetch" where
  "cf_on_connected tls_throws r =
     cf_answered (\<lambda>s.
       case r of
         Inl e \<Rightarrow>
           (case e of Error c d \<Rightarrow>
              if c = connect_timeout then cf_fail client_timeout ''TCP connect timed out'' s
              else cf_complete (Inl (wrap_client_error connect_message client_connect_failed e)) s)
       | Inr i \<Rightarrow>
           if scheme_id (cf_url s) = scheme_https then cf_start_tls tls_throws i s else write_buffered_request i s)"

definition cf_on_tls_connected :: "(tls_errc, stream_id \<times> string) result \<Rightarrow> fetch \<Rightarrow> fetch" where
  "cf_on_tls_connected r =
     cf_answered (\<lambda>s.
       case r of
         Inl e \<Rightarrow> cf_complete (Inl (wrap_client_error tls_message client_tls_failed e)) s
       | Inr (i, selected_alpn) \<Rightarrow>
           if selected_alpn \<noteq> [] \<and> selected_alpn \<noteq> ''http/1.1''
           then cf_fail client_tls_failed ''unsupported TLS ALPN protocol'' (cf_log [Op_close i] s)
           else write_buffered_request i s)"

definition cf_on_written :: "string option \<Rightarrow> fetch \<Rightarrow> fetch" where
  "cf_on_written err s =
     (if cf_completed s then s
      else case err of
             Some message \<Rightarrow> cf_fail client_connect_failed message s
           | None \<Rightarrow>
               start_phase_timeout phase_response_header (co_response_header_timeout (cf_options s))
                 (case cf_stream s of None \<Rightarrow> s | Some i \<Rightarrow> cf_log [Op_read_start i] s))"

section \<open>The end of a response\<close>

definition release_stream :: "fetch \<Rightarrow> fetch" where
  "release_stream s =
     (case cf_stream s of
        None \<Rightarrow> s
      | Some i \<Rightarrow>
          s\<lparr>cf_io := pool_release (cf_origin_key s) i (co_max_idle_connections_per_origin (cf_options s))
                (co_idle_connection_timeout (cf_options s)) (io_log [Op_read_stop i] (cf_io s)),
            cf_stream := None\<rparr>)"

definition close_or_release_current :: "bool \<Rightarrow> fetch \<Rightarrow> fetch" where
  "close_or_release_current reusable s =
     (let s = stop_phase_timeout s
      in if reusable \<and> cf_stream s \<noteq> None then release_stream s else cf_close_stream s)"

text \<open>The same with what is to follow: at once after a release, and when the stream reports that it is closed otherwise.\<close>

definition close_or_release_then_start :: "bool \<Rightarrow> url \<Rightarrow> fetch \<Rightarrow> fetch" where
  "close_or_release_then_start reusable u s =
     (let s = stop_phase_timeout s
      in if reusable \<and> cf_stream s \<noteq> None then fetch_start_url (Inr u) (release_stream s)
         else if cf_stream s \<noteq> None then (cf_close_stream s)\<lparr>cf_restart := Some u\<rparr>
         else fetch_start_url (Inr u) (cf_close_stream s))"

definition follow_redirect :: "response_state \<Rightarrow> bool \<Rightarrow> fetch \<Rightarrow> fetch" where
  "follow_redirect response reusable s =
     (if \<not> method_can_follow_redirect (cf_method s)
      then cf_fail client_redirect_failed ''redirect method is not replayable'' (close_or_release_current reusable s)
      else if cf_redirects s \<ge> co_max_redirects (cf_options s)
      then cf_fail client_redirect_failed ''too many redirects'' (close_or_release_current reusable s)
      else
        let location = client_trim (headers_get (rs_headers response) ''location'')
        in if location = []
           then cf_fail client_redirect_failed ''redirect location is missing'' (close_or_release_current reusable s)
           else case parse_url_base location (href (cf_url s)) of
                  Inl e \<Rightarrow>
                    cf_complete (Inl (wrap_client_error url_error_message client_redirect_failed e))
                      (close_or_release_current reusable s)
                | Inr redirected \<Rightarrow>
                    if scheme_id redirected \<noteq> scheme_http \<and> scheme_id redirected \<noteq> scheme_https
                    then cf_fail client_redirect_failed ''redirect scheme is unsupported''
                           (close_or_release_current reusable s)
                    else close_or_release_then_start reusable redirected
                           (s\<lparr>cf_received := [], cf_headers_complete := False, cf_redirects := cf_redirects s + 1\<rparr>))"

definition should_follow_redirect :: "response_state \<Rightarrow> fetch \<Rightarrow> bool" where
  "should_follow_redirect response s \<longleftrightarrow>
     co_follow_redirects (cf_options s) \<and> response_is_redirect (rs_status response)"

definition complete_buffered_response :: "(errc, response_state) result \<Rightarrow> bool \<Rightarrow> fetch \<Rightarrow> fetch" where
  "complete_buffered_response r reusable s =
     (case r of
        Inr response \<Rightarrow>
          if should_follow_redirect response s then follow_redirect response reusable s
          else cf_complete r (if reusable \<and> cf_stream s \<noteq> None then release_stream s else cf_close_stream s)
      | Inl e \<Rightarrow> cf_complete r (cf_close_stream s))"

text \<open>A thrown exception leaves the callback of the stream.\<close>

definition complete_parsed :: "client_exn + (errc error + response_state) \<Rightarrow> bool \<Rightarrow> fetch \<Rightarrow> fetch" where
  "complete_parsed parsed reusable s =
     (case parsed of Inl e \<Rightarrow> s\<lparr>cf_thrown := Some e\<rparr> | Inr r \<Rightarrow> complete_buffered_response r reusable s)"

section \<open>Reading the response\<close>

definition cf_close_fail :: "errc error \<Rightarrow> fetch \<Rightarrow> fetch" where
  "cf_close_fail e s = cf_complete (Inl e) (cf_close_stream s)"

definition fatal_chunk_error :: "string \<Rightarrow> bool" where
  "fatal_chunk_error message \<longleftrightarrow>
     contains_str ''invalid'' message \<or> contains_str ''not terminated'' message \<or> contains_str ''unexpected bytes'' message"

text \<open>What is decided once the head is known, with the bytes of its body so far.\<close>

definition try_complete_body :: "bool \<Rightarrow> response_head \<Rightarrow> nat \<Rightarrow> fetch \<Rightarrow> fetch" where
  "try_complete_body eof head body_offset s =
     (let opts = cf_options s;
          parse = (\<lambda>bytes. parse_response (cf_method s) bytes (co_max_header_bytes opts) (co_max_body_bytes opts));
          reusable = co_max_idle_connections_per_origin opts > 0 \<and> \<not> connection_requests_close (rh_headers head) \<and>
                     response_has_reusable_framing (cf_method s) head;
          raw_body = drop body_offset (cf_received s);
          content_length = headers_get (rh_headers head) ''content-length''
      in if response_must_not_have_body (cf_method s) (rh_status head)
         then complete_parsed (parse (take body_offset (cf_received s))) reusable s
         else if is_chunked (rh_headers head) then
           (case decode_chunked raw_body of
              Inl e \<Rightarrow> s\<lparr>cf_thrown := Some e\<rparr>
            | Inr (Inr body) \<Rightarrow> complete_parsed (parse (cf_received s)) reusable s
            | Inr (Inl message) \<Rightarrow>
                if fatal_chunk_error message \<or> eof then cf_close_fail (malformed message) s else s)
         else if content_length \<noteq> [] then
           (case parse_uint 10 content_length of
              None \<Rightarrow> cf_close_fail (malformed ''content-length is invalid'') s
            | Some n \<Rightarrow>
                if n > int (co_max_body_bytes opts) then cf_close_fail (make_client_error client_body_limit_exceeded []) s
                else if int (length raw_body) < n
                then (if eof then cf_close_fail (malformed ''response body is incomplete'') s else s)
                else complete_parsed (parse (take (body_offset + nat n) (cf_received s))) reusable s)
         else if length (cf_received s) > co_max_header_bytes opts + co_max_body_bytes opts + 4096
         then cf_close_fail (make_client_error client_body_limit_exceeded []) s
         else if eof then complete_parsed (parse (cf_received s)) False s else s)"

definition try_complete_buffered_response :: "bool \<Rightarrow> fetch \<Rightarrow> fetch" where
  "try_complete_buffered_response eof s =
     (case sv_find_str (crlf @ crlf) (cf_received s) 0 of
        None \<Rightarrow>
          if length (cf_received s) > co_max_header_bytes (cf_options s)
          then cf_close_fail (make_client_error client_header_limit_exceeded []) s
          else if eof then cf_close_fail (malformed ''response headers are incomplete'') s else s
      | Some header_end \<Rightarrow>
          if header_end + 4 > co_max_header_bytes (cf_options s)
          then cf_close_fail (make_client_error client_header_limit_exceeded []) s
          else
            let s = (if cf_headers_complete s then s
                     else start_phase_timeout phase_response_body (co_response_body_timeout (cf_options s))
                            (s\<lparr>cf_headers_complete := True\<rparr>))
            in case parse_response_head (cf_received s) (co_max_header_bytes (cf_options s)) of
                 Inl e \<Rightarrow> cf_close_fail e s
               | Inr (head, body_offset) \<Rightarrow> try_complete_body eof head body_offset s)"

datatype read_outcome = Read_eof | Read_error string | Read_data string

definition cf_on_read :: "read_outcome \<Rightarrow> fetch \<Rightarrow> fetch" where
  "cf_on_read r s =
     (if cf_completed s then s
      else case r of
             Read_eof \<Rightarrow> try_complete_buffered_response True s
           | Read_error message \<Rightarrow> cf_close_fail (make_client_error client_connect_failed message) s
           | Read_data bytes \<Rightarrow> try_complete_buffered_response False (s\<lparr>cf_received := cf_received s @ bytes\<rparr>))"

section \<open>Events\<close>

datatype fetch_event =
    Fe_resolved "(dns_errc, address list) result"
  | Fe_connected "string option" "(connect_errc, stream_id) result"
  | Fe_tls "(tls_errc, stream_id \<times> string) result"
  | Fe_written "string option"
  | Fe_read read_outcome
  | Fe_closed
  | Fe_timeout fetch_phase
  | Fe_cancel

text \<open>
  An answer comes only to what was asked; a stream that is being closed reports only that it is closed, and one that
  is closed reports nothing while the next is being connected; nothing runs after an exception has left a callback.
\<close>

definition cf_waiting :: "fetch \<Rightarrow> bool" where
  "cf_waiting s \<longleftrightarrow> cf_dns s \<or> cf_connect s \<or> cf_tls s \<or> cf_restart s \<noteq> None"

definition cf_on_stream :: "fetch \<Rightarrow> bool" where
  "cf_on_stream s \<longleftrightarrow> cf_stream s \<noteq> None \<and> \<not> cf_waiting s"

fun fetch_event_step :: "fetch \<Rightarrow> fetch_event \<Rightarrow> fetch" where
  "fetch_event_step s (Fe_resolved r) = (if cf_dns s then cf_on_resolved r (s\<lparr>cf_dns := False\<rparr>) else s)"
| "fetch_event_step s (Fe_connected throws r) =
     (if cf_connect s then cf_on_connected throws r (s\<lparr>cf_connect := False\<rparr>) else s)"
| "fetch_event_step s (Fe_tls r) = (if cf_tls s then cf_on_tls_connected r (s\<lparr>cf_tls := False\<rparr>) else s)"
| "fetch_event_step s (Fe_written err) = (if cf_on_stream s then cf_on_written err s else s)"
| "fetch_event_step s (Fe_read r) = (if cf_on_stream s then cf_on_read r s else s)"
| "fetch_event_step s Fe_closed =
     (case cf_restart s of None \<Rightarrow> s | Some u \<Rightarrow> fetch_start_url (Inr u) (s\<lparr>cf_restart := None\<rparr>))"
| "fetch_event_step s (Fe_timeout phase) = (if cf_phase s = phase_none then s else cf_on_timeout phase s)"
| "fetch_event_step s Fe_cancel = fetch_cancel s"

definition fetch_step :: "fetch \<Rightarrow> fetch_event \<Rightarrow> fetch" where
  "fetch_step s e = (if cf_thrown s = None then fetch_event_step s e else s)"

end
