(* ===== verification/Client_Stream.thy ===== *)
theory Client_Stream
  imports Client_Fetch
begin

text \<open>
  A streaming request, \<open>streaming_request_state\<close> of \<open>src/http/client.cpp\<close>: the body of the request is written in
  pieces with back pressure, and the body of the response is handed on as it arrives. The callbacks of the
  application run in the middle of a call and may write, end or cancel there: an application is a function
  that gives the calls it makes in a callback. When the completion callback runs the request is complete, and
  those calls do nothing any more.
\<close>

section \<open>State\<close>

datatype response_body_mode = body_unknown | body_empty | body_content_length | body_chunked | body_eof

datatype upload_mode = upload_none | upload_content_length | upload_chunked

datatype stream_call =
    Call_headers response_head
  | Call_data string
  | Call_drain
  | Call_complete "(errc, unit) result"

record stream_request =
  sr_options :: client_options
  sr_method :: http_method
  sr_url_input :: string
  sr_origin_key :: string
  sr_url :: url
  sr_dns :: bool
  sr_connect :: bool
  sr_tls :: bool
  sr_stream :: "stream_id option"
  sr_phase :: fetch_phase
  sr_on_headers :: bool
  sr_on_data :: bool
  sr_on_complete :: bool
  sr_on_drain :: bool
  sr_request_headers :: headers
  sr_response_head :: response_head
  sr_upload_writes :: "string list"
  sr_buffer :: string
  sr_content_length :: "nat option"
  sr_remaining :: nat
  sr_delivered :: nat
  sr_accepted :: nat
  sr_pieces :: "string list"
  sr_pending :: nat
  sr_body_mode :: response_body_mode
  sr_upload_mode :: upload_mode
  sr_started :: bool
  sr_headers_started :: bool
  sr_headers_written :: bool
  sr_upload_writing :: bool
  sr_upload_ended :: bool
  sr_backpressured :: bool
  sr_reading :: bool
  sr_headers_seen :: bool
  sr_cancelled :: bool
  sr_timed_out :: bool
  sr_completed :: bool
  sr_calls :: "stream_call list"
  sr_thrown :: "client_exn option"
  sr_io :: client_io

definition new_stream_request :: "client_options \<Rightarrow> http_method \<Rightarrow> string \<Rightarrow> client_io \<Rightarrow> stream_request" where
  "new_stream_request options m url_input io =
     \<lparr>sr_options = options, sr_method = m, sr_url_input = url_input, sr_origin_key = [], sr_url = empty_url,
      sr_dns = False, sr_connect = False, sr_tls = False, sr_stream = None, sr_phase = phase_none,
      sr_on_headers = False, sr_on_data = False, sr_on_complete = False, sr_on_drain = False, sr_request_headers = [],
      sr_response_head = \<lparr>rh_status = 0, rh_headers = []\<rparr>, sr_upload_writes = [], sr_buffer = [],
      sr_content_length = None, sr_remaining = 0, sr_delivered = 0, sr_accepted = 0, sr_pieces = [], sr_pending = 0,
      sr_body_mode = body_unknown, sr_upload_mode = upload_none, sr_started = False, sr_headers_started = False,
      sr_headers_written = False, sr_upload_writing = False, sr_upload_ended = False, sr_backpressured = False,
      sr_reading = False, sr_headers_seen = False, sr_cancelled = False, sr_timed_out = False, sr_completed = False,
      sr_calls = [], sr_thrown = None, sr_io = io\<rparr>"

definition sr_log :: "stream_op list \<Rightarrow> stream_request \<Rightarrow> stream_request" where
  "sr_log ops s = s\<lparr>sr_io := io_log ops (sr_io s)\<rparr>"

section \<open>Configuration\<close>

definition sr_header :: "string \<Rightarrow> string \<Rightarrow> stream_request \<Rightarrow> stream_request" where
  "sr_header name v s = (if sr_started s then s else s\<lparr>sr_request_headers := headers_set (sr_request_headers s) name v\<rparr>)"

definition sr_set_content_length :: "nat \<Rightarrow> stream_request \<Rightarrow> stream_request" where
  "sr_set_content_length n s =
     (if sr_started s then s
      else s\<lparr>sr_upload_mode := upload_content_length, sr_content_length := Some n,
             sr_request_headers := headers_set (sr_request_headers s) ''content-length'' (print_number 10 n)\<rparr>)"

definition enable_chunked_upload :: "stream_request \<Rightarrow> stream_request" where
  "enable_chunked_upload s =
     s\<lparr>sr_upload_mode := upload_chunked, sr_content_length := None,
       sr_request_headers := headers_set (sr_request_headers s) ''transfer-encoding'' ''chunked''\<rparr>"

definition sr_set_chunked :: "stream_request \<Rightarrow> stream_request" where
  "sr_set_chunked s = (if sr_started s then s else enable_chunked_upload s)"

text \<open>The callbacks the application sets.\<close>

definition sr_set_callbacks :: "bool \<Rightarrow> bool \<Rightarrow> bool \<Rightarrow> bool \<Rightarrow> stream_request \<Rightarrow> stream_request" where
  "sr_set_callbacks hs data complete drain s =
     s\<lparr>sr_on_headers := hs, sr_on_data := data, sr_on_complete := complete, sr_on_drain := drain\<rparr>"

datatype stream_setup = Set_header string string | Set_content_length nat | Set_chunked | Set_callbacks bool bool bool bool

fun configure :: "stream_request \<Rightarrow> stream_setup \<Rightarrow> stream_request" where
  "configure s (Set_header name v) = sr_header name v s"
| "configure s (Set_content_length n) = sr_set_content_length n s"
| "configure s Set_chunked = sr_set_chunked s"
| "configure s (Set_callbacks hs data complete drain) = sr_set_callbacks hs data complete drain s"

section \<open>Completion and timeouts\<close>

definition sr_stop_timeout :: "stream_request \<Rightarrow> stream_request" where
  "sr_stop_timeout s = s\<lparr>sr_phase := phase_none\<rparr>"

definition sr_start_timeout :: "fetch_phase \<Rightarrow> int \<Rightarrow> stream_request \<Rightarrow> stream_request" where
  "sr_start_timeout phase duration s =
     (let s = sr_stop_timeout s in if duration \<le> 0 then s else s\<lparr>sr_phase := phase\<rparr>)"

definition sr_complete :: "(errc, unit) result \<Rightarrow> stream_request \<Rightarrow> stream_request" where
  "sr_complete r s =
     (if sr_completed s then s
      else
        let s = sr_stop_timeout (s\<lparr>sr_completed := True\<rparr>)
        in s\<lparr>sr_on_complete := False,
             sr_calls := (if sr_on_complete s then sr_calls s @ [Call_complete r] else sr_calls s)\<rparr>)"

definition sr_fail :: "errc \<Rightarrow> string \<Rightarrow> stream_request \<Rightarrow> stream_request" where
  "sr_fail c d s = sr_complete (Inl (make_client_error c d)) s"

definition sr_close_stream :: "stream_request \<Rightarrow> stream_request" where
  "sr_close_stream s = (case sr_stream s of None \<Rightarrow> s | Some i \<Rightarrow> sr_log [Op_close i] s)"

definition sr_close_fail :: "errc error \<Rightarrow> stream_request \<Rightarrow> stream_request" where
  "sr_close_fail e s = sr_complete (Inl e) (sr_close_stream s)"

definition sr_answered :: "(stream_request \<Rightarrow> stream_request) \<Rightarrow> stream_request \<Rightarrow> stream_request" where
  "sr_answered f s =
     (if sr_completed s then s
      else if sr_cancelled s then (if sr_timed_out s then s else sr_fail client_cancelled [] s)
      else f s)"

definition sr_cancel_operations :: "stream_request \<Rightarrow> stream_request" where
  "sr_cancel_operations s =
     (let s = (if sr_dns s then sr_answered id (s\<lparr>sr_dns := False\<rparr>) else s);
          s = (if sr_connect s then sr_answered id (s\<lparr>sr_connect := False\<rparr>) else s)
      in (if sr_tls s then sr_answered id (s\<lparr>sr_tls := False\<rparr>) else s))"

definition sr_cancel :: "stream_request \<Rightarrow> stream_request" where
  "sr_cancel s =
     (if sr_completed s then s
      else sr_fail client_cancelled [] (sr_close_stream (sr_cancel_operations (s\<lparr>sr_cancelled := True\<rparr>))))"

definition sr_on_timeout :: "fetch_phase \<Rightarrow> stream_request \<Rightarrow> stream_request" where
  "sr_on_timeout phase s =
     (if sr_completed s \<or> phase \<noteq> sr_phase s then s
      else sr_fail client_timeout (timeout_phase_name phase)
             (sr_close_stream (sr_cancel_operations (s\<lparr>sr_cancelled := True, sr_timed_out := True\<rparr>))))"

section \<open>The body of the request\<close>

definition begin_response_read :: "stream_request \<Rightarrow> stream_request" where
  "begin_response_read s =
     (if sr_completed s \<or> sr_reading s then s
      else
        let s = s\<lparr>sr_reading := True\<rparr>
        in sr_start_timeout phase_response_header (co_response_header_timeout (sr_options s))
             (case sr_stream s of None \<Rightarrow> s | Some i \<Rightarrow> sr_log [Op_read_start i] s))"

definition fail_request_body :: "string \<Rightarrow> stream_request \<Rightarrow> stream_request" where
  "fail_request_body d s = sr_close_fail (make_client_error client_request_body_failed d) s"

definition flush_upload_writes :: "stream_request \<Rightarrow> stream_request" where
  "flush_upload_writes s =
     (if sr_completed s \<or> \<not> sr_headers_written s \<or> sr_upload_writing s then s
      else case sr_upload_writes s of
             [] \<Rightarrow> s
           | payload # rest \<Rightarrow>
               (case sr_stream s of None \<Rightarrow> s | Some i \<Rightarrow> sr_log [Op_write i payload] s)\<lparr>sr_upload_writing := True\<rparr>)"

text \<open>A piece on the wire: as it is, or as a chunk. The pieces accepted are kept for the specification.\<close>

definition queue_upload :: "string \<Rightarrow> string \<Rightarrow> stream_request \<Rightarrow> stream_request \<times> stream_write_result" where
  "queue_upload payload wire s =
     (let s = flush_upload_writes
            (s\<lparr>sr_accepted := sr_accepted s + length payload, sr_pieces := sr_pieces s @ [payload], sr_pending := sr_pending s + length wire,
               sr_upload_writes := sr_upload_writes s @ [wire]\<rparr>);
          limit = co_max_pending_request_body_bytes (sr_options s)
      in if limit > 0 \<and> sr_pending s \<ge> limit then (s\<lparr>sr_backpressured := True\<rparr>, swr_backpressure)
         else (s, swr_ready))"

definition sr_write :: "string \<Rightarrow> stream_request \<Rightarrow> stream_request \<times> stream_write_result" where
  "sr_write payload s =
     (if payload = [] then (s, swr_ready)
      else if sr_completed s \<or> sr_upload_ended s then (s, swr_rejected Not_connected)
      else if sr_backpressured s then (s, swr_rejected Operation_would_block)
      else if sr_headers_written s \<and> sr_upload_mode s = upload_none then (s, swr_rejected Invalid_argument_code)
      else if sr_upload_mode s = upload_none \<and> sr_headers_started s then (s, swr_rejected Invalid_argument_code)
      else
        let s = (if sr_upload_mode s = upload_none then enable_chunked_upload s else s)
        in case sr_upload_mode s of
             upload_content_length \<Rightarrow>
               (case sr_content_length s of
                  None \<Rightarrow> (s, swr_rejected Invalid_argument_code)
                | Some n \<Rightarrow>
                    if sr_accepted s + length payload > n then (s, swr_rejected Invalid_argument_code)
                    else queue_upload payload payload s)
           | upload_chunked \<Rightarrow> queue_upload payload (client_serialize_chunk payload) s
           | upload_none \<Rightarrow> (s, swr_rejected Invalid_argument_code))"

definition sr_end :: "stream_request \<Rightarrow> stream_request" where
  "sr_end s =
     (if sr_completed s \<or> sr_upload_ended s then s
      else
        let finish = (\<lambda>s.
              let s = flush_upload_writes (s\<lparr>sr_upload_ended := True\<rparr>)
              in if sr_headers_written s \<and> sr_upload_writes s = [] \<and> \<not> sr_upload_writing s then begin_response_read s else s)
        in case sr_upload_mode s of
             upload_none \<Rightarrow>
               let s = s\<lparr>sr_upload_ended := True\<rparr> in if sr_headers_written s then begin_response_read s else s
           | upload_content_length \<Rightarrow>
               if sr_content_length s \<noteq> Some (sr_accepted s)
               then fail_request_body ''content-length request body size mismatch'' s else finish s
           | upload_chunked \<Rightarrow>
               finish (s\<lparr>sr_pending := sr_pending s + 5, sr_upload_writes := sr_upload_writes s @ [''0'' @ crlf @ crlf]\<rparr>))"

section \<open>Application code in a callback\<close>

datatype stream_action = Act_write string | Act_end | Act_cancel

fun run_stream_action :: "stream_request \<Rightarrow> stream_action \<Rightarrow> stream_request" where
  "run_stream_action s (Act_write payload) = fst (sr_write payload s)"
| "run_stream_action s Act_end = sr_end s"
| "run_stream_action s Act_cancel = sr_cancel s"

type_synonym stream_app = "stream_call \<Rightarrow> stream_request \<Rightarrow> stream_action list"

definition sr_call :: "stream_app \<Rightarrow> stream_call \<Rightarrow> stream_request \<Rightarrow> stream_request" where
  "sr_call app c s = foldl run_stream_action (s\<lparr>sr_calls := sr_calls s @ [c]\<rparr>) (app c s)"

definition notify_upload_drain_if_needed :: "stream_app \<Rightarrow> stream_request \<Rightarrow> stream_request" where
  "notify_upload_drain_if_needed app s =
     (if \<not> sr_backpressured s then s
      else if sr_pending s > co_max_pending_request_body_bytes (sr_options s) div 2 then s
      else
        let s = s\<lparr>sr_backpressured := False\<rparr> in if sr_on_drain s then sr_call app Call_drain s else s)"

definition on_upload_written :: "stream_app \<Rightarrow> string option \<Rightarrow> stream_request \<Rightarrow> stream_request" where
  "on_upload_written app err s =
     (if sr_completed s then s
      else
        let s = s\<lparr>sr_upload_writing := False\<rparr>
        in case err of
             Some message \<Rightarrow> fail_request_body message s
           | None \<Rightarrow>
               let s = (case sr_upload_writes s of
                          [] \<Rightarrow> s
                        | w # rest \<Rightarrow> s\<lparr>sr_pending := sr_pending s - min (sr_pending s) (length w), sr_upload_writes := rest\<rparr>);
                   s = notify_upload_drain_if_needed app s
               in if sr_upload_writes s \<noteq> [] then flush_upload_writes s
                  else if sr_upload_ended s then begin_response_read s else s)"

section \<open>Sending the head\<close>

definition streaming_head :: "stream_request \<Rightarrow> string" where
  "streaming_head s =
     request_head_start (sr_method s) (origin_form_target (sr_url s)) (sr_url s) @
     (if headers_contains (sr_request_headers s) ''user-agent'' then [] else ''User-Agent: uvpp-protocols/0'' @ crlf) @
     (if headers_contains (sr_request_headers s) ''accept'' then [] else ''Accept: */*'' @ crlf) @
     (if headers_contains (sr_request_headers s) ''connection'' then []
      else if co_max_idle_connections_per_origin (sr_options s) = 0 then ''Connection: close'' @ crlf else []) @
     concat (map header_line (filter (\<lambda>(name, v). \<not> names_equal name ''host'') (sr_request_headers s))) @ crlf"

definition write_request :: "stream_id \<Rightarrow> stream_request \<Rightarrow> stream_request" where
  "write_request i s =
     (let s = s\<lparr>sr_stream := Some i, sr_headers_started := True\<rparr>;
          s = (if sr_upload_mode s = upload_content_length \<and> sr_content_length s = Some 0
               then s\<lparr>sr_upload_ended := True\<rparr> else s)
      in sr_log [Op_write i (streaming_head s)]
           (sr_start_timeout phase_request_body (co_request_body_timeout (sr_options s)) s))"

definition on_request_headers_written :: "string option \<Rightarrow> stream_request \<Rightarrow> stream_request" where
  "on_request_headers_written err s =
     (if sr_completed s then s
      else case err of
             Some message \<Rightarrow> sr_fail client_request_body_failed message s
           | None \<Rightarrow>
               let s = s\<lparr>sr_headers_written := True\<rparr>
               in if (sr_upload_mode s = upload_none \<or> sr_upload_ended s) \<and> sr_upload_writes s = [] \<and> \<not> sr_upload_writing s
                  then begin_response_read s else flush_upload_writes s)"

section \<open>Starting and connecting\<close>

definition sr_start_url :: "url \<Rightarrow> stream_request \<Rightarrow> stream_request" where
  "sr_start_url u s =
     (let s = s\<lparr>sr_url := u\<rparr>; sch = scheme_id u
      in if sch \<noteq> scheme_http \<and> sch \<noteq> scheme_https then sr_fail client_unsupported_scheme [] s
         else if co_proxy_url (sr_options s) \<noteq> []
         then sr_fail client_proxy_failed ''HTTP proxying is not implemented for streaming requests'' s
         else case authority_endpoint u of
                Inl e \<Rightarrow> sr_complete (Inl (wrap_client_error url_error_message client_invalid_url e)) s
              | Inr ep \<Rightarrow>
                  let s = s\<lparr>sr_origin_key := origin_key u\<rparr>
                  in case pool_take (sr_origin_key s) (sr_io s) of
                       (io, Some i) \<Rightarrow> write_request i (s\<lparr>sr_io := io\<rparr>)
                     | (io, None) \<Rightarrow>
                         sr_start_timeout phase_dns (co_dns_timeout (sr_options s))
                           (sr_log [Op_resolve (ep_host ep) (unat (ep_port ep))] (s\<lparr>sr_io := io, sr_dns := True\<rparr>)))"

definition sr_start :: "stream_request \<Rightarrow> stream_request" where
  "sr_start s =
     (let s = s\<lparr>sr_started := True\<rparr>
      in case parse_url (sr_url_input s) of
           Inl e \<Rightarrow> sr_complete (Inl (wrap_client_error url_error_message client_invalid_url e)) s
         | Inr u \<Rightarrow> sr_start_url u s)"

definition sr_on_resolved :: "(dns_errc, address list) result \<Rightarrow> stream_request \<Rightarrow> stream_request" where
  "sr_on_resolved r =
     sr_answered (\<lambda>s.
       case r of
         Inl e \<Rightarrow> sr_complete (Inl (wrap_client_error dns_message client_dns_failed e)) s
       | Inr addresses \<Rightarrow>
           sr_log [Op_connect addresses (co_connect_timeout (sr_options s))] ((sr_stop_timeout s)\<lparr>sr_connect := True\<rparr>))"

definition sr_start_tls :: "string option \<Rightarrow> stream_id \<Rightarrow> stream_request \<Rightarrow> stream_request" where
  "sr_start_tls throws lower s =
     (case throws of
        Some message \<Rightarrow> sr_fail client_tls_failed message s
      | None \<Rightarrow>
          sr_log [Op_tls lower (hostname (sr_url s))]
            ((sr_start_timeout phase_tls_handshake (co_tls_handshake_timeout (sr_options s)) s)\<lparr>sr_tls := True\<rparr>))"

definition sr_on_connected :: "string option \<Rightarrow> (connect_errc, stream_id) result \<Rightarrow> stream_request \<Rightarrow> stream_request" where
  "sr_on_connected tls_throws r =
     sr_answered (\<lambda>s.
       case r of
         Inl e \<Rightarrow>
           (case e of Error c d \<Rightarrow>
              if c = connect_timeout then sr_fail client_timeout ''TCP connect timed out'' s
              else sr_complete (Inl (wrap_client_error connect_message client_connect_failed e)) s)
       | Inr i \<Rightarrow> if scheme_id (sr_url s) = scheme_https then sr_start_tls tls_throws i s else write_request i s)"

definition sr_on_tls_connected :: "(tls_errc, stream_id \<times> string) result \<Rightarrow> stream_request \<Rightarrow> stream_request" where
  "sr_on_tls_connected r =
     sr_answered (\<lambda>s.
       case r of
         Inl e \<Rightarrow> sr_complete (Inl (wrap_client_error tls_message client_tls_failed e)) s
       | Inr (i, selected_alpn) \<Rightarrow>
           if selected_alpn \<noteq> [] \<and> selected_alpn \<noteq> ''http/1.1''
           then sr_fail client_tls_failed ''unsupported TLS ALPN protocol'' (sr_log [Op_close i] s)
           else write_request i s)"

section \<open>Frame of the application's calls\<close>

text \<open>What the application does in a callback never touches the bytes received so far.\<close>

lemma sr_complete_buffer [simp]: "sr_buffer (sr_complete r s) = sr_buffer s"
  by (simp add: sr_complete_def sr_stop_timeout_def Let_def)

lemma sr_close_stream_buffer [simp]: "sr_buffer (sr_close_stream s) = sr_buffer s"
  by (simp add: sr_close_stream_def sr_log_def split: option.split)

lemma sr_answered_buffer [simp]: "sr_buffer (sr_answered id s) = sr_buffer s"
  by (simp add: sr_answered_def sr_fail_def)

lemma sr_cancel_buffer [simp]: "sr_buffer (sr_cancel s) = sr_buffer s"
  by (simp add: sr_cancel_def sr_cancel_operations_def sr_fail_def Let_def)

lemma flush_upload_writes_buffer [simp]: "sr_buffer (flush_upload_writes s) = sr_buffer s"
  by (simp add: flush_upload_writes_def sr_log_def split: list.split option.split)

lemma begin_response_read_buffer [simp]: "sr_buffer (begin_response_read s) = sr_buffer s"
  by (simp add: begin_response_read_def sr_start_timeout_def sr_stop_timeout_def sr_log_def Let_def split: option.split)

lemma sr_write_buffer [simp]: "sr_buffer (fst (sr_write payload s)) = sr_buffer s"
  by (simp add: sr_write_def queue_upload_def enable_chunked_upload_def Let_def split: upload_mode.split option.split)

lemma sr_end_buffer [simp]: "sr_buffer (sr_end s) = sr_buffer s"
  by (simp add: sr_end_def fail_request_body_def sr_close_fail_def Let_def split: upload_mode.split)

lemma sr_call_buffer [simp]: "sr_buffer (sr_call app c s) = sr_buffer s"
proof -
  have "sr_buffer (run_stream_action s a) = sr_buffer s" for s a by (cases a) simp_all
  then have "sr_buffer (foldl run_stream_action s as) = sr_buffer s" for s as by (induction as arbitrary: s) simp_all
  then show ?thesis by (simp add: sr_call_def)
qed

section \<open>The body of the response\<close>

definition sr_emit_body :: "stream_app \<Rightarrow> string \<Rightarrow> stream_request \<Rightarrow> stream_request" where
  "sr_emit_body app data s =
     (if data = [] then s
      else
        let s = s\<lparr>sr_delivered := sr_delivered s + length data\<rparr>
        in if sr_on_data s then sr_call app (Call_data data) s else s)"

lemma sr_emit_body_buffer [simp]: "sr_buffer (sr_emit_body app data s) = sr_buffer s"
  by (simp add: sr_emit_body_def Let_def)

definition sr_release_stream :: "stream_request \<Rightarrow> stream_request" where
  "sr_release_stream s =
     (case sr_stream s of
        None \<Rightarrow> s
      | Some i \<Rightarrow>
          s\<lparr>sr_io := pool_release (sr_origin_key s) i (co_max_idle_connections_per_origin (sr_options s))
                (co_idle_connection_timeout (sr_options s)) (io_log [Op_read_stop i] (sr_io s)),
            sr_stream := None\<rparr>)"

definition finish_response_success :: "stream_request \<Rightarrow> stream_request" where
  "finish_response_success s =
     sr_complete (Inr ())
       (if co_max_idle_connections_per_origin (sr_options s) > 0 \<and>
           \<not> connection_requests_close (rh_headers (sr_response_head s)) \<and>
           response_has_reusable_framing (sr_method s) (sr_response_head s) \<and> sr_stream s \<noteq> None
        then sr_release_stream s else sr_close_stream s)"

text \<open>The loop runs at most once: it ends with nothing buffered or nothing remaining.\<close>

definition process_content_length_body :: "stream_app \<Rightarrow> stream_request \<Rightarrow> stream_request" where
  "process_content_length_body app s =
     (let s = (if \<not> sr_completed s \<and> sr_remaining s > 0 \<and> sr_buffer s \<noteq> [] then
                 let size = min (sr_remaining s) (length (sr_buffer s));
                     s = sr_emit_body app (take size (sr_buffer s)) s
                 in s\<lparr>sr_buffer := drop size (sr_buffer s), sr_remaining := sr_remaining s - size\<rparr>
               else s)
      in if \<not> sr_completed s \<and> sr_remaining s = 0 then finish_response_success s else s)"

function process_chunked_body :: "stream_app \<Rightarrow> stream_request \<Rightarrow> stream_request" where
  "process_chunked_body app s =
     (if sr_completed s then s
      else case sv_find_str crlf (sr_buffer s) 0 of
        None \<Rightarrow> s
      | Some line_end \<Rightarrow>
          let size_line = take line_end (sr_buffer s);
              size_line = sv_until size_line (sv_find (CHR '';'') size_line)
          in case parse_uint 16 size_line of
               None \<Rightarrow> sr_close_fail (malformed ''chunk size is invalid'') s
             | Some chunk_size \<Rightarrow>
                 let data_offset = line_end + 2
                 in if chunk_size = 0 then
                      if sv_substr (sr_buffer s) data_offset 2 = crlf
                      then finish_response_success (s\<lparr>sr_buffer := drop (data_offset + 2) (sr_buffer s)\<rparr>)
                      else case sv_find_str (crlf @ crlf) (sr_buffer s) data_offset of
                             None \<Rightarrow> s
                           | Some trailer_end \<Rightarrow>
                               finish_response_success (s\<lparr>sr_buffer := drop (trailer_end + 4) (sr_buffer s)\<rparr>)
                    else if int (length (sr_buffer s) - data_offset) < (chunk_size + 2) mod uint_limit then s
                    else if int (sr_delivered s) + chunk_size > int (co_max_body_bytes (sr_options s))
                    then sr_close_fail (make_client_error client_body_limit_exceeded []) s
                    else if int (length (sr_buffer s)) < int data_offset + chunk_size
                    then s\<lparr>sr_thrown := Some Out_of_range\<rparr>
                    else if sv_substr (sr_buffer s) (data_offset + nat chunk_size) 2 \<noteq> crlf
                    then sr_close_fail (malformed ''chunk body is not terminated'') s
                    else
                      let s = sr_emit_body app (sv_substr (sr_buffer s) data_offset (nat chunk_size)) s
                      in process_chunked_body app (s\<lparr>sr_buffer := drop (data_offset + nat chunk_size + 2) (sr_buffer s)\<rparr>))"
  by pat_completeness auto
termination
  by (relation "measure (\<lambda>(app, s). length (sr_buffer s))")
    (auto dest!: sv_find_str_bounds sym [THEN sv_find_str_bounds] simp: crlf_def)

declare process_chunked_body.simps [simp del]

definition emit_buffer_as_body :: "stream_app \<Rightarrow> stream_request \<Rightarrow> stream_request" where
  "emit_buffer_as_body app s =
     (if sr_buffer s = [] then s
      else if sr_delivered s + length (sr_buffer s) > co_max_body_bytes (sr_options s)
      then sr_close_fail (make_client_error client_body_limit_exceeded []) s
      else (sr_emit_body app (sr_buffer s) s)\<lparr>sr_buffer := []\<rparr>)"

definition process_body :: "stream_app \<Rightarrow> stream_request \<Rightarrow> stream_request" where
  "process_body app s =
     (case sr_body_mode s of
        body_empty \<Rightarrow> s
      | body_content_length \<Rightarrow> process_content_length_body app s
      | body_chunked \<Rightarrow> process_chunked_body app s
      | body_eof \<Rightarrow> emit_buffer_as_body app s
      | body_unknown \<Rightarrow> s)"

text \<open>The head has just been seen and reported: how the body is framed.\<close>

definition process_head :: "stream_app \<Rightarrow> stream_request \<Rightarrow> stream_request" where
  "process_head app s =
     (let head = sr_response_head s; content_length = headers_get (rh_headers head) ''content-length'';
          proceed = (\<lambda>s. process_body app
            (sr_start_timeout phase_response_body (co_response_body_timeout (sr_options s)) s))
      in if response_must_not_have_body (sr_method s) (rh_status head)
         then finish_response_success (s\<lparr>sr_body_mode := body_empty\<rparr>)
         else if is_chunked (rh_headers head) then proceed (s\<lparr>sr_body_mode := body_chunked\<rparr>)
         else if content_length \<noteq> [] then
           (case parse_uint 10 content_length of
              None \<Rightarrow> sr_close_fail (malformed ''content-length is invalid'') s
            | Some n \<Rightarrow>
                if n > int (co_max_body_bytes (sr_options s))
                then sr_close_fail (make_client_error client_body_limit_exceeded []) s
                else proceed (s\<lparr>sr_body_mode := body_content_length, sr_remaining := nat n\<rparr>))
         else proceed (s\<lparr>sr_body_mode := body_eof\<rparr>))"

definition process_buffer :: "stream_app \<Rightarrow> stream_request \<Rightarrow> stream_request" where
  "process_buffer app s =
     (if sr_completed s then s
      else if sr_headers_seen s then process_body app s
      else case sv_find_str (crlf @ crlf) (sr_buffer s) 0 of
             None \<Rightarrow>
               if length (sr_buffer s) > co_max_header_bytes (sr_options s)
               then sr_close_fail (make_client_error client_header_limit_exceeded []) s else s
           | Some header_end \<Rightarrow>
               (case parse_response_head (sr_buffer s) (co_max_header_bytes (sr_options s)) of
                  Inl e \<Rightarrow> sr_close_fail e s
                | Inr (head, body_offset) \<Rightarrow>
                    let s = s\<lparr>sr_response_head := head, sr_buffer := drop body_offset (sr_buffer s), sr_headers_seen := True\<rparr>;
                        s = (if sr_on_headers s then sr_call app (Call_headers head) s else s)
                    in process_head app s))"

definition sr_on_eof :: "stream_app \<Rightarrow> stream_request \<Rightarrow> stream_request" where
  "sr_on_eof app s =
     (if \<not> sr_headers_seen s then sr_close_fail (malformed ''response headers are incomplete'') s
      else
        let finish = (\<lambda>s. sr_complete (Inr ()) (sr_close_stream s))
        in case sr_body_mode s of
             body_content_length \<Rightarrow>
               if sr_remaining s \<noteq> 0 then sr_close_fail (malformed ''response body is incomplete'') s else finish s
           | body_chunked \<Rightarrow> sr_close_fail (malformed ''chunked body is incomplete'') s
           | body_eof \<Rightarrow> let s = emit_buffer_as_body app s in if sr_completed s then s else finish s
           | body_empty \<Rightarrow> finish s
           | body_unknown \<Rightarrow> finish s)"

definition sr_on_read :: "stream_app \<Rightarrow> read_outcome \<Rightarrow> stream_request \<Rightarrow> stream_request" where
  "sr_on_read app r s =
     (if sr_completed s then s
      else case r of
             Read_eof \<Rightarrow> sr_on_eof app s
           | Read_error message \<Rightarrow> sr_close_fail (make_client_error client_connect_failed message) s
           | Read_data bytes \<Rightarrow> process_buffer app (s\<lparr>sr_buffer := sr_buffer s @ bytes\<rparr>))"

section \<open>Events\<close>

datatype stream_event =
    Se_resolved "(dns_errc, address list) result"
  | Se_connected "string option" "(connect_errc, stream_id) result"
  | Se_tls "(tls_errc, stream_id \<times> string) result"
  | Se_headers_written "string option"
  | Se_upload_written "string option"
  | Se_read read_outcome
  | Se_timeout fetch_phase
  | Se_action stream_action

fun stream_event_step :: "stream_app \<Rightarrow> stream_request \<Rightarrow> stream_event \<Rightarrow> stream_request" where
  "stream_event_step app s (Se_resolved r) = (if sr_dns s then sr_on_resolved r (s\<lparr>sr_dns := False\<rparr>) else s)"
| "stream_event_step app s (Se_connected throws r) =
     (if sr_connect s then sr_on_connected throws r (s\<lparr>sr_connect := False\<rparr>) else s)"
| "stream_event_step app s (Se_tls r) = (if sr_tls s then sr_on_tls_connected r (s\<lparr>sr_tls := False\<rparr>) else s)"
| "stream_event_step app s (Se_headers_written err) =
     (if sr_headers_started s \<and> \<not> sr_headers_written s then on_request_headers_written err s else s)"
| "stream_event_step app s (Se_upload_written err) = (if sr_upload_writing s then on_upload_written app err s else s)"
| "stream_event_step app s (Se_read r) = (if sr_reading s then sr_on_read app r s else s)"
| "stream_event_step app s (Se_timeout phase) = (if sr_phase s = phase_none then s else sr_on_timeout phase s)"
| "stream_event_step app s (Se_action a) = run_stream_action s a"

definition stream_step :: "stream_app \<Rightarrow> stream_request \<Rightarrow> stream_event \<Rightarrow> stream_request" where
  "stream_step app s e = (if sr_thrown s = None then stream_event_step app s e else s)"

text \<open>A request as an application runs it: \<open>client::request\<close>, the calls that configure it, \<open>start\<close>, and what happens after.\<close>

definition stream_run ::
    "stream_app \<Rightarrow> client_options \<Rightarrow> http_method \<Rightarrow> string \<Rightarrow> client_io \<Rightarrow> stream_setup list \<Rightarrow> stream_event list \<Rightarrow> stream_request" where
  "stream_run app options m url_input io setups events =
     foldl (stream_step app) (sr_start (foldl configure (new_stream_request options m url_input io) setups)) events"

end
