(* ===== verification/Client_Wire_Props.thy ===== *)
theory Client_Wire_Props
  imports Client_Wire
begin

text \<open>
  The client's parsers on what a server sends: the end of a head is found, its lines are read back, numbers are
  read back, and a chunked body is decoded when it is complete and waited for when it is not.
\<close>

section \<open>Numbers\<close>

lemma uint_digit_of:
  assumes "digit_of c = Some d"
  shows "uint_digit c = Some (int d)"
proof -
  define n where "n = (of_char c :: nat)"
  then have o: "ord c = int n" by (cases c) (simp add: of_char_def)
  have "48 \<le> n \<and> n \<le> 57 \<and> d = n - 48 \<or> 97 \<le> n \<and> n \<le> 102 \<and> d = n - 87"
    using assms unfolding digit_of_def Let_def n_def [symmetric] by (auto split: if_splits)
  then show ?thesis unfolding uint_digit_def o by auto
qed

lemma foldl_add_digit_None: "foldl (add_digit b) None s = None"
  by (induction s) (simp_all add: add_digit_def)

lemma uint_value_read:
  "foldl (add_digit b) (Some a) s = Some n \<Longrightarrow> uint_value (int b) (int a) s = Some (int n)"
proof (induction s arbitrary: a)
  case (Cons c s)
  then have "add_digit b (Some a) c \<noteq> None" using foldl_add_digit_None [of b s] by (metis foldl_Cons option.distinct(1))
  then obtain d where d: "digit_of c = Some d" "d < b"
    by (cases "digit_of c") (auto simp: add_digit_def split: if_splits)
  then have "foldl (add_digit b) (Some (b * a + d)) s = Some n" using Cons.prems by (simp add: add_digit_Some)
  from Cons.IH [OF this] d show ?case by (simp add: uint_digit_of)
qed simp

lemma parse_uint_read: "read_number b s = Some n \<Longrightarrow> int n < uint_limit \<Longrightarrow> parse_uint (int b) s = Some (int n)"
  using uint_value_read [of b 0 s n] by (auto simp: read_number_def parse_uint_def split: if_splits)

lemma parse_uint_number [simp]:
  assumes "int n < uint_limit"
  shows "parse_uint 10 (print_number 10 n) = Some (int n)" "parse_uint 16 (print_number 16 n) = Some (int n)"
  using parse_uint_read [OF read_number_number [of 10 n]] parse_uint_read [OF read_number_number [of 16 n]] assms by auto

lemma print_status_length: "100 \<le> n \<Longrightarrow> n \<le> 999 \<Longrightarrow> length (print_number 10 n) = 3"
  by (subst print_number.simps, subst print_number.simps, subst print_number.simps) auto

section \<open>Searching for line ends\<close>

lemma crlf_Cons: "crlf = CHR 0x0D # CHR 0x0A # []"
  by (simp add: crlf_def)

lemma length_crlf [simp]: "length crlf = 2" "crlf \<noteq> []"
  by (simp_all add: crlf_def)

lemma find_crlf: "CHR 0x0D \<notin> set l \<Longrightarrow> find_str_aux crlf (l @ crlf @ t) i = Some (i + length l)"
  using find_str_aux_skip [of "CHR 0x0D" l "[CHR 0x0A]" "crlf @ t" i] find_str_aux_hit [of crlf t]
  by (simp add: crlf_Cons)

lemma find_crlf_none: "CHR 0x0D \<notin> set l \<Longrightarrow> find_str_aux crlf l i = None"
  using find_str_aux_skip [of "CHR 0x0D" l "[CHR 0x0A]" "[]" i] by (simp add: crlf_Cons)

lemma find_crlf_at:
  "CHR 0x0D \<notin> set l \<Longrightarrow> sv_find_str crlf (pre @ l @ crlf @ t) (length pre) = Some (length pre + length l)"
  using find_crlf [of l t "length pre"] by (simp add: sv_find_str_def)

lemma find_crlf_none_at: "CHR 0x0D \<notin> set l \<Longrightarrow> sv_find_str crlf (pre @ l) (length pre) = None"
  by (simp add: sv_find_str_def find_crlf_none)

definition good_line :: "string \<Rightarrow> bool" where
  "good_line l \<longleftrightarrow> l \<noteq> [] \<and> CHR 0x0D \<notin> set l \<and> CHR 0x0A \<notin> set l"

fun join_lines :: "string list \<Rightarrow> string" where
  "join_lines [] = []"
| "join_lines [l] = l"
| "join_lines (l # l' # ls) = l @ crlf @ join_lines (l' # ls)"

lemma join_lines_Cons: "ls \<noteq> [] \<Longrightarrow> join_lines (l # ls) = l @ crlf @ join_lines ls"
  by (cases ls) simp_all

lemma concat_lines: "ls \<noteq> [] \<Longrightarrow> concat (map (\<lambda>l. l @ crlf) ls) = join_lines ls @ crlf"
  by (induction ls rule: join_lines.induct) simp_all

lemma join_lines_head: "ls \<noteq> [] \<Longrightarrow> list_all good_line ls \<Longrightarrow> \<exists>c t. join_lines ls = c # t \<and> c \<noteq> CHR 0x0D"
proof (cases ls)
  case (Cons l ls')
  assume "list_all good_line ls"
  then obtain c t where "l = c # t" "c \<noteq> CHR 0x0D" using Cons by (cases l) (auto simp: good_line_def)
  then show ?thesis using Cons by (cases ls') simp_all
qed simp

text \<open>The blank line after good lines is the first one, and it is found as soon as it is there.\<close>

lemma find_head_end_aux:
  "ls \<noteq> [] \<Longrightarrow> list_all good_line ls \<Longrightarrow>
     find_str_aux (crlf @ crlf) (join_lines ls @ crlf @ crlf @ t) i = Some (i + length (join_lines ls))"
proof (induction ls arbitrary: i)
  case (Cons l ls)
  have skip: "find_str_aux (crlf @ crlf) (l @ s) i = find_str_aux (crlf @ crlf) s (i + length l)" for s
    using Cons.prems find_str_aux_skip [of "CHR 0x0D" l "CHR 0x0A # crlf" s i] by (simp add: crlf_Cons good_line_def)
  show ?case
  proof (cases "ls = []")
    case True
    then show ?thesis using skip [of "crlf @ crlf @ t"] find_str_aux_hit [of "crlf @ crlf" t "i + length l"] by (simp add: crlf_Cons)
  next
    case False
    with Cons.prems obtain c u where h: "join_lines ls = c # u" "c \<noteq> CHR 0x0D" using join_lines_head [of ls] by auto
    have "find_str_aux (crlf @ crlf) (crlf @ join_lines ls @ crlf @ crlf @ t) (i + length l) =
        find_str_aux (crlf @ crlf) (join_lines ls @ crlf @ crlf @ t) (i + length l + 2)"
      using h by (simp add: crlf_Cons starts_with_def)
    then show ?thesis using skip Cons False by (simp add: join_lines_Cons)
  qed
qed simp

lemma find_head_end:
  "ls \<noteq> [] \<Longrightarrow> list_all good_line ls \<Longrightarrow>
     sv_find_str (crlf @ crlf) (join_lines ls @ crlf @ crlf @ t) 0 = Some (length (join_lines ls))"
  using find_head_end_aux [of ls t 0] by (simp add: sv_find_str_def)

lemma find_head_end_wait:
  assumes "ls \<noteq> []" "list_all good_line ls" and p: "join_lines ls @ crlf @ crlf = p @ q" and "q \<noteq> []"
  shows "sv_find_str (crlf @ crlf) p 0 = None"
proof (rule ccontr)
  assume "sv_find_str (crlf @ crlf) p 0 \<noteq> None"
  then obtain i where i: "sv_find_str (crlf @ crlf) p 0 = Some i" by auto
  then have "sv_find_str (crlf @ crlf) (p @ q) 0 = Some i" by (rule sv_find_str_grow [rotated]) (simp add: crlf_Cons)
  then have "i = length (join_lines ls)" using find_head_end [OF assms(1,2), of "[]"] p by simp
  moreover have "i + 4 \<le> length p" using sv_find_str_bounds [OF i] by (simp add: crlf_Cons)
  moreover have "length p < length (join_lines ls) + 4" using arg_cong [OF p, of length] assms(4) by (cases q) simp_all
  ultimately show False by simp
qed

section \<open>Heads\<close>

definition field_line :: "string \<times> string \<Rightarrow> string" where
  "field_line f = fst f @ '': '' @ snd f"

lemma header_line_field: "header_line f = field_line f @ crlf"
  by (simp add: header_line_def field_line_def)

lemma sendable_good_line: "sendable_field f \<Longrightarrow> good_line (field_line f)"
  by (auto simp: sendable_field_def good_line_def field_line_def list_all_iff)

lemma dropWhile_same: "length v \<le> length (dropWhile P v) \<Longrightarrow> dropWhile P v = v"
proof -
  assume "length v \<le> length (dropWhile P v)"
  moreover have "length (takeWhile P v) + length (dropWhile P v) = length v" by (metis length_append takeWhile_dropWhile_id)
  ultimately have "length (takeWhile P v) = 0" by linarith
  then have "takeWhile P v = []" by simp
  then show ?thesis by (metis append_Nil takeWhile_dropWhile_id)
qed

lemma trim_field_ends: "trim_field v = v \<Longrightarrow> v \<noteq> [] \<Longrightarrow> \<not> field_space (hd v) \<and> \<not> field_space (last v)"
proof -
  assume v: "trim_field v = v" "v \<noteq> []"
  let ?d = "dropWhile field_space v"
  have r: "rev v = dropWhile field_space (rev ?d)" using arg_cong [OF v(1), of rev] by (simp add: trim_field_def)
  then have "length v \<le> length ?d" by (metis length_dropWhile_le length_rev)
  then have d: "?d = v" by (rule dropWhile_same)
  then have "dropWhile field_space (rev v) = rev v" using r by simp
  then show ?thesis using d v(2) by (metis hd_dropWhile hd_rev rev_is_Nil_conv)
qed

lemma client_trim_sendable:
  assumes "CHR 0x0D \<notin> set v" and v: "trim_field v = v"
  shows "client_trim (CHR '' '' # v) = v"
proof (cases "v = []")
  case True
  then show ?thesis by (simp add: client_trim_def)
next
  case False
  note e = trim_field_ends [OF v False]
  have "dropWhile (\<lambda>c. c = CHR '' '' \<or> c = CHR 0x09) v = v"
    using e False by (cases v) (auto simp: field_space_def)
  moreover have "dropWhile (\<lambda>c. c = CHR '' '' \<or> c = CHR 0x09 \<or> c = CHR 0x0D) (rev v) = rev v"
    using e False assms(1) by (cases v rule: rev_cases) (auto simp: field_space_def)
  ultimately show ?thesis by (simp add: client_trim_def)
qed

lemma header_lines_field:
  assumes f: "sendable_field f" and rest: "rest = [] \<or> (\<exists>r. rest = crlf @ r)"
  shows "header_lines (pre @ field_line f @ rest) (length pre) h =
    (if rest = [] then Inr (h @ [f]) else header_lines (pre @ field_line f @ rest) (length pre + length (field_line f) + 2) (h @ [f]))"
proof -
  let ?block = "pre @ field_line f @ rest"
  have good: "good_line (field_line f)" using f by (rule sendable_good_line)
  have line: "sv_substr ?block (length pre) (length (field_line f)) = field_line f" by (simp add: sv_substr_def)
  have shape: "field_line f = fst f @ CHR '':'' # CHR '' '' # snd f" by (simp add: field_line_def)
  have "CHR '':'' \<notin> set (fst f)" and n: "fst f \<noteq> []" and v: "CHR 0x0D \<notin> set (snd f)" "trim_field (snd f) = snd f"
    using f unfolding sendable_field_def list_all_iff by blast+
  then have colon: "sv_find (CHR '':'') (field_line f) = Some (length (fst f))" unfolding shape by (intro sv_find_append)
  have name: "take (length (fst f)) (field_line f) = fst f" by (simp add: field_line_def)
  have trim: "client_trim (drop (length (fst f) + 1) (field_line f)) = snd f"
    unfolding shape using client_trim_sendable [OF v] by simp
  have less: "length pre < length ?block" using good by (simp add: good_line_def)
  have added: "headers_add h (fst f) (snd f) = h @ [f]" by (simp add: headers_add_def)
  show ?thesis
  proof (cases "rest = []")
    case True
    then have "sv_find_str crlf ?block (length pre) = None"
      using good find_crlf_none_at [of "field_line f" pre] by (simp add: good_line_def)
    then show ?thesis using True line colon n name trim less added
      by (subst header_lines.simps) (simp add: Let_def)
  next
    case False
    then have "sv_find_str crlf ?block (length pre) = Some (length pre + length (field_line f))"
      using rest good find_crlf_at [of "field_line f" pre] by (auto simp: good_line_def)
    then show ?thesis using False line colon n name trim less added
      by (subst header_lines.simps) (simp add: Let_def)
  qed
qed

lemma header_lines_fields:
  "list_all sendable_field fs \<Longrightarrow> fs \<noteq> [] \<Longrightarrow>
     header_lines (pre @ join_lines (map field_line fs)) (length pre) h = Inr (h @ fs)"
proof (induction fs arbitrary: pre h)
  case (Cons f fs)
  show ?case
  proof (cases "fs = []")
    case True
    then show ?thesis using header_lines_field [of f "[]" pre h] Cons.prems by simp
  next
    case False
    have "header_lines ((pre @ field_line f @ crlf) @ join_lines (map field_line fs)) (length (pre @ field_line f @ crlf)) (h @ [f]) =
        Inr ((h @ [f]) @ fs)" by (rule Cons.IH) (use Cons.prems False in simp_all)
    then show ?thesis using header_lines_field [of f "crlf @ join_lines (map field_line fs)" pre h] Cons.prems False
      by (simp add: join_lines_Cons)
  qed
qed simp

lemma parse_response_head_lines:
  assumes fs: "list_all sendable_field fs" "fs \<noteq> []" and line: "good_line line" "parse_status_line line = Inr n"
    and room: "length (join_lines (line # map field_line fs)) + 4 \<le> limit"
  shows "parse_response_head (join_lines (line # map field_line fs) @ crlf @ crlf @ t) limit =
    Inr (\<lparr>rh_status = n, rh_headers = fs\<rparr>, length (join_lines (line # map field_line fs)) + 4)"
proof -
  let ?ls = "line # map field_line fs"
  have good: "list_all good_line ?ls" using fs line by (auto simp: list_all_iff sendable_good_line)
  have j: "join_lines ?ls = line @ crlf @ join_lines (map field_line fs)" using fs by (simp add: join_lines_Cons)
  have first: "sv_find_str crlf (join_lines ?ls) 0 = Some (length line)"
    using find_crlf_at [of line "[]"] line by (simp add: j good_line_def)
  have fields: "header_lines (join_lines ?ls) (length line + 2) [] = Inr fs"
    using header_lines_fields [OF fs, of "line @ crlf" "[]"] by (simp add: j)
  show ?thesis
    unfolding parse_response_head_def find_head_end [OF list.simps(3) good]
    using room first fields line by (simp add: Let_def sv_until_def j)
qed

section \<open>Status lines\<close>

lemma sv_find_space: "CHR '' '' \<notin> set a \<Longrightarrow> sv_find (CHR '' '') (a @ CHR '' '' # b) = Some (length a)"
  by (rule sv_find_append)

lemma parse_status_line_status:
  assumes "100 \<le> rs_status res" "rs_status res \<le> 999"
  shows "parse_status_line (status_line res) = Inr (rs_status res)"
proof -
  let ?n = "print_number 10 (rs_status res)"
  let ?r = "CHR '' '' # reason_phrase (int (rs_status res))"
  have line: "status_line res = ''HTTP/1.1'' @ CHR '' '' # ?n @ ?r" by (simp add: status_line_def)
  have find: "sv_find (CHR '' '') (status_line res) = Some 8" unfolding line using sv_find_space [of "''HTTP/1.1''"] by simp
  have len: "length ?n = 3" using assms by (rule print_status_length)
  have sub: "sv_substr (status_line res) 9 3 = ?n" unfolding line sv_substr_def using len by simp
  have start: "starts_with (status_line res) ''HTTP/''" by (simp add: line starts_with_def)
  have "\<not> length (status_line res) < 8 + 4" unfolding line using len by simp
  moreover have "parse_uint 10 ?n = Some (int (rs_status res))" using assms by (simp add: uint_limit_def)
  ultimately show ?thesis unfolding parse_status_line_def using find sub start by simp
qed

lemma reason_phrase_no_newline: "CHR 0x0A \<notin> set (reason_phrase n)"
  by (simp add: reason_phrase_def)

lemma good_status_line: "good_line (status_line res)"
  using number_chars(1,2) [of 10 "rs_status res"] reason_phrase_one_line reason_phrase_no_newline
  by (auto simp: good_line_def status_line_def)

section \<open>The head of a response\<close>

definition head_lines :: "response_state \<Rightarrow> bool \<Rightarrow> server_options \<Rightarrow> bool \<Rightarrow> bool \<Rightarrow> string list" where
  "head_lines res ka opts chunked hd_req =
     status_line res # map field_line (response_fields res ka opts chunked hd_req)"

lemma head_text:
  "serialize_response_head res ka opts chunked hd_req = join_lines (head_lines res ka opts chunked hd_req) @ crlf @ crlf"
proof -
  let ?fs = "response_fields res ka opts chunked hd_req"
  have "header_line = (\<lambda>l. l @ crlf) \<circ> field_line" by (rule ext) (simp add: header_line_field)
  then have "concat (map header_line ?fs) = concat (map (\<lambda>l. l @ crlf) (map field_line ?fs))" by simp
  then show ?thesis
    using concat_lines [of "head_lines res ka opts chunked hd_req"] by (simp add: head_layout head_lines_def)
qed

lemma head_lines_good:
  "list_all sendable_field (rs_headers res) \<Longrightarrow> list_all good_line (head_lines res ka opts chunked hd_req)"
  using response_fields_sendable [of res ka opts chunked hd_req] good_status_line
  by (auto simp: head_lines_def list_all_iff sendable_good_line)

lemma response_fields_not_Nil: "response_fields res ka opts chunked hd_req \<noteq> []"
proof (cases "chunked \<and> \<not> hd_req")
  case True
  then show ?thesis by (simp add: response_fields_def framing_field_def)
next
  case False
  show ?thesis
  proof
    assume e: "response_fields res ka opts chunked hd_req = []"
    then have "has_header (rs_headers res) ''connection''" by (auto simp: response_fields_def connection_fields_def split: if_splits)
    moreover have "header_name_equals ''connection'' ''content-length'' = False" by code_simp
    ultimately have "own_fields res chunked \<noteq> []"
      unfolding own_fields_def
      using headers_contains_filter(1) [of "''connection''" "\<lambda>(name, v). \<not> (header_name_equals name ''content-length'' \<and> chunked) \<and>
         \<not> header_name_equals name ''transfer-encoding''" "rs_headers res"]
      by (auto simp: has_header_iff header_name_equals_def names_equal_iff dest: sym)
    then show False using e by (simp add: response_fields_def)
  qed
qed

lemma parse_response_head_server:
  assumes "list_all sendable_field (rs_headers res)" "100 \<le> rs_status res" "rs_status res \<le> 999"
    and "length (serialize_response_head res ka opts chunked hd_req) \<le> limit"
  shows "parse_response_head (serialize_response_head res ka opts chunked hd_req @ t) limit =
    Inr (\<lparr>rh_status = rs_status res, rh_headers = response_fields res ka opts chunked hd_req\<rparr>,
         length (serialize_response_head res ka opts chunked hd_req))"
  using parse_response_head_lines [OF response_fields_sendable [OF assms(1)] response_fields_not_Nil good_status_line
      parse_status_line_status [OF assms(2,3)]] assms(4)
  by (simp add: head_text head_lines_def)

lemma head_end_server:
  assumes "list_all sendable_field (rs_headers res)"
  shows "sv_find_str (crlf @ crlf) (serialize_response_head res ka opts chunked hd_req @ t) 0 =
      Some (length (serialize_response_head res ka opts chunked hd_req) - 4)"
    and "serialize_response_head res ka opts chunked hd_req = p @ q \<Longrightarrow> q \<noteq> [] \<Longrightarrow> sv_find_str (crlf @ crlf) p 0 = None"
  using find_head_end [OF _ head_lines_good [OF assms], of ka opts chunked hd_req t]
    find_head_end_wait [OF _ head_lines_good [OF assms], of ka opts chunked hd_req p q]
  by (simp_all add: head_text head_lines_def)

section \<open>Chunked bodies\<close>

definition waiting_message :: "string \<Rightarrow> bool" where
  "waiting_message m \<longleftrightarrow>
     m \<in> {''chunk size line is incomplete'', ''chunk body is incomplete'', ''chunk trailers are incomplete''}"

lemma number_no_semicolon: "CHR '';'' \<notin> set (print_number 16 n)"
  using number_digits [of 16 "CHR '';''" n] by (auto simp: digit_of_def)

lemma find_size_line:
  "sv_find_str crlf (pre @ print_number 16 n @ crlf @ s) (length pre) = Some (length pre + length (print_number 16 n))"
  using number_chars(1) [of 16 n] by (intro find_crlf_at) simp

lemma decode_chunks_size:
  assumes n: "int n < uint_limit" and "n \<noteq> 0"
  shows "decode_chunks (pre @ print_number 16 n @ crlf @ s) (length pre) out =
    (let encoded = pre @ print_number 16 n @ crlf @ s; offset = length pre + length (print_number 16 n) + 2
     in if int (length s) < (int n + 2) mod uint_limit then Inr (Inl ''chunk body is incomplete'')
        else if int (length encoded) < int offset + int n then Inl Out_of_range
        else if take 2 (drop n s) \<noteq> crlf then Inr (Inl ''chunk body is not terminated'')
        else decode_chunks encoded (offset + n + 2) (out @ take n s))"
proof -
  let ?e = "pre @ print_number 16 n @ crlf @ s"
  let ?o = "length pre + length (print_number 16 n) + 2"
  have line: "sv_substr ?e (length pre) (length (print_number 16 n)) = print_number 16 n" by (simp add: sv_substr_def)
  have semi: "sv_until (print_number 16 n) (sv_find (CHR '';'') (print_number 16 n)) = print_number 16 n"
    using number_no_semicolon by (simp add: sv_until_def)
  have len: "length ?e - ?o = length s" by simp
  have body: "sv_substr ?e ?o n = take n s" "sv_substr ?e (?o + n) 2 = take 2 (drop n s)"
    by (simp_all add: sv_substr_def add.commute)
  show ?thesis
    using n assms(2) line semi len body
    by (subst decode_chunks.simps) (simp add: find_size_line Let_def)
qed

lemma decode_chunks_chunk:
  assumes "p \<noteq> []" and "int (length p) + 2 < uint_limit"
  shows "decode_chunks (pre @ serialize_chunk p @ s) (length pre) out =
    decode_chunks (pre @ serialize_chunk p @ s) (length (pre @ serialize_chunk p)) (out @ p)"
proof -
  have e: "pre @ serialize_chunk p @ s = pre @ print_number 16 (length p) @ crlf @ (p @ crlf @ s)"
    by (simp add: serialize_chunk_def)
  show ?thesis
    unfolding e using assms by (subst decode_chunks_size) (auto simp: Let_def serialize_chunk_def uint_limit_def add.assoc)
qed

lemma decode_chunks_final: "decode_chunks (pre @ final_chunk) (length pre) out = Inr (Inr out)"
proof -
  have "sv_find_str crlf (pre @ final_chunk) (length pre) = Some (length pre + 1)"
    using find_crlf_at [of "''0''" pre crlf] by simp
  moreover have "parse_uint 16 ''0'' = Some 0" by code_simp
  moreover have "sv_find (CHR '';'') ''0'' = None" by simp
  ultimately show ?thesis
    by (subst decode_chunks.simps) (simp add: Let_def sv_substr_def sv_until_def)
qed

lemma decode_chunked_server:
  assumes "\<forall>p\<in>set ps. p \<noteq> [] \<and> int (length p) + 2 < uint_limit"
  shows "decode_chunked (concat (map serialize_chunk ps) @ final_chunk) = Inr (Inr (concat ps))"
proof -
  have "decode_chunks (pre @ concat (map serialize_chunk ps) @ final_chunk) (length pre) out = Inr (Inr (out @ concat ps))" for pre out
    using assms
  proof (induction ps arbitrary: pre out)
    case Nil
    then show ?case using decode_chunks_final [of pre out] by simp
  next
    case (Cons p ps)
    have "decode_chunks ((pre @ serialize_chunk p) @ concat (map serialize_chunk ps) @ final_chunk)
        (length (pre @ serialize_chunk p)) (out @ p) = Inr (Inr ((out @ p) @ concat ps))"
      by (rule Cons.IH) (use Cons.prems in simp)
    then show ?case using decode_chunks_chunk [of p pre "concat (map serialize_chunk ps) @ final_chunk" out] Cons.prems by simp
  qed
  from this [of "[]" "[]"] show ?thesis by (simp add: decode_chunked_def)
qed

lemma prefix_of_append: "a @ b = q @ r \<Longrightarrow> (\<exists>us. a = q @ us \<and> us \<noteq> []) \<or> (\<exists>us. q = a @ us \<and> b = us @ r)"
  by (auto simp: append_eq_append_conv2)

text \<open>A proper prefix of a chunk, or of the last one, makes the decoder wait.\<close>

lemma find_crlf_prefix:
  assumes "CHR 0x0D \<notin> set l" and q: "l @ crlf = q @ r" and "r \<noteq> []"
  shows "sv_find_str crlf (pre @ q) (length pre) = None"
proof (rule ccontr)
  assume "sv_find_str crlf (pre @ q) (length pre) \<noteq> None"
  then obtain i where i: "sv_find_str crlf q 0 = Some i" by (auto simp: sv_find_str_prefix)
  then have "sv_find_str crlf (q @ r) 0 = Some i" by (intro sv_find_str_grow) simp_all
  then have "i = length l" using find_crlf_at [OF assms(1), of "[]" "[]"] q by simp
  moreover have "i + 2 \<le> length q" using sv_find_str_bounds [OF i] by simp
  moreover have "length q < length l + 2" using arg_cong [OF q, of length] assms(3) by (cases r) simp_all
  ultimately show False by simp
qed

lemma decode_prefix_line:
  assumes "CHR 0x0D \<notin> set l" "l @ crlf = q @ r" "r \<noteq> []"
  shows "decode_chunks (pre @ q) (length pre) out = Inr (Inl ''chunk size line is incomplete'')"
  using find_crlf_prefix [OF assms] by (subst decode_chunks.simps) simp

lemma decode_prefix_chunk:
  assumes p: "p \<noteq> []" "int (length p) + 2 < uint_limit" and q: "serialize_chunk p = q @ r" "r \<noteq> []"
  shows "\<exists>m. decode_chunks (pre @ q) (length pre) out = Inr (Inl m) \<and> waiting_message m"
proof -
  let ?n = "print_number 16 (length p)"
  have e: "(?n @ crlf) @ (p @ crlf) = q @ r" using q(1) by (simp add: serialize_chunk_def)
  from prefix_of_append [OF this]
  consider (line) us where "?n @ crlf = q @ us" "us \<noteq> []" | (body) us where "q = (?n @ crlf) @ us" "p @ crlf = us @ r"
    by blast
  then show ?thesis
  proof cases
    case line
    then show ?thesis using decode_prefix_line [of ?n q us pre out] number_chars(1) [of 16] by (simp add: waiting_message_def)
  next
    case body
    have "length us < length p + 2" using arg_cong [OF body(2), of length] q(2) by (cases r) simp_all
    then show ?thesis using p body(1) decode_chunks_size [of "length p" pre us out]
      by (simp add: waiting_message_def Let_def)
  qed
qed

lemma decode_prefix_final:
  assumes "final_chunk = q @ r" "r \<noteq> []"
  shows "\<exists>m. decode_chunks (pre @ q) (length pre) out = Inr (Inl m) \<and> waiting_message m"
proof -
  have "(''0'' @ crlf) @ crlf = q @ r" using assms(1) by simp
  from prefix_of_append [OF this]
  consider (line) us where "''0'' @ crlf = q @ us" "us \<noteq> []" | (trailer) us where "q = (''0'' @ crlf) @ us" "crlf = us @ r" by blast
  then show ?thesis
  proof cases
    case line
    then show ?thesis using decode_prefix_line [of "''0''" q us pre out] by (simp add: waiting_message_def)
  next
    case trailer
    have len: "length us < 2" using arg_cong [OF trailer(2), of length] assms(2) by (cases r) simp_all
    have "sv_find_str crlf (pre @ q) (length pre) = Some (length pre + 1)"
      using find_crlf_at [of "''0''" pre us] trailer(1) by simp
    moreover have "parse_uint 16 ''0'' = Some 0" by code_simp
    moreover have "sv_substr (pre @ q) (length pre + 1 + 2) 2 \<noteq> crlf"
      using trailer(1) len arg_cong [of "us" crlf length] by (auto simp: sv_substr_def)
    moreover have "sv_find_str (crlf @ crlf) (pre @ q) (length pre + 1 + 2) = None"
      using sv_find_str_bounds [of "crlf @ crlf" "pre @ q" "length pre + 1 + 2"] trailer(1) len
      by (cases "sv_find_str (crlf @ crlf) (pre @ q) (length pre + 1 + 2)") auto
    moreover have "sv_substr (pre @ q) (length pre) 1 = ''0''" using trailer(1) by (simp add: sv_substr_def)
    ultimately show ?thesis
      by (subst decode_chunks.simps) (simp add: Let_def sv_until_def waiting_message_def)
  qed
qed

lemma decode_chunked_waits:
  assumes "\<forall>p\<in>set ps. p \<noteq> [] \<and> int (length p) + 2 < uint_limit"
    and "concat (map serialize_chunk ps) @ final_chunk = q @ r" and "r \<noteq> []"
  shows "\<exists>m. decode_chunked q = Inr (Inl m) \<and> waiting_message m"
proof -
  have "\<exists>m. decode_chunks (pre @ q) (length pre) out = Inr (Inl m) \<and> waiting_message m" for pre out
    using assms
  proof (induction ps arbitrary: pre out q)
    case Nil
    then show ?case using decode_prefix_final [of q r pre out] by simp
  next
    case (Cons p ps)
    have "serialize_chunk p @ (concat (map serialize_chunk ps) @ final_chunk) = q @ r" using Cons.prems(2) by simp
    from prefix_of_append [OF this]
    consider (chunk) us where "serialize_chunk p = q @ us" "us \<noteq> []"
      | (more) us where "q = serialize_chunk p @ us" "concat (map serialize_chunk ps) @ final_chunk = us @ r" by blast
    then show ?case
    proof cases
      case chunk
      then show ?thesis using decode_prefix_chunk [of p q us pre out] Cons.prems(1) by simp
    next
      case more
      have "\<exists>m. decode_chunks ((pre @ serialize_chunk p) @ us) (length (pre @ serialize_chunk p)) (out @ p) = Inr (Inl m) \<and>
          waiting_message m" by (rule Cons.IH) (use Cons.prems more in simp_all)
      then show ?thesis using decode_chunks_chunk [of p pre us out] Cons.prems(1) more(1) by simp
    qed
  qed
  from this [of "[]" "[]"] show ?thesis by (simp add: decode_chunked_def)
qed

section \<open>The response of a head and a body\<close>

definition received_response :: "nat \<Rightarrow> headers \<Rightarrow> string \<Rightarrow> response_state" where
  "received_response n fs body =
     new_response\<lparr>rs_status := n, rs_headers := foldl (\<lambda>h (name, v). headers_set h name v) [] fs, rs_body := body, rs_ended := True\<rparr>"

lemma response_headers_fold:
  "\<not> rs_headers_committed st \<Longrightarrow>
     foldl (\<lambda>r (name, v). case r of Inl e \<Rightarrow> Inl e | Inr st \<Rightarrow> response_header name v st) (Inr st) fs =
     Inr (st\<lparr>rs_headers := foldl (\<lambda>h (name, v). headers_set h name v) (rs_headers st) fs\<rparr>)"
  by (induction fs arbitrary: st) (auto simp: response_header_def)

lemma response_of_ok:
  "100 \<le> rh_status head \<Longrightarrow> rh_status head \<le> 999 \<Longrightarrow>
     response_of head body = Inr (received_response (rh_status head) (rh_headers head) body)"
  by (simp add: response_of_def response_status_def response_headers_fold response_bytes_def response_end_def
      rs_complete_def rs_active_def received_response_def new_response_def)

text \<open>Repeated fields collapse to one: the last value stays.\<close>

lemma received_header: "headers_get (rs_headers (received_response n fs body)) name =
    (case find (\<lambda>(k, v). names_equal k name) (rev fs) of None \<Rightarrow> [] | Some (k, v) \<Rightarrow> v)"
  using header_store.lookup_puts [of "[]" fs name] by (simp add: received_response_def split: option.split)

end
