(* ===== verification/Client_Reads.thy ===== *)
theory Client_Reads
  imports Client_Fetch Client_Wire_Props
begin

text \<open>
  A buffered request reads the response of a server, whatever pieces the stream delivers it in: it waits on every
  proper prefix and completes with the last byte.
\<close>

section \<open>Waiting and completing\<close>

definition awaiting :: "client_options \<Rightarrow> http_method \<Rightarrow> string \<Rightarrow> fetch \<Rightarrow> bool" where
  "awaiting opts m p s \<longleftrightarrow>
     cf_options s = opts \<and> cf_method s = m \<and> cf_received s = p \<and> \<not> cf_completed s \<and> cf_callback s \<and> cf_calls s = [] \<and>
     cf_thrown s = None \<and> cf_on_stream s"

text \<open>The client waits for more after these bytes.\<close>

definition waits :: "client_options \<Rightarrow> http_method \<Rightarrow> string \<Rightarrow> bool" where
  "waits opts m p \<longleftrightarrow>
     (case sv_find_str (crlf @ crlf) p 0 of
        None \<Rightarrow> length p \<le> co_max_header_bytes opts
      | Some e \<Rightarrow>
          e + 4 \<le> co_max_header_bytes opts \<and>
          (case parse_response_head p (co_max_header_bytes opts) of
             Inl err \<Rightarrow> False
           | Inr (head, off) \<Rightarrow>
               \<not> response_must_not_have_body m (rh_status head) \<and>
               (if is_chunked (rh_headers head)
                then (case decode_chunked (drop off p) of Inr (Inl message) \<Rightarrow> \<not> fatal_chunk_error message | _ \<Rightarrow> False)
                else case parse_uint 10 (headers_get (rh_headers head) ''content-length'') of
                       None \<Rightarrow> False
                     | Some n \<Rightarrow> n \<le> int (co_max_body_bytes opts) \<and> int (length (drop off p)) < n)))"

lemma waiting_message_not_fatal: "waiting_message message \<Longrightarrow> \<not> fatal_chunk_error message"
proof -
  have "\<not> fatal_chunk_error ''chunk size line is incomplete''" "\<not> fatal_chunk_error ''chunk body is incomplete''"
    "\<not> fatal_chunk_error ''chunk trailers are incomplete''" by code_simp+
  then show "waiting_message message \<Longrightarrow> \<not> fatal_chunk_error message" by (auto simp: waiting_message_def)
qed

lemma start_phase_timeout_simps [simp]:
  "cf_options (start_phase_timeout ph d s) = cf_options s" "cf_method (start_phase_timeout ph d s) = cf_method s"
  "cf_received (start_phase_timeout ph d s) = cf_received s" "cf_completed (start_phase_timeout ph d s) = cf_completed s"
  "cf_callback (start_phase_timeout ph d s) = cf_callback s" "cf_calls (start_phase_timeout ph d s) = cf_calls s"
  "cf_thrown (start_phase_timeout ph d s) = cf_thrown s" "cf_restart (start_phase_timeout ph d s) = cf_restart s"
  "cf_stream (start_phase_timeout ph d s) = cf_stream s" "cf_io (start_phase_timeout ph d s) = cf_io s"
  "cf_waiting (start_phase_timeout ph d s) = cf_waiting s" "cf_on_stream (start_phase_timeout ph d s) = cf_on_stream s"
  "cf_redirects (start_phase_timeout ph d s) = cf_redirects s" "cf_origin_key (start_phase_timeout ph d s) = cf_origin_key s"
  by (simp_all add: start_phase_timeout_def stop_phase_timeout_def cf_on_stream_def cf_waiting_def Let_def)

lemma cf_on_stream_updates [simp]:
  "cf_on_stream (s\<lparr>cf_headers_complete := h\<rparr>) = cf_on_stream s" "cf_on_stream (s\<lparr>cf_received := p\<rparr>) = cf_on_stream s"
  by (simp_all add: cf_on_stream_def cf_waiting_def)

lemma parse_uint_Nil [simp]: "parse_uint b [] = None"
  by (simp add: parse_uint_def)

lemma try_complete_waits:
  assumes "awaiting opts m p s" and "waits opts m p"
  shows "awaiting opts m p (try_complete_buffered_response False s)"
proof (cases "sv_find_str (crlf @ crlf) p 0")
  case None
  then show ?thesis using assms by (simp add: try_complete_buffered_response_def awaiting_def waits_def)
next
  case (Some e)
  define s' where "s' = (if cf_headers_complete s then s
      else start_phase_timeout phase_response_body (co_response_body_timeout (cf_options s)) (s\<lparr>cf_headers_complete := True\<rparr>))"
  have s': "awaiting opts m p s'" using assms(1) by (simp add: s'_def awaiting_def)
  obtain head off where h: "parse_response_head p (co_max_header_bytes opts) = Inr (head, off)"
    using assms(2) Some by (auto simp: waits_def split: sum.splits)
  have "try_complete_buffered_response False s = try_complete_body False head off s'"
    using assms Some h s' by (simp add: try_complete_buffered_response_def waits_def awaiting_def s'_def [symmetric])
  also have "\<dots> = s'"
  proof -
    have opt: "cf_options s' = opts" "cf_method s' = m" "cf_received s' = p" using s' by (simp_all add: awaiting_def)
    have nb: "\<not> response_must_not_have_body m (rh_status head)" using assms(2) Some h by (simp add: waits_def)
    show ?thesis
    proof (cases "is_chunked (rh_headers head)")
      case True
      then obtain message where "decode_chunked (drop off p) = Inr (Inl message)" "\<not> fatal_chunk_error message"
        using assms(2) Some h by (auto simp: waits_def split: sum.splits)
      then show ?thesis using True nb by (simp add: try_complete_body_def opt Let_def)
    next
      case False
      then obtain n where n: "parse_uint 10 (headers_get (rh_headers head) ''content-length'') = Some n"
          "n \<le> int (co_max_body_bytes opts)" "int (length (drop off p)) < n"
        using assms(2) Some h by (auto simp: waits_def split: option.splits)
      then have "headers_get (rh_headers head) ''content-length'' \<noteq> []" by (metis option.distinct(1) parse_uint_Nil)
      then show ?thesis using False nb n by (simp add: try_complete_body_def opt Let_def)
    qed
  qed
  finally show ?thesis using s' by simp
qed

lemma read_waits:
  "awaiting opts m p s \<Longrightarrow> waits opts m (p @ d) \<Longrightarrow> awaiting opts m (p @ d) (fetch_step s (Fe_read (Read_data d)))"
  by (simp add: fetch_step_def cf_on_read_def awaiting_def
      try_complete_waits [unfolded awaiting_def])

text \<open>These bytes are a whole response.\<close>

definition reads_as :: "client_options \<Rightarrow> http_method \<Rightarrow> string \<Rightarrow> response_state \<Rightarrow> bool" where
  "reads_as opts m p resp \<longleftrightarrow>
     (\<exists>e head off.
        sv_find_str (crlf @ crlf) p 0 = Some e \<and> e + 4 \<le> co_max_header_bytes opts \<and>
        parse_response_head p (co_max_header_bytes opts) = Inr (head, off) \<and>
        (if response_must_not_have_body m (rh_status head)
         then parse_response m (take off p) (co_max_header_bytes opts) (co_max_body_bytes opts) = Inr (Inr resp)
         else if is_chunked (rh_headers head)
         then (\<exists>body. decode_chunked (drop off p) = Inr (Inr body)) \<and>
              parse_response m p (co_max_header_bytes opts) (co_max_body_bytes opts) = Inr (Inr resp)
         else \<exists>n. headers_get (rh_headers head) ''content-length'' \<noteq> [] \<and>
                parse_uint 10 (headers_get (rh_headers head) ''content-length'') = Some n \<and>
                n \<le> int (co_max_body_bytes opts) \<and> n \<le> int (length (drop off p)) \<and>
                parse_response m (take (off + nat n) p) (co_max_header_bytes opts) (co_max_body_bytes opts) = Inr (Inr resp)))"

lemma close_release_simps [simp]:
  "cf_completed (cf_close_stream s) = cf_completed s" "cf_callback (cf_close_stream s) = cf_callback s"
  "cf_calls (cf_close_stream s) = cf_calls s" "cf_thrown (cf_close_stream s) = cf_thrown s"
  "cf_completed (release_stream s) = cf_completed s" "cf_callback (release_stream s) = cf_callback s"
  "cf_calls (release_stream s) = cf_calls s" "cf_thrown (release_stream s) = cf_thrown s"
  by (simp_all add: cf_close_stream_def release_stream_def cf_log_def split: option.split)

lemma complete_parsed_calls:
  assumes "awaiting opts m p s" and "\<not> (co_follow_redirects opts \<and> response_is_redirect (rs_status resp))"
  shows "cf_completed (complete_parsed (Inr (Inr resp)) reusable s) \<and>
    cf_calls (complete_parsed (Inr (Inr resp)) reusable s) = [Inr resp]"
  using assms
  by (auto simp: complete_parsed_def complete_buffered_response_def should_follow_redirect_def awaiting_def cf_complete_def
      stop_phase_timeout_def Let_def)

lemma try_complete_done:
  assumes s: "awaiting opts m p s" and p: "reads_as opts m p resp"
    and resp: "\<not> (co_follow_redirects opts \<and> response_is_redirect (rs_status resp))"
  shows "cf_completed (try_complete_buffered_response False s) \<and> cf_calls (try_complete_buffered_response False s) = [Inr resp]"
proof -
  define s' where "s' = (if cf_headers_complete s then s
      else start_phase_timeout phase_response_body (co_response_body_timeout (cf_options s)) (s\<lparr>cf_headers_complete := True\<rparr>))"
  have s': "awaiting opts m p s'" using s by (simp add: s'_def awaiting_def)
  obtain e head off where h: "sv_find_str (crlf @ crlf) p 0 = Some e" "e + 4 \<le> co_max_header_bytes opts"
      "parse_response_head p (co_max_header_bytes opts) = Inr (head, off)" using p by (auto simp: reads_as_def)
  have step: "try_complete_buffered_response False s = try_complete_body False head off s'"
    using s h s' by (simp add: try_complete_buffered_response_def awaiting_def s'_def [symmetric])
  have "\<exists>reusable. try_complete_body False head off s' = complete_parsed (Inr (Inr resp)) reusable s'"
    using p h s' by (auto simp: try_complete_body_def reads_as_def awaiting_def Let_def split: if_splits)
  then show ?thesis using complete_parsed_calls [OF s' resp] step by auto
qed

lemma completed_ignores_reads:
  "cf_completed s \<Longrightarrow> foldl fetch_step s (map (\<lambda>d. Fe_read (Read_data d)) ds) = s"
  by (induction ds) (simp_all add: fetch_step_def cf_on_read_def)

text \<open>Any way to cut the bytes of a response into reads.\<close>

lemma reads_complete:
  assumes "awaiting opts m p s" and "p @ concat ds = b" and "p \<noteq> b"
    and wait: "\<And>q r. b = q @ r \<Longrightarrow> r \<noteq> [] \<Longrightarrow> waits opts m q" and whole: "reads_as opts m b resp"
    and resp: "\<not> (co_follow_redirects opts \<and> response_is_redirect (rs_status resp))"
  shows "cf_calls (foldl fetch_step s (map (\<lambda>d. Fe_read (Read_data d)) ds)) = [Inr resp]"
  using assms(1,2,3)
proof (induction ds arbitrary: p s)
  case (Cons d ds)
  let ?s = "fetch_step s (Fe_read (Read_data d))"
  show ?case
  proof (cases "p @ d = b")
    case True
    define s1 where "s1 = s\<lparr>cf_received := cf_received s @ d\<rparr>"
    have "awaiting opts m b s1" using Cons.prems(1) True by (simp add: awaiting_def s1_def)
    moreover have "?s = try_complete_buffered_response False s1"
      using Cons.prems(1) by (simp add: fetch_step_def cf_on_read_def awaiting_def s1_def)
    ultimately have "cf_completed ?s \<and> cf_calls ?s = [Inr resp]" using try_complete_done [OF _ whole resp] by simp
    then show ?thesis by (simp add: completed_ignores_reads)
  next
    case False
    have b: "b = (p @ d) @ concat ds" using Cons.prems(2) by simp
    then have "waits opts m (p @ d)" using False by (intro wait [of _ "concat ds"]) auto
    then have "awaiting opts m (p @ d) ?s" by (rule read_waits [OF Cons.prems(1)])
    from Cons.IH [OF this] b False show ?thesis by simp
  qed
qed simp

section \<open>Responses with a length\<close>

lemma not_chunked_server: "\<not> is_chunked (response_fields res ka sopts False hd_req)"
proof -
  have "headers_get (response_fields res ka sopts False hd_req) ''transfer-encoding'' = []"
    by (rule headers_get_absent) (simp add: response_fields_framing)
  moreover have "\<not> contains_str ''chunked'' []" by code_simp
  ultimately show ?thesis by (simp add: is_chunked_def client_lowercase_def)
qed

text \<open>What the limits of a client must leave room for.\<close>

definition fits :: "client_options \<Rightarrow> string \<Rightarrow> string \<Rightarrow> bool" where
  "fits opts head body \<longleftrightarrow>
     length head \<le> co_max_header_bytes opts \<and> length body \<le> co_max_body_bytes opts \<and> int (length body) + 2 < uint_limit"

lemma response_length_server:
  "well_formed_response res \<Longrightarrow>
     headers_get (response_fields res ka sopts False hd_req) ''content-length'' = print_number 10 (length (sent_body res))"
  by (rule response_fields_length) (auto simp: well_formed_response_def)

lemma bodiless_server:
  "well_formed_response res \<Longrightarrow> response_must_not_have_body m (rs_status res) \<Longrightarrow>
     (if m = method_head then [] else sent_body res) = []"
  by (auto simp: well_formed_response_def response_must_not_have_body_def sent_body_def)

lemma buffered_reads_as:
  assumes res: "well_formed_response res" "rs_status res \<le> 999" and hd: "hd_req \<longleftrightarrow> m = method_head"
    and head: "head = serialize_response_head res ka sopts False hd_req" and body: "body = (if hd_req then [] else sent_body res)"
    and fits: "fits opts head (sent_body res)"
  shows "reads_as opts m (head @ body) (received_response (rs_status res) (response_fields res ka sopts False hd_req) body)"
    and "head @ body = q @ r \<Longrightarrow> r \<noteq> [] \<Longrightarrow> waits opts m q"
proof -
  let ?fs = "response_fields res ka sopts False hd_req"
  let ?rh = "\<lparr>rh_status = rs_status res, rh_headers = ?fs\<rparr>"
  have ok: "list_all sendable_field (rs_headers res)" "100 \<le> rs_status res"
    using res by (auto simp: well_formed_response_def)
  have lim: "length head \<le> co_max_header_bytes opts" "length (sent_body res) \<le> co_max_body_bytes opts"
      "int (length (sent_body res)) < uint_limit" using fits by (simp_all add: fits_def)
  have parse: "parse_response_head (head @ t) (co_max_header_bytes opts) = Inr (?rh, length head)" for t
    unfolding head by (rule parse_response_head_server) (use ok res(2) lim head in auto)
  have find: "sv_find_str (crlf @ crlf) (head @ t) 0 = Some (length head - 4)" for t
    unfolding head by (rule head_end_server) (rule ok)
  have four: "4 \<le> length head" by (simp add: head head_text)
  have resp: "response_of ?rh b = Inr (received_response (rs_status res) ?fs b)" for b
    using response_of_ok [of ?rh b] ok(2) res(2) by simp
  have len: "headers_get ?fs ''content-length'' = print_number 10 (length (sent_body res))"
    by (rule response_length_server) (rule res)
  note chunked = not_chunked_server [of res ka sopts hd_req]
  have whole: "response_body m ?rh body (co_max_body_bytes opts) = Inr (Inr body)"
  proof (cases "response_must_not_have_body m (rs_status res)")
    case True
    then show ?thesis using bodiless_server [OF res(1)] by (simp add: response_body_def body hd)
  next
    case False
    then have "\<not> hd_req" using hd by (simp add: response_must_not_have_body_def)
    then show ?thesis using False lim chunked len by (simp add: response_body_def body)
  qed
  have parsed: "parse_response m (head @ body) (co_max_header_bytes opts) (co_max_body_bytes opts) =
      Inr (Inr (received_response (rs_status res) ?fs body))"
    using whole lim(2) resp by (simp add: parse_response_def parse body)
  show "reads_as opts m (head @ body) (received_response (rs_status res) ?fs body)"
  proof (cases "response_must_not_have_body m (rs_status res)")
    case True
    then have "body = []" using bodiless_server [OF res(1)] by (simp add: body hd)
    then show ?thesis using True parsed parse [of "[]"] find [of "[]"] four lim(1) by (auto simp: reads_as_def)
  next
    case False
    then have b: "body = sent_body res" using hd by (simp add: body response_must_not_have_body_def)
    show ?thesis
      unfolding reads_as_def
      by (rule exI [of _ "length head - 4"], rule exI [of _ ?rh], rule exI [of _ "length head"])
        (use False parsed parse [of body] find [of body] four lim chunked len b in auto)
  qed
  show "waits opts m q" if q: "head @ body = q @ r" "r \<noteq> []"
    using prefix_of_append [OF q(1)]
  proof (elim disjE exE conjE)
    fix us assume us: "head = q @ us" "us \<noteq> []"
    then have "sv_find_str (crlf @ crlf) q 0 = None" using head_end_server(2) [OF ok(1)] by (simp add: head)
    moreover have "length q \<le> co_max_header_bytes opts" using us(1) lim(1) by simp
    ultimately show ?thesis by (simp add: waits_def)
  next
    fix us assume us: "q = head @ us" "body = us @ r"
    then have nb: "body \<noteq> []" using q(2) by simp
    then have nm: "\<not> response_must_not_have_body m (rs_status res)" using bodiless_server [OF res(1)] by (auto simp: body hd)
    have "length us < length (sent_body res)" using us(2) q(2) nb by (auto simp: body split: if_splits)
    then show ?thesis
      using nm parse [of us] find [of us] four lim chunked len by (simp add: waits_def us(1))
  qed
qed

section \<open>Chunked responses\<close>

lemma chunked_server: "is_chunked (response_fields res ka sopts True False)"
proof -
  have "headers_get (response_fields res ka sopts True False) ''transfer-encoding'' = ''chunked''"
    by (simp add: response_fields_def headers_get_append own_fields_transfer_encoding framing_field_def
        names_equal_transfer_encoding)
  moreover have "contains_str ''chunked'' (client_lowercase ''chunked'')" by code_simp
  ultimately show ?thesis by (simp add: is_chunked_def)
qed

lemma bodiless_status: "100 \<le> n \<Longrightarrow> \<not> bodiless n \<Longrightarrow> m \<noteq> method_head \<Longrightarrow> \<not> response_must_not_have_body m n"
  by (auto simp: response_must_not_have_body_def bodiless_def)

lemma streamed_reads_as:
  assumes res: "list_all sendable_field (rs_headers res)" "\<not> bodiless (rs_status res)" "rs_status res \<le> 999"
    and m: "m \<noteq> method_head" and ps: "\<forall>p\<in>set ps. p \<noteq> []"
    and head: "head = serialize_response_head res ka sopts True False" and body: "body = concat (map serialize_chunk ps) @ final_chunk"
    and fits: "fits opts head (concat ps)"
  shows "reads_as opts m (head @ body) (received_response (rs_status res) (response_fields res ka sopts True False) (concat ps))"
    and "head @ body = q @ r \<Longrightarrow> r \<noteq> [] \<Longrightarrow> waits opts m q"
proof -
  let ?fs = "response_fields res ka sopts True False"
  let ?rh = "\<lparr>rh_status = rs_status res, rh_headers = ?fs\<rparr>"
  have st: "100 \<le> rs_status res" "\<not> response_must_not_have_body m (rs_status res)"
    using res m bodiless_status [of "rs_status res" m] by (auto simp: bodiless_def)
  have lim: "length head \<le> co_max_header_bytes opts" "length (concat ps) \<le> co_max_body_bytes opts"
    using fits by (simp_all add: fits_def)
  have "length p \<le> length (concat ps)" if "p \<in> set ps" for p using that by (induction ps) auto
  then have sizes: "\<forall>p\<in>set ps. p \<noteq> [] \<and> int (length p) + 2 < uint_limit"
    using ps fits by (fastforce simp: fits_def)
  have parse: "parse_response_head (head @ t) (co_max_header_bytes opts) = Inr (?rh, length head)" for t
    unfolding head by (rule parse_response_head_server) (use res st lim head in auto)
  have find: "sv_find_str (crlf @ crlf) (head @ t) 0 = Some (length head - 4)" for t
    unfolding head by (rule head_end_server) (rule res)
  have four: "4 \<le> length head" by (simp add: head head_text)
  have resp: "response_of ?rh b = Inr (received_response (rs_status res) ?fs b)" for b
    using response_of_ok [of ?rh b] st(1) res(3) by simp
  note chunked = chunked_server [of res ka sopts]
  have dec: "decode_chunked body = Inr (Inr (concat ps))" unfolding body by (rule decode_chunked_server) (rule sizes)
  have parsed: "parse_response m (head @ body) (co_max_header_bytes opts) (co_max_body_bytes opts) =
      Inr (Inr (received_response (rs_status res) ?fs (concat ps)))"
    using lim(2) resp st(2) chunked dec by (simp add: parse_response_def parse response_body_def)
  show "reads_as opts m (head @ body) (received_response (rs_status res) ?fs (concat ps))"
    unfolding reads_as_def
    by (rule exI [of _ "length head - 4"], rule exI [of _ ?rh], rule exI [of _ "length head"])
      (use st parsed parse [of body] find [of body] four lim chunked dec in auto)
  show "waits opts m q" if q: "head @ body = q @ r" "r \<noteq> []"
    using prefix_of_append [OF q(1)]
  proof (elim disjE exE conjE)
    fix us assume us: "head = q @ us" "us \<noteq> []"
    then have "sv_find_str (crlf @ crlf) q 0 = None" using head_end_server(2) [OF res(1)] by (simp add: head)
    moreover have "length q \<le> co_max_header_bytes opts" using us(1) lim(1) by simp
    ultimately show ?thesis by (simp add: waits_def)
  next
    fix us assume us: "q = head @ us" "body = us @ r"
    obtain message where "decode_chunked us = Inr (Inl message)" "\<not> fatal_chunk_error message"
      using decode_chunked_waits [OF sizes, of us r] us(2) q(2) waiting_message_not_fatal by (auto simp: body)
    then show ?thesis using st(2) parse [of us] find [of us] four lim chunked by (simp add: waits_def us(1))
  qed
qed

section \<open>End to end\<close>

text \<open>C6: A buffered request whose stream delivers, in any pieces, the bytes the server serialises a response to,
  calls its callback exactly once, with the status, the fields and the body of the response; a response that
  is answered to a HEAD request, or that has no body, is complete with its head. Fields the
  server adds are among the fields; redirects are not followed here.\<close>

theorem fetch_reads_server_response:
  assumes "well_formed_response res" and "rs_status res \<le> 999"
    and "fits opts (serialize_response_head res ka sopts False (m = method_head)) (sent_body res)"
    and "awaiting opts m [] s" and "concat ds = serialize_response res ka sopts (m = method_head)"
    and "\<not> (co_follow_redirects opts \<and> response_is_redirect (rs_status res))"
  shows "cf_calls (foldl fetch_step s (map (\<lambda>d. Fe_read (Read_data d)) ds)) =
    [Inr (received_response (rs_status res) (response_fields res ka sopts False (m = method_head))
            (if m = method_head then [] else sent_body res))]"
proof -
  let ?head = "serialize_response_head res ka sopts False (m = method_head)"
  let ?body = "if m = method_head then [] else sent_body res"
  note reads = buffered_reads_as [OF assms(1,2) refl refl refl assms(3)]
  show ?thesis
  proof (rule reads_complete [OF assms(4) _ _ _ reads(1)])
    show "[] @ concat ds = ?head @ ?body" using assms(5) by (simp add: serialize_response_def)
    show "[] \<noteq> ?head @ ?body" by (simp add: head_text)
  qed (use assms(6) reads(2) in \<open>simp_all add: received_response_def\<close>)
qed

text \<open>C40: The same for a response the application streams in pieces: the client decodes the chunks to the
  concatenation of the pieces, however the stream cuts the bytes.\<close>

theorem fetch_reads_streamed_response:
  assumes "list_all sendable_field (rs_headers res)" and "\<not> bodiless (rs_status res)" and "rs_status res \<le> 999"
    and "m \<noteq> method_head" and "\<forall>p\<in>set ps. p \<noteq> []"
    and "fits opts (serialize_response_head res ka sopts True False) (concat ps)"
    and "awaiting opts m [] s"
    and "concat ds = serialize_response_head res ka sopts True False @ concat (map serialize_chunk ps) @ final_chunk"
    and "\<not> (co_follow_redirects opts \<and> response_is_redirect (rs_status res))"
  shows "cf_calls (foldl fetch_step s (map (\<lambda>d. Fe_read (Read_data d)) ds)) =
    [Inr (received_response (rs_status res) (response_fields res ka sopts True False) (concat ps))]"
proof -
  note reads = streamed_reads_as [OF assms(1-5) refl refl assms(6)]
  show ?thesis
    by (rule reads_complete [OF assms(7) _ _ _ reads(1)])
      (use assms(8,9) reads(2) in \<open>simp_all add: received_response_def head_text\<close>)
qed

end
