(* ===== verification/Client_Stream_Reads.thy ===== *)
theory Client_Stream_Reads
  imports Client_Stream Client_Reads
begin

text \<open>
  A streaming request hands on the response of a server, whatever pieces the stream delivers it in: its head first,
  then the bytes of its body in order, then the end.
\<close>

section \<open>Applications that let the response come\<close>

text \<open>An application that cancels nothing, once the body of the request is finished, changes nothing in a callback.\<close>

definition patient :: "stream_app \<Rightarrow> bool" where
  "patient app \<longleftrightarrow> (\<forall>c s. Act_cancel \<notin> set (app c s))"

lemma ended_actions:
  assumes "sr_upload_ended s" and "Act_cancel \<notin> set as"
  shows "foldl run_stream_action s as = s"
  using assms
proof (induction as)
  case (Cons a as)
  have "run_stream_action s a = s" using Cons.prems by (cases a) (auto simp: sr_write_def sr_end_def)
  then show ?case using Cons by simp
qed simp

lemma patient_call: "patient app \<Longrightarrow> sr_upload_ended s \<Longrightarrow> sr_call app c s = s\<lparr>sr_calls := sr_calls s @ [c]\<rparr>"
  by (simp add: sr_call_def patient_def ended_actions)

section \<open>Reading\<close>

text \<open>A request that reads a response, with the calls made so far and the bytes not yet handed on.\<close>

definition receiving :: "client_options \<Rightarrow> http_method \<Rightarrow> stream_call list \<Rightarrow> string \<Rightarrow> stream_request \<Rightarrow> bool" where
  "receiving opts m calls b s \<longleftrightarrow>
     sr_options s = opts \<and> sr_method s = m \<and> sr_calls s = calls \<and> sr_buffer s = b \<and> sr_reading s \<and> sr_upload_ended s \<and>
     \<not> sr_completed s \<and> sr_thrown s = None \<and> sr_on_headers s \<and> sr_on_data s \<and> sr_on_complete s \<and> sr_stream s \<noteq> None"

definition in_body :: "response_body_mode \<Rightarrow> response_head \<Rightarrow> stream_request \<Rightarrow> bool" where
  "in_body mode head s \<longleftrightarrow> sr_headers_seen s \<and> sr_response_head s = head \<and> sr_body_mode s = mode"

definition body_calls :: "response_head \<Rightarrow> string list \<Rightarrow> stream_call list" where
  "body_calls head ds = Call_headers head # map Call_data ds"

definition delivered_all :: "response_head \<Rightarrow> string \<Rightarrow> stream_request \<Rightarrow> bool" where
  "delivered_all head body s \<longleftrightarrow>
     sr_completed s \<and> (\<exists>ds. sr_calls s = body_calls head ds @ [Call_complete (Inr ())] \<and> concat ds = body)"

lemma finish_delivered:
  assumes "receiving opts m (body_calls head ds) b s" and "concat ds = body"
  shows "delivered_all head body (finish_response_success s)"
  using assms
  by (auto simp: delivered_all_def receiving_def finish_response_success_def sr_complete_def sr_stop_timeout_def
      sr_release_stream_def sr_close_stream_def sr_log_def Let_def split: option.split)

lemma emit_receiving:
  assumes "patient app" and "receiving opts m (body_calls head ds) b s"
  shows "\<exists>ds'. concat ds' = concat ds @ data \<and> receiving opts m (body_calls head ds') b (sr_emit_body app data s) \<and>
    sr_delivered (sr_emit_body app data s) = sr_delivered s + length data \<and>
    sr_remaining (sr_emit_body app data s) = sr_remaining s \<and>
    in_body mode head' (sr_emit_body app data s) = in_body mode head' s"
proof (cases "data = []")
  case True
  then show ?thesis using assms(2) by (intro exI [of _ ds]) (simp add: sr_emit_body_def)
next
  case False
  then have "sr_emit_body app data s = s\<lparr>sr_delivered := sr_delivered s + length data, sr_calls := sr_calls s @ [Call_data data]\<rparr>"
    using assms by (simp add: sr_emit_body_def receiving_def patient_call)
  then show ?thesis using assms(2) by (intro exI [of _ "ds @ [data]"]) (simp add: receiving_def body_calls_def in_body_def)
qed

text \<open>A body of a known length.\<close>

lemma content_length_step:
  assumes "patient app" and s: "receiving opts m (body_calls head ds) b s" "in_body body_content_length head s"
    and body: "body = concat ds @ b @ r" and rem: "sr_remaining s = length (b @ r)" and t: "t = process_content_length_body app s"
  shows "if r = [] then delivered_all head body t
    else \<exists>ds'. concat ds' = concat ds @ b \<and> receiving opts m (body_calls head ds') [] t \<and>
      in_body body_content_length head t \<and> sr_remaining t = length r"
proof -
  define u where "u = (if sr_remaining s > 0 \<and> b \<noteq> [] then
      (sr_emit_body app b s)\<lparr>sr_buffer := [], sr_remaining := sr_remaining s - length b\<rparr> else s)"
  obtain ds' where ds': "concat ds' = concat ds @ b" and e: "receiving opts m (body_calls head ds') b (sr_emit_body app b s)"
      "sr_remaining (sr_emit_body app b s) = sr_remaining s" "in_body body_content_length head (sr_emit_body app b s)"
    using emit_receiving [OF assms(1) s(1), of b body_content_length head] s(2) by auto
  have u: "receiving opts m (body_calls head (if b = [] then ds else ds')) [] u" "in_body body_content_length head u"
    "sr_remaining u = length r"
    using e s rem by (auto simp: u_def receiving_def in_body_def)
  have "t = (if \<not> sr_completed u \<and> sr_remaining u = 0 then finish_response_success u else u)"
    unfolding t process_content_length_body_def u_def using s rem e(2) by (auto simp: receiving_def Let_def min_def)
  moreover have "\<not> sr_completed u" using u(1) by (simp add: receiving_def)
  ultimately have t: "t = (if r = [] then finish_response_success u else u)" using u(3) by simp
  have cat: "concat (if b = [] then ds else ds') = concat ds @ b" using ds' by simp
  show ?thesis
  proof (cases "r = []")
    case True
    then show ?thesis using finish_delivered [OF u(1), of body] cat body t by simp
  next
    case False
    then show ?thesis using u cat t by metis
  qed
qed

text \<open>A chunked body: the size line of a chunk, and what is done with it.\<close>

lemma chunked_size:
  assumes "\<not> sr_completed s" and "sr_buffer s = print_number 16 n @ crlf @ d" and "int n + 2 < uint_limit" and "n \<noteq> 0"
  shows "process_chunked_body app s =
    (if length d < n + 2 then s
     else if sr_delivered s + n > co_max_body_bytes (sr_options s)
     then sr_close_fail (make_client_error client_body_limit_exceeded []) s
     else if take 2 (drop n d) \<noteq> crlf then sr_close_fail (malformed ''chunk body is not terminated'') s
     else process_chunked_body app ((sr_emit_body app (take n d) s)\<lparr>sr_buffer := drop (n + 2) d\<rparr>))"
proof -
  let ?l = "print_number 16 n"
  have find: "sv_find_str crlf (sr_buffer s) 0 = Some (length ?l)" using find_size_line [of "[]" n d] assms(2) by simp
  have line: "sv_until (take (length ?l) (sr_buffer s)) (sv_find (CHR '';'') (take (length ?l) (sr_buffer s))) = ?l"
    using number_no_semicolon by (simp add: assms(2) sv_until_def)
  have size: "parse_uint 16 ?l = Some (int n)" using assms(3) by simp
  have wrap: "(int n + 2) mod uint_limit = int n + 2" using assms(3) by (simp add: uint_limit_def)
  have len: "length (sr_buffer s) = length ?l + 2 + length d" by (simp add: assms(2))
  have parts: "sv_substr (sr_buffer s) (length ?l + 2) n = take n d" "sv_substr (sr_buffer s) (length ?l + 2 + n) 2 = take 2 (drop n d)"
    "drop (length ?l + 2 + n + 2) (sr_buffer s) = drop (n + 2) d"
    by (simp_all add: assms(2) sv_substr_def add.commute add.left_commute)
  show ?thesis
    using parts by (subst process_chunked_body.simps) (simp add: assms(1,4) find line size wrap len Let_def)
qed

lemma chunked_wait_line:
  assumes "CHR 0x0D \<notin> set l" "l @ crlf = sr_buffer s @ r" "r \<noteq> []"
  shows "process_chunked_body app s = s"
  using find_crlf_prefix [OF assms, of "[]"] by (subst process_chunked_body.simps) simp

lemma chunked_final:
  assumes "patient app" and s: "receiving opts m (body_calls head ds) b s" and "b @ r = final_chunk"
  shows "if r = [] then delivered_all head (concat ds) (process_chunked_body app s) else process_chunked_body app s = s"
proof (cases "r = []")
  case True
  have b: "sr_buffer s = final_chunk" "\<not> sr_completed s" using s assms(3) True by (auto simp: receiving_def)
  have "sv_find_str crlf final_chunk 0 = Some 1" using find_crlf_at [of "''0''" "[]" crlf] by simp
  moreover have "parse_uint 16 ''0'' = Some 0" by code_simp
  ultimately have "process_chunked_body app s = finish_response_success (s\<lparr>sr_buffer := []\<rparr>)"
    using b by (subst process_chunked_body.simps) (simp add: Let_def sv_substr_def sv_until_def)
  moreover have "receiving opts m (body_calls head ds) [] (s\<lparr>sr_buffer := []\<rparr>)" using s by (simp add: receiving_def)
  ultimately show ?thesis using finish_delivered True by simp
next
  case False
  have b: "(''0'' @ crlf) @ crlf = sr_buffer s @ r" using s assms(3) by (simp add: receiving_def)
  from prefix_of_append [OF b] have "process_chunked_body app s = s"
  proof (elim disjE exE conjE)
    fix us assume "''0'' @ crlf = sr_buffer s @ us" "us \<noteq> []"
    then show ?thesis using chunked_wait_line [of "''0''" s us app] by simp
  next
    fix us assume us: "sr_buffer s = (''0'' @ crlf) @ us" "crlf = us @ r"
    have len: "length us < 2" using arg_cong [OF us(2), of length] False by (cases r) simp_all
    have "sv_find_str crlf (sr_buffer s) 0 = Some 1" using find_crlf_at [of "''0''" "[]" us] us(1) by simp
    moreover have "parse_uint 16 ''0'' = Some 0" by code_simp
    moreover have "sv_substr (sr_buffer s) 3 2 \<noteq> crlf" using us(1) len arg_cong [of us crlf length] by (auto simp: sv_substr_def)
    moreover have "sv_find_str (crlf @ crlf) (sr_buffer s) 3 = None"
      using sv_find_str_bounds [of "crlf @ crlf" "sr_buffer s" 3] us(1) len
      by (cases "sv_find_str (crlf @ crlf) (sr_buffer s) 3") auto
    ultimately show ?thesis
      using us(1) by (subst process_chunked_body.simps) (simp add: Let_def sv_until_def numeral_3_eq_3)
  qed
  then show ?thesis using False by simp
qed

lemma chunked_step:
  assumes "patient app" and "\<forall>p\<in>set ps. p \<noteq> [] \<and> int (length p) + 2 < uint_limit"
    and "receiving opts m (body_calls head ds) b s" "in_body body_chunked head s"
    and "b @ r = concat (map serialize_chunk ps) @ final_chunk"
    and "sr_delivered s + length (concat ps) \<le> co_max_body_bytes opts"
  shows "if r = [] then delivered_all head (concat ds @ concat ps) (process_chunked_body app s)
    else \<exists>ds' ps' b'. concat ds' @ concat ps' = concat ds @ concat ps \<and>
      receiving opts m (body_calls head ds') b' (process_chunked_body app s) \<and>
      in_body body_chunked head (process_chunked_body app s) \<and> b' @ r = concat (map serialize_chunk ps') @ final_chunk \<and>
      set ps' \<subseteq> set ps \<and> sr_delivered (process_chunked_body app s) + length (concat ps') \<le> co_max_body_bytes opts"
  using assms(2-)
proof (induction ps arbitrary: ds b s)
  case Nil
  note f = chunked_final [OF assms(1) Nil.prems(2), of r]
  show ?case
  proof (cases "r = []")
    case True
    then show ?thesis using f Nil.prems by simp
  next
    case False
    then have w: "process_chunked_body app s = s" using f Nil.prems by simp
    show ?thesis unfolding if_not_P [OF False] w
      by (rule exI [of _ ds], rule exI [of _ "[]"], rule exI [of _ b]) (use Nil.prems in simp)
  qed
next
  case (Cons p ps)
  let ?rest = "concat (map serialize_chunk ps) @ final_chunk"
  have b: "sr_buffer s = b" "\<not> sr_completed s" "sr_options s = opts" using Cons.prems(2) by (simp_all add: receiving_def)
  have wait: ?case if w: "process_chunked_body app s = s" and r: "r \<noteq> []"
    unfolding if_not_P [OF r] w
    by (rule exI [of _ ds], rule exI [of _ "p # ps"], rule exI [of _ b]) (use Cons.prems in simp)
  have "serialize_chunk p @ ?rest = b @ r" using Cons.prems(4) by simp
  from prefix_of_append [OF this] show ?case
  proof (elim disjE exE conjE)
    fix us assume us: "serialize_chunk p = b @ us" "us \<noteq> []"
    have r: "r \<noteq> []" using us Cons.prems(4) by auto
    have "(print_number 16 (length p) @ crlf) @ (p @ crlf) = b @ us" using us(1) by (simp add: serialize_chunk_def)
    from prefix_of_append [OF this] have "process_chunked_body app s = s"
    proof (elim disjE exE conjE)
      fix vs assume "print_number 16 (length p) @ crlf = b @ vs" "vs \<noteq> []"
      then show ?thesis using chunked_wait_line [of "print_number 16 (length p)" s vs app] b number_chars(1) [of 16] by simp
    next
      fix vs assume vs: "b = (print_number 16 (length p) @ crlf) @ vs" "p @ crlf = vs @ us"
      have "length vs < length p + 2" using arg_cong [OF vs(2), of length] us(2) by (cases us) simp_all
      then show ?thesis using chunked_size [of s "length p" vs app] vs(1) b Cons.prems(1) by simp
    qed
    then show ?thesis using r by (rule wait)
  next
    fix us assume us: "b = serialize_chunk p @ us" "?rest = us @ r"
    obtain ds' where ds': "concat ds' = concat ds @ p" and e: "receiving opts m (body_calls head ds') b (sr_emit_body app p s)"
        "sr_delivered (sr_emit_body app p s) = sr_delivered s + length p" "in_body body_chunked head (sr_emit_body app p s)"
      using emit_receiving [OF assms(1) Cons.prems(2), of p body_chunked head] Cons.prems(3) by auto
    define s' where "s' = (sr_emit_body app p s)\<lparr>sr_buffer := us\<rparr>"
    have step: "process_chunked_body app s = process_chunked_body app s'"
      using chunked_size [of s "length p" "p @ crlf @ us" app] us(1) b Cons.prems(1,5)
      by (simp add: serialize_chunk_def s'_def)
    have IH: "if r = [] then delivered_all head (concat ds' @ concat ps) (process_chunked_body app s')
      else \<exists>ds'' ps' b'. concat ds'' @ concat ps' = concat ds' @ concat ps \<and>
        receiving opts m (body_calls head ds'') b' (process_chunked_body app s') \<and>
        in_body body_chunked head (process_chunked_body app s') \<and> b' @ r = concat (map serialize_chunk ps') @ final_chunk \<and>
        set ps' \<subseteq> set ps \<and> sr_delivered (process_chunked_body app s') + length (concat ps') \<le> co_max_body_bytes opts"
      by (rule Cons.IH [where b = us])
        (use Cons.prems(1,5) e us(2) in \<open>auto simp: s'_def receiving_def in_body_def\<close>)
    have cat: "concat ds' @ concat ps = concat ds @ concat (p # ps)" using ds' by simp
    show ?thesis
    proof (cases "r = []")
      case True
      then show ?thesis using IH unfolding step cat by simp
    next
      case False
      then obtain ds'' ps' b' where t: "concat ds'' @ concat ps' = concat ds @ concat (p # ps)"
          "receiving opts m (body_calls head ds'') b' (process_chunked_body app s)"
          "in_body body_chunked head (process_chunked_body app s)" "b' @ r = concat (map serialize_chunk ps') @ final_chunk"
          "set ps' \<subseteq> set ps" "sr_delivered (process_chunked_body app s) + length (concat ps') \<le> co_max_body_bytes opts"
        using IH unfolding step cat by (simp only: if_False) blast
      show ?thesis
        unfolding if_not_P [OF False]
        by (rule exI [of _ ds''], rule exI [of _ ps'], rule exI [of _ b']) (use t in auto)
    qed
  qed
qed

section \<open>From the head to the end\<close>

text \<open>
  A framing says when a request is ready for more of the encoded body, what it does with what is buffered, and how it
  enters the body when the head has been seen.
\<close>

definition head_seen :: "client_options \<Rightarrow> http_method \<Rightarrow> response_head \<Rightarrow> string \<Rightarrow> stream_request \<Rightarrow> bool" where
  "head_seen opts m head us s \<longleftrightarrow>
     receiving opts m (body_calls head []) us s \<and> sr_headers_seen s \<and> sr_response_head s = head \<and> sr_delivered s = 0"

definition framed_by ::
    "stream_app \<Rightarrow> client_options \<Rightarrow> http_method \<Rightarrow> response_head \<Rightarrow> string \<Rightarrow> string \<Rightarrow> (string \<Rightarrow> stream_request \<Rightarrow> bool) \<Rightarrow> bool" where
  "framed_by app opts m head enc body ready \<longleftrightarrow>
     (\<forall>us r s. ready us s \<longrightarrow> us @ r = enc \<longrightarrow>
        (if r = [] then delivered_all head body (process_body app s) else ready us (process_body app s))) \<and>
     (\<forall>us d s. ready us s \<longrightarrow> ready (us @ d) (s\<lparr>sr_buffer := sr_buffer s @ d\<rparr>)) \<and>
     (\<forall>us s. ready us s \<longrightarrow> sr_headers_seen s \<and> \<not> sr_completed s \<and> sr_reading s \<and> sr_thrown s = None) \<and>
     (\<forall>us r s. head_seen opts m head us s \<longrightarrow> us @ r = enc \<longrightarrow>
        (if r = [] then delivered_all head body (process_head app s) else ready us (process_head app s)))"

text \<open>Before the end of the head.\<close>

definition before_body :: "client_options \<Rightarrow> http_method \<Rightarrow> string \<Rightarrow> stream_request \<Rightarrow> bool" where
  "before_body opts m q s \<longleftrightarrow> receiving opts m [] q s \<and> \<not> sr_headers_seen s \<and> sr_delivered s = 0"

lemma completed_ignores_stream_reads:
  "sr_completed s \<Longrightarrow> foldl (stream_step app) s (map (\<lambda>d. Se_read (Read_data d)) ds) = s"
  by (induction ds) (simp_all add: stream_step_def sr_on_read_def)

lemma body_reads:
  assumes fr: "framed_by app opts m head enc body ready" and "ready us s" "us @ concat ds = enc" "us \<noteq> enc"
  shows "delivered_all head body (foldl (stream_step app) s (map (\<lambda>d. Se_read (Read_data d)) ds))"
  using assms(2-)
proof (induction ds arbitrary: us s)
  case (Cons d ds)
  let ?t = "stream_step app s (Se_read (Read_data d))"
  let ?u = "s\<lparr>sr_buffer := sr_buffer s @ d\<rparr>"
  have step: "?t = process_body app ?u"
    using fr Cons.prems(1) unfolding framed_by_def
    by (auto simp: stream_step_def sr_on_read_def process_buffer_def)
  have r: "ready (us @ d) ?u" using fr Cons.prems(1) unfolding framed_by_def by blast
  have enc: "(us @ d) @ concat ds = enc" using Cons.prems(2) by simp
  have p: "if concat ds = [] then delivered_all head body ?t else ready (us @ d) ?t"
    using fr r enc unfolding framed_by_def step by blast
  show ?case
  proof (cases "concat ds = []")
    case True
    then show ?thesis using p completed_ignores_stream_reads [of ?t app ds] by (simp add: delivered_all_def)
  next
    case False
    have "ready (us @ d) ?t" using p unfolding if_not_P [OF False] .
    moreover have "us @ d \<noteq> enc" using enc False by (metis append_self_conv)
    ultimately show ?thesis using Cons.IH [of "us @ d" ?t] enc by simp
  qed
qed simp

lemma head_reads:
  assumes app: "patient app" and fr: "framed_by app opts m head enc body ready"
    and parse: "\<And>t. parse_response_head (h @ t) (co_max_header_bytes opts) = Inr (head, length h)"
    and find: "\<And>t. sv_find_str (crlf @ crlf) (h @ t) 0 \<noteq> None"
    and wait: "\<And>q r. h = q @ r \<Longrightarrow> r \<noteq> [] \<Longrightarrow> sv_find_str (crlf @ crlf) q 0 = None" and lim: "length h \<le> co_max_header_bytes opts"
    and "before_body opts m q s" "q @ concat ds = h @ enc" "length q < length h"
  shows "delivered_all head body (foldl (stream_step app) s (map (\<lambda>d. Se_read (Read_data d)) ds))"
  using assms(7-)
proof (induction ds arbitrary: q s)
  case (Cons d ds)
  let ?t = "stream_step app s (Se_read (Read_data d))"
  define u where "u = s\<lparr>sr_buffer := q @ d\<rparr>"
  have u: "before_body opts m (q @ d) u" using Cons.prems(1) by (simp add: before_body_def receiving_def u_def)
  have step: "?t = process_buffer app u"
    using Cons.prems(1) by (simp add: stream_step_def sr_on_read_def before_body_def receiving_def u_def)
  have total: "h @ enc = (q @ d) @ concat ds" using Cons.prems(2) by simp
  from prefix_of_append [OF this] show ?case
  proof (elim disjE exE conjE)
    fix us assume us: "h = (q @ d) @ us" "us \<noteq> []"
    have "sv_find_str (crlf @ crlf) (q @ d) 0 = None" using wait us by blast
    moreover have "length (q @ d) \<le> co_max_header_bytes opts" using us(1) lim by simp
    ultimately have "?t = u" unfolding step using u by (simp add: process_buffer_def before_body_def receiving_def)
    moreover have "length (q @ d) < length h" using us by (cases us) simp_all
    ultimately show ?thesis using Cons.IH [OF u] total by simp
  next
    fix us assume us: "q @ d = h @ us" "enc = us @ concat ds"
    define v where "v = u\<lparr>sr_response_head := head, sr_buffer := us, sr_headers_seen := True\<rparr>"
    define w where "w = v\<lparr>sr_calls := [Call_headers head]\<rparr>"
    obtain e where e: "sv_find_str (crlf @ crlf) (h @ us) 0 = Some e" using find by blast
    have v: "sr_upload_ended v" "sr_on_headers v" "sr_calls v = []" using u by (simp_all add: v_def before_body_def receiving_def)
    have "?t = process_head app (sr_call app (Call_headers head) v)"
      unfolding step using u e parse [of us] us(1) by (simp add: process_buffer_def before_body_def receiving_def v_def)
    then have t: "?t = process_head app w" using patient_call [OF app v(1)] v(3) by (simp add: w_def)
    have w: "head_seen opts m head us w"
      using u by (simp add: head_seen_def before_body_def receiving_def body_calls_def w_def v_def)
    have p: "if concat ds = [] then delivered_all head body ?t else ready us ?t"
      using fr w us(2) unfolding framed_by_def t by blast
    show ?thesis
    proof (cases "concat ds = []")
      case True
      then show ?thesis using p completed_ignores_stream_reads [of ?t app ds] by (simp add: delivered_all_def)
    next
      case False
      have "ready us ?t" using p unfolding if_not_P [OF False] .
      moreover have "us \<noteq> enc" using us(2) False by (metis append_self_conv)
      ultimately show ?thesis using body_reads [OF fr, of us ?t ds] us(2) by simp
    qed
  qed
qed simp

section \<open>Framings\<close>

lemma start_timeout_receiving [simp]:
  "receiving opts m calls b (sr_start_timeout ph d s) = receiving opts m calls b s"
  "in_body mode head (sr_start_timeout ph d s) = in_body mode head s"
  "sr_delivered (sr_start_timeout ph d s) = sr_delivered s" "sr_remaining (sr_start_timeout ph d s) = sr_remaining s"
  "sr_body_mode (sr_start_timeout ph d s) = sr_body_mode s" "sr_headers_seen (sr_start_timeout ph d s) = sr_headers_seen s"
  "sr_response_head (sr_start_timeout ph d s) = sr_response_head s"
  "receiving opts m calls b (s\<lparr>sr_body_mode := mode\<rparr>) = receiving opts m calls b s"
  "receiving opts m calls b (s\<lparr>sr_remaining := n\<rparr>) = receiving opts m calls b s"
  by (simp_all add: receiving_def in_body_def sr_start_timeout_def sr_stop_timeout_def Let_def)

definition length_ready :: "client_options \<Rightarrow> http_method \<Rightarrow> response_head \<Rightarrow> string \<Rightarrow> string \<Rightarrow> stream_request \<Rightarrow> bool" where
  "length_ready opts m head body us s \<longleftrightarrow>
     (\<exists>ds b. receiving opts m (body_calls head ds) b s \<and> in_body body_content_length head s \<and> us = concat ds @ b \<and>
        sr_remaining s + length (concat ds) = length body)"

lemma length_framed:
  assumes app: "patient app" and chunked: "\<not> is_chunked (rh_headers head)"
    and len: "headers_get (rh_headers head) ''content-length'' = print_number 10 n" "int n < uint_limit" "n \<le> co_max_body_bytes opts"
    and body: "if response_must_not_have_body m (rh_status head) then body = [] else n = length body"
  shows "framed_by app opts m head body body (length_ready opts m head body)"
proof -
  have process: "if r = [] then delivered_all head body (process_body app s) else length_ready opts m head body us (process_body app s)"
    if ready: "length_ready opts m head body us s" and us: "us @ r = body" for us r s
  proof -
    obtain ds b where s: "receiving opts m (body_calls head ds) b s" "in_body body_content_length head s" "us = concat ds @ b"
        "sr_remaining s + length (concat ds) = length body" using ready by (auto simp: length_ready_def)
    have "process_body app s = process_content_length_body app s" using s(2) by (simp add: process_body_def in_body_def)
    then have step: "if r = [] then delivered_all head body (process_body app s)
      else \<exists>ds'. concat ds' = concat ds @ b \<and> receiving opts m (body_calls head ds') [] (process_body app s) \<and>
        in_body body_content_length head (process_body app s) \<and> sr_remaining (process_body app s) = length r"
      by (intro content_length_step [OF app s(1,2)]) (use s(3,4) us in auto)
    show ?thesis
    proof (cases "r = []")
      case True
      then show ?thesis using step by simp
    next
      case False
      obtain ds' where "concat ds' = concat ds @ b" "receiving opts m (body_calls head ds') [] (process_body app s)"
          "in_body body_content_length head (process_body app s)" "sr_remaining (process_body app s) = length r"
        using step False by auto
      then show ?thesis unfolding if_not_P [OF False] length_ready_def
        using us s(3) by (intro exI [of _ ds'] exI [of _ "[]"]) auto
    qed
  qed
  have enter: "if r = [] then delivered_all head body (process_head app s) else length_ready opts m head body us (process_head app s)"
    if s: "head_seen opts m head us s" and us: "us @ r = body" for us r s
  proof (cases "response_must_not_have_body m (rh_status head)")
    case True
    have "receiving opts m (body_calls head []) us (s\<lparr>sr_body_mode := body_empty\<rparr>)"
      using s by (simp add: head_seen_def receiving_def)
    then have "delivered_all head [] (finish_response_success (s\<lparr>sr_body_mode := body_empty\<rparr>))"
      by (rule finish_delivered) simp
    then show ?thesis using True s us body by (simp add: process_head_def head_seen_def receiving_def)
  next
    case False
    define s' where "s' = sr_start_timeout phase_response_body (co_response_body_timeout opts)
        (s\<lparr>sr_body_mode := body_content_length, sr_remaining := n\<rparr>)"
    have "process_head app s = process_body app s'"
      using False chunked len s by (simp add: process_head_def head_seen_def receiving_def s'_def Let_def)
    moreover have "length_ready opts m head body us s'"
      unfolding length_ready_def
      by (rule exI [of _ "[]"], rule exI [of _ us])
        (use s False body in \<open>simp add: head_seen_def in_body_def s'_def\<close>)
    ultimately show ?thesis using process us by simp
  qed
  have extend: "length_ready opts m head body (us @ d) (s\<lparr>sr_buffer := sr_buffer s @ d\<rparr>)" if r: "length_ready opts m head body us s" for us d s
  proof -
    obtain ds b where "receiving opts m (body_calls head ds) b s" "in_body body_content_length head s" "us = concat ds @ b"
        "sr_remaining s + length (concat ds) = length body" using r by (auto simp: length_ready_def)
    then show ?thesis unfolding length_ready_def
      by (intro exI [of _ ds] exI [of _ "b @ d"]) (simp add: receiving_def in_body_def)
  qed
  have seen: "sr_headers_seen s \<and> \<not> sr_completed s \<and> sr_reading s \<and> sr_thrown s = None" if "length_ready opts m head body us s" for us s
    using that by (auto simp: length_ready_def receiving_def in_body_def)
  show ?thesis unfolding framed_by_def using process enter extend seen by blast
qed

definition chunks_ready :: "client_options \<Rightarrow> http_method \<Rightarrow> response_head \<Rightarrow> string list \<Rightarrow> string \<Rightarrow> stream_request \<Rightarrow> bool" where
  "chunks_ready opts m head ps us s \<longleftrightarrow>
     (\<exists>ds ps' b. receiving opts m (body_calls head ds) b s \<and> in_body body_chunked head s \<and>
        (\<forall>r. us @ r = concat (map serialize_chunk ps) @ final_chunk \<longrightarrow> b @ r = concat (map serialize_chunk ps') @ final_chunk) \<and>
        concat ds @ concat ps' = concat ps \<and> set ps' \<subseteq> set ps \<and> sr_delivered s + length (concat ps') \<le> co_max_body_bytes opts)"

lemma chunks_framed:
  assumes app: "patient app" and chunked: "is_chunked (rh_headers head)" "\<not> response_must_not_have_body m (rh_status head)"
    and sizes: "\<forall>p\<in>set ps. p \<noteq> [] \<and> int (length p) + 2 < uint_limit" and room: "length (concat ps) \<le> co_max_body_bytes opts"
  shows "framed_by app opts m head (concat (map serialize_chunk ps) @ final_chunk) (concat ps) (chunks_ready opts m head ps)"
proof -
  let ?enc = "concat (map serialize_chunk ps) @ final_chunk"
  have process: "if r = [] then delivered_all head (concat ps) (process_body app s) else chunks_ready opts m head ps us (process_body app s)"
    if ready: "chunks_ready opts m head ps us s" and us: "us @ r = ?enc" for us r s
  proof -
    obtain ds ps' b where s: "receiving opts m (body_calls head ds) b s" "in_body body_chunked head s"
        and b: "b @ r = concat (map serialize_chunk ps') @ final_chunk" and ps': "concat ds @ concat ps' = concat ps" "set ps' \<subseteq> set ps"
        "sr_delivered s + length (concat ps') \<le> co_max_body_bytes opts" using ready us unfolding chunks_ready_def by blast
    have sizes': "\<forall>p\<in>set ps'. p \<noteq> [] \<and> int (length p) + 2 < uint_limit" using sizes ps'(2) by blast
    have pb: "process_body app s = process_chunked_body app s" using s(2) by (simp add: process_body_def in_body_def)
    note step = chunked_step [OF app sizes' s b ps'(3), folded pb]
    show ?thesis
    proof (cases "r = []")
      case True
      then show ?thesis using step ps'(1) by simp
    next
      case False
      obtain ds1 ps1 b1 where t: "concat ds1 @ concat ps1 = concat ds @ concat ps'"
          "receiving opts m (body_calls head ds1) b1 (process_body app s)" "in_body body_chunked head (process_body app s)"
          "b1 @ r = concat (map serialize_chunk ps1) @ final_chunk" "set ps1 \<subseteq> set ps'"
          "sr_delivered (process_body app s) + length (concat ps1) \<le> co_max_body_bytes opts"
        using step unfolding if_not_P [OF False] by blast
      have only: "b1 @ r' = concat (map serialize_chunk ps1) @ final_chunk" if "us @ r' = ?enc" for r'
        using that us t(4) by (metis same_append_eq)
      show ?thesis unfolding if_not_P [OF False] chunks_ready_def
        by (rule exI [of _ ds1], rule exI [of _ ps1], rule exI [of _ b1]) (use t only ps' in \<open>auto simp del: append.simps\<close>)
    qed
  qed
  have enter: "if r = [] then delivered_all head (concat ps) (process_head app s) else chunks_ready opts m head ps us (process_head app s)"
    if s: "head_seen opts m head us s" and us: "us @ r = ?enc" for us r s
  proof -
    define s' where "s' = sr_start_timeout phase_response_body (co_response_body_timeout opts) (s\<lparr>sr_body_mode := body_chunked\<rparr>)"
    have "process_head app s = process_body app s'"
      using chunked s by (simp add: process_head_def head_seen_def receiving_def s'_def Let_def)
    moreover have "chunks_ready opts m head ps us s'"
      unfolding chunks_ready_def
      by (rule exI [of _ "[]"], rule exI [of _ ps], rule exI [of _ us])
        (use s room in \<open>simp add: head_seen_def in_body_def s'_def\<close>)
    ultimately show ?thesis using process us by simp
  qed
  have extend: "chunks_ready opts m head ps (us @ d) (s\<lparr>sr_buffer := sr_buffer s @ d\<rparr>)" if r: "chunks_ready opts m head ps us s" for us d s
  proof -
    obtain ds ps' b where t: "receiving opts m (body_calls head ds) b s" "in_body body_chunked head s"
        "\<And>r. us @ r = ?enc \<Longrightarrow> b @ r = concat (map serialize_chunk ps') @ final_chunk"
        "concat ds @ concat ps' = concat ps" "set ps' \<subseteq> set ps" "sr_delivered s + length (concat ps') \<le> co_max_body_bytes opts"
      using r unfolding chunks_ready_def by blast
    show ?thesis unfolding chunks_ready_def
      by (rule exI [of _ ds], rule exI [of _ ps'], rule exI [of _ "b @ d"]) (use t in \<open>auto simp: receiving_def in_body_def\<close>)
  qed
  have seen: "sr_headers_seen s \<and> \<not> sr_completed s \<and> sr_reading s \<and> sr_thrown s = None" if "chunks_ready opts m head ps us s" for us s
    using that by (auto simp: chunks_ready_def receiving_def in_body_def)
  show ?thesis unfolding framed_by_def using process enter extend seen by blast
qed

section \<open>End to end\<close>


text \<open>The same for a response the application of the server streams in pieces: the client's pieces add up to
  the server's.\<close>

theorem stream_delivers_streamed_response:
  assumes "patient app" and "list_all sendable_field (rs_headers res)" and "\<not> bodiless (rs_status res)" and "rs_status res \<le> 999"
    and "m \<noteq> method_head" and "\<forall>p\<in>set ps. p \<noteq> []"
    and "fits opts (serialize_response_head res ka sopts True False) (concat ps)"
    and "before_body opts m [] s"
    and "concat ds = serialize_response_head res ka sopts True False @ concat (map serialize_chunk ps) @ final_chunk"
  shows "\<exists>pieces. concat pieces = concat ps \<and>
    sr_calls (foldl (stream_step app) s (map (\<lambda>d. Se_read (Read_data d)) ds)) =
      Call_headers \<lparr>rh_status = rs_status res, rh_headers = response_fields res ka sopts True False\<rparr> #
      map Call_data pieces @ [Call_complete (Inr ())]"
proof -
  let ?h = "serialize_response_head res ka sopts True False"
  let ?head = "\<lparr>rh_status = rs_status res, rh_headers = response_fields res ka sopts True False\<rparr>"
  have st: "100 \<le> rs_status res" "\<not> response_must_not_have_body m (rs_status res)"
    using assms(3,5) bodiless_status [of "rs_status res" m] by (auto simp: bodiless_def)
  have "length p \<le> length (concat ps)" if "p \<in> set ps" for p using that by (induction ps) auto
  then have sizes: "\<forall>p\<in>set ps. p \<noteq> [] \<and> int (length p) + 2 < uint_limit" using assms(6,7) by (fastforce simp: fits_def)
  have fr: "framed_by app opts m ?head (concat (map serialize_chunk ps) @ final_chunk) (concat ps) (chunks_ready opts m ?head ps)"
    by (rule chunks_framed [OF assms(1) _ _ sizes]) (use assms(7) st chunked_server in \<open>simp_all add: fits_def\<close>)
  have parse: "parse_response_head (?h @ t) (co_max_header_bytes opts) = Inr (?head, length ?h)" for t
    by (rule parse_response_head_server) (use assms(2,4,7) st in \<open>simp_all add: fits_def\<close>)
  have "delivered_all ?head (concat ps) (foldl (stream_step app) s (map (\<lambda>d. Se_read (Read_data d)) ds))"
    by (rule head_reads [OF assms(1) fr parse _ _ _ assms(8)])
      (use head_end_server [OF assms(2)] assms(7,9) in \<open>auto simp: fits_def head_text\<close>)
  then show ?thesis unfolding delivered_all_def body_calls_def append_Cons by blast
qed

end
