(* ===== verification/Client_Upload.thy ===== *)
theory Client_Upload
  imports Client_Stream
begin

text \<open>
  The body of a streaming request on the wire: what has been written to the stream, with what is still queued, is the
  head of the request followed by the encoding of the pieces the application had accepted, and the response is
  read only when all of it has been written.
\<close>

section \<open>What the wire shows\<close>

fun sent_to :: "stream_id \<Rightarrow> stream_op list \<Rightarrow> string" where
  "sent_to i [] = []"
| "sent_to i (op # ops) = (case op of Op_write j p \<Rightarrow> if j = i then p else [] | _ \<Rightarrow> []) @ sent_to i ops"

lemma sent_to_append [simp]: "sent_to i (a @ b) = sent_to i a @ sent_to i b"
  by (induction a) simp_all

lemma no_writes_sent: "no_writes ops \<Longrightarrow> sent_to i ops = []"
  by (induction ops) (auto simp: no_writes_def split: stream_op.split)

definition upload_bytes :: "stream_request \<Rightarrow> string" where
  "upload_bytes s =
     (if sr_upload_mode s = upload_chunked
      then concat (map client_serialize_chunk (sr_pieces s)) @ (if sr_upload_ended s then ''0'' @ crlf @ crlf else [])
      else concat (sr_pieces s))"

definition unsent :: "stream_request \<Rightarrow> string" where
  "unsent s = concat (if sr_upload_writing s then tl (sr_upload_writes s) else sr_upload_writes s)"

text \<open>What is queued and accepted, whom the request still waits for, and what is on the wire since the log had a given length.\<close>

definition length_kept :: "upload_mode \<Rightarrow> nat option \<Rightarrow> nat \<Rightarrow> bool \<Rightarrow> bool" where
  "length_kept m l a ended \<longleftrightarrow>
     m \<noteq> upload_content_length \<or> (\<exists>k. l = Some k \<and> a \<le> k \<and> (ended \<longrightarrow> a = k))"

definition upload_counts :: "stream_request \<Rightarrow> bool" where
  "upload_counts s \<longleftrightarrow>
     sr_pending s = length (concat (sr_upload_writes s)) \<and> sr_accepted s = length (concat (sr_pieces s)) \<and>
     (sr_upload_writing s \<longrightarrow> sr_upload_writes s \<noteq> [] \<and> sr_headers_written s) \<and>
     (sr_headers_written s \<longrightarrow> sr_headers_started s) \<and>
     (sr_upload_mode s = upload_none \<longrightarrow> sr_pieces s = [] \<and> sr_upload_writes s = []) \<and>
     length_kept (sr_upload_mode s) (sr_content_length s) (sr_accepted s) (sr_upload_ended s) \<and>
     (sr_reading s \<longrightarrow>
        sr_headers_written s \<and> sr_upload_writes s = [] \<and> (sr_upload_mode s = upload_none \<or> sr_upload_ended s))"

definition upload_flags :: "stream_request \<Rightarrow> bool" where
  "upload_flags s \<longleftrightarrow>
     (sr_dns s \<or> sr_connect s \<or> sr_tls s \<longrightarrow> \<not> sr_headers_started s) \<and>
     \<not> (sr_dns s \<and> sr_connect s) \<and> \<not> (sr_dns s \<and> sr_tls s) \<and> \<not> (sr_connect s \<and> sr_tls s)"

definition upload_wire :: "nat \<Rightarrow> stream_request \<Rightarrow> bool" where
  "upload_wire n s \<longleftrightarrow>
     n \<le> length (io_ops (sr_io s)) \<and>
     (\<not> sr_headers_started s \<longrightarrow>
        no_writes (drop n (io_ops (sr_io s))) \<and> concat (sr_upload_writes s) = upload_bytes s \<and> sr_stream s = None) \<and>
     (\<forall>i. sr_stream s = Some i \<and> (sr_reading s \<or> \<not> sr_completed s) \<longrightarrow>
        sent_to i (drop n (io_ops (sr_io s))) @ unsent s = streaming_head s @ upload_bytes s)"

definition upload_inv :: "nat \<Rightarrow> stream_request \<Rightarrow> bool" where
  "upload_inv n s \<longleftrightarrow> upload_counts s \<and> upload_flags s \<and> upload_wire n s"

lemma streaming_head_updates [simp]:
  "streaming_head (s\<lparr>sr_reading := xreading\<rparr>) = streaming_head s"
  "streaming_head (s\<lparr>sr_upload_writing := xuploadwriting\<rparr>) = streaming_head s"
  "streaming_head (s\<lparr>sr_upload_ended := xuploadended\<rparr>) = streaming_head s"
  "streaming_head (s\<lparr>sr_io := xio\<rparr>) = streaming_head s"
  "streaming_head (s\<lparr>sr_stream := xstream\<rparr>) = streaming_head s"
  "streaming_head (s\<lparr>sr_headers_started := xheadersstarted\<rparr>) = streaming_head s"
  "streaming_head (s\<lparr>sr_headers_written := xheaderswritten\<rparr>) = streaming_head s"
  "streaming_head (s\<lparr>sr_upload_writes := xuploadwrites\<rparr>) = streaming_head s"
  "streaming_head (s\<lparr>sr_pending := xpending\<rparr>) = streaming_head s"
  "streaming_head (s\<lparr>sr_accepted := xaccepted\<rparr>) = streaming_head s"
  "streaming_head (s\<lparr>sr_pieces := xpieces\<rparr>) = streaming_head s"
  "streaming_head (s\<lparr>sr_phase := xphase\<rparr>) = streaming_head s"
  by (simp_all add: streaming_head_def request_head_start_def)

lemma upload_bytes_updates [simp]:
  "upload_bytes (s\<lparr>sr_reading := xreading\<rparr>) = upload_bytes s"
  "upload_bytes (s\<lparr>sr_upload_writing := xuploadwriting\<rparr>) = upload_bytes s"
  "upload_bytes (s\<lparr>sr_io := xio\<rparr>) = upload_bytes s"
  "upload_bytes (s\<lparr>sr_stream := xstream\<rparr>) = upload_bytes s"
  "upload_bytes (s\<lparr>sr_headers_started := xheadersstarted\<rparr>) = upload_bytes s"
  "upload_bytes (s\<lparr>sr_headers_written := xheaderswritten\<rparr>) = upload_bytes s"
  "upload_bytes (s\<lparr>sr_upload_writes := xuploadwrites\<rparr>) = upload_bytes s"
  "upload_bytes (s\<lparr>sr_pending := xpending\<rparr>) = upload_bytes s"
  "upload_bytes (s\<lparr>sr_accepted := xaccepted\<rparr>) = upload_bytes s"
  "upload_bytes (s\<lparr>sr_phase := xphase\<rparr>) = upload_bytes s"
  by (simp_all add: upload_bytes_def)

section \<open>Operations that leave the upload alone\<close>

text \<open>Two states that agree on all the invariant looks at.\<close>

definition upload_view where
  "upload_view s =
     (sr_upload_writes s, sr_content_length s, sr_accepted s, sr_pieces s, sr_pending s, sr_upload_mode s, sr_headers_started s,
      sr_headers_written s, sr_upload_writing s, sr_upload_ended s, sr_reading s, sr_request_headers s, sr_options s,
      sr_method s, sr_url s)"

definition upload_frame :: "stream_request \<Rightarrow> stream_request \<Rightarrow> bool" where
  "upload_frame s t \<longleftrightarrow>
     upload_view t = upload_view s \<and> (\<exists>ops. io_ops (sr_io t) = io_ops (sr_io s) @ ops \<and> no_writes ops) \<and>
     (sr_stream t = sr_stream s \<or> sr_stream t = None) \<and>
     (sr_dns t \<longrightarrow> sr_dns s) \<and> (sr_connect t \<longrightarrow> sr_connect s) \<and> (sr_tls t \<longrightarrow> sr_tls s) \<and> (sr_completed s \<longrightarrow> sr_completed t)"

lemma upload_frame_inv:
  assumes frame: "upload_frame s t" and inv: "upload_inv n s"
  shows "upload_inv n t"
proof -
  obtain ops where ops: "io_ops (sr_io t) = io_ops (sr_io s) @ ops" "no_writes ops" using frame by (auto simp: upload_frame_def)
  have eqs: "sr_upload_writes t = sr_upload_writes s" "sr_content_length t = sr_content_length s" "sr_accepted t = sr_accepted s"
    "sr_pieces t = sr_pieces s" "sr_pending t = sr_pending s" "sr_upload_mode t = sr_upload_mode s"
    "sr_headers_started t = sr_headers_started s" "sr_headers_written t = sr_headers_written s"
    "sr_upload_writing t = sr_upload_writing s" "sr_upload_ended t = sr_upload_ended s" "sr_reading t = sr_reading s"
    "sr_request_headers t = sr_request_headers s" "sr_options t = sr_options s" "sr_method t = sr_method s" "sr_url t = sr_url s"
    using frame by (simp_all add: upload_frame_def upload_view_def)
  have bytes: "upload_bytes t = upload_bytes s" "unsent t = unsent s" "streaming_head t = streaming_head s"
    by (simp_all add: eqs upload_bytes_def unsent_def streaming_head_def request_head_start_def)
  have len: "n \<le> length (io_ops (sr_io s))" using inv by (simp add: upload_inv_def upload_wire_def)
  then have log: "drop n (io_ops (sr_io t)) = drop n (io_ops (sr_io s)) @ ops" by (simp add: ops(1))
  have sent: "sent_to i (drop n (io_ops (sr_io t))) = sent_to i (drop n (io_ops (sr_io s)))" for i
    unfolding log using no_writes_sent [OF ops(2)] by simp
  have none: "no_writes (drop n (io_ops (sr_io t))) = no_writes (drop n (io_ops (sr_io s)))" unfolding log using ops(2) by simp
  have n: "n \<le> length (io_ops (sr_io t))" using len by (simp add: ops(1))
  have flags: "sr_dns t \<longrightarrow> sr_dns s" "sr_connect t \<longrightarrow> sr_connect s" "sr_tls t \<longrightarrow> sr_tls s" "sr_completed s \<longrightarrow> sr_completed t"
    and stream: "sr_stream t = sr_stream s \<or> sr_stream t = None" using frame by (simp_all add: upload_frame_def)
  have st: "\<forall>i. sr_stream t = Some i \<longrightarrow> sr_stream s = Some i" "sr_stream s = None \<longrightarrow> sr_stream t = None" using stream by auto
  have "upload_counts t = upload_counts s" unfolding upload_counts_def eqs by simp
  moreover have "upload_flags s \<Longrightarrow> upload_flags t" unfolding upload_flags_def eqs using flags by blast
  moreover have "upload_wire n s \<Longrightarrow> upload_wire n t"
    unfolding upload_wire_def eqs bytes sent none using n st flags(4) by blast
  ultimately show ?thesis using inv by (simp add: upload_inv_def)
qed

lemma upload_frame_refl [simp]: "upload_frame s s"
  by (simp add: upload_frame_def upload_view_def no_writes_def)

lemma upload_frame_trans:
  assumes "upload_frame s t" and "upload_frame t u"
  shows "upload_frame s u"
proof -
  obtain ops ops' where "io_ops (sr_io t) = io_ops (sr_io s) @ ops" "no_writes ops" "io_ops (sr_io u) = io_ops (sr_io t) @ ops'"
      "no_writes ops'" using assms unfolding upload_frame_def by blast
  then have "io_ops (sr_io u) = io_ops (sr_io s) @ (ops @ ops')" "no_writes (ops @ ops')" by simp_all
  moreover have "upload_view u = upload_view s" "sr_stream u = sr_stream s \<or> sr_stream u = None"
    "sr_dns u \<longrightarrow> sr_dns s" "sr_connect u \<longrightarrow> sr_connect s" "sr_tls u \<longrightarrow> sr_tls s" "sr_completed s \<longrightarrow> sr_completed u"
    using assms unfolding upload_frame_def by metis+
  ultimately show ?thesis unfolding upload_frame_def by blast
qed

lemma upload_frame_log: "no_writes ops \<Longrightarrow> upload_frame s (sr_log ops s)"
  by (auto simp: upload_frame_def upload_view_def sr_log_def)

lemma upload_frame_complete: "upload_frame s (sr_complete r s)"
  by (auto simp: upload_frame_def upload_view_def sr_complete_def sr_stop_timeout_def Let_def no_writes_def)

lemma upload_frame_timeout: "upload_frame s (sr_start_timeout ph d s)" "upload_frame s (sr_stop_timeout s)"
  by (auto simp: upload_frame_def upload_view_def sr_start_timeout_def sr_stop_timeout_def Let_def no_writes_def)

lemma upload_frame_close: "upload_frame s (sr_close_stream s)"
  by (auto simp: sr_close_stream_def upload_frame_log split: option.split)

lemma upload_frame_close_fail: "upload_frame s (sr_close_fail e s)"
  unfolding sr_close_fail_def by (rule upload_frame_trans [OF upload_frame_close upload_frame_complete])

lemma upload_frame_answered: "upload_frame s (sr_answered id s)"
  by (auto simp: sr_answered_def sr_fail_def upload_frame_complete)

lemma upload_frame_operations: "upload_frame s (sr_cancel_operations s)"
proof -
  let ?a = "\<lambda>u. if sr_dns u then sr_answered id (u\<lparr>sr_dns := False\<rparr>) else u"
  let ?b = "\<lambda>u. if sr_connect u then sr_answered id (u\<lparr>sr_connect := False\<rparr>) else u"
  let ?c = "\<lambda>u. if sr_tls u then sr_answered id (u\<lparr>sr_tls := False\<rparr>) else u"
  have step: "upload_frame u (sr_answered id (u\<lparr>sr_dns := False\<rparr>))" "upload_frame u (sr_answered id (u\<lparr>sr_connect := False\<rparr>))"
    "upload_frame u (sr_answered id (u\<lparr>sr_tls := False\<rparr>))" for u
    by (rule upload_frame_trans [OF _ upload_frame_answered], simp add: upload_frame_def upload_view_def no_writes_def)+
  have "upload_frame u (?a u)" "upload_frame u (?b u)" "upload_frame u (?c u)" for u using step by simp_all
  then have "upload_frame s (?c (?b (?a s)))" by (blast intro: upload_frame_trans)
  then show ?thesis by (simp only: sr_cancel_operations_def Let_def)
qed

lemma upload_frame_cancel: "upload_frame s (sr_cancel s)"
proof (cases "sr_completed s")
  case True
  then show ?thesis by (simp add: sr_cancel_def)
next
  case False
  let ?u = "s\<lparr>sr_cancelled := True\<rparr>"
  have "upload_frame s ?u" by (simp add: upload_frame_def upload_view_def no_writes_def)
  then have "upload_frame s (sr_cancel_operations ?u)" using upload_frame_operations upload_frame_trans by blast
  then have "upload_frame s (sr_close_stream (sr_cancel_operations ?u))" using upload_frame_close upload_frame_trans by blast
  then have "upload_frame s (sr_fail client_cancelled [] (sr_close_stream (sr_cancel_operations ?u)))"
    unfolding sr_fail_def using upload_frame_complete upload_frame_trans by blast
  then show ?thesis using False by (simp add: sr_cancel_def)
qed

section \<open>Operations on the upload\<close>

lemma begin_response_read_inv:
  assumes "upload_inv n s" "sr_headers_written s" "sr_upload_writes s = []" "sr_upload_mode s = upload_none \<or> sr_upload_ended s"
  shows "upload_inv n (begin_response_read s)"
proof (cases "sr_completed s \<or> sr_reading s")
  case True
  then show ?thesis using assms(1) by (auto simp: begin_response_read_def)
next
  case False
  let ?s = "s\<lparr>sr_reading := True\<rparr>"
  have "upload_counts ?s" using assms False by (auto simp: upload_inv_def upload_counts_def)
  moreover have "upload_flags ?s" using assms(1) by (simp add: upload_inv_def upload_flags_def)
  moreover have "upload_wire n ?s" using assms(1) False
    by (simp add: upload_inv_def upload_wire_def unsent_def split: if_splits)
  ultimately have "upload_inv n ?s" by (simp add: upload_inv_def)
  moreover have "upload_frame ?s (case sr_stream ?s of None \<Rightarrow> ?s | Some i \<Rightarrow> sr_log [Op_read_start i] ?s)"
    by (auto simp: upload_frame_log split: option.split)
  ultimately have "upload_inv n (case sr_stream ?s of None \<Rightarrow> ?s | Some i \<Rightarrow> sr_log [Op_read_start i] ?s)"
    using upload_frame_inv by blast
  from upload_frame_inv [OF upload_frame_timeout(1) this] show ?thesis
    using False by (simp add: begin_response_read_def Let_def)
qed

lemma flush_upload_writes_inv:
  assumes "upload_inv n s"
  shows "upload_inv n (flush_upload_writes s)"
proof (cases "sr_completed s \<or> \<not> sr_headers_written s \<or> sr_upload_writing s \<or> sr_upload_writes s = []")
  case True
  then show ?thesis using assms by (auto simp: flush_upload_writes_def)
next
  case False
  then obtain p rest where q: "sr_upload_writes s = p # rest" by (cases "sr_upload_writes s") auto
  define t where "t = (case sr_stream s of None \<Rightarrow> s | Some i \<Rightarrow> sr_log [Op_write i p] s)\<lparr>sr_upload_writing := True\<rparr>"
  have eq: "flush_upload_writes s = t" using False q by (simp add: flush_upload_writes_def t_def)
  have started: "sr_headers_started s" using assms False by (simp add: upload_inv_def upload_counts_def)
  have "upload_counts t" using assms False q
    by (auto simp: upload_inv_def upload_counts_def t_def sr_log_def split: option.split)
  moreover have "upload_flags t" using assms by (auto simp: upload_inv_def upload_flags_def t_def sr_log_def split: option.split)
  moreover have "upload_wire n t"
  proof -
    have "upload_bytes t = upload_bytes s" "streaming_head t = streaming_head s" "sr_stream t = sr_stream s"
      "sr_headers_started t" "sr_reading t = sr_reading s" "sr_completed t = sr_completed s"
      using started by (simp_all add: t_def sr_log_def split: option.split)
    moreover have "unsent s = p @ unsent t" using False q by (simp add: unsent_def t_def sr_log_def split: option.split)
    moreover have "io_ops (sr_io t) = io_ops (sr_io s) @ (case sr_stream s of None \<Rightarrow> [] | Some i \<Rightarrow> [Op_write i p])"
      by (simp add: t_def sr_log_def split: option.split)
    moreover have len: "n \<le> length (io_ops (sr_io s))" using assms by (simp add: upload_inv_def upload_wire_def)
    ultimately have "sent_to i (drop n (io_ops (sr_io t))) @ unsent t = streaming_head t @ upload_bytes t"
      if st: "sr_stream t = Some i" for i
    proof -
      have s: "sr_stream s = Some i" using st \<open>sr_stream t = sr_stream s\<close> by simp
      have "sent_to i (drop n (io_ops (sr_io s))) @ unsent s = streaming_head s @ upload_bytes s"
        using assms s False unfolding upload_inv_def upload_wire_def by blast
      then show ?thesis using len s \<open>io_ops (sr_io t) = _\<close> \<open>unsent s = p @ unsent t\<close> \<open>upload_bytes t = upload_bytes s\<close>
          \<open>streaming_head t = streaming_head s\<close> by simp
    qed
    then show ?thesis using len \<open>sr_headers_started t\<close> \<open>io_ops (sr_io t) = _\<close> by (simp add: upload_wire_def)
  qed
  ultimately show ?thesis by (simp add: eq upload_inv_def)
qed

text \<open>One more piece, in the encoding of the mode.\<close>

lemma queue_upload_inv:
  assumes inv: "upload_inv n s" and "\<not> sr_upload_ended s"
    and mode: "sr_upload_mode s = upload_chunked \<and> wire = client_serialize_chunk payload \<or>
      sr_upload_mode s = upload_content_length \<and> wire = payload \<and>
        (\<exists>k. sr_content_length s = Some k \<and> sr_accepted s + length payload \<le> k)"
  shows "upload_inv n (fst (queue_upload payload wire s))"
proof -
  define t where "t = s\<lparr>sr_accepted := sr_accepted s + length payload, sr_pieces := sr_pieces s @ [payload],
      sr_pending := sr_pending s + length wire, sr_upload_writes := sr_upload_writes s @ [wire]\<rparr>"
  have nr: "\<not> sr_reading s" using inv assms(2) mode by (auto simp: upload_inv_def upload_counts_def)
  have "upload_counts t" using inv assms(2) mode nr by (auto simp: upload_inv_def upload_counts_def length_kept_def t_def)
  moreover have "upload_flags t" using inv by (simp add: upload_inv_def upload_flags_def t_def)
  moreover have "upload_wire n t"
  proof -
    have "unsent t = unsent s @ wire" using inv by (cases "sr_upload_writes s") (auto simp: upload_inv_def upload_counts_def unsent_def t_def)
    moreover have "upload_bytes t = upload_bytes s @ wire" using assms(2) mode by (auto simp: upload_bytes_def t_def)
    moreover have "streaming_head t = streaming_head s" by (simp add: t_def)
    ultimately show ?thesis using inv by (auto simp: upload_inv_def upload_wire_def t_def)
  qed
  ultimately have "upload_inv n (flush_upload_writes t)" by (intro flush_upload_writes_inv) (simp add: upload_inv_def)
  moreover have "upload_frame u (u\<lparr>sr_backpressured := True\<rparr>)" for u by (simp add: upload_frame_def upload_view_def no_writes_def)
  ultimately show ?thesis
    using upload_frame_inv unfolding queue_upload_def t_def [symmetric] Let_def by (auto split: if_splits)
qed

lemma enable_chunked_inv:
  assumes "upload_inv n s" "sr_upload_mode s = upload_none" "\<not> sr_headers_started s" "\<not> sr_upload_ended s"
  shows "upload_inv n (enable_chunked_upload s)"
  using assms
  by (auto simp: upload_inv_def upload_counts_def length_kept_def upload_flags_def upload_wire_def enable_chunked_upload_def
      upload_bytes_def unsent_def)

lemma sr_write_inv:
  assumes "upload_inv n s"
  shows "upload_inv n (fst (sr_write payload s))"
proof (cases "payload = [] \<or> sr_completed s \<or> sr_upload_ended s \<or> sr_backpressured s \<or>
    sr_upload_mode s = upload_none \<and> (sr_headers_written s \<or> sr_headers_started s)")
  case True
  then show ?thesis using assms by (auto simp: sr_write_def)
next
  case False
  define t where "t = (if sr_upload_mode s = upload_none then enable_chunked_upload s else s)"
  have inv: "upload_inv n t" "\<not> sr_upload_ended t" "sr_upload_mode t \<noteq> upload_none"
    using assms False enable_chunked_inv by (auto simp: t_def enable_chunked_upload_def)
  have "sr_write payload s = (case sr_upload_mode t of
      upload_content_length \<Rightarrow>
        (case sr_content_length t of
           None \<Rightarrow> (t, swr_rejected Invalid_argument_code)
         | Some n \<Rightarrow>
             if sr_accepted t + length payload > n then (t, swr_rejected Invalid_argument_code)
             else queue_upload payload payload t)
    | upload_chunked \<Rightarrow> queue_upload payload (client_serialize_chunk payload) t
    | upload_none \<Rightarrow> (t, swr_rejected Invalid_argument_code))"
    using False unfolding sr_write_def t_def Let_def by (cases "sr_upload_mode s = upload_none") simp_all
  then show ?thesis
    using inv queue_upload_inv [OF inv(1,2)] by (auto split: upload_mode.splits option.splits if_splits)
qed

text \<open>The end of a body that has no last chunk.\<close>

lemma upload_ended_inv:
  assumes inv: "upload_inv n s"
    and mode: "sr_upload_mode s = upload_none \<or> sr_upload_mode s = upload_content_length \<and> sr_content_length s = Some (sr_accepted s)"
  shows "upload_inv n (s\<lparr>sr_upload_ended := True\<rparr>)"
proof -
  let ?t = "s\<lparr>sr_upload_ended := True\<rparr>"
  have "upload_counts ?t" using inv mode by (auto simp: upload_inv_def upload_counts_def length_kept_def)
  moreover have "upload_flags ?t" using inv by (simp add: upload_inv_def upload_flags_def)
  moreover have "upload_bytes ?t = upload_bytes s" "unsent ?t = unsent s" "streaming_head ?t = streaming_head s"
    using mode by (auto simp: upload_bytes_def unsent_def)
  ultimately show ?thesis using inv by (simp add: upload_inv_def upload_wire_def)
qed

lemma sr_end_inv:
  assumes inv: "upload_inv n s"
  shows "upload_inv n (sr_end s)"
proof (cases "sr_completed s \<or> sr_upload_ended s")
  case True
  then show ?thesis using inv by (auto simp: sr_end_def)
next
  case False
  define finish where "finish = (\<lambda>s. let s = flush_upload_writes (s\<lparr>sr_upload_ended := True\<rparr>)
      in if sr_headers_written s \<and> sr_upload_writes s = [] \<and> \<not> sr_upload_writing s then begin_response_read s else s)"
  have fin: "upload_inv n (finish t)" if "upload_inv n (t\<lparr>sr_upload_ended := True\<rparr>)" for t
  proof -
    have "sr_upload_ended (flush_upload_writes u) = sr_upload_ended u" for u
      by (simp add: flush_upload_writes_def sr_log_def split: list.split option.split)
    then show ?thesis
      using flush_upload_writes_inv [OF that] begin_response_read_inv by (simp add: finish_def Let_def)
  qed
  show ?thesis
  proof (cases "sr_upload_mode s")
    case upload_none
    let ?t = "s\<lparr>sr_upload_ended := True\<rparr>"
    have "upload_inv n ?t" using upload_ended_inv [OF inv] upload_none by simp
    moreover have "sr_upload_writes s = []" using inv upload_none by (simp add: upload_inv_def upload_counts_def)
    ultimately show ?thesis using False upload_none begin_response_read_inv [of n ?t] by (simp add: sr_end_def Let_def)
  next
    case upload_content_length
    show ?thesis
    proof (cases "sr_content_length s = Some (sr_accepted s)")
      case True
      have "upload_inv n (s\<lparr>sr_upload_ended := True\<rparr>)" using upload_ended_inv [OF inv] upload_content_length True by simp
      then show ?thesis using False upload_content_length True fin [of s] by (simp add: sr_end_def finish_def Let_def)
    next
      case False
      then show ?thesis using \<open>\<not> (sr_completed s \<or> sr_upload_ended s)\<close> upload_content_length inv
        by (simp add: sr_end_def fail_request_body_def upload_frame_inv [OF upload_frame_close_fail] Let_def)
    qed
  next
    case upload_chunked
    define t where "t = s\<lparr>sr_pending := sr_pending s + 5, sr_upload_writes := sr_upload_writes s @ [''0'' @ crlf @ crlf]\<rparr>"
    have nr: "\<not> sr_reading s" using inv False upload_chunked by (auto simp: upload_inv_def upload_counts_def)
    have "upload_inv n (t\<lparr>sr_upload_ended := True\<rparr>)"
    proof -
      let ?u = "t\<lparr>sr_upload_ended := True\<rparr>"
      have "length crlf = 2" by (simp add: crlf_def)
      then have "upload_counts ?u" using inv upload_chunked nr by (auto simp: upload_inv_def upload_counts_def length_kept_def t_def)
      moreover have "unsent ?u = unsent s @ ''0'' @ crlf @ crlf"
        using inv by (cases "sr_upload_writes s") (auto simp: upload_inv_def upload_counts_def unsent_def t_def)
      moreover have "upload_bytes ?u = upload_bytes s @ ''0'' @ crlf @ crlf"
        using False upload_chunked by (simp add: upload_bytes_def t_def)
      moreover have "streaming_head ?u = streaming_head s" by (simp add: t_def)
      ultimately show ?thesis using inv by (auto simp: upload_inv_def upload_flags_def upload_wire_def t_def)
    qed
    then show ?thesis using False upload_chunked fin [of t] unfolding finish_def t_def by (simp add: sr_end_def Let_def)
  qed
qed

lemma run_stream_action_inv: "upload_inv n s \<Longrightarrow> upload_inv n (run_stream_action s a)"
  by (cases a) (simp_all add: sr_write_inv sr_end_inv upload_frame_inv [OF upload_frame_cancel])

lemma sr_call_inv:
  assumes "upload_inv n s"
  shows "upload_inv n (sr_call app c s)"
proof -
  have "upload_inv n u \<Longrightarrow> upload_inv n (foldl run_stream_action u as)" for u as
    by (induction as arbitrary: u) (simp_all add: run_stream_action_inv)
  moreover have "upload_frame s (s\<lparr>sr_calls := sr_calls s @ [c]\<rparr>)" by (simp add: upload_frame_def upload_view_def no_writes_def)
  ultimately show ?thesis unfolding sr_call_def using upload_frame_inv assms by blast
qed

lemma sr_call_inv_if: "upload_inv n s \<Longrightarrow> upload_inv n (if b then sr_call app c s else s)"
  by (simp add: sr_call_inv)

section \<open>Sending the head and the queue\<close>

lemma write_request_inv:
  assumes inv: "upload_inv n s" and idle: "\<not> sr_headers_started s" "\<not> sr_dns s" "\<not> sr_connect s" "\<not> sr_tls s"
  shows "upload_inv n (write_request i s)"
proof -
  have acc: "sr_accepted s = 0" if "sr_upload_mode s = upload_content_length" "sr_content_length s = Some 0"
    using inv that by (auto simp: upload_inv_def upload_counts_def length_kept_def)
  define e where "e = (if sr_upload_mode s = upload_content_length \<and> sr_content_length s = Some 0
      then s\<lparr>sr_upload_ended := True\<rparr> else s)"
  have e: "upload_inv n e" using inv upload_ended_inv [OF inv] acc by (simp add: e_def)
  have e_idle: "\<not> sr_headers_started e" "\<not> sr_dns e" "\<not> sr_connect e" "\<not> sr_tls e" using idle by (simp_all add: e_def)
  define t where "t = sr_log [Op_write i (streaming_head e)] (e\<lparr>sr_stream := Some i, sr_headers_started := True\<rparr>)"
  have not: "\<not> sr_reading e" "\<not> sr_upload_writing e" using e e_idle by (auto simp: upload_inv_def upload_counts_def)
  have "upload_counts t" using e not by (auto simp: upload_inv_def upload_counts_def t_def sr_log_def)
  moreover have "upload_flags t" using e_idle by (simp add: upload_flags_def t_def sr_log_def)
  moreover have "upload_wire n t"
  proof -
    have "n \<le> length (io_ops (sr_io e))" "no_writes (drop n (io_ops (sr_io e)))" "concat (sr_upload_writes e) = upload_bytes e"
      using e e_idle by (simp_all add: upload_inv_def upload_wire_def)
    then show ?thesis using no_writes_sent not by (simp add: upload_wire_def t_def sr_log_def unsent_def)
  qed
  ultimately have "upload_inv n t" by (simp add: upload_inv_def)
  moreover have "upload_frame t (write_request i s)"
    unfolding write_request_def t_def e_def
    by (auto simp: upload_frame_def upload_view_def no_writes_def sr_log_def sr_start_timeout_def sr_stop_timeout_def Let_def)
  ultimately show ?thesis using upload_frame_inv by blast
qed

lemma on_request_headers_written_inv:
  assumes inv: "upload_inv n s" and started: "sr_headers_started s"
  shows "upload_inv n (on_request_headers_written err s)"
proof -
  have "upload_inv n (s\<lparr>sr_headers_written := True\<rparr>)" (is "upload_inv n ?t")
  proof -
    have "upload_counts ?t" "upload_flags ?t" using inv started by (auto simp: upload_inv_def upload_counts_def upload_flags_def)
    moreover have "upload_wire n ?t" using inv by (simp add: upload_inv_def upload_wire_def unsent_def split: if_splits)
    ultimately show ?thesis by (simp add: upload_inv_def)
  qed
  then show ?thesis
    using inv flush_upload_writes_inv begin_response_read_inv [of n ?t] upload_frame_inv [OF upload_frame_complete]
    by (simp add: on_request_headers_written_def sr_fail_def Let_def split: option.split)
qed

text \<open>The application's calls do not touch the mark that the head is written.\<close>

lemma sr_complete_head [simp]: "sr_headers_written (sr_complete r s) = sr_headers_written s"
  by (simp add: sr_complete_def sr_stop_timeout_def Let_def)

lemma sr_close_stream_head [simp]: "sr_headers_written (sr_close_stream s) = sr_headers_written s"
  by (simp add: sr_close_stream_def sr_log_def split: option.split)

lemma sr_cancel_head [simp]: "sr_headers_written (sr_cancel s) = sr_headers_written s"
  by (simp add: sr_cancel_def sr_cancel_operations_def sr_answered_def sr_fail_def Let_def)

lemma flush_upload_writes_head [simp]: "sr_headers_written (flush_upload_writes s) = sr_headers_written s"
  by (simp add: flush_upload_writes_def sr_log_def split: list.split option.split)

lemma begin_response_read_head [simp]: "sr_headers_written (begin_response_read s) = sr_headers_written s"
  by (simp add: begin_response_read_def sr_start_timeout_def sr_stop_timeout_def sr_log_def Let_def split: option.split)

lemma run_stream_action_head: "sr_headers_written (run_stream_action s a) = sr_headers_written s"
  by (cases a)
    (simp_all add: sr_write_def queue_upload_def enable_chunked_upload_def sr_end_def fail_request_body_def sr_close_fail_def Let_def
      split: upload_mode.split option.split)

lemma sr_call_head [simp]: "sr_headers_written (sr_call app c s) = sr_headers_written s"
proof -
  have "sr_headers_written (foldl run_stream_action s as) = sr_headers_written s" for s as
    by (induction as arbitrary: s) (simp_all add: run_stream_action_head)
  then show ?thesis by (simp add: sr_call_def)
qed

lemma notify_upload_drain_head [simp]:
  "sr_headers_written (notify_upload_drain_if_needed app s) = sr_headers_written s"
  by (simp add: notify_upload_drain_if_needed_def Let_def)

lemma notify_upload_drain_inv:
  assumes "upload_inv n s"
  shows "upload_inv n (notify_upload_drain_if_needed app s)"
proof -
  have "upload_frame s (s\<lparr>sr_backpressured := False\<rparr>)" by (simp add: upload_frame_def upload_view_def no_writes_def)
  from upload_frame_inv [OF this assms] show ?thesis
    using assms by (simp add: notify_upload_drain_if_needed_def sr_call_inv Let_def)
qed

lemma on_upload_written_inv:
  assumes inv: "upload_inv n s" and writing: "sr_upload_writing s"
  shows "upload_inv n (on_upload_written app err s)"
proof (cases "sr_completed s")
  case True
  then show ?thesis using inv by (simp add: on_upload_written_def)
next
  case False
  obtain w rest where q: "sr_upload_writes s = w # rest"
    using inv writing by (cases "sr_upload_writes s") (auto simp: upload_inv_def upload_counts_def)
  define t where "t = s\<lparr>sr_upload_writing := False, sr_pending := sr_pending s - min (sr_pending s) (length w), sr_upload_writes := rest\<rparr>"
  have t: "upload_inv n t"
  proof -
    have "upload_counts t" using inv q writing by (auto simp: upload_inv_def upload_counts_def t_def)
    moreover have "upload_flags t" using inv by (simp add: upload_inv_def upload_flags_def t_def)
    moreover have "upload_wire n t"
    proof -
      have "unsent t = unsent s" using q writing by (simp add: unsent_def t_def)
      moreover have "sr_headers_started s" using inv writing by (simp add: upload_inv_def upload_counts_def)
      ultimately show ?thesis using inv by (simp add: upload_inv_def upload_wire_def t_def)
    qed
    ultimately show ?thesis by (simp add: upload_inv_def)
  qed
  show ?thesis
  proof (cases err)
    case None
    let ?u = "notify_upload_drain_if_needed app t"
    have "upload_inv n ?u" using t by (rule notify_upload_drain_inv)
    moreover have "sr_headers_written ?u"
      using inv writing by (simp add: t_def upload_inv_def upload_counts_def)
    moreover have "on_upload_written app err s =
        (if sr_upload_writes ?u \<noteq> [] then flush_upload_writes ?u
         else if sr_upload_ended ?u then begin_response_read ?u else ?u)"
      using False None q by (simp add: on_upload_written_def t_def Let_def)
    ultimately show ?thesis using flush_upload_writes_inv begin_response_read_inv by simp
  next
    case (Some message)
    let ?t = "s\<lparr>sr_upload_writing := False, sr_completed := True\<rparr>"
    have "upload_inv n ?t" using inv writing by (auto simp: upload_inv_def upload_counts_def upload_flags_def upload_wire_def)
    moreover have "upload_frame ?t (on_upload_written app err s)"
      using False Some
      by (auto simp: on_upload_written_def fail_request_body_def sr_close_fail_def sr_complete_def sr_close_stream_def sr_log_def
          sr_stop_timeout_def upload_frame_def upload_view_def Let_def no_writes_def split: option.split)
    ultimately show ?thesis using upload_frame_inv by blast
  qed
qed

section \<open>Starting and connecting\<close>

lemma sr_url_inv: "upload_inv n s \<Longrightarrow> \<not> sr_headers_started s \<Longrightarrow> upload_inv n (s\<lparr>sr_url := u\<rparr>)"
  by (auto simp: upload_inv_def upload_counts_def upload_flags_def upload_wire_def upload_bytes_def unsent_def)

text \<open>Waiting for one answer, and no other.\<close>

definition not_waiting :: "stream_request \<Rightarrow> bool" where
  "not_waiting s \<longleftrightarrow> \<not> sr_headers_started s \<and> \<not> sr_dns s \<and> \<not> sr_connect s \<and> \<not> sr_tls s"

lemma wait_inv:
  assumes "upload_inv n s" "not_waiting s"
  shows "upload_inv n (s\<lparr>sr_dns := True\<rparr>)" "upload_inv n (s\<lparr>sr_connect := True\<rparr>)" "upload_inv n (s\<lparr>sr_tls := True\<rparr>)"
  using assms by (auto simp: not_waiting_def upload_inv_def upload_counts_def upload_flags_def upload_wire_def upload_bytes_def unsent_def)

lemma sr_io_inv:
  assumes "upload_inv n s" "io_ops io = io_ops (sr_io s) @ ops" "no_writes ops"
  shows "upload_inv n (s\<lparr>sr_io := io, sr_origin_key := k\<rparr>)"
  using assms upload_frame_inv [of s "s\<lparr>sr_io := io, sr_origin_key := k\<rparr>"] by (auto simp: upload_frame_def upload_view_def)

lemma sr_start_inv:
  assumes inv: "upload_inv n s" and idle: "not_waiting s"
  shows "upload_inv n (sr_start s)"
proof -
  have s1: "upload_inv n (s\<lparr>sr_started := True\<rparr>)" (is "upload_inv n ?s")
    using upload_frame_inv [OF _ inv] by (simp add: upload_frame_def upload_view_def no_writes_def)
  have url: "upload_inv n (sr_start_url u ?s)" for u
  proof -
    let ?u = "?s\<lparr>sr_url := u\<rparr>"
    have u: "upload_inv n ?u" "not_waiting ?u" using sr_url_inv [OF s1] idle by (simp_all add: not_waiting_def)
    have dns: "upload_inv n (sr_start_timeout ph d (sr_log [Op_resolve h p] (v\<lparr>sr_dns := True\<rparr>)))"
      if "upload_inv n v" "not_waiting v" for v ph d h p
      using that wait_inv(1) upload_frame_inv [OF upload_frame_timeout(1)] upload_frame_inv [OF upload_frame_log] by simp
    show ?thesis
    proof (cases "pool_take (origin_key u) (sr_io s)")
      case (Pair io r)
      then obtain ops where "io_ops io = io_ops (sr_io s) @ ops" "no_writes ops" using pool_take_log by blast
      then have v: "upload_inv n (?u\<lparr>sr_io := io, sr_origin_key := origin_key u\<rparr>)" using sr_io_inv [OF u(1)] by simp
      have nw: "not_waiting (?u\<lparr>sr_io := io, sr_origin_key := origin_key u\<rparr>)" using u(2) by (simp add: not_waiting_def)
      have w: "upload_inv n (write_request i (?u\<lparr>sr_io := io, sr_origin_key := origin_key u\<rparr>))" for i
        using nw by (intro write_request_inv [OF v]) (simp_all add: not_waiting_def)
      have comm: "x\<lparr>sr_origin_key := k, sr_io := io\<rparr> = x\<lparr>sr_io := io, sr_origin_key := k\<rparr>" for x k by simp
      show ?thesis
        using Pair w dns [OF v nw] u upload_frame_inv [OF upload_frame_complete u(1)]
        by (simp add: sr_start_url_def sr_fail_def Let_def comm split: option.split sum.split)
    qed
  qed
  show ?thesis
    using url upload_frame_inv [OF upload_frame_complete s1] by (simp add: sr_start_def Let_def split: sum.split)
qed

lemma sr_answered_inv: "upload_inv n s \<Longrightarrow> (upload_inv n s \<Longrightarrow> upload_inv n (f s)) \<Longrightarrow> upload_inv n (sr_answered f s)"
  by (simp add: sr_answered_def sr_fail_def upload_frame_inv [OF upload_frame_complete])

lemma sr_on_resolved_inv:
  assumes inv: "upload_inv n s" and idle: "not_waiting s"
  shows "upload_inv n (sr_on_resolved r s)"
proof -
  have "upload_inv n (sr_stop_timeout s)" by (rule upload_frame_inv [OF upload_frame_timeout(2) inv])
  moreover have "not_waiting (sr_stop_timeout s)" using idle by (simp add: not_waiting_def sr_stop_timeout_def)
  ultimately have "upload_inv n (sr_log [Op_connect as d] ((sr_stop_timeout s)\<lparr>sr_connect := True\<rparr>))" for as d
    using upload_frame_inv [OF upload_frame_log] wait_inv(2) by simp
  then show ?thesis unfolding sr_on_resolved_def
    using upload_frame_inv [OF upload_frame_complete inv] by (intro sr_answered_inv [OF inv]) (simp split: sum.split)
qed

lemma sr_start_tls_inv:
  assumes inv: "upload_inv n s" and idle: "not_waiting s"
  shows "upload_inv n (sr_start_tls throws lower s)"
proof -
  have "not_waiting (sr_start_timeout ph d s)" for ph d
    using idle by (simp add: not_waiting_def sr_start_timeout_def sr_stop_timeout_def Let_def)
  then have "upload_inv n (sr_log [Op_tls lower h] ((sr_start_timeout ph d s)\<lparr>sr_tls := True\<rparr>))" for ph d h
    using upload_frame_inv [OF upload_frame_log] wait_inv(3) [OF upload_frame_inv [OF upload_frame_timeout(1) inv]] by simp
  then show ?thesis
    using upload_frame_inv [OF upload_frame_complete inv] by (simp add: sr_start_tls_def sr_fail_def split: option.split)
qed

lemma sr_on_connected_inv:
  assumes inv: "upload_inv n s" and idle: "not_waiting s"
  shows "upload_inv n (sr_on_connected throws r s)"
proof -
  have "upload_inv n (write_request i s)" for i using idle by (intro write_request_inv [OF inv]) (simp_all add: not_waiting_def)
  then show ?thesis unfolding sr_on_connected_def
    using upload_frame_inv [OF upload_frame_complete inv] sr_start_tls_inv [OF inv idle]
    by (intro sr_answered_inv [OF inv]) (simp add: sr_fail_def split: sum.split error.split)
qed

lemma sr_on_tls_connected_inv:
  assumes inv: "upload_inv n s" and idle: "not_waiting s"
  shows "upload_inv n (sr_on_tls_connected r s)"
proof -
  have "upload_inv n (write_request i s)" for i using idle by (intro write_request_inv [OF inv]) (simp_all add: not_waiting_def)
  moreover have "upload_inv n (sr_complete r (sr_log [Op_close i] s))" for r i
    using upload_frame_inv [OF upload_frame_complete upload_frame_inv [OF upload_frame_log inv]] by simp
  ultimately show ?thesis unfolding sr_on_tls_connected_def
    using upload_frame_inv [OF upload_frame_complete inv]
    by (intro sr_answered_inv [OF inv]) (simp add: sr_fail_def split: sum.split prod.split)
qed

section \<open>Reading the response\<close>

lemma sr_emit_body_inv:
  assumes "upload_inv n s"
  shows "upload_inv n (sr_emit_body app d s)"
proof -
  have "upload_frame s (s\<lparr>sr_delivered := x\<rparr>)" for x by (simp add: upload_frame_def upload_view_def no_writes_def)
  from upload_frame_inv [OF this assms] show ?thesis using assms by (simp add: sr_emit_body_def Let_def sr_call_inv)
qed

lemma upload_frame_reading [simp]:
  "upload_frame s (s\<lparr>sr_buffer := b\<rparr>)" "upload_frame s (s\<lparr>sr_remaining := r\<rparr>)" "upload_frame s (s\<lparr>sr_body_mode := m\<rparr>)"
  "upload_frame s (s\<lparr>sr_response_head := h\<rparr>)" "upload_frame s (s\<lparr>sr_headers_seen := x\<rparr>)" "upload_frame s (s\<lparr>sr_thrown := e\<rparr>)"
  by (simp_all add: upload_frame_def upload_view_def no_writes_def)

lemmas reading_inv [simp] = upload_frame_reading [THEN upload_frame_inv]

lemma upload_frame_release: "upload_frame s (sr_release_stream s)"
proof (cases "sr_stream s")
  case None
  then show ?thesis by (simp add: sr_release_stream_def)
next
  case (Some i)
  have "sr_io (sr_release_stream s) = pool_release (sr_origin_key s) i (co_max_idle_connections_per_origin (sr_options s))
      (co_idle_connection_timeout (sr_options s)) (io_log [Op_read_stop i] (sr_io s))"
    using Some by (simp add: sr_release_stream_def)
  then obtain ops where "io_ops (sr_io (sr_release_stream s)) = io_ops (io_log [Op_read_stop i] (sr_io s)) @ ops" "no_writes ops"
    using pool_release_log by metis
  moreover from this(2) have "no_writes (Op_read_stop i # ops)" by (simp add: no_writes_def)
  ultimately show ?thesis
    using Some by (simp add: upload_frame_def upload_view_def sr_release_stream_def exI [of _ "Op_read_stop i # ops"])
qed

lemma finish_response_success_inv: "upload_inv n s \<Longrightarrow> upload_inv n (finish_response_success s)"
  unfolding finish_response_success_def
  using upload_frame_inv [OF upload_frame_complete] upload_frame_inv [OF upload_frame_release] upload_frame_inv [OF upload_frame_close]
  by simp

lemma sr_close_fail_inv: "upload_inv n s \<Longrightarrow> upload_inv n (sr_close_fail e s)"
  by (rule upload_frame_inv [OF upload_frame_close_fail])

lemmas response_inv = sr_emit_body_inv finish_response_success_inv sr_close_fail_inv sr_call_inv
  upload_frame_inv [OF upload_frame_timeout(1)] upload_frame_inv [OF upload_frame_complete] upload_frame_inv [OF upload_frame_close]

lemma process_content_length_body_inv: "upload_inv n s \<Longrightarrow> upload_inv n (process_content_length_body app s)"
  by (simp add: process_content_length_body_def response_inv Let_def)

lemma process_chunked_body_inv: "upload_inv n s \<Longrightarrow> upload_inv n (process_chunked_body app s)"
proof (induction app s rule: process_chunked_body.induct)
  case (1 app s)
  show ?case
    using "1.prems" "1.IH"
    by (subst process_chunked_body.simps) (auto simp: response_inv Let_def split: option.split)
qed

lemma emit_buffer_as_body_inv: "upload_inv n s \<Longrightarrow> upload_inv n (emit_buffer_as_body app s)"
  by (simp add: emit_buffer_as_body_def response_inv)

lemma process_body_inv: "upload_inv n s \<Longrightarrow> upload_inv n (process_body app s)"
  by (simp add: process_body_def process_content_length_body_inv process_chunked_body_inv emit_buffer_as_body_inv
      split: response_body_mode.split)

lemma process_head_inv: "upload_inv n s \<Longrightarrow> upload_inv n (process_head app s)"
  by (simp add: process_head_def process_body_inv response_inv Let_def split: option.split)

lemma process_buffer_inv:
  assumes "upload_inv n s"
  shows "upload_inv n (process_buffer app s)"
proof -
  have "upload_inv n (s\<lparr>sr_response_head := h, sr_buffer := b, sr_headers_seen := True\<rparr>)" for h b using assms by simp
  then show ?thesis using assms
    by (simp add: process_buffer_def process_body_inv process_head_inv response_inv Let_def split: option.split sum.split prod.split)
qed

lemma sr_on_read_inv:
  assumes "upload_inv n s"
  shows "upload_inv n (sr_on_read app r s)"
proof -
  have "upload_inv n (sr_on_eof app s)"
    using assms
    by (simp add: sr_on_eof_def emit_buffer_as_body_inv response_inv Let_def split: response_body_mode.split)
  then show ?thesis using assms by (simp add: sr_on_read_def process_buffer_inv response_inv split: read_outcome.split)
qed

lemma sr_on_timeout_inv:
  assumes "upload_inv n s"
  shows "upload_inv n (sr_on_timeout ph s)"
proof -
  have "upload_frame s (s\<lparr>sr_cancelled := True, sr_timed_out := True\<rparr>)" (is "upload_frame s ?s")
    by (simp add: upload_frame_def upload_view_def no_writes_def)
  then have "upload_inv n (sr_cancel_operations ?s)"
    using upload_frame_inv [OF upload_frame_operations upload_frame_inv [OF _ assms]] by blast
  then show ?thesis using assms by (simp add: sr_on_timeout_def sr_fail_def response_inv)
qed

section \<open>Every step\<close>

text \<open>Whoever is asked has not sent the head yet; the answer ends the wait.\<close>

lemma answer_inv:
  assumes "upload_inv n s"
  shows "sr_dns s \<Longrightarrow> upload_inv n (s\<lparr>sr_dns := False\<rparr>) \<and> not_waiting (s\<lparr>sr_dns := False\<rparr>)"
    "sr_connect s \<Longrightarrow> upload_inv n (s\<lparr>sr_connect := False\<rparr>) \<and> not_waiting (s\<lparr>sr_connect := False\<rparr>)"
    "sr_tls s \<Longrightarrow> upload_inv n (s\<lparr>sr_tls := False\<rparr>) \<and> not_waiting (s\<lparr>sr_tls := False\<rparr>)"
proof -
  have "upload_frame s (s\<lparr>sr_dns := False\<rparr>)" "upload_frame s (s\<lparr>sr_connect := False\<rparr>)" "upload_frame s (s\<lparr>sr_tls := False\<rparr>)"
    by (simp_all add: upload_frame_def upload_view_def no_writes_def)
  then have "upload_inv n (s\<lparr>sr_dns := False\<rparr>)" "upload_inv n (s\<lparr>sr_connect := False\<rparr>)" "upload_inv n (s\<lparr>sr_tls := False\<rparr>)"
    using assms upload_frame_inv by blast+
  moreover have "upload_flags s" using assms by (simp add: upload_inv_def)
  ultimately show "sr_dns s \<Longrightarrow> upload_inv n (s\<lparr>sr_dns := False\<rparr>) \<and> not_waiting (s\<lparr>sr_dns := False\<rparr>)"
    "sr_connect s \<Longrightarrow> upload_inv n (s\<lparr>sr_connect := False\<rparr>) \<and> not_waiting (s\<lparr>sr_connect := False\<rparr>)"
    "sr_tls s \<Longrightarrow> upload_inv n (s\<lparr>sr_tls := False\<rparr>) \<and> not_waiting (s\<lparr>sr_tls := False\<rparr>)"
    by (auto simp: not_waiting_def upload_flags_def)
qed

lemma stream_step_inv:
  assumes "upload_inv n s"
  shows "upload_inv n (stream_step app s e)"
proof -
  have "upload_inv n (stream_event_step app s e)"
    by (cases e)
      (use assms answer_inv [OF assms] in \<open>simp_all add: sr_on_resolved_inv sr_on_connected_inv sr_on_tls_connected_inv
        on_request_headers_written_inv on_upload_written_inv sr_on_read_inv sr_on_timeout_inv run_stream_action_inv\<close>)
  then show ?thesis using assms by (simp add: stream_step_def)
qed

text \<open>A request that is still being configured.\<close>

definition configuring :: "nat \<Rightarrow> stream_request \<Rightarrow> bool" where
  "configuring n s \<longleftrightarrow>
     not_waiting s \<and> sr_upload_writes s = [] \<and> sr_pieces s = [] \<and> sr_accepted s = 0 \<and> sr_pending s = 0 \<and> \<not> sr_upload_ended s \<and>
     \<not> sr_upload_writing s \<and> \<not> sr_reading s \<and> \<not> sr_headers_written s \<and> sr_stream s = None \<and> length (io_ops (sr_io s)) = n \<and>
     (sr_upload_mode s = upload_content_length \<longrightarrow> sr_content_length s \<noteq> None)"

lemma configure_configuring: "configuring n s \<Longrightarrow> configuring n (configure s c)"
  by (cases c)
    (simp_all add: configuring_def not_waiting_def sr_header_def sr_set_content_length_def sr_set_chunked_def
      enable_chunked_upload_def sr_set_callbacks_def)

lemma configuring_inv: "configuring n s \<Longrightarrow> upload_inv n s \<and> not_waiting s"
  by (auto simp: configuring_def upload_inv_def upload_counts_def length_kept_def upload_flags_def upload_wire_def upload_bytes_def
      not_waiting_def)

lemma stream_run_inv: "upload_inv (length (io_ops io)) (stream_run app options m url_input io setups events)"
proof -
  have "configuring (length (io_ops io)) (new_stream_request options m url_input io)"
    by (simp add: new_stream_request_def configuring_def not_waiting_def)
  moreover have "configuring k s \<Longrightarrow> configuring k (foldl configure s setups)" for k s
    by (induction setups arbitrary: s) (simp_all add: configure_configuring)
  ultimately have "upload_inv (length (io_ops io)) (sr_start (foldl configure (new_stream_request options m url_input io) setups))"
    using configuring_inv sr_start_inv by blast
  moreover have "upload_inv k s \<Longrightarrow> upload_inv k (foldl (stream_step app) s es)" for k s es
    by (induction es arbitrary: s) (simp_all add: stream_step_inv)
  ultimately show ?thesis by (simp add: stream_run_def)
qed

text \<open>C9: The body of a streaming request on the wire. However the application writes, ends and cancels, in callbacks
  or between them, and whatever the network answers: as long as the request has a stream and is not complete,
  what has been written to the stream and what is queued is the head of the request followed by the accepted
  pieces, each encoded as the upload mode says. Once the response is read everything has been written, the
  last chunk too, and a body with a declared length has exactly that length.\<close>

theorem upload_exact:
  assumes "s = stream_run app options m url_input io setups events" and "sr_stream s = Some i"
    and "wire = sent_to i (drop (length (io_ops io)) (io_ops (sr_io s)))"
  shows "(\<not> sr_completed s \<longrightarrow> wire @ unsent s = streaming_head s @ upload_bytes s) \<and>
    (sr_reading s \<longrightarrow> wire = streaming_head s @ upload_bytes s \<and>
      (sr_upload_mode s = upload_content_length \<longrightarrow> sr_content_length s = Some (length (concat (sr_pieces s)))) \<and>
      (sr_upload_mode s = upload_chunked \<longrightarrow> sr_upload_ended s))"
proof -
  have inv: "upload_counts s" "upload_wire (length (io_ops io)) s"
    using stream_run_inv assms(1) by (simp_all add: upload_inv_def)
  have w: "wire @ unsent s = streaming_head s @ upload_bytes s" if "sr_reading s \<or> \<not> sr_completed s"
    using inv(2) assms(2,3) that unfolding upload_wire_def by blast
  moreover have "unsent s = []" "sr_upload_mode s = upload_none \<or> sr_upload_ended s" if "sr_reading s"
    using inv(1) that by (auto simp: upload_counts_def unsent_def)
  moreover have "length_kept (sr_upload_mode s) (sr_content_length s) (length (concat (sr_pieces s))) (sr_upload_ended s)"
    using inv(1) by (auto simp: upload_counts_def)
  ultimately show ?thesis unfolding length_kept_def by auto
qed

end
