(* ===== verification/Client_Safety.thy ===== *)
theory Client_Safety
  imports Client_Fetch
begin

text \<open>
  Buffered requests that share a client: what one request does to the pool and to the streams of the others, stated
  for one request against any set of streams that others keep, and then for all the requests of a client.
\<close>

section \<open>No write after a close\<close>

definition tidy :: "stream_op list \<Rightarrow> bool" where
  "tidy ops \<longleftrightarrow> (\<forall>xs i p ys. ops = xs @ Op_write i p # ys \<longrightarrow> Op_close i \<notin> set xs)"

lemma tidy_snoc: "tidy (ops @ [op]) \<longleftrightarrow> tidy ops \<and> (\<forall>i p. op = Op_write i p \<longrightarrow> Op_close i \<notin> set ops)"
proof (intro iffI conjI allI impI)
  assume t: "tidy (ops @ [op])"
  show "tidy ops" unfolding tidy_def
  proof (intro allI impI)
    fix xs i p ys
    assume "ops = xs @ Op_write i p # ys"
    then have "ops @ [op] = xs @ Op_write i p # (ys @ [op])" by simp
    then show "Op_close i \<notin> set xs" using t unfolding tidy_def by blast
  qed
  show "Op_close i \<notin> set ops" if "op = Op_write i p" for i p using t that unfolding tidy_def by blast
next
  assume t: "tidy ops \<and> (\<forall>i p. op = Op_write i p \<longrightarrow> Op_close i \<notin> set ops)"
  show "tidy (ops @ [op])" unfolding tidy_def
  proof (intro allI impI)
    fix xs i p ys
    assume *: "ops @ [op] = xs @ Op_write i p # ys"
    show "Op_close i \<notin> set xs"
    proof (cases ys rule: rev_cases)
      case Nil
      then show ?thesis using * t by auto
    next
      case (snoc zs z)
      then have "ops = xs @ Op_write i p # zs" using * by (metis append_Cons append_assoc butlast_snoc)
      then show ?thesis using t unfolding tidy_def by blast
    qed
  qed
qed

lemma tidy_Nil [simp]: "tidy []"
  by (simp add: tidy_def)

lemma tidy_append: "tidy ops \<Longrightarrow> no_writes ops' \<Longrightarrow> tidy (ops @ ops')"
proof (induction ops' rule: rev_induct)
  case (snoc op ops')
  then have "tidy ((ops @ ops') @ [op])" by (subst tidy_snoc) (auto simp: no_writes_def)
  then show ?case by simp
qed simp

section \<open>One request against the others\<close>

text \<open>
  The state of the shared pool as one request must find and leave it: at most \<open>N\<close> idle streams for an origin, and
  of the streams \<open>R\<close> that others keep, none pooled and just those in \<open>C\<close> closed.
\<close>

definition pool_ok :: "nat \<Rightarrow> stream_id set \<Rightarrow> stream_id set \<Rightarrow> client_io \<Rightarrow> bool" where
  "pool_ok N R C io \<longleftrightarrow>
     pool_inv io \<and> (\<forall>k. length (idle_queue k io) \<le> N) \<and> R \<inter> pooled io = {} \<and> io_closed io \<inter> R = C \<and> tidy (io_ops io)"

definition keeps :: "fetch \<Rightarrow> stream_id set" where
  "keeps s = set_option (cf_stream s)"

definition fetch_weak :: "nat \<Rightarrow> stream_id set \<Rightarrow> stream_id set \<Rightarrow> fetch \<Rightarrow> bool" where
  "fetch_weak N R C s \<longleftrightarrow>
     pool_ok N R C (cf_io s) \<and> co_max_idle_connections_per_origin (cf_options s) = N \<and>
     keeps s \<inter> pooled (cf_io s) = {} \<and> keeps s \<inter> R = {}"

text \<open>A request that is not complete and does not wait for anybody else holds an open stream, if it has one.\<close>

definition fetch_safe :: "nat \<Rightarrow> stream_id set \<Rightarrow> stream_id set \<Rightarrow> fetch \<Rightarrow> bool" where
  "fetch_safe N R C s \<longleftrightarrow>
     fetch_weak N R C s \<and> (cf_cancelled s \<longrightarrow> cf_completed s) \<and>
     (cf_completed s \<or> cf_waiting s \<or> keeps s \<inter> io_closed (cf_io s) = {})"

lemma fetch_safe_weak: "fetch_safe N R C s \<Longrightarrow> fetch_weak N R C s"
  by (simp add: fetch_safe_def)

lemma fetch_weak_completed: "fetch_weak N R C s \<Longrightarrow> cf_completed s \<Longrightarrow> fetch_safe N R C s"
  by (simp add: fetch_safe_def)

lemma pool_ok_log:
  assumes "pool_ok N R C io" and "no_writes ops" and "\<And>i. Op_close i \<in> set ops \<Longrightarrow> i \<notin> R \<and> i \<notin> pooled io"
  shows "pool_ok N R C (io_log ops io)"
proof -
  have "pool_inv (io_log ops io)" using assms by (intro io_log_inv) (auto simp: pool_ok_def)
  moreover have "io_closed (io_log ops io) \<inter> R = io_closed io \<inter> R" using assms(3) by (auto simp: io_closed_def)
  ultimately show ?thesis using assms by (simp add: pool_ok_def tidy_append)
qed

lemma fetch_weak_log:
  assumes "fetch_weak N R C s" and "no_writes ops" and "\<And>i. Op_close i \<in> set ops \<Longrightarrow> i \<in> keeps s"
  shows "fetch_weak N R C (cf_log ops s)"
proof -
  have "pool_ok N R C (io_log ops (cf_io s))"
  proof (rule pool_ok_log)
    show "pool_ok N R C (cf_io s)" using assms(1) by (simp add: fetch_weak_def)
    show "i \<notin> R \<and> i \<notin> pooled (cf_io s)" if "Op_close i \<in> set ops" for i
      using assms(1) assms(3) [OF that] unfolding fetch_weak_def by blast
  qed (rule assms(2))
  then show ?thesis using assms by (simp add: fetch_weak_def cf_log_def keeps_def)
qed

lemma fetch_weak_timeout [simp]:
  "fetch_weak N R C (start_phase_timeout ph d s) = fetch_weak N R C s" "fetch_weak N R C (stop_phase_timeout s) = fetch_weak N R C s"
  by (simp_all add: fetch_weak_def keeps_def start_phase_timeout_def stop_phase_timeout_def Let_def)

lemma fetch_weak_complete [simp]: "fetch_weak N R C (cf_complete r s) = fetch_weak N R C s"
  by (simp add: fetch_weak_def keeps_def cf_complete_def stop_phase_timeout_def Let_def)

lemma cf_complete_completed [simp]: "cf_completed (cf_complete r s)"
  by (simp add: cf_complete_def stop_phase_timeout_def Let_def)

lemma cf_complete_safe: "fetch_weak N R C s \<Longrightarrow> fetch_safe N R C (cf_complete r s)"
  by (simp add: fetch_weak_completed)

lemma cf_fail_safe: "fetch_weak N R C s \<Longrightarrow> fetch_safe N R C (cf_fail c d s)"
  by (simp add: cf_fail_def cf_complete_safe)

lemma cf_close_stream_weak: "fetch_weak N R C s \<Longrightarrow> fetch_weak N R C (cf_close_stream s)"
  by (cases "cf_stream s") (auto simp: cf_close_stream_def keeps_def intro!: fetch_weak_log)

lemma cf_close_fail_safe: "fetch_weak N R C s \<Longrightarrow> fetch_safe N R C (cf_close_fail e s)"
  by (simp add: cf_close_fail_def cf_complete_safe cf_close_stream_weak)

lemma fetch_weak_flags [simp]:
  "fetch_weak N R C (s\<lparr>cf_dns := b\<rparr>) = fetch_weak N R C s" "fetch_weak N R C (s\<lparr>cf_connect := b\<rparr>) = fetch_weak N R C s"
  "fetch_weak N R C (s\<lparr>cf_tls := b\<rparr>) = fetch_weak N R C s" "fetch_weak N R C (s\<lparr>cf_restart := u\<rparr>) = fetch_weak N R C s"
  "fetch_weak N R C (s\<lparr>cf_cancelled := b\<rparr>) = fetch_weak N R C s" "fetch_weak N R C (s\<lparr>cf_timed_out := b\<rparr>) = fetch_weak N R C s"
  "fetch_weak N R C (s\<lparr>cf_headers_complete := b\<rparr>) = fetch_weak N R C s" "fetch_weak N R C (s\<lparr>cf_received := p\<rparr>) = fetch_weak N R C s"
  "fetch_weak N R C (s\<lparr>cf_redirects := n\<rparr>) = fetch_weak N R C s" "fetch_weak N R C (s\<lparr>cf_url := v\<rparr>) = fetch_weak N R C s"
  "fetch_weak N R C (s\<lparr>cf_thrown := e\<rparr>) = fetch_weak N R C s" "fetch_weak N R C (s\<lparr>cf_origin_key := k\<rparr>) = fetch_weak N R C s"
  by (simp_all add: fetch_weak_def keeps_def)

section \<open>Cancelling\<close>

lemma cancel_operations_weak: "fetch_weak N R C s \<Longrightarrow> fetch_weak N R C (cancel_operations s)"
  by (simp add: cancel_operations_def cf_answered_def cf_fail_def Let_def)

lemma fetch_cancel_safe: "fetch_safe N R C s \<Longrightarrow> fetch_safe N R C (fetch_cancel s)"
  by (simp add: fetch_cancel_def cf_fail_safe cf_close_stream_weak cancel_operations_weak fetch_safe_weak)

lemma cf_on_timeout_safe: "fetch_safe N R C s \<Longrightarrow> fetch_safe N R C (cf_on_timeout ph s)"
  by (simp add: cf_on_timeout_def cf_fail_safe cf_close_stream_weak cancel_operations_weak fetch_safe_weak)

section \<open>Starting and connecting\<close>

text \<open>A request is written on a stream that is nobody's, and open.\<close>

lemma write_buffered_request_safe:
  assumes weak: "pool_ok N R C (cf_io s)" "co_max_idle_connections_per_origin (cf_options s) = N" "cf_cancelled s \<longrightarrow> cf_completed s"
    and i: "i \<notin> pooled (cf_io s)" "i \<notin> R" "i \<notin> io_closed (cf_io s)"
  shows "fetch_safe N R C (write_buffered_request i s)"
proof -
  let ?io = "io_log [Op_write i (buffered_request s)] (cf_io s)"
  have "pool_inv ?io" using weak by (intro io_log_inv) (auto simp: pool_ok_def)
  moreover have "tidy (io_ops ?io)" using weak i by (simp add: pool_ok_def tidy_snoc io_closed_def)
  moreover have "io_closed ?io = io_closed (cf_io s)" by (auto simp: io_closed_def)
  ultimately show ?thesis
    using weak i
    by (simp add: write_buffered_request_def fetch_safe_def fetch_weak_def pool_ok_def keeps_def cf_log_def start_phase_timeout_def
        stop_phase_timeout_def Let_def)
qed

lemma start_connection_safe:
  assumes weak: "fetch_weak N R C s" and c: "cf_cancelled s \<longrightarrow> cf_completed s"
  shows "fetch_safe N R C (start_connection ep s)"
proof -
  let ?k = "connection_pool_key s"
  have inv: "pool_inv (cf_io s)" and R: "R \<inter> pooled (cf_io s) = {}" using weak by (simp_all add: fetch_weak_def pool_ok_def)
  obtain io r where take: "pool_take ?k (cf_io s) = (io, r)" by (cases "pool_take ?k (cf_io s)")
  note spec = pool_take_spec [OF inv take]
  have len: "length (idle_queue k io) \<le> N" for k
  proof -
    have "length (idle_queue k io) \<le> length (idle_queue k (cf_io s))" using spec by blast
    also have "\<dots> \<le> N" using weak by (simp add: fetch_weak_def pool_ok_def)
    finally show ?thesis .
  qed
  have tidy: "tidy (io_ops io)"
  proof -
    have "tidy (io_ops (cf_io s))" using weak by (simp add: fetch_weak_def pool_ok_def)
    then show ?thesis using tidy_append pool_take_log [OF take] by auto
  qed
  show ?thesis
  proof (cases r)
    case None
    have "fetch_weak N R C (s\<lparr>cf_io := io\<rparr>)"
      using weak spec len tidy None by (simp add: fetch_weak_def pool_ok_def keeps_def)
    then have w: "fetch_weak N R C (cf_log [Op_resolve h p] (s\<lparr>cf_origin_key := ?k, cf_io := io, cf_dns := True\<rparr>))" for h p
      by (intro fetch_weak_log) (simp_all add: fetch_weak_def pool_ok_def keeps_def)
    show ?thesis
      using take None c w
      by (simp add: start_connection_def fetch_safe_def Let_def)
        (simp add: start_phase_timeout_def stop_phase_timeout_def cf_log_def cf_waiting_def Let_def)
  next
    case (Some i)
    have "i \<in> pooled (cf_io s)" using spec Some by (auto simp: pooled_def)
    then have "i \<notin> R" "i \<notin> io_closed io" "i \<notin> pooled io" using R pool_inv_open [OF inv] spec Some by auto
    moreover have "pool_ok N R C io" using weak spec len tidy Some by (auto simp: fetch_weak_def pool_ok_def)
    ultimately have "fetch_safe N R C (write_buffered_request i (s\<lparr>cf_origin_key := ?k, cf_io := io\<rparr>))"
      using weak c by (intro write_buffered_request_safe) (simp_all add: fetch_weak_def)
    then show ?thesis using take Some by (simp add: start_connection_def Let_def)
  qed
qed

lemma select_connect_endpoint_weak:
  assumes "select_connect_endpoint sch s = (t, r)"
  shows "fetch_weak N R C t = fetch_weak N R C s \<and> cf_cancelled t = cf_cancelled s \<and> cf_completed t = cf_completed s"
  using assms
  by (auto simp: select_connect_endpoint_def Let_def fetch_weak_def keeps_def split: if_splits sum.splits)

lemma fetch_start_url_safe:
  assumes weak: "fetch_weak N R C s" and c: "cf_cancelled s \<longrightarrow> cf_completed s"
  shows "fetch_safe N R C (fetch_start_url parsed s)"
proof (cases parsed)
  case (Inl e)
  then show ?thesis using weak by (simp add: fetch_start_url_def cf_complete_safe)
next
  case (Inr u)
  let ?s = "s\<lparr>cf_url := u\<rparr>"
  obtain t r where sel: "select_connect_endpoint (scheme_id u) ?s = (t, r)" by (cases "select_connect_endpoint (scheme_id u) ?s")
  have "fetch_weak N R C t" "cf_cancelled t \<longrightarrow> cf_completed t" using select_connect_endpoint_weak [OF sel] weak c by simp_all
  then have "fetch_safe N R C (case r of Inl e \<Rightarrow> cf_complete (Inl e) t | Inr ep \<Rightarrow> start_connection ep t)"
    by (simp add: cf_complete_safe start_connection_safe split: sum.split)
  moreover have "fetch_start_url parsed s =
      (if scheme_id u \<noteq> scheme_http \<and> scheme_id u \<noteq> scheme_https then cf_fail client_unsupported_scheme [] ?s
       else case authority_endpoint u of
              Inl e \<Rightarrow> cf_complete (Inl (wrap_client_error url_error_message client_invalid_url e)) ?s
            | Inr _ \<Rightarrow> (case r of Inl e \<Rightarrow> cf_complete (Inl e) t | Inr ep \<Rightarrow> start_connection ep t))"
    using sel Inr by (cases "authority_endpoint u"; cases r) (auto simp: fetch_start_url_def Let_def)
  ultimately show ?thesis using weak by (simp add: cf_complete_safe cf_fail_safe split: sum.split)
qed

lemma cf_answered_safe:
  assumes "fetch_weak N R C s" and "cf_cancelled s \<longrightarrow> cf_completed s" and "\<not> cf_completed s \<Longrightarrow> fetch_safe N R C (f s)"
  shows "fetch_safe N R C (cf_answered f s)"
  using assms by (auto simp: cf_answered_def fetch_weak_completed)

lemma cf_on_resolved_safe:
  assumes "fetch_weak N R C s" and "cf_cancelled s \<longrightarrow> cf_completed s"
  shows "fetch_safe N R C (cf_on_resolved r s)"
proof -
  have "fetch_weak N R C (cf_log [Op_connect as d] ((stop_phase_timeout s)\<lparr>cf_connect := True\<rparr>))" for as d
    using assms(1) by (intro fetch_weak_log) simp_all
  then have "fetch_safe N R C (cf_log [Op_connect as d] ((stop_phase_timeout s)\<lparr>cf_connect := True\<rparr>))" for as d
    using assms(2) by (simp add: fetch_safe_def) (simp add: cf_log_def stop_phase_timeout_def cf_waiting_def)
  then show ?thesis unfolding cf_on_resolved_def
    using assms by (intro cf_answered_safe) (simp_all add: cf_complete_safe split: sum.split)
qed

text \<open>A stream that a connection or a handshake gives is new.\<close>

definition fresh_stream :: "stream_id set \<Rightarrow> fetch \<Rightarrow> stream_id \<Rightarrow> bool" where
  "fresh_stream R s i \<longleftrightarrow> i \<notin> pooled (cf_io s) \<and> i \<notin> R \<and> i \<notin> io_closed (cf_io s)"

lemma cf_on_connected_safe:
  assumes weak: "fetch_weak N R C s" and c: "cf_cancelled s \<longrightarrow> cf_completed s" and i: "\<And>i. r = Inr i \<Longrightarrow> fresh_stream R s i"
  shows "fetch_safe N R C (cf_on_connected throws r s)"
proof -
  have "fetch_safe N R C (cf_start_tls throws i s)" for i
  proof -
    have "fetch_weak N R C (cf_log [Op_tls i h] ((start_phase_timeout ph d s)\<lparr>cf_tls := True\<rparr>))" for h ph d
      using weak by (intro fetch_weak_log) simp_all
    then have "fetch_safe N R C (cf_log [Op_tls i h] ((start_phase_timeout ph d s)\<lparr>cf_tls := True\<rparr>))" for h ph d
      using c by (simp add: fetch_safe_def) (simp add: cf_log_def start_phase_timeout_def stop_phase_timeout_def cf_waiting_def Let_def)
    then show ?thesis using weak by (simp add: cf_start_tls_def cf_fail_safe split: option.split)
  qed
  moreover have "fetch_safe N R C (write_buffered_request i s)" if "r = Inr i" for i
    using weak c i [OF that] by (intro write_buffered_request_safe) (simp_all add: fetch_weak_def fresh_stream_def)
  ultimately show ?thesis unfolding cf_on_connected_def
    using weak c by (intro cf_answered_safe) (simp_all add: cf_complete_safe cf_fail_safe split: sum.split error.split)
qed

lemma cf_on_tls_connected_safe:
  assumes weak: "fetch_weak N R C s" and c: "cf_cancelled s \<longrightarrow> cf_completed s"
    and i: "\<And>i alpn. r = Inr (i, alpn) \<Longrightarrow> fresh_stream R s i"
  shows "fetch_safe N R C (cf_on_tls_connected r s)"
proof -
  have "fetch_safe N R C (write_buffered_request i s)" if "r = Inr (i, alpn)" for i alpn
    using weak c assms(3) [OF that] by (intro write_buffered_request_safe) (simp_all add: fetch_weak_def fresh_stream_def)
  moreover have "fetch_weak N R C (cf_log [Op_close i] s)" if "r = Inr (i, alpn)" for i alpn
  proof -
    have "pool_ok N R C (io_log [Op_close i] (cf_io s))"
      using weak assms(3) [OF that] by (intro pool_ok_log) (auto simp: fetch_weak_def fresh_stream_def)
    then show ?thesis using weak by (simp add: fetch_weak_def cf_log_def keeps_def)
  qed
  ultimately show ?thesis unfolding cf_on_tls_connected_def
    using weak c by (intro cf_answered_safe) (auto simp: cf_complete_safe cf_fail_safe split: sum.split prod.split)
qed

section \<open>The end of a response\<close>

text \<open>A request that reads is using its stream: the stream is open.\<close>

definition fetch_reading :: "nat \<Rightarrow> stream_id set \<Rightarrow> stream_id set \<Rightarrow> fetch \<Rightarrow> bool" where
  "fetch_reading N R C s \<longleftrightarrow>
     fetch_weak N R C s \<and> \<not> cf_cancelled s \<and> \<not> cf_waiting s \<and> keeps s \<inter> io_closed (cf_io s) = {}"

lemma fetch_reading_safe: "fetch_reading N R C s \<Longrightarrow> fetch_safe N R C s"
  by (simp add: fetch_reading_def fetch_safe_def)

lemma fetch_reading_updates [simp]:
  "fetch_reading N R C (s\<lparr>cf_received := p\<rparr>) = fetch_reading N R C s"
  "fetch_reading N R C (s\<lparr>cf_headers_complete := b\<rparr>) = fetch_reading N R C s"
  "fetch_reading N R C (s\<lparr>cf_redirects := n\<rparr>) = fetch_reading N R C s"
  "fetch_reading N R C (s\<lparr>cf_thrown := e\<rparr>) = fetch_reading N R C s"
  "fetch_reading N R C (start_phase_timeout ph d s) = fetch_reading N R C s"
  "fetch_reading N R C (stop_phase_timeout s) = fetch_reading N R C s"
  by (simp_all add: fetch_reading_def)
    (simp_all add: keeps_def cf_waiting_def start_phase_timeout_def stop_phase_timeout_def Let_def)

lemma release_stream_weak:
  assumes s: "fetch_reading N R C s"
  shows "fetch_weak N R C (release_stream s) \<and> cf_cancelled (release_stream s) = cf_cancelled s"
proof (cases "cf_stream s")
  case None
  then show ?thesis using s by (simp add: release_stream_def fetch_reading_def)
next
  case (Some i)
  define io where "io = io_log [Op_read_stop i] (cf_io s)"
  define io' where "io' = pool_release (cf_origin_key s) i N (co_idle_connection_timeout (cf_options s)) io"
  have weak: "fetch_weak N R C s" and open_: "i \<notin> io_closed (cf_io s)" using s Some by (auto simp: fetch_reading_def keeps_def)
  have "pool_ok N R C (cf_io s)" using weak by (simp add: fetch_weak_def)
  then have ok: "pool_ok N R C io" unfolding io_def by (rule pool_ok_log) simp_all
  have i: "i \<notin> pooled io" "i \<notin> io_closed io" "i \<notin> R"
    using weak open_ Some by (auto simp: io_def fetch_weak_def keeps_def io_closed_def)
  have inv: "pool_inv io" using ok by (simp add: pool_ok_def)
  note spec = pool_release_spec [OF inv i(1,2) io'_def]
  have disj: "pooled io' \<inter> io_closed io' = {}" using spec by (intro pool_inv_open) simp
  have "\<exists>ops. io_ops io' = io_ops io @ ops \<and> no_writes ops" unfolding io'_def by (rule pool_release_log)
  then obtain ops where "io_ops io' = io_ops io @ ops" "no_writes ops" by blast
  then have "tidy (io_ops io')" using ok tidy_append by (simp add: pool_ok_def)
  moreover have "\<forall>k. length (idle_queue k io') \<le> N" using spec ok by (simp add: pool_ok_def)
  moreover have "R \<inter> pooled io' = {}" "io_closed io' \<inter> R = C"
  proof -
    have all: "pooled io' \<union> io_closed io' = insert i (pooled io \<union> io_closed io)" and grow: "io_closed io \<subseteq> io_closed io'"
      using spec by simp_all
    have R: "R \<inter> pooled io = {}" "io_closed io \<inter> R = C" using ok by (simp_all add: pool_ok_def)
    have "x \<notin> pooled io'" if x: "x \<in> R" for x
    proof
      assume "x \<in> pooled io'"
      then have "x \<notin> io_closed io'" "x = i \<or> x \<in> pooled io \<or> x \<in> io_closed io" using disj all by auto
      then show False using x R(1) i(3) grow by auto
    qed
    then show "R \<inter> pooled io' = {}" by auto
    have "x \<in> io_closed io' \<longleftrightarrow> x \<in> io_closed io" if x: "x \<in> R" for x
    proof -
      have "x \<in> io_closed io' \<Longrightarrow> x = i \<or> x \<in> pooled io \<or> x \<in> io_closed io" using all by auto
      then show ?thesis using x R(1) i(3) grow by auto
    qed
    then show "io_closed io' \<inter> R = C" using R(2) by auto
  qed
  ultimately have "pool_ok N R C io'" using spec by (simp add: pool_ok_def)
  then show ?thesis
    using Some weak by (simp add: release_stream_def fetch_weak_def keeps_def io'_def io_def)
qed

lemma close_or_release_current_weak: "fetch_reading N R C s \<Longrightarrow> fetch_weak N R C (close_or_release_current reusable s)"
  using release_stream_weak [of N R C "stop_phase_timeout s"] cf_close_stream_weak [of N R C "stop_phase_timeout s"]
  by (simp add: close_or_release_current_def Let_def) (simp add: fetch_reading_def)

lemma close_or_release_then_start_safe:
  assumes s: "fetch_reading N R C s"
  shows "fetch_safe N R C (close_or_release_then_start reusable u s)"
proof -
  let ?s = "stop_phase_timeout s"
  have r: "fetch_reading N R C ?s" using s by simp
  have "fetch_safe N R C (fetch_start_url (Inr u) (release_stream ?s))"
    using release_stream_weak [OF r] r by (intro fetch_start_url_safe) (simp_all add: fetch_reading_def)
  moreover have weak: "fetch_weak N R C (cf_close_stream ?s)" using r by (intro cf_close_stream_weak) (simp add: fetch_reading_def)
  moreover have c: "\<not> cf_cancelled (cf_close_stream ?s)"
    using r by (simp add: cf_close_stream_def cf_log_def fetch_reading_def split: option.split)
  moreover have "fetch_safe N R C (fetch_start_url (Inr u) (cf_close_stream ?s))"
    using weak c by (intro fetch_start_url_safe) simp_all
  moreover have "fetch_safe N R C ((cf_close_stream ?s)\<lparr>cf_restart := Some u\<rparr>)"
    using weak c by (simp add: fetch_safe_def cf_waiting_def)
  ultimately show ?thesis by (simp add: close_or_release_then_start_def Let_def)
qed

lemma follow_redirect_safe:
  assumes s: "fetch_reading N R C s"
  shows "fetch_safe N R C (follow_redirect response reusable s)"
proof -
  have "fetch_safe N R C (cf_fail c d (close_or_release_current reusable s))"
    "fetch_safe N R C (cf_complete r (close_or_release_current reusable s))" for c d r
    using close_or_release_current_weak [OF s] by (simp_all add: cf_fail_safe cf_complete_safe)
  moreover have "fetch_safe N R C (close_or_release_then_start reusable u
      (s\<lparr>cf_received := [], cf_headers_complete := False, cf_redirects := n\<rparr>))" for u n
    using s by (intro close_or_release_then_start_safe) simp
  ultimately show ?thesis by (simp add: follow_redirect_def Let_def split: sum.split)
qed

lemma complete_parsed_safe:
  assumes s: "fetch_reading N R C s"
  shows "fetch_safe N R C (complete_parsed parsed reusable s)"
proof -
  have "fetch_weak N R C (release_stream s)" "fetch_weak N R C (cf_close_stream s)"
    using release_stream_weak [OF s] s by (simp_all add: cf_close_stream_weak fetch_reading_def)
  then have "fetch_safe N R C (complete_buffered_response r reusable s)" for r
    using follow_redirect_safe [OF s] by (simp add: complete_buffered_response_def cf_complete_safe split: sum.split)
  then show ?thesis using s by (simp add: complete_parsed_def fetch_reading_safe split: sum.split)
qed

lemma try_complete_body_safe:
  assumes s: "fetch_reading N R C s"
  shows "fetch_safe N R C (try_complete_body eof head off s)"
proof -
  have "fetch_safe N R C s" "fetch_safe N R C (s\<lparr>cf_thrown := x\<rparr>)" for x using s by (simp_all add: fetch_reading_safe)
  moreover have "fetch_safe N R C (cf_close_fail e s)" for e using s by (simp add: cf_close_fail_safe fetch_reading_def)
  ultimately show ?thesis
    using complete_parsed_safe [OF s] by (simp add: try_complete_body_def Let_def split: sum.split option.split)
qed

lemma try_complete_buffered_response_safe:
  assumes s: "fetch_reading N R C s"
  shows "fetch_safe N R C (try_complete_buffered_response eof s)"
proof -
  let ?s = "if cf_headers_complete s then s
    else start_phase_timeout phase_response_body (co_response_body_timeout (cf_options s)) (s\<lparr>cf_headers_complete := True\<rparr>)"
  have s': "fetch_reading N R C ?s" using s by simp
  have "fetch_safe N R C (cf_close_fail e t)" if "fetch_reading N R C t" for e t
    using that by (simp add: cf_close_fail_safe fetch_reading_def)
  then show ?thesis
    using s s' try_complete_body_safe [OF s'] fetch_reading_safe [OF s]
    unfolding try_complete_buffered_response_def Let_def by (auto split: option.split sum.split prod.split)
qed

lemma fetch_using_stream:
  "fetch_safe N R C s \<Longrightarrow> cf_on_stream s \<Longrightarrow> \<not> cf_completed s \<Longrightarrow> fetch_reading N R C s"
  by (auto simp: fetch_safe_def fetch_reading_def cf_on_stream_def)

lemma cf_on_read_safe:
  assumes s: "fetch_safe N R C s" and "cf_on_stream s"
  shows "fetch_safe N R C (cf_on_read r s)"
proof (cases "cf_completed s")
  case True
  then show ?thesis using s by (simp add: cf_on_read_def)
next
  case False
  have r: "fetch_reading N R C s" using assms False by (rule fetch_using_stream)
  have "fetch_safe N R C (cf_close_fail e s)" for e using s by (intro cf_close_fail_safe fetch_safe_weak)
  then show ?thesis
    using False r try_complete_buffered_response_safe by (simp add: cf_on_read_def split: read_outcome.split)
qed

lemma cf_on_written_safe:
  assumes s: "fetch_safe N R C s" and "cf_on_stream s"
  shows "fetch_safe N R C (cf_on_written err s)"
proof (cases "cf_completed s")
  case True
  then show ?thesis using s by (simp add: cf_on_written_def)
next
  case False
  have r: "fetch_reading N R C s" using assms False by (rule fetch_using_stream)
  have "fetch_reading N R C (cf_log [Op_read_start i] s)" for i
  proof -
    have "fetch_weak N R C (cf_log [Op_read_start i] s)" using r by (intro fetch_weak_log) (simp_all add: fetch_reading_def)
    then show ?thesis using r by (simp add: fetch_reading_def) (simp add: cf_log_def keeps_def cf_waiting_def io_closed_def)
  qed
  then have "fetch_reading N R C (case cf_stream s of None \<Rightarrow> s | Some i \<Rightarrow> cf_log [Op_read_start i] s)"
    using r by (simp split: option.split)
  then show ?thesis
    using False cf_fail_safe [OF fetch_safe_weak [OF s]]
    by (simp add: cf_on_written_def fetch_reading_safe split: option.split)
qed

section \<open>Every step of a request\<close>

fun fresh_event :: "stream_id set \<Rightarrow> fetch \<Rightarrow> fetch_event \<Rightarrow> bool" where
  "fresh_event R s (Fe_connected throws (Inr i)) = fresh_stream R s i"
| "fresh_event R s (Fe_tls (Inr (i, alpn))) = fresh_stream R s i"
| "fresh_event R s e = True"

lemma fetch_step_safe:
  assumes s: "fetch_safe N R C s" and e: "fresh_event R s e"
  shows "fetch_safe N R C (fetch_step s e)"
proof -
  have weak: "fetch_weak N R C s" and c: "cf_cancelled s \<longrightarrow> cf_completed s" using s by (simp_all add: fetch_safe_def)
  have fresh: "fresh_stream R (s\<lparr>cf_connect := b\<rparr>) i = fresh_stream R s i" "fresh_stream R (s\<lparr>cf_tls := b\<rparr>) i = fresh_stream R s i" for b i
    by (simp_all add: fresh_stream_def)
  have "fetch_safe N R C (fetch_event_step s e)"
  proof (cases e)
    case (Fe_connected throws r)
    then show ?thesis using e s weak c by (auto simp: fresh intro!: cf_on_connected_safe)
  next
    case (Fe_tls r)
    then show ?thesis using e s weak c by (auto simp: fresh intro!: cf_on_tls_connected_safe)
  qed (use s weak c in \<open>auto simp: cf_on_resolved_safe cf_on_written_safe cf_on_read_safe cf_on_timeout_safe fetch_cancel_safe
      fetch_start_url_safe split: option.split\<close>)
  then show ?thesis using s by (simp add: fetch_step_def)
qed

lemma fetch_start_safe:
  "pool_ok N R C io \<Longrightarrow> co_max_idle_connections_per_origin options = N \<Longrightarrow> fetch_safe N R C (fetch_start (new_fetch options m u cb io))"
  unfolding fetch_start_def
  by (rule fetch_start_url_safe) (simp_all add: new_fetch_def fetch_weak_def keeps_def)

end
