(* ===== verification/Client_World.thy ===== *)
theory Client_World
  imports Client_Safety
begin

text \<open>
  A client: the class \<open>client\<close> of \<open>src/http/client.cpp\<close> with its pool and any number of requests that share it. The
  locale says what a user of the pool owes the others; every interleaving of users that keep to it is safe.
\<close>

section \<open>Users of a shared pool\<close>

locale pool_user =
  fixes io_of :: "'u \<Rightarrow> client_io" and with_io :: "client_io \<Rightarrow> 'u \<Rightarrow> 'u" and held :: "'u \<Rightarrow> stream_id set"
    and safe :: "nat \<Rightarrow> stream_id set \<Rightarrow> stream_id set \<Rightarrow> 'u \<Rightarrow> bool"
    and fresh :: "stream_id set \<Rightarrow> 'u \<Rightarrow> 'e \<Rightarrow> bool" and step :: "'u \<Rightarrow> 'e \<Rightarrow> 'u"
  assumes io_with: "io_of (with_io io u) = io" "held (with_io io u) = held u" "with_io io (with_io io' u) = with_io io u"
      "with_io (io_of u) u = u"
    and safe_pool: "safe N R C u \<Longrightarrow> pool_ok N R C (io_of u) \<and> held u \<inter> pooled (io_of u) = {} \<and> held u \<inter> R = {}"
    and safe_moves: "safe N R C u \<Longrightarrow> pool_ok N R' C' io \<Longrightarrow> held u \<inter> pooled io = {} \<Longrightarrow> held u \<inter> R' = {} \<Longrightarrow>
      io_closed io \<inter> held u = io_closed (io_of u) \<inter> held u \<Longrightarrow> safe N R' C' (with_io io u)"
    and step_safe: "safe N R C u \<Longrightarrow> fresh R u e \<Longrightarrow> safe N R C (step u e)"
begin

definition others :: "'u list \<Rightarrow> nat \<Rightarrow> stream_id set" where
  "others us k = {i. \<exists>j<length us. j \<noteq> k \<and> i \<in> held (us ! j)}"

definition world_ok :: "nat \<Rightarrow> client_io \<Rightarrow> 'u list \<Rightarrow> bool" where
  "world_ok N io us \<longleftrightarrow>
     pool_ok N {} {} io \<and>
     (\<forall>k<length us. safe N (others us k) (io_closed io \<inter> others us k) (with_io io (us ! k)))"

lemma world_user:
  assumes "world_ok N io us" "k < length us"
  shows "held (us ! k) \<inter> pooled io = {}" "held (us ! k) \<inter> others us k = {}"
  using assms safe_pool unfolding world_ok_def by (metis io_with(1,2))+

lemma world_disjoint:
  assumes "world_ok N io us" "k < length us" "j < length us" "j \<noteq> k"
  shows "held (us ! k) \<inter> held (us ! j) = {}"
  using world_user(2) [OF assms(1,2)] assms(3,4) unfolding others_def by blast

text \<open>A user that moves from one shared state to another that has left its streams alone.\<close>

lemma safe_after:
  assumes ok: "world_ok N io us" and k: "k < length us"
    and pool: "pool_ok N {} {} io'" and R: "R \<inter> pooled io' = {}" "held (us ! k) \<inter> R = {}"
    and mine: "held (us ! k) \<inter> pooled io' = {}" "io_closed io' \<inter> held (us ! k) = io_closed io \<inter> held (us ! k)"
  shows "safe N R (io_closed io' \<inter> R) (with_io io' (us ! k))"
proof -
  have s: "safe N (others us k) (io_closed io \<inter> others us k) (with_io io (us ! k))" using ok k by (simp add: world_ok_def)
  have "pool_ok N R (io_closed io' \<inter> R) io'" using pool R(1) by (simp add: pool_ok_def)
  from safe_moves [OF s this] show ?thesis using R(2) mine by (simp add: io_with)
qed

text \<open>Only the pool changes: streams may leave it and be closed.\<close>

lemma world_pool:
  assumes ok: "world_ok N io us" and pool: "pool_ok N {} {} io'"
    and pooled: "pooled io' \<subseteq> pooled io" "io_closed io' \<subseteq> io_closed io \<union> pooled io" "io_closed io \<subseteq> io_closed io'"
  shows "world_ok N io' us"
proof -
  have "safe N (others us k) (io_closed io' \<inter> others us k) (with_io io' (us ! k))" if k: "k < length us" for k
  proof (rule safe_after [OF ok k pool])
    have "held (us ! j) \<inter> pooled io = {}" if "j < length us" for j using world_user(1) [OF ok that] .
    then show "others us k \<inter> pooled io' = {}" using pooled(1) unfolding others_def by blast
    show "held (us ! k) \<inter> others us k = {}" using world_user(2) [OF ok k] .
    show "held (us ! k) \<inter> pooled io' = {}" "io_closed io' \<inter> held (us ! k) = io_closed io \<inter> held (us ! k)"
      using world_user(1) [OF ok k] pooled by blast+
  qed
  then show ?thesis using pool by (simp add: world_ok_def)
qed

text \<open>One user moves, an old one or one more.\<close>

lemma world_update:
  assumes ok: "world_ok N io us" and k: "k \<le> length us" and us': "us' = (if k < length us then us[k := u] else us @ [u])"
    and u: "safe N (others us k) (io_closed io \<inter> others us k) u" and io': "io' = io_of u"
  shows "world_ok N io' us'"
proof -
  have nth: "us' ! k = u" "\<And>j. j < length us \<Longrightarrow> j \<noteq> k \<Longrightarrow> us' ! j = us ! j" "\<And>j. j < length us' \<longleftrightarrow> j < length us \<or> j = k"
    using k us' by (auto simp: nth_append)
  have pk: "pool_ok N (others us k) (io_closed io \<inter> others us k) io'" "held u \<inter> pooled io' = {}" "held u \<inter> others us k = {}"
    using safe_pool [OF u] io' by simp_all
  have pool: "pool_ok N {} {} io'" using pk(1) by (simp add: pool_ok_def)
  have other: "held (us ! j) \<subseteq> others us k" if "j < length us" "j \<noteq> k" for j using that unfolding others_def by blast
  have ok_k: "others us' k = others us k" unfolding others_def using nth by auto
  have "safe N (others us' j) (io_closed io' \<inter> others us' j) (with_io io' (us' ! j))" if j: "j < length us'" for j
  proof (cases "j = k")
    case True
    have "io_closed io' \<inter> others us k = io_closed io \<inter> others us k" using pk(1) by (simp add: pool_ok_def)
    then show ?thesis using True u nth(1) ok_k io' by (simp add: io_with(4))
  next
    case False
    then have jl: "j < length us" using j nth(3) by blast
    have o: "others us' j \<subseteq> others us j \<union> held u"
    proof
      fix i
      assume "i \<in> others us' j"
      then obtain l where "l < length us'" "l \<noteq> j" "i \<in> held (us' ! l)" unfolding others_def by blast
      then show "i \<in> others us j \<union> held u" using nth unfolding others_def by (cases "l = k") auto
    qed
    have "safe N (others us' j) (io_closed io' \<inter> others us' j) (with_io io' (us ! j))"
    proof (rule safe_after [OF ok jl pool])
      show "held (us ! j) \<inter> pooled io' = {}" "io_closed io' \<inter> held (us ! j) = io_closed io \<inter> held (us ! j)"
        using pk(1) other [OF jl False] by (auto simp: pool_ok_def)
      show "held (us ! j) \<inter> others us' j = {}" using o world_user(2) [OF ok jl] pk(3) other [OF jl False] by blast
      have "others us k \<inter> pooled io' = {}" using pk(1) by (simp add: pool_ok_def)
      then have "held (us' ! l) \<inter> pooled io' = {}" if "l < length us'" for l
        using that nth pk(2) other [of l] by (cases "l = k") auto
      then show "others us' j \<inter> pooled io' = {}" unfolding others_def by blast
    qed
    then show ?thesis using nth(2) [OF jl False] by simp
  qed
  then show ?thesis using pool by (simp add: world_ok_def)
qed

lemma world_step:
  assumes "world_ok N io us" "k < length us" "fresh (others us k) (with_io io (us ! k)) e" "u = step (with_io io (us ! k)) e"
  shows "world_ok N (io_of u) (us[k := u])"
  using assms step_safe by (intro world_update [OF assms(1), of k _ u]) (auto simp: world_ok_def)

end

section \<open>Buffered requests as users\<close>

interpretation fetching: pool_user cf_io "\<lambda>io s. s\<lparr>cf_io := io\<rparr>" keeps fetch_safe fresh_event fetch_step
proof (unfold_locales, goal_cases)
  case (5 N R C u)
  then show ?case by (simp add: fetch_safe_def fetch_weak_def)
next
  case (6 N R C u R' C' io)
  then show ?case by (auto simp: fetch_safe_def fetch_weak_def keeps_def cf_waiting_def)
next
  case (7 N R C u e)
  then show ?case by (rule fetch_step_safe)
qed (simp_all add: keeps_def)

section \<open>The client\<close>

record client =
  cl_options :: client_options
  cl_io :: client_io
  cl_requests :: "fetch list"

definition new_client :: "client_options \<Rightarrow> client" where
  "new_client options = \<lparr>cl_options = options, cl_io = new_client_io, cl_requests = []\<rparr>"

definition client_fetch :: "http_method \<Rightarrow> string \<Rightarrow> bool \<Rightarrow> client \<Rightarrow> client" where
  "client_fetch m url_input callback c =
     (let s = fetch_start (new_fetch (cl_options c) m url_input callback (cl_io c))
      in c\<lparr>cl_io := cf_io s, cl_requests := cl_requests c @ [s]\<rparr>)"

definition client_get :: "string \<Rightarrow> bool \<Rightarrow> client \<Rightarrow> client" where
  "client_get url_input callback c = client_fetch method_get url_input callback c"

definition client_close_idle :: "client \<Rightarrow> client" where
  "client_close_idle c = c\<lparr>cl_io := pool_close_all (cl_io c)\<rparr>"

definition client_pool_timer :: "stream_id \<Rightarrow> client \<Rightarrow> client" where
  "client_pool_timer i c = c\<lparr>cl_io := pool_timer i (cl_io c)\<rparr>"

definition client_request_event :: "nat \<Rightarrow> fetch_event \<Rightarrow> client \<Rightarrow> client" where
  "client_request_event k e c =
     (if k < length (cl_requests c) then
        let s = fetch_step ((cl_requests c ! k)\<lparr>cf_io := cl_io c\<rparr>) e
        in c\<lparr>cl_io := cf_io s, cl_requests := (cl_requests c)[k := s]\<rparr>
      else c)"

text \<open>The handle that \<open>client::fetch\<close> returns, \<open>request_operation\<close>.\<close>

definition operation_cancel :: "nat \<Rightarrow> client \<Rightarrow> client" where
  "operation_cancel k c = client_request_event k Fe_cancel c"

text \<open>The streams that requests other than the given one keep, and how a client comes about.\<close>

definition other_streams :: "client \<Rightarrow> nat \<Rightarrow> stream_id set" where
  "other_streams c k = {i. \<exists>j<length (cl_requests c). j \<noteq> k \<and> cf_stream (cl_requests c ! j) = Some i}"

inductive client_reach :: "client_options \<Rightarrow> client \<Rightarrow> bool" for options where
  reach_new: "client_reach options (new_client options)"
| reach_fetch: "client_reach options c \<Longrightarrow> client_reach options (client_fetch m url_input callback c)"
| reach_close_idle: "client_reach options c \<Longrightarrow> client_reach options (client_close_idle c)"
| reach_timer: "client_reach options c \<Longrightarrow> client_reach options (client_pool_timer i c)"
| reach_event: "client_reach options c \<Longrightarrow> k < length (cl_requests c) \<Longrightarrow>
    fresh_event (other_streams c k) ((cl_requests c ! k)\<lparr>cf_io := cl_io c\<rparr>) e \<Longrightarrow>
    client_reach options (client_request_event k e c)"

lemma others_streams: "fetching.others (cl_requests c) k = other_streams c k"
  by (simp add: fetching.others_def other_streams_def keeps_def)

lemma pool_op_log:
  "\<exists>ops. io_ops (pool_close_all io) = io_ops io @ ops \<and> no_writes ops"
  "\<exists>ops. io_ops (pool_expire item io) = io_ops io @ ops \<and> no_writes ops"
  using close_entries_log [of io "concat (map snd (io_idle io))"]
  by (auto simp: pool_close_all_def pool_expire_def close_entry_def no_writes_def split: option.split)

lemma pool_ok_close_all:
  assumes "pool_ok N {} {} io"
  shows "pool_ok N {} {} (pool_close_all io)"
proof -
  have inv: "pool_inv io" and t: "tidy (io_ops io)" using assms by (simp_all add: pool_ok_def)
  obtain ops where "io_ops (pool_close_all io) = io_ops io @ ops" "no_writes ops" using pool_op_log(1) by blast
  then have "tidy (io_ops (pool_close_all io))" using t tidy_append by simp
  moreover have "idle_queue k (pool_close_all io) = []" for k by (simp add: pool_close_all_def idle_queue_def)
  ultimately show ?thesis using pool_close_all_spec [OF inv refl] by (simp add: pool_ok_def)
qed

lemma client_reach_ok:
  "client_reach options c \<Longrightarrow> cl_options c = options \<and>
     fetching.world_ok (co_max_idle_connections_per_origin options) (cl_io c) (cl_requests c)"
proof (induction rule: client_reach.induct)
  case reach_new
  then show ?case
    by (simp add: new_client_def fetching.world_ok_def pool_ok_def new_client_io_inv)
      (simp add: new_client_io_def idle_queue_def)
next
  case (reach_fetch c m url_input callback)
  let ?N = "co_max_idle_connections_per_origin options" and ?us = "cl_requests c"
  let ?s = "fetch_start (new_fetch (cl_options c) m url_input callback (cl_io c))"
  have ok: "fetching.world_ok ?N (cl_io c) ?us" and o: "cl_options c = options" using reach_fetch by simp_all
  have "fetching.others ?us (length ?us) \<inter> pooled (cl_io c) = {}"
    using fetching.world_user(1) [OF ok] unfolding fetching.others_def by blast
  then have "pool_ok ?N (fetching.others ?us (length ?us)) (io_closed (cl_io c) \<inter> fetching.others ?us (length ?us)) (cl_io c)"
    using ok by (simp add: fetching.world_ok_def pool_ok_def)
  from fetch_start_safe [OF this] have "fetching.world_ok ?N (cf_io ?s) (?us @ [?s])"
    using o by (intro fetching.world_update [OF ok, of "length ?us" _ ?s]) simp_all
  then show ?case using o by (simp add: client_fetch_def Let_def)
next
  case (reach_close_idle c)
  have ok: "fetching.world_ok (co_max_idle_connections_per_origin options) (cl_io c) (cl_requests c)" using reach_close_idle by simp
  then have p: "pool_ok (co_max_idle_connections_per_origin options) {} {} (cl_io c)" by (simp add: fetching.world_ok_def)
  have "pool_inv (cl_io c)" using p by (simp add: pool_ok_def)
  from pool_close_all_spec [OF this refl] have "fetching.world_ok (co_max_idle_connections_per_origin options)
      (pool_close_all (cl_io c)) (cl_requests c)"
    by (intro fetching.world_pool [OF ok pool_ok_close_all [OF p]]) auto
  then show ?case using reach_close_idle by (simp add: client_close_idle_def)
next
  case (reach_timer c i)
  let ?N = "co_max_idle_connections_per_origin options"
  have ok: "fetching.world_ok ?N (cl_io c) (cl_requests c)" using reach_timer by simp
  then have p: "pool_ok ?N {} {} (cl_io c)" by (simp add: fetching.world_ok_def)
  have "fetching.world_ok ?N (pool_timer i (cl_io c)) (cl_requests c)"
  proof (cases "find (\<lambda>item. pe_stream item = i \<and> pe_timer item) (concat (map snd (io_idle (cl_io c))))")
    case None
    then show ?thesis using ok by (simp add: pool_timer_def)
  next
    case (Some item)
    have inv: "pool_inv (cl_io c)" using p by (simp add: pool_ok_def)
    have "item \<in> set (concat (map snd (io_idle (cl_io c))))" using Some by (metis find_Some_iff nth_mem)
    moreover have "set (concat (map snd (io_idle (cl_io c)))) = (\<Union>k. set (idle_queue k (cl_io c)))"
      using inv by (intro idle_queues) (simp add: pool_inv_def)
    ultimately obtain k where k: "item \<in> set (idle_queue k (cl_io c))" by (simp only: UN_iff) blast
    then have "item \<in> set (idle_queue (pe_origin item) (cl_io c))" using inv unfolding pool_inv_def by metis
    note spec = pool_expire_spec [OF inv this refl]
    obtain ops where "io_ops (pool_expire item (cl_io c)) = io_ops (cl_io c) @ ops" "no_writes ops" using pool_op_log(2) by blast
    then have "tidy (io_ops (pool_expire item (cl_io c)))" using p tidy_append by (simp add: pool_ok_def)
    moreover have "length (idle_queue k (pool_expire item (cl_io c))) \<le> ?N" for k
    proof -
      have "length (idle_queue k (pool_expire item (cl_io c))) \<le> length (idle_queue k (cl_io c))" using spec by blast
      also have "\<dots> \<le> ?N" using p by (simp add: pool_ok_def)
      finally show ?thesis .
    qed
    ultimately have "pool_ok ?N {} {} (pool_expire item (cl_io c))" using spec by (simp add: pool_ok_def)
    moreover have "pe_stream item \<in> pooled (cl_io c)" using k unfolding pooled_def by blast
    ultimately have "fetching.world_ok ?N (pool_expire item (cl_io c)) (cl_requests c)"
      using spec by (intro fetching.world_pool [OF ok]) auto
    then show ?thesis using Some by (simp add: pool_timer_def)
  qed
  then show ?case using reach_timer by (simp add: client_pool_timer_def)
next
  case (reach_event c k e)
  then show ?case
    using fetching.world_step [of "co_max_idle_connections_per_origin options" "cl_io c" "cl_requests c" k e]
    by (simp add: client_request_event_def others_streams Let_def)
qed


end
