(* ===== verification/Client_Fetch_Props.thy ===== *)
theory Client_Fetch_Props
  imports Client_Fetch
begin

text \<open>
  How often a buffered request answers and how much it may ask for: the callback runs once, and the requests written
  are at most one more than the redirects followed, which the options bound.
\<close>

section \<open>The budget of a request\<close>

fun is_write :: "stream_op \<Rightarrow> bool" where
  "is_write (Op_write i p) = True"
| "is_write op = False"

definition written :: "nat \<Rightarrow> fetch \<Rightarrow> nat" where
  "written n s = length (filter is_write (drop n (io_ops (cf_io s))))"

text \<open>The answers still to come, each of which may lead to a request.\<close>

definition asks :: "fetch \<Rightarrow> nat" where
  "asks s = of_bool (cf_dns s) + of_bool (cf_connect s) + of_bool (cf_tls s) + of_bool (cf_restart s \<noteq> None)"

definition answers_once :: "bool \<Rightarrow> fetch \<Rightarrow> bool" where
  "answers_once cb s \<longleftrightarrow>
     (if cf_completed s then length (cf_calls s) = of_bool cb else cf_calls s = [] \<and> cf_callback s = cb)"

definition budget :: "nat \<Rightarrow> bool \<Rightarrow> nat \<Rightarrow> nat \<Rightarrow> fetch \<Rightarrow> bool" where
  "budget n cb M k s \<longleftrightarrow>
     n \<le> length (io_ops (cf_io s)) \<and> written n s + asks s + k \<le> cf_redirects s + 1 \<and>
     cf_redirects s \<le> M \<and> co_max_redirects (cf_options s) = M \<and> answers_once cb s"

lemma budget_weaken: "budget n cb M 1 s \<Longrightarrow> budget n cb M 0 s"
  by (simp add: budget_def)

lemma no_writes_filter: "no_writes ops \<longleftrightarrow> filter is_write ops = []"
proof -
  have "is_write op \<longleftrightarrow> (\<exists>i p. op = Op_write i p)" for op by (cases op) simp_all
  then show ?thesis by (auto simp: no_writes_def filter_empty_conv)
qed

text \<open>The shared state may grow by anything but a write.\<close>

lemma budget_io:
  assumes "budget n cb M k s" "io_ops io = io_ops (cf_io s) @ ops" "no_writes ops"
  shows "budget n cb M k (s\<lparr>cf_io := io\<rparr>)"
  using assms by (auto simp: budget_def written_def asks_def answers_once_def no_writes_filter)

lemma budget_log: "budget n cb M k s \<Longrightarrow> no_writes ops \<Longrightarrow> budget n cb M k (cf_log ops s)"
  unfolding cf_log_def by (rule budget_io) simp_all

lemma budget_updates [simp]:
  "budget n cb M k (s\<lparr>cf_phase := ph\<rparr>) = budget n cb M k s" "budget n cb M k (s\<lparr>cf_received := p\<rparr>) = budget n cb M k s"
  "budget n cb M k (s\<lparr>cf_headers_complete := b\<rparr>) = budget n cb M k s" "budget n cb M k (s\<lparr>cf_thrown := e\<rparr>) = budget n cb M k s"
  "budget n cb M k (s\<lparr>cf_cancelled := b\<rparr>) = budget n cb M k s" "budget n cb M k (s\<lparr>cf_timed_out := b\<rparr>) = budget n cb M k s"
  "budget n cb M k (s\<lparr>cf_url := u\<rparr>) = budget n cb M k s" "budget n cb M k (s\<lparr>cf_origin_key := key\<rparr>) = budget n cb M k s"
  "budget n cb M k (s\<lparr>cf_stream := st\<rparr>) = budget n cb M k s" "budget n cb M k (s\<lparr>cf_proxy_url := u\<rparr>) = budget n cb M k s"
  "budget n cb M k (s\<lparr>cf_proxy_key := key\<rparr>) = budget n cb M k s" "budget n cb M k (s\<lparr>cf_forward_proxy := b\<rparr>) = budget n cb M k s"
  by (simp_all add: budget_def written_def asks_def answers_once_def)

lemma budget_timeout [simp]:
  "budget n cb M k (stop_phase_timeout s) = budget n cb M k s" "budget n cb M k (start_phase_timeout ph d s) = budget n cb M k s"
  by (simp_all add: stop_phase_timeout_def start_phase_timeout_def Let_def)

text \<open>An answer that has come gives one back; asking takes one.\<close>

lemma budget_answer:
  "budget n cb M 0 s \<Longrightarrow> cf_dns s \<Longrightarrow> budget n cb M 1 (s\<lparr>cf_dns := False\<rparr>)"
  "budget n cb M 0 s \<Longrightarrow> cf_connect s \<Longrightarrow> budget n cb M 1 (s\<lparr>cf_connect := False\<rparr>)"
  "budget n cb M 0 s \<Longrightarrow> cf_tls s \<Longrightarrow> budget n cb M 1 (s\<lparr>cf_tls := False\<rparr>)"
  "budget n cb M 0 s \<Longrightarrow> cf_restart s \<noteq> None \<Longrightarrow> budget n cb M 1 (s\<lparr>cf_restart := None\<rparr>)"
  by (simp_all add: budget_def written_def asks_def answers_once_def)

lemma budget_ask:
  assumes "budget n cb M 1 s"
  shows "budget n cb M 0 (s\<lparr>cf_dns := True\<rparr>)" "budget n cb M 0 (s\<lparr>cf_connect := True\<rparr>)"
    "budget n cb M 0 (s\<lparr>cf_tls := True\<rparr>)" "budget n cb M 0 (s\<lparr>cf_restart := Some u\<rparr>)"
  using assms by (auto simp: budget_def written_def asks_def answers_once_def split: if_splits)

lemma budget_write: "budget n cb M 1 s \<Longrightarrow> budget n cb M 0 (write_buffered_request i s)"
  by (simp add: write_buffered_request_def cf_log_def start_phase_timeout_def stop_phase_timeout_def budget_def written_def
      asks_def answers_once_def Let_def)

section \<open>Every handler keeps to it\<close>

lemma budget_complete: "budget n cb M k s \<Longrightarrow> budget n cb M k (cf_complete r s)"
  by (auto simp: cf_complete_def stop_phase_timeout_def budget_def written_def asks_def answers_once_def Let_def)

lemma budget_fail: "budget n cb M k s \<Longrightarrow> budget n cb M k (cf_fail c d s)"
  by (simp add: cf_fail_def budget_complete)

lemma budget_close: "budget n cb M k s \<Longrightarrow> budget n cb M k (cf_close_stream s)"
  by (simp add: cf_close_stream_def budget_log split: option.split)

lemma budget_close_fail: "budget n cb M k s \<Longrightarrow> budget n cb M k (cf_close_fail e s)"
  by (simp add: cf_close_fail_def budget_complete budget_close)

lemma budget_release: "budget n cb M k s \<Longrightarrow> budget n cb M k (release_stream s)"
proof (cases "cf_stream s")
  case (Some i)
  assume s: "budget n cb M k s"
  let ?io = "pool_release (cf_origin_key s) i (co_max_idle_connections_per_origin (cf_options s))
    (co_idle_connection_timeout (cf_options s)) (io_log [Op_read_stop i] (cf_io s))"
  obtain ops where "io_ops ?io = io_ops (io_log [Op_read_stop i] (cf_io s)) @ ops" "no_writes ops" using pool_release_log by blast
  then have "budget n cb M k (s\<lparr>cf_io := ?io\<rparr>)"
    using budget_io [OF s, of ?io "Op_read_stop i # ops"] by (simp add: no_writes_def)
  then show ?thesis using Some by (simp add: release_stream_def)
qed (simp add: release_stream_def)

lemma budget_cancel_operations:
  assumes "budget n cb M 0 s"
  shows "budget n cb M 0 (cancel_operations s)"
proof -
  have a: "budget n cb M 0 (cf_answered id u)" if "budget n cb M 1 u" for u
    using budget_weaken [OF that] by (simp add: cf_answered_def budget_fail)
  have "budget n cb M 0 (if cf_dns u then cf_answered id (u\<lparr>cf_dns := False\<rparr>) else u)"
    "budget n cb M 0 (if cf_connect u then cf_answered id (u\<lparr>cf_connect := False\<rparr>) else u)"
    "budget n cb M 0 (if cf_tls u then cf_answered id (u\<lparr>cf_tls := False\<rparr>) else u)" if "budget n cb M 0 u" for u
    using that a budget_answer(1,2,3) [OF that] by simp_all
  then show ?thesis unfolding cancel_operations_def Let_def using assms by blast
qed

lemma budget_start_connection:
  assumes "budget n cb M 1 s"
  shows "budget n cb M 0 (start_connection ep s)"
proof -
  obtain io r where take: "pool_take (connection_pool_key s) (cf_io s) = (io, r)"
    by (cases "pool_take (connection_pool_key s) (cf_io s)")
  obtain ops where "io_ops io = io_ops (cf_io s) @ ops" "no_writes ops" using pool_take_log [OF take] by blast
  then have io: "budget n cb M 1 (s\<lparr>cf_origin_key := connection_pool_key s, cf_io := io\<rparr>)"
    using assms by (intro budget_io [of n cb M 1 _ io ops]) simp_all
  show ?thesis
    using take budget_write [OF io] budget_log [OF budget_ask(1) [OF io]]
    by (cases r) (simp_all add: start_connection_def Let_def)
qed

lemma budget_select_endpoint:
  "select_connect_endpoint sch s = (t, r) \<Longrightarrow> budget n cb M k s \<Longrightarrow> budget n cb M k t"
  by (auto simp: select_connect_endpoint_def Let_def split: if_splits sum.splits)

lemma budget_start_url:
  assumes s: "budget n cb M 1 s"
  shows "budget n cb M 0 (fetch_start_url parsed s)"
proof (cases parsed)
  case (Inl e)
  then show ?thesis using budget_weaken [OF s] by (simp add: fetch_start_url_def budget_complete)
next
  case (Inr u)
  let ?s = "s\<lparr>cf_url := u\<rparr>"
  obtain t r where sel: "select_connect_endpoint (scheme_id u) ?s = (t, r)" by (cases "select_connect_endpoint (scheme_id u) ?s")
  have t: "budget n cb M 1 t" using budget_select_endpoint [OF sel, of n cb M 1] s by simp
  have "budget n cb M 0 (case (t, r) of (s, Inl e) \<Rightarrow> cf_complete (Inl e) s | (s, Inr ep) \<Rightarrow> start_connection ep s)"
    using budget_start_connection [OF t] budget_complete [OF budget_weaken [OF t]] by (cases r) simp_all
  moreover have "budget n cb M 0 ?s" using budget_weaken [OF s] by simp
  ultimately show ?thesis unfolding fetch_start_url_def Let_def Inr sum.case sel
    using budget_fail budget_complete by (auto split: sum.split)
qed

lemma budget_answered:
  assumes "budget n cb M 1 s" "\<And>u. budget n cb M 1 u \<Longrightarrow> budget n cb M 0 (f u)"
  shows "budget n cb M 0 (cf_answered f s)"
  using assms budget_weaken by (simp add: cf_answered_def budget_fail)

lemma budget_resolved: "budget n cb M 1 s \<Longrightarrow> budget n cb M 0 (cf_on_resolved r s)"
  unfolding cf_on_resolved_def
proof (rule budget_answered)
  fix u
  assume u: "budget n cb M 1 u"
  then have "budget n cb M 0 (cf_log [Op_connect as d] ((stop_phase_timeout u)\<lparr>cf_connect := True\<rparr>))" for as d
    by (intro budget_log budget_ask) simp_all
  then show "budget n cb M 0 (case r of Inl e \<Rightarrow> cf_complete (Inl (wrap_client_error dns_message client_dns_failed e)) u
      | Inr addresses \<Rightarrow> cf_log [Op_connect addresses (co_connect_timeout (cf_options u))] ((stop_phase_timeout u)\<lparr>cf_connect := True\<rparr>))"
    using budget_complete [OF budget_weaken [OF u]] by (simp split: sum.split)
qed

lemma budget_start_tls: "budget n cb M 1 s \<Longrightarrow> budget n cb M 0 (cf_start_tls throws i s)"
  by (simp add: cf_start_tls_def budget_fail budget_weaken budget_log budget_ask split: option.split)

lemma budget_connected: "budget n cb M 1 s \<Longrightarrow> budget n cb M 0 (cf_on_connected throws r s)"
  unfolding cf_on_connected_def
  by (erule budget_answered)
    (simp add: budget_start_tls budget_write budget_fail budget_complete budget_weaken split: sum.split error.split)

lemma budget_tls_connected: "budget n cb M 1 s \<Longrightarrow> budget n cb M 0 (cf_on_tls_connected r s)"
  unfolding cf_on_tls_connected_def
  by (erule budget_answered)
    (simp add: budget_write budget_fail budget_complete budget_log budget_weaken split: sum.split prod.split)

lemma budget_written: "budget n cb M 0 s \<Longrightarrow> budget n cb M 0 (cf_on_written err s)"
  by (simp add: cf_on_written_def budget_fail budget_log split: option.split)

lemma budget_follow_redirect:
  assumes s: "budget n cb M 0 s"
  shows "budget n cb M 0 (follow_redirect response reusable s)"
proof -
  have "budget n cb M 0 (close_or_release_current reusable s)"
    using s by (simp add: close_or_release_current_def budget_release budget_close Let_def)
  then have stop: "budget n cb M 0 (cf_fail c d (close_or_release_current reusable s))"
    "budget n cb M 0 (cf_complete r (close_or_release_current reusable s))" for c d r
    by (simp_all add: budget_fail budget_complete)
  have go: "budget n cb M 0 (close_or_release_then_start reusable u
      (s\<lparr>cf_received := [], cf_headers_complete := False, cf_redirects := cf_redirects s + 1\<rparr>))"
    if "\<not> co_max_redirects (cf_options s) \<le> cf_redirects s" for u
  proof -
    let ?s = "stop_phase_timeout (s\<lparr>cf_received := [], cf_headers_complete := False, cf_redirects := cf_redirects s + 1\<rparr>)"
    have "budget n cb M 1 ?s"
      using s that by (simp add: stop_phase_timeout_def budget_def written_def asks_def answers_once_def)
    then show ?thesis
      by (simp add: close_or_release_then_start_def budget_start_url budget_release budget_close budget_ask Let_def)
  qed
  show ?thesis using stop go by (simp add: follow_redirect_def Let_def split: sum.split)
qed

lemma budget_complete_parsed: "budget n cb M 0 s \<Longrightarrow> budget n cb M 0 (complete_parsed parsed reusable s)"
  by (simp add: complete_parsed_def complete_buffered_response_def budget_follow_redirect budget_complete budget_release
      budget_close split: sum.split)

lemma budget_try_body: "budget n cb M 0 s \<Longrightarrow> budget n cb M 0 (try_complete_body eof head off s)"
  by (simp add: try_complete_body_def budget_complete_parsed budget_close_fail Let_def split: sum.split option.split)

lemma budget_try: "budget n cb M 0 s \<Longrightarrow> budget n cb M 0 (try_complete_buffered_response eof s)"
  by (simp add: try_complete_buffered_response_def budget_close_fail budget_try_body Let_def
      split: option.split sum.split prod.split)

lemma budget_read: "budget n cb M 0 s \<Longrightarrow> budget n cb M 0 (cf_on_read r s)"
  by (simp add: cf_on_read_def budget_try budget_close_fail split: read_outcome.split)

lemma budget_step:
  assumes "budget n cb M 0 s"
  shows "budget n cb M 0 (fetch_step s e)"
proof -
  have "budget n cb M 0 (fetch_event_step s e)"
    by (cases e)
      (use assms budget_answer [OF assms] in \<open>auto simp: budget_resolved budget_connected budget_tls_connected budget_written
        budget_read budget_start_url cf_on_timeout_def fetch_cancel_def budget_fail budget_close budget_cancel_operations
        split: option.split\<close>)
  then show ?thesis using assms by (simp add: fetch_step_def)
qed

text \<open>C16: A buffered request, whatever the network, the timers, the server and the application do: the callback has run
  exactly once when the request is complete and not at all before; it follows at most as many redirects as the
  options allow, and writes at most one request more than that.\<close>

theorem fetch_bounded:
  "let s = foldl fetch_step (fetch_start (new_fetch options m url_input callback io)) events
   in length (cf_calls s) = of_bool (cf_completed s \<and> callback) \<and>
      cf_redirects s \<le> co_max_redirects options \<and>
      written (length (io_ops io)) s \<le> cf_redirects s + 1"
proof -
  have "budget (length (io_ops io)) callback (co_max_redirects options) 1 (new_fetch options m url_input callback io)"
    by (simp add: new_fetch_def budget_def written_def asks_def answers_once_def)
  then have "budget (length (io_ops io)) callback (co_max_redirects options) 0 (fetch_start (new_fetch options m url_input callback io))"
    unfolding fetch_start_def by (rule budget_start_url)
  then have "budget (length (io_ops io)) callback (co_max_redirects options) 0 (foldl fetch_step (fetch_start (new_fetch options m url_input callback io)) events)"
    by (induction events rule: rev_induct) (simp_all add: budget_step)
  then show ?thesis by (auto simp: budget_def answers_once_def Let_def split: if_splits)
qed

end
