(* ===== verification/Client_Scenarios.thy ===== *)
theory Client_Scenarios
  imports Client_Stream_Reads Client_Upload Client_World Client_Fetch_Props
begin

text \<open>
  Concrete requests: the properties of the client at work, and exchanges in which the client misbehaves.
\<close>

section \<open>Two connections\<close>

definition demo_client_options :: client_options where
  "demo_client_options =
     \<lparr>co_max_header_bytes = 150, co_max_body_bytes = 20, co_max_pending_request_body_bytes = 8,
      co_max_idle_connections_per_origin = 1, co_max_redirects = 2, co_idle_connection_timeout = 30,
      co_dns_timeout = 0, co_connect_timeout = 0, co_tls_handshake_timeout = 0, co_request_body_timeout = 0,
      co_response_header_timeout = 0, co_response_body_timeout = 0, co_follow_redirects = True,
      co_tls_default_verify_paths = True, co_proxy_url = [], co_proxy_authorization = [], co_tls_ca_file = [],
      co_tls_ca_path = []\<rparr>"

definition demo_address :: address where
  "demo_address = \<lparr>ad_family = family_ipv4, ad_host = ''10.0.0.1'', ad_port = 80\<rparr>"

definition connected_fetch :: "stream_id \<Rightarrow> http_method \<Rightarrow> string \<Rightarrow> fetch" where
  "connected_fetch i m url_input =
     foldl fetch_step (fetch_start (new_fetch demo_client_options m url_input True new_client_io))
       [Fe_resolved (Inr [demo_address]), Fe_connected None (Inr i), Fe_written None]"

definition demo_fetch :: fetch where
  "demo_fetch = connected_fetch 7 method_get ''http://a/x''"

lemma demo_fetch_awaiting: "awaiting demo_client_options method_get [] demo_fetch"
  by code_simp

definition demo_response :: response_state where
  "demo_response = new_response\<lparr>rs_status := 404, rs_headers := [(''Content-Type'', ''text/plain'')], rs_body := ''gone''\<rparr>"

definition demo_bytes :: string where
  "demo_bytes = serialize_response demo_response True small_options False"

lemma demo_response_facts:
  "well_formed_response demo_response" "rs_status demo_response \<le> 999" "sent_body demo_response = ''gone''"
  "rs_status demo_response = 404" "\<not> response_is_redirect (rs_status demo_response)"
  "fits demo_client_options (serialize_response_head demo_response True small_options False False) (sent_body demo_response)"
  by code_simp+

theorem fetch_reads_server_response_witness:
  "cf_calls (foldl fetch_step demo_fetch (map (\<lambda>d. Fe_read (Read_data d)) [take 30 demo_bytes, drop 30 demo_bytes])) =
    [Inr (received_response 404 (response_fields demo_response True small_options False False) ''gone'')]"
  using fetch_reads_server_response [OF demo_response_facts(1,2), of demo_client_options True small_options method_get demo_fetch
      "[take 30 demo_bytes, drop 30 demo_bytes]"] demo_response_facts demo_fetch_awaiting
  by (simp add: demo_bytes_def)

theorem fetch_reads_streamed_response_witness:
  "cf_calls (foldl fetch_step demo_fetch (map (\<lambda>d. Fe_read (Read_data d))
      [serialize_response_head new_response True small_options True False, serialize_chunk ''abc'' @ serialize_chunk ''de'' @ final_chunk])) =
    [Inr (received_response 200 (response_fields new_response True small_options True False) ''abcde'')]"
proof -
  have "list_all sendable_field (rs_headers new_response)" "\<not> bodiless (rs_status new_response)" "rs_status new_response = 200"
    "fits demo_client_options (serialize_response_head new_response True small_options True False) (concat [''abc'', ''de''])"
    "\<not> response_is_redirect 200" by code_simp+
  then show ?thesis
    using fetch_reads_streamed_response [of new_response method_get "[''abc'', ''de'']" demo_client_options True small_options demo_fetch
        "[serialize_response_head new_response True small_options True False, serialize_chunk ''abc'' @ serialize_chunk ''de'' @ final_chunk]"]
      demo_fetch_awaiting
    by simp
qed

section \<open>A streaming request\<close>

text \<open>A request that writes two pieces of five, then ends.\<close>

definition demo_stream :: "stream_app \<Rightarrow> stream_setup list \<Rightarrow> stream_event list \<Rightarrow> stream_request" where
  "demo_stream app setups events =
     stream_run app demo_client_options method_post ''http://a/x'' new_client_io (Set_callbacks True True True False # setups)
       ([Se_resolved (Inr [demo_address]), Se_connected None (Inr 7), Se_headers_written None] @ events)"

definition quiet_app :: stream_app where
  "quiet_app c s = []"

definition demo_upload :: stream_request where
  "demo_upload = demo_stream quiet_app [Set_chunked]
     [Se_action (Act_write ''hello''), Se_upload_written None, Se_action (Act_write ''world''), Se_action Act_end,
      Se_upload_written None, Se_upload_written None]"

lemma demo_upload_facts:
  "sr_stream demo_upload = Some 7" "sr_reading demo_upload" "sr_pieces demo_upload = [''hello'', ''world'']"
  "sr_upload_mode demo_upload = upload_chunked" "sr_upload_ended demo_upload" "\<not> sr_completed demo_upload"
  "before_body demo_client_options method_post [] demo_upload"
  by code_simp+

theorem upload_exact_witness:
  "sent_to 7 (io_ops (sr_io demo_upload)) =
     streaming_head demo_upload @ ''5'' @ crlf @ ''hello'' @ crlf @ ''5'' @ crlf @ ''world'' @ crlf @ ''0'' @ crlf @ crlf"
proof -
  have "upload_bytes demo_upload = ''5'' @ crlf @ ''hello'' @ crlf @ ''5'' @ crlf @ ''world'' @ crlf @ ''0'' @ crlf @ crlf"
    by code_simp
  then show ?thesis
    using upload_exact [OF demo_upload_def [unfolded demo_stream_def] demo_upload_facts(1) refl] demo_upload_facts
    by (simp add: new_client_io_def)
qed


section \<open>Two requests of a client\<close>

definition demo_client :: "nat \<Rightarrow> client" where
  "demo_client n = foldl (\<lambda>c f. f c)
     (client_fetch method_get ''http://a/y'' True (client_fetch method_get ''http://a/x'' True (new_client demo_client_options)))
     (take n [client_request_event 0 (Fe_resolved (Inr [demo_address])), client_request_event 0 (Fe_connected None (Inr 7)),
        client_request_event 1 (Fe_resolved (Inr [demo_address])), client_request_event 1 (Fe_connected None (Inr 8))])"

lemma fresh_connection:
  assumes "io_idle (cl_io c) = []" "Op_close i \<notin> set (io_ops (cl_io c))" "Some i \<notin> set (map cf_stream (cl_requests c))"
  shows "fresh_event (other_streams c k) (s\<lparr>cf_io := cl_io c\<rparr>) (Fe_connected throws (Inr i))"
proof -
  have "pooled (cl_io c) = {}" using assms(1) by (simp add: pooled_def idle_queue_def)
  moreover have "i \<notin> other_streams c k"
  proof
    assume "i \<in> other_streams c k"
    then obtain j where j: "j < length (cl_requests c)" "cf_stream (cl_requests c ! j) = Some i" unfolding other_streams_def by blast
    then have "map cf_stream (cl_requests c) ! j \<in> set (map cf_stream (cl_requests c))" by (intro nth_mem) simp
    then show False using j assms(3) by simp
  qed
  ultimately show ?thesis using assms(2) by (simp add: fresh_stream_def io_closed_def)
qed

lemma demo_client_facts:
  "length (cl_requests (demo_client 0)) = 2" "length (cl_requests (demo_client 1)) = 2"
  "length (cl_requests (demo_client 2)) = 2" "length (cl_requests (demo_client 3)) = 2"
  "io_idle (cl_io (demo_client 1)) = []" "Op_close 7 \<notin> set (io_ops (cl_io (demo_client 1)))"
  "Some 7 \<notin> set (map cf_stream (cl_requests (demo_client 1)))"
  "io_idle (cl_io (demo_client 3)) = []" "Op_close 8 \<notin> set (io_ops (cl_io (demo_client 3)))"
  "Some 8 \<notin> set (map cf_stream (cl_requests (demo_client 3)))"
  "map cf_stream (cl_requests (demo_client 4)) = [Some 7, Some 8]"
  by code_simp+

lemma demo_client_reach: "client_reach demo_client_options (demo_client 4)"
proof -
  have "client_reach demo_client_options (demo_client 0)"
    unfolding demo_client_def take_0 foldl_Nil by (intro client_reach.intros)
  then have "client_reach demo_client_options (client_request_event 0 (Fe_resolved (Inr [demo_address])) (demo_client 0))"
    by (rule reach_event) (simp_all add: demo_client_facts)
  then have "client_reach demo_client_options (demo_client 1)" by (simp add: demo_client_def)
  then have "client_reach demo_client_options (client_request_event 0 (Fe_connected None (Inr 7)) (demo_client 1))"
    by (rule reach_event) (use demo_client_facts(1-4) in simp, intro fresh_connection demo_client_facts)
  then have "client_reach demo_client_options (demo_client 2)" by (simp add: demo_client_def numeral_2_eq_2)
  then have "client_reach demo_client_options (client_request_event 1 (Fe_resolved (Inr [demo_address])) (demo_client 2))"
    by (rule reach_event) (simp_all add: demo_client_facts)
  then have "client_reach demo_client_options (demo_client 3)" by (simp add: demo_client_def numeral_2_eq_2 numeral_3_eq_3)
  then have "client_reach demo_client_options (client_request_event 1 (Fe_connected None (Inr 8)) (demo_client 3))"
    by (rule reach_event) (use demo_client_facts(1-4) in simp, intro fresh_connection demo_client_facts)
  then show ?thesis by (simp add: demo_client_def numeral_3_eq_3)
qed


section \<open>Where the client misbehaves\<close>

definition reads :: "string \<Rightarrow> fetch_event" where
  "reads bytes = Fe_read (Read_data bytes)"

definition line :: "string \<Rightarrow> string" where
  "line l = l @ crlf"

text \<open>A chunk size near the end of the 32-bit range: the size with its line end wraps around, the check that the chunk has
  come passes, and the read callback throws; the request is never answered.\<close>

definition wrapping_chunk :: string where
  "wrapping_chunk = line ''HTTP/1.1 200 OK'' @ line ''Transfer-Encoding: chunked'' @ crlf @ line ''ffffffff'' @ ''x''"

lemma chunk_size_wraps:
  "cf_thrown (fetch_step demo_fetch (reads wrapping_chunk)) = Some Out_of_range \<and>
   \<not> cf_completed (fetch_step demo_fetch (reads wrapping_chunk))"
  by code_simp

text \<open>A status below 100 is read as a status, and building the response throws in the read callback.\<close>

definition low_status :: string where
  "low_status = line ''HTTP/1.1 099 Odd'' @ line ''Content-Length: 0'' @ crlf"

lemma low_status_throws:
  "cf_thrown (fetch_step demo_fetch (reads low_status)) \<noteq> None \<and>
   \<not> cf_completed (fetch_step demo_fetch (reads low_status))"
  by code_simp

text \<open>Of two fields of the same name a buffered response keeps the last, a streaming one both.\<close>

definition two_cookies :: string where
  "two_cookies = line ''HTTP/1.1 200 OK'' @ line ''Set-Cookie: a=1'' @ line ''Set-Cookie: b=2'' @ line ''Content-Length: 0'' @ crlf"

lemma repeated_fields_collapse:
  "map (map_sum id (map snd \<circ> filter (\<lambda>(n, v). names_equal n ''set-cookie'') \<circ> rs_headers))
     (cf_calls (fetch_step demo_fetch (reads two_cookies))) = [Inr [''b=2'']]"
  "rh_headers (sr_response_head (stream_step quiet_app demo_upload (Se_read (Read_data two_cookies)))) =
     [(''Set-Cookie'', ''a=1''), (''Set-Cookie'', ''b=2''), (''Content-Length'', ''0'')]"
  by code_simp+

text \<open>An interim response is taken for the response: the request completes with it and its connection is pooled, where the
  real response then arrives for whoever takes it next.\<close>

lemma interim_response_completes:
  "let s = fetch_step demo_fetch (reads (line ''HTTP/1.1 100 Continue'' @ crlf))
   in map (map_sum id rs_status) (cf_calls s) = [Inr 100] \<and> map pe_stream (idle_queue ''http://a:80'' (cf_io s)) = [7]"
  by code_simp

text \<open>A request that is cancelled while it waits for its old stream to close before it follows a redirect starts again all
  the same: it takes an idle stream, writes a request to it, and neither reads from it nor gives it back.\<close>

definition idle_for_b :: client_io where
  "idle_for_b = pool_release ''http://b:80'' 9 1 30 new_client_io"

definition redirect_to_b :: string where
  "redirect_to_b = line ''HTTP/1.1 302 Found'' @ line ''Location: http://b/'' @ line ''Connection: close'' @ line ''Content-Length: 0'' @ crlf"

definition cancelled_redirect :: fetch where
  "cancelled_redirect =
     foldl fetch_step (fetch_start (new_fetch demo_client_options method_get ''http://a/'' True idle_for_b))
       [Fe_resolved (Inr [demo_address]), Fe_connected None (Inr 7), Fe_written None, reads redirect_to_b, Fe_cancel, Fe_closed]"

lemma cancelled_redirect_goes_on:
  "cf_calls cancelled_redirect = [Inl (make_client_error client_cancelled [])]"
  "last (io_ops (cf_io cancelled_redirect)) = Op_write 9 (buffered_request cancelled_redirect)"
  "Op_close 9 \<notin> set (io_ops (cf_io cancelled_redirect))" "io_idle (cf_io cancelled_redirect) = []"
  by code_simp+

text \<open>A streaming request that is cancelled in the callback for the headers goes on with the body: a body that ends with
  the connection is reported after the completion, and after a response without a body the closed stream is pooled.\<close>

definition cancelling_app :: stream_app where
  "cancelling_app c s = (case c of Call_headers h \<Rightarrow> [Act_cancel] | _ \<Rightarrow> [])"

lemma data_after_completion:
  "map (\<lambda>c. case c of Call_headers h \<Rightarrow> ''headers'' | Call_data d \<Rightarrow> d | Call_drain \<Rightarrow> ''drain'' | Call_complete r \<Rightarrow> ''complete'')
     (sr_calls (stream_step cancelling_app demo_upload (Se_read (Read_data (line ''HTTP/1.1 200 OK'' @ crlf @ ''late''))))) =
   [''headers'', ''complete'', ''late'']"
  by code_simp

lemma closed_stream_pooled:
  "let io = sr_io (stream_step cancelling_app demo_upload (Se_read (Read_data (line ''HTTP/1.1 204 No Content'' @ crlf))))
   in Op_close 7 \<in> set (io_ops io) \<and> map pe_stream (idle_queue ''http://a:80'' io) = [7]"
  by code_simp

text \<open>A length that is declared after chunking leaves the field for chunks in place: the head promises chunks, and the body
  is sent without. In the other order both fields are sent.\<close>

definition mixed_framing :: "stream_setup list \<Rightarrow> stream_request" where
  "mixed_framing setups = demo_stream quiet_app setups [Se_action (Act_write ''hello''), Se_upload_written None]"

lemma chunked_then_length:
  "sr_request_headers (mixed_framing [Set_chunked, Set_content_length 5]) = [(''transfer-encoding'', ''chunked''), (''content-length'', ''5'')]"
  "Op_write 7 ''hello'' \<in> set (io_ops (sr_io (mixed_framing [Set_chunked, Set_content_length 5])))"
  "sr_request_headers (mixed_framing [Set_content_length 5, Set_chunked]) = [(''content-length'', ''5''), (''transfer-encoding'', ''chunked'')]"
  by code_simp+

section \<open>Connecting\<close>


end
