(* ===== verification/Client_Auth.thy ===== *)
theory Client_Auth
  imports Client_Pool WebSocket_Handshake
begin

text \<open>
  Credentials for a proxy, \<open>proxy_options::basic_auth\<close> of \<open>src/http/client.cpp\<close> with its own Base64 encoder, which agrees
  with the one of the WebSocket handshake.
\<close>

unbundle bit_operations_syntax

definition b64_at :: "32 word \<Rightarrow> char" where
  "b64_at i = b64_alphabet ! unat i"

definition uchar :: "char \<Rightarrow> 32 word" where
  "uchar c = ucast (of_char c :: byte)"

text \<open>The loop advances by three; a byte past the end is zero, and its digit is the padding.\<close>

fun base64_encode :: "string \<Rightarrow> string" where
  "base64_encode [] = []"
| "base64_encode (c0 # rest) =
     (let b0 = uchar c0;
          b1 = (case rest of c1 # _ \<Rightarrow> uchar c1 | [] \<Rightarrow> 0);
          b2 = (case rest of _ # c2 # _ \<Rightarrow> uchar c2 | _ \<Rightarrow> 0)
      in [b64_at (drop_bit 2 b0 AND 0x3f),
          b64_at (push_bit 4 (b0 AND 0x03) OR (drop_bit 4 b1 AND 0x0f)),
          if rest \<noteq> [] then b64_at (push_bit 2 (b1 AND 0x0f) OR (drop_bit 6 b2 AND 0x03)) else CHR ''='',
          if length rest \<ge> 2 then b64_at (b2 AND 0x3f) else CHR ''=''] @
         base64_encode (drop 2 rest))"

definition basic_auth :: "string \<Rightarrow> string \<Rightarrow> client_options \<Rightarrow> client_options" where
  "basic_auth user pass opts =
     opts\<lparr>co_proxy_authorization := ''Basic '' @ base64_encode (user @ '':'' @ pass)\<rparr>"

section \<open>The two encoders agree\<close>

lemma masks: "(0x03 :: 32 word) = mask 2" "(0x0f :: 32 word) = mask 4" "(0x3f :: 32 word) = mask 6"
  by (simp_all add: mask_eq_exp_minus_1)

lemma sextets:
  fixes b0 b1 b2 :: byte
  defines "v \<equiv> b64_value b0 b1 b2"
  shows "drop_bit 18 v AND 0x3f = drop_bit 2 (ucast b0) AND 0x3f"
    "drop_bit 12 v AND 0x3f = push_bit 4 (ucast b0 AND 0x03) OR (drop_bit 4 (ucast b1) AND 0x0f)"
    "drop_bit 6 v AND 0x3f = push_bit 2 (ucast b1 AND 0x0f) OR (drop_bit 6 (ucast b2) AND 0x03)"
    "v AND 0x3f = ucast b2 AND 0x3f"
  unfolding v_def b64_value_def masks
  subgoal by (rule bit_word_eqI) (auto simp: bit_simps add.commute dest: bit_imp_le_length)
  subgoal by (rule bit_word_eqI) (auto simp: bit_simps add.commute dest: bit_imp_le_length)
  subgoal by (rule bit_word_eqI, auto simp: bit_simps add.commute dest: bit_imp_le_length) (simp_all add: numeral_2_eq_2)
  subgoal by (rule bit_word_eqI) (auto simp: bit_simps add.commute dest: bit_imp_le_length)
  done

lemma base64_encode_agrees: "base64_encode s = base64 (map of_char s)"
proof (induction s rule: length_induct)
  case (1 s)
  note sextets = sextets [of "of_char _" "of_char _" "of_char _"] sextets [of "of_char _" "of_char _" 0] sextets [of "of_char _" 0 0]
  show ?case
  proof (cases s)
    case (Cons c0 rest)
    then show ?thesis
    proof (cases rest)
      case (Cons c1 rest')
      then show ?thesis using \<open>s = c0 # rest\<close> 1
        by (cases rest') (simp_all add: b64_char_def b64_at_def uchar_def sextets Let_def)
    qed (simp add: b64_char_def b64_at_def uchar_def sextets Let_def)
  qed simp
qed

text \<open>A proxy that decodes the credentials gets the user name, a colon and the password.\<close>

lemma basic_auth_decodes:
  "\<exists>encoded. co_proxy_authorization (basic_auth user pass opts) = ''Basic '' @ encoded \<and>
     base64_decode encoded = Some (map of_char (user @ '':'' @ pass))"
  by (simp add: basic_auth_def base64_encode_agrees base64_decode_base64)

end
