(* ===== verification/Http_Date.thy ===== *)
theory Http_Date
  imports Prelude
begin

text \<open>
  Dates in HTTP headers, \<open>format_http_date\<close>, \<open>parse_http_date\<close> and their helpers of \<open>src/http/static_files.cpp\<close>, with what they
  use of the C library: the calendar of \<open>gmtime\<close> and \<open>timegm\<close> and the fields of \<open>put_time\<close>. A \<open>time_t\<close> is an \<open>int\<close>, the
  fields of a \<open>tm\<close> that cannot be negative are \<open>nat\<close>. A date that was printed parses back to the same second.
\<close>

section \<open>The calendar\<close>

record tm =
  tm_sec :: nat
  tm_min :: nat
  tm_hour :: nat
  tm_mday :: nat
  tm_mon :: nat
  tm_year :: int
  tm_wday :: nat

definition leap_year :: "int \<Rightarrow> bool" where
  "leap_year y \<longleftrightarrow> (y mod 4 = 0 \<and> y mod 100 \<noteq> 0) \<or> y mod 400 = 0"

definition year_length :: "int \<Rightarrow> int" where
  "year_length y = (if leap_year y then 366 else 365)"

definition month_lengths :: "bool \<Rightarrow> int list" where
  "month_lengths leap = [31, if leap then 29 else 28, 31, 30, 31, 30, 31, 31, 30, 31, 30, 31]"

text \<open>The days from the first of January of 1970 to that of a year.\<close>

definition days_before_year :: "int \<Rightarrow> int" where
  "days_before_year y = 365 * (y - 1970) + (y - 1969) div 4 - (y - 1901) div 100 + (y - 1601) div 400"

text \<open>The year of a day that is counted from the first day of year \<open>y\<close>, and its number in that year.\<close>

function find_year :: "int \<Rightarrow> int \<Rightarrow> int \<times> int" where
  "find_year y d =
     (if d < 0 then find_year (y - 1) (d + year_length (y - 1))
      else if d < year_length y then (y, d)
      else find_year (y + 1) (d - year_length y))"
  by pat_completeness auto
termination
  by (relation "measure (\<lambda>(y, d). if d < 0 then nat (- d) + 400 else nat d)") (auto simp: year_length_def split: if_splits)

declare find_year.simps [simp del]

fun find_month :: "int list \<Rightarrow> int \<Rightarrow> nat \<times> int" where
  "find_month [] d = (0, d)"
| "find_month (l # ls) d = (if d < l then (0, d) else let (m, d) = find_month ls (d - l) in (Suc m, d))"

definition gmtime :: "int \<Rightarrow> tm" where
  "gmtime t =
     (let days = t div 86400;
          secs = nat (t mod 86400);
          (year, yday) = find_year 1970 days;
          (month, mday) = find_month (month_lengths (leap_year year)) yday
      in \<lparr>tm_sec = secs mod 60, tm_min = secs div 60 mod 60, tm_hour = secs div 3600, tm_mday = nat mday + 1,
          tm_mon = month, tm_year = year - 1900, tm_wday = nat ((days + 4) mod 7)\<rparr>)"

definition timegm :: "tm \<Rightarrow> int" where
  "timegm tm =
     (let year = tm_year tm + 1900;
          days = days_before_year year + sum_list (take (tm_mon tm) (month_lengths (leap_year year))) + int (tm_mday tm) - 1
      in days * 86400 + int (tm_hour tm) * 3600 + int (tm_min tm) * 60 + int (tm_sec tm))"

section \<open>Printing\<close>

definition months :: "string list" where
  "months = [''Jan'', ''Feb'', ''Mar'', ''Apr'', ''May'', ''Jun'', ''Jul'', ''Aug'', ''Sep'', ''Oct'', ''Nov'', ''Dec'']"

definition weekdays :: "string list" where
  "weekdays = [''Sun'', ''Mon'', ''Tue'', ''Wed'', ''Thu'', ''Fri'', ''Sat'']"

definition two_digits :: "nat \<Rightarrow> string" where
  "two_digits n = [digit_char (n div 10), digit_char (n mod 10)]"

definition print_int :: "int \<Rightarrow> string" where
  "print_int n = (if n < 0 then CHR ''-'' # print_number 10 (nat (- n)) else print_number 10 (nat n))"

text \<open>\<open>put_time\<close> with \<open>%a, %d %b %Y %H:%M:%S GMT\<close>.\<close>

definition put_http_date :: "tm \<Rightarrow> string" where
  "put_http_date tm =
     weekdays ! tm_wday tm @ '', '' @ two_digits (tm_mday tm) @ '' '' @ months ! tm_mon tm @ '' '' @ print_int (tm_year tm + 1900)
     @ '' '' @ two_digits (tm_hour tm) @ '':'' @ two_digits (tm_min tm) @ '':'' @ two_digits (tm_sec tm) @ '' GMT''"

definition format_http_date :: "int \<Rightarrow> string" where
  "format_http_date t = put_http_date (gmtime t)"

section \<open>Parsing\<close>

definition month_index :: "string \<Rightarrow> nat option" where
  "month_index v = index_of (\<lambda>m. v = m) months"

definition char_digit :: "char \<Rightarrow> nat" where
  "char_digit c = of_char c - 48"

definition parse_2digits :: "string \<Rightarrow> nat option" where
  "parse_2digits v =
     (if length v \<noteq> 2 \<or> \<not> is_digit (v ! 0) \<or> \<not> is_digit (v ! 1) then None
      else Some (char_digit (v ! 0) * 10 + char_digit (v ! 1)))"

fun parse_digits_loop :: "nat \<Rightarrow> string \<Rightarrow> nat option" where
  "parse_digits_loop n [] = Some n"
| "parse_digits_loop n (c # cs) = (if \<not> is_digit c then None else parse_digits_loop (n * 10 + char_digit c) cs)"

definition parse_4digits :: "string \<Rightarrow> nat option" where
  "parse_4digits v = (if length v \<noteq> 4 then None else parse_digits_loop 0 v)"

definition imf_shape :: "string \<Rightarrow> bool" where
  "imf_shape v \<longleftrightarrow>
     length v = 29 \<and> sv_substr v 3 2 = '', '' \<and> v ! 7 = CHR '' '' \<and> v ! 11 = CHR '' '' \<and> v ! 16 = CHR '' ''
     \<and> v ! 19 = CHR '':'' \<and> v ! 22 = CHR '':'' \<and> drop 25 v = '' GMT''"

definition parse_http_date_tm :: "string \<Rightarrow> tm option" where
  "parse_http_date_tm v =
     (if \<not> imf_shape v then None
      else case (parse_2digits (sv_substr v 5 2), parse_4digits (sv_substr v 12 4), parse_2digits (sv_substr v 17 2),
                 parse_2digits (sv_substr v 20 2), parse_2digits (sv_substr v 23 2)) of
             (Some day, Some year, Some hour, Some minute, Some second) \<Rightarrow>
               (case month_index (sv_substr v 8 3) of
                  None \<Rightarrow> None
                | Some month \<Rightarrow>
                    if day < 1 \<or> day > 31 \<or> hour > 23 \<or> minute > 59 \<or> second > 60 \<or> year < 1970 then None
                    else Some \<lparr>tm_sec = second, tm_min = minute, tm_hour = hour, tm_mday = day, tm_mon = month,
                               tm_year = int year - 1900, tm_wday = 0\<rparr>)
           | _ \<Rightarrow> None)"

definition parse_http_date :: "string \<Rightarrow> int option" where
  "parse_http_date v = map_option timegm (parse_http_date_tm v)"

section \<open>The calendar is inverted\<close>

lemma div_add_one: "0 < k \<Longrightarrow> (x + 1) div k = x div k + (if (x + 1) mod k = 0 then 1 else 0)" for x k :: int
proof -
  assume k: "0 < k"
  have x: "x = k * (x div k) + x mod k" and r: "0 \<le> x mod k" "x mod k < k" using k by simp_all
  show ?thesis
  proof (cases "x mod k + 1 = k")
    case True
    have "(x div k + 1) * k = k * (x div k) + k" by (simp add: algebra_simps)
    then have "x + 1 = (x div k + 1) * k" using x True by linarith
    then show ?thesis using k by simp
  next
    case False
    then have r1: "0 \<le> x mod k + 1" "x mod k + 1 < k" using r by simp_all
    have x1: "x + 1 = k * (x div k) + (x mod k + 1)" using x by simp
    have "(x + 1) div k = x div k" "(x + 1) mod k = x mod k + 1"
      using int_div_pos_eq [OF x1 r1] int_mod_pos_eq [OF x1 r1] by simp_all
    then show ?thesis using r by simp
  qed
qed

lemma days_before_year_Suc: "days_before_year (y + 1) = days_before_year y + year_length y"
proof -
  define P Q R where PQR: "P \<longleftrightarrow> y mod 4 = 0" "Q \<longleftrightarrow> y mod 100 = 0" "R \<longleftrightarrow> y mod 400 = 0"
  have four: "(y + 1 - 1969) div 4 = (y - 1969) div 4 + (if P then 1 else 0)"
    using div_add_one [of 4 "y - 1969"] mod_diff_eq [of y 4 1968] by (simp add: PQR)
  have hundred: "(y + 1 - 1901) div 100 = (y - 1901) div 100 + (if Q then 1 else 0)"
    using div_add_one [of 100 "y - 1901"] mod_diff_eq [of y 100 1900] by (simp add: PQR)
  have years: "(y + 1 - 1601) div 400 = (y - 1601) div 400 + (if R then 1 else 0)"
    using div_add_one [of 400 "y - 1601"] mod_diff_eq [of y 400 1600] by (simp add: PQR)
  have total: "(if P then 1 else 0) - (if Q then 1 else 0) + (if R then 1 else 0) = year_length y - 365"
  proof -
    have "Q \<Longrightarrow> P" using dvd_trans [of 4 100 y] by (simp add: PQR mod_eq_0_iff_dvd)
    moreover have "R \<Longrightarrow> Q" using dvd_trans [of 100 400 y] by (simp add: PQR mod_eq_0_iff_dvd)
    moreover have "leap_year y \<longleftrightarrow> (P \<and> \<not> Q) \<or> R" by (simp add: leap_year_def PQR)
    ultimately show ?thesis by (auto simp: year_length_def)
  qed
  have "365 * (y + 1 - 1970) + a' - b' + c' = 365 * (y - 1970) + a - b + c + l"
    if "a' = a + p" "b' = b + q" "c' = c + r" "p - q + r = l - 365" for a b c a' b' c' p q r l :: int
    using that by (simp add: algebra_simps)
  from this [OF four hundred years total] show ?thesis unfolding days_before_year_def .
qed

lemma find_year_days:
  "find_year y d = (y', d') \<Longrightarrow> 0 \<le> d' \<and> d' < year_length y' \<and> days_before_year y' + d' = days_before_year y + d"
proof (induction y d rule: find_year.induct)
  case (1 y d)
  consider (before) "d < 0" | (here) "0 \<le> d" "d < year_length y" | (after) "0 \<le> d" "year_length y \<le> d" by linarith
  then show ?case
  proof cases
    case before
    then have "find_year (y - 1) (d + year_length (y - 1)) = (y', d')" using "1.prems" by (simp add: find_year.simps [of y d])
    from "1.IH"(1) [OF before this] show ?thesis using days_before_year_Suc [of "y - 1"] by simp
  next
    case here
    then show ?thesis using "1.prems" by (simp add: find_year.simps [of y d])
  next
    case after
    then have "find_year (y + 1) (d - year_length y) = (y', d')" using "1.prems" by (simp add: find_year.simps [of y d])
    moreover have "\<not> d < 0" "\<not> d < year_length y" using after by simp_all
    ultimately show ?thesis using "1.IH"(2) days_before_year_Suc [of y] by simp
  qed
qed

lemma find_month_days:
  assumes "find_month ls d = (m, d')" and "0 \<le> d" and "d < sum_list ls"
  shows "m < length ls \<and> 0 \<le> d' \<and> d' < ls ! m \<and> sum_list (take m ls) + d' = d"
  using assms
proof (induction ls arbitrary: d m)
  case Nil
  then show ?case by simp
next
  case (Cons l ls)
  show ?case
  proof (cases "d < l")
    case True
    with Cons.prems show ?thesis by auto
  next
    case False
    obtain k e where "find_month ls (d - l) = (k, e)" by (cases "find_month ls (d - l)")
    with False Cons.prems Cons.IH [of "d - l" k] show ?thesis by auto
  qed
qed

lemma sum_month_lengths: "sum_list (month_lengths (leap_year y)) = year_length y"
  by (simp add: month_lengths_def year_length_def)

lemma month_lengths_le: "m < 12 \<Longrightarrow> month_lengths leap ! m \<le> 31"
  by (auto simp: month_lengths_def nth_Cons' less_Suc_eq numeral_eq_Suc)

lemma day_seconds: "n = n div 3600 * 3600 + n div 60 mod 60 * 60 + n mod 60" for n :: nat
proof -
  have "n div 60 div 60 = n div 3600" by (simp add: div_mult2_eq [symmetric])
  then show ?thesis using div_mult_mod_eq [of n 60] div_mult_mod_eq [of "n div 60" 60] by linarith
qed

lemma gmtime_fields:
  fixes t :: int
  defines "tm \<equiv> gmtime t"
  shows "tm_mon tm < 12" "1 \<le> tm_mday tm" "tm_mday tm \<le> 31" "tm_hour tm < 24" "tm_min tm < 60" "tm_sec tm < 60" "tm_wday tm < 7"
    and "timegm tm = t"
proof -
  obtain year yday where y: "find_year 1970 (t div 86400) = (year, yday)" by fastforce
  obtain m d where m: "find_month (month_lengths (leap_year year)) yday = (m, d)" by fastforce
  note year = find_year_days [OF y]
  have month: "m < 12 \<and> 0 \<le> d \<and> d < month_lengths (leap_year year) ! m \<and>
      sum_list (take m (month_lengths (leap_year year))) + d = yday"
    using find_month_days [OF m] year by (simp add: sum_month_lengths) (simp add: month_lengths_def)
  define secs where "secs = nat (t mod 86400)"
  have secs: "secs < 86400" "int secs = t mod 86400" by (simp_all add: secs_def nat_less_iff)
  have tm: "tm = \<lparr>tm_sec = secs mod 60, tm_min = secs div 60 mod 60, tm_hour = secs div 3600, tm_mday = nat d + 1,
      tm_mon = m, tm_year = year - 1900, tm_wday = nat ((t div 86400 + 4) mod 7)\<rparr>"
    by (simp add: tm_def gmtime_def y m secs_def Let_def)
  show "tm_mon tm < 12" "1 \<le> tm_mday tm" "tm_min tm < 60" "tm_sec tm < 60" using month by (simp_all add: tm)
  show "tm_mday tm \<le> 31" using month month_lengths_le [of m "leap_year year"] by (simp add: tm) linarith
  show "tm_hour tm < 24" using secs by (simp add: tm)
  show "tm_wday tm < 7" by (simp add: tm nat_less_iff)
  have "t = t div 86400 * 86400 + int secs" by (simp add: secs)
  also have "int secs = int (secs div 3600 * 3600 + secs div 60 mod 60 * 60 + secs mod 60)"
    using day_seconds [of secs] by (rule arg_cong)
  finally show "timegm tm = t"
    using month year by (simp add: timegm_def tm days_before_year_def [of 1970] Let_def)
qed

lemma days_before_year_mono: "y \<le> y' \<Longrightarrow> days_before_year y \<le> days_before_year y'"
proof (induction "nat (y' - y)" arbitrary: y')
  case (Suc n)
  have "days_before_year y \<le> days_before_year (y' - 1)" using Suc.hyps(2) Suc.prems by (intro Suc.hyps(1)) auto
  also have "\<dots> \<le> days_before_year y'" using days_before_year_Suc [of "y' - 1"] by (simp add: year_length_def)
  finally show ?case .
qed simp

text \<open>The first second of the year 10000 is 253402300800.\<close>

lemma gmtime_year:
  assumes "0 \<le> t" and "t < 253402300800"
  shows "70 \<le> tm_year (gmtime t)" and "tm_year (gmtime t) < 8100"
proof -
  obtain year yday where y: "find_year 1970 (t div 86400) = (year, yday)" by fastforce
  note year = find_year_days [OF y]
  have ty: "tm_year (gmtime t) = year - 1900" by (simp add: gmtime_def y Let_def split: prod.split)
  have days: "0 \<le> t div 86400" "t div 86400 < 2932897" using assms by (simp_all add: pos_imp_zdiv_nonneg_iff)
  have sum: "days_before_year year + yday = t div 86400" using year by (simp add: days_before_year_def [of 1970])
  show "70 \<le> tm_year (gmtime t)"
  proof (rule ccontr)
    assume "\<not> ?thesis"
    then have "days_before_year (year + 1) \<le> days_before_year 1970" using ty by (intro days_before_year_mono) simp
    then show False using sum days year days_before_year_Suc [of year] by (simp add: days_before_year_def [of 1970])
  qed
  show "tm_year (gmtime t) < 8100"
  proof (rule ccontr)
    assume "\<not> ?thesis"
    then have "days_before_year 10000 \<le> days_before_year year" using ty by (intro days_before_year_mono) simp
    then show False using sum days year by (simp add: days_before_year_def [of 10000])
  qed
qed

section \<open>Printed dates are read back\<close>

lemma is_digit_digit_char: "d < 10 \<Longrightarrow> is_digit (digit_char d) \<and> char_digit (digit_char d) = d"
proof -
  assume "d < 10"
  then have "d = 0 \<or> d = 1 \<or> d = 2 \<or> d = 3 \<or> d = 4 \<or> d = 5 \<or> d = 6 \<or> d = 7 \<or> d = 8 \<or> d = 9" by presburger
  then show ?thesis by (elim disjE) (simp_all add: is_digit_def digit_char_def char_digit_def char_of_def bit_0)
qed

lemma parse_two_digits: "n < 100 \<Longrightarrow> parse_2digits (two_digits n) = Some n"
  by (simp add: parse_2digits_def two_digits_def is_digit_digit_char)

lemma print_number_4digits:
  assumes "1000 \<le> n" and "n < 10000"
  shows "print_number 10 n = [digit_char (n div 1000), digit_char (n div 100 mod 10), digit_char (n div 10 mod 10), digit_char (n mod 10)]"
proof -
  have "\<not> n div 10 < 10" "\<not> n div 100 < 10" "n div 1000 < 10" using assms by auto
  moreover have "n div 10 div 10 = n div 100" "n div 100 div 10 = n div 1000" by (simp_all add: div_mult2_eq [symmetric])
  ultimately show ?thesis using assms
    by (subst print_number.simps, subst print_number.simps, subst print_number.simps, subst print_number.simps) simp
qed

lemma parse_four_digits:
  assumes "1000 \<le> n" and "n < 10000"
  shows "parse_4digits (print_number 10 n) = Some n"
proof -
  have "((n div 1000 * 10 + n div 100 mod 10) * 10 + n div 10 mod 10) * 10 + n mod 10 = n"
    using div_mult_mod_eq [of n 10] div_mult_mod_eq [of "n div 10" 10] div_mult_mod_eq [of "n div 100" 10]
    by (simp add: div_mult2_eq [symmetric])
  moreover have "n div 1000 < 10" using assms by auto
  ultimately show ?thesis using assms
    by (simp add: print_number_4digits parse_4digits_def is_digit_digit_char)
qed

lemma month_index_months: "m < 12 \<Longrightarrow> month_index (months ! m) = Some m"
  by (auto simp: month_index_def months_def nth_Cons' less_Suc_eq numeral_eq_Suc)

lemma length_months: "m < 12 \<Longrightarrow> length (months ! m) = 3"
  by (auto simp: months_def nth_Cons' less_Suc_eq numeral_eq_Suc)

lemma length_weekdays: "w < 7 \<Longrightarrow> length (weekdays ! w) = 3"
  by (auto simp: weekdays_def nth_Cons' less_Suc_eq numeral_eq_Suc)

lemma length_3: "length xs = 3 \<longleftrightarrow> (\<exists>a b c. xs = [a, b, c])"
  by (auto simp: length_Suc_conv numeral_eq_Suc)

lemma length_4: "length xs = 4 \<longleftrightarrow> (\<exists>a b c d. xs = [a, b, c, d])"
  by (auto simp: length_Suc_conv numeral_eq_Suc)

lemma parse_put_http_date:
  assumes tm: "tm_mon tm < 12" "1 \<le> tm_mday tm" "tm_mday tm \<le> 31" "tm_hour tm < 24" "tm_min tm < 60" "tm_sec tm < 60" "tm_wday tm < 7"
    and year: "70 \<le> tm_year tm" "tm_year tm < 8100"
  shows "parse_http_date_tm (put_http_date tm) = Some (tm\<lparr>tm_wday := 0\<rparr>)"
proof -
  obtain a b c where w: "weekdays ! tm_wday tm = [a, b, c]" using length_weekdays [OF tm(7)] by (auto simp: length_3)
  obtain p q r where m: "months ! tm_mon tm = [p, q, r]" using length_months [OF tm(1)] by (auto simp: length_3)
  have mi: "month_index [p, q, r] = Some (tm_mon tm)" using month_index_months [OF tm(1)] by (simp add: m)
  define y where "y = nat (tm_year tm + 1900)"
  have y: "1000 \<le> y" "y < 10000" "\<not> y < 1970" "int y = tm_year tm + 1900" using year by (simp_all add: y_def)
  obtain y1 y2 y3 y4 where p4: "print_number 10 y = [y1, y2, y3, y4]" using print_number_4digits [OF y(1,2)] by blast
  have pi: "print_int (tm_year tm + 1900) = [y1, y2, y3, y4]" using year p4 by (simp add: print_int_def y_def)
  have y4: "parse_4digits [y1, y2, y3, y4] = Some y" using parse_four_digits [OF y(1,2)] by (simp add: p4)
  have two: "parse_2digits [digit_char (n div 10), digit_char (n mod 10)] = Some n" if "n < 100" for n
    using parse_two_digits [OF that] by (simp add: two_digits_def)
  have shape: "imf_shape (put_http_date tm)"
    by (simp add: imf_shape_def put_http_date_def w m pi two_digits_def sv_substr_def)
  have "sv_substr (put_http_date tm) 8 3 = [p, q, r]" "sv_substr (put_http_date tm) 12 4 = [y1, y2, y3, y4]"
    "sv_substr (put_http_date tm) 5 2 = two_digits (tm_mday tm)" "sv_substr (put_http_date tm) 17 2 = two_digits (tm_hour tm)"
    "sv_substr (put_http_date tm) 20 2 = two_digits (tm_min tm)" "sv_substr (put_http_date tm) 23 2 = two_digits (tm_sec tm)"
    by (simp_all add: put_http_date_def w m pi two_digits_def sv_substr_def)
  then show ?thesis using tm shape y
    by (simp add: parse_http_date_tm_def parse_two_digits y4 mi)
qed

lemma timegm_wday [simp]: "timegm (tm\<lparr>tm_wday := w\<rparr>) = timegm tm"
  by (simp add: timegm_def)

text \<open>A modification time that the server prints as an HTTP date is read back as the same second, for every time from 1970 to the
  end of the year 9999: \<open>parse_http_date\<close> inverts \<open>format_http_date\<close>, through the calendar of \<open>gmtime\<close> and \<open>timegm\<close>.
\<close>

theorem http_date_roundtrip:
  assumes "0 \<le> t" and "t < 253402300800"
  shows "parse_http_date (format_http_date t) = Some t"
  using parse_put_http_date [OF gmtime_fields(1-7) gmtime_year [OF assms]] gmtime_fields(8) [of t]
  by (simp add: parse_http_date_def format_http_date_def)

theorem http_date_roundtrip_witness:
  "parse_http_date (format_http_date 784111777) = Some 784111777 \<and> format_http_date 784111777 = ''Sun, 06 Nov 1994 08:49:37 GMT''"
  using http_date_roundtrip [of 784111777]
  by (simp, simp add: format_http_date_def gmtime_def find_year.simps year_length_def leap_year_def month_lengths_def put_http_date_def
      weekdays_def months_def two_digits_def digit_char_def print_int_def print_number.simps Let_def char_of_def bit_0)

end
