(* ===== verification/Static_Files.thy ===== *)
theory Static_Files
  imports Http_Date Request Response
begin

text \<open>
  The handler that serves a directory, \<open>src/http/static_files.cpp\<close> and \<open>include/uvpp/protocols/http/static_files.hpp\<close>: its options,
  the part of a request that names a file, the resolution of that file below the root, conditional requests, the headers of an answer,
  and \<open>file_sender\<close>, which copies the file to a stream that may push back.

  The file system is a parameter, a record of the answers of the calls the code makes. A \<open>std::filesystem::path\<close> is the list of
  its elements, as its iterators give them. The conversion of a file time depends on two clocks, so the answer
  \<open>fs_modified\<close> is the \<open>time_t\<close> that \<open>file_time_to_time_t\<close> returns.
\<close>

section \<open>Options\<close>

datatype hidden_file_policy = Hidden_reject | Hidden_allow | Hidden_allow_well_known

datatype symlink_policy = Follow_within_root | Symlinks_reject

record static_file_options =
  sf_path_param :: string
  sf_index_file :: "string option"
  sf_hidden_files :: hidden_file_policy
  sf_symlinks :: symlink_policy
  sf_cache_control :: "string option"
  sf_etag :: bool
  sf_last_modified :: bool
  sf_nosniff :: bool
  sf_chunk_size :: nat

definition default_static_options :: static_file_options where
  "default_static_options = \<lparr>sf_path_param = ''path'', sf_index_file = Some ''index.html'', sf_hidden_files = Hidden_reject,
     sf_symlinks = Follow_within_root, sf_cache_control = Some ''no-cache'', sf_etag = True, sf_last_modified = True,
     sf_nosniff = True, sf_chunk_size = 64 * 1024\<rparr>"

definition contains_path_separator :: "string \<Rightarrow> bool" where
  "contains_path_separator v \<longleftrightarrow> sv_find (CHR ''/'') v \<noteq> None \<or> sv_find (CHR 0x5C) v \<noteq> None"

text \<open>The two checks say whether the argument is taken; if not, \<open>std::invalid_argument\<close> is thrown.\<close>

definition require_path_param :: "string \<Rightarrow> bool" where
  "require_path_param v \<longleftrightarrow> \<not> (v = [] \<or> contains_path_separator v \<or> hd v = CHR '':'' \<or> hd v = CHR ''*'')"

definition require_index_file :: "string \<Rightarrow> bool" where
  "require_index_file v \<longleftrightarrow>
     \<not> (v = [] \<or> v = ''.'' \<or> v = ''..'' \<or> contains_path_separator v \<or> sv_find (CHR 0x00) v \<noteq> None)"

type_synonym options_result = "res_exn + static_file_options"

definition set_path_param :: "string \<Rightarrow> static_file_options \<Rightarrow> options_result" where
  "set_path_param v opts =
     (if \<not> require_path_param v then Inl (Invalid_argument ''static file path_param must be a route parameter name'')
      else Inr (opts\<lparr>sf_path_param := v\<rparr>))"

definition set_index_file :: "string \<Rightarrow> static_file_options \<Rightarrow> options_result" where
  "set_index_file v opts =
     (if \<not> require_index_file v then Inl (Invalid_argument ''static file index_file must be a file name'')
      else Inr (opts\<lparr>sf_index_file := Some v\<rparr>))"

definition set_no_index_file :: "static_file_options \<Rightarrow> options_result" where
  "set_no_index_file opts = Inr (opts\<lparr>sf_index_file := None\<rparr>)"

definition set_hidden_files :: "hidden_file_policy \<Rightarrow> static_file_options \<Rightarrow> options_result" where
  "set_hidden_files v opts = Inr (opts\<lparr>sf_hidden_files := v\<rparr>)"

definition set_symlinks :: "symlink_policy \<Rightarrow> static_file_options \<Rightarrow> options_result" where
  "set_symlinks v opts = Inr (opts\<lparr>sf_symlinks := v\<rparr>)"

definition set_cache_control :: "string \<Rightarrow> static_file_options \<Rightarrow> options_result" where
  "set_cache_control v opts =
     (if v = [] then Inl (Invalid_argument ''static file cache_control must not be empty'')
      else Inr (opts\<lparr>sf_cache_control := Some v\<rparr>))"

definition set_no_cache_control :: "static_file_options \<Rightarrow> options_result" where
  "set_no_cache_control opts = Inr (opts\<lparr>sf_cache_control := None\<rparr>)"

definition set_etag :: "bool \<Rightarrow> static_file_options \<Rightarrow> options_result" where
  "set_etag v opts = Inr (opts\<lparr>sf_etag := v\<rparr>)"

definition set_last_modified :: "bool \<Rightarrow> static_file_options \<Rightarrow> options_result" where
  "set_last_modified v opts = Inr (opts\<lparr>sf_last_modified := v\<rparr>)"

definition set_nosniff :: "bool \<Rightarrow> static_file_options \<Rightarrow> options_result" where
  "set_nosniff v opts = Inr (opts\<lparr>sf_nosniff := v\<rparr>)"

definition set_chunk_size :: "nat \<Rightarrow> static_file_options \<Rightarrow> options_result" where
  "set_chunk_size v opts =
     (if v = 0 \<or> v > 2 ^ 63 - 1 then Inl (Invalid_argument ''static file chunk_size must be greater than zero'')
      else Inr (opts\<lparr>sf_chunk_size := v\<rparr>))"

section \<open>The file system\<close>

type_synonym path = "string list"

datatype fs_error = Permission_denied | Other_fs_error nat

datatype file_type = Regular_file | Directory | Other_type

record file_system =
  fs_canonical :: "path \<Rightarrow> fs_error + path"
  fs_is_symlink :: "path \<Rightarrow> fs_error + bool"
  fs_status :: "path \<Rightarrow> fs_error + file_type"
  fs_size :: "path \<Rightarrow> fs_error + nat"
  fs_modified :: "path \<Rightarrow> fs_error + int"
  fs_open :: "path \<Rightarrow> (string \<times> bool) option"

text \<open>
  \<open>fs_open\<close> gives the bytes of a file and whether a read beyond them fails instead of reporting the end of the file.

  \<open>operator/=\<close> with a name that is not empty and has no separator, which is how the code uses it, appends the name.
\<close>

definition path_append :: "path \<Rightarrow> string \<Rightarrow> path" where
  "path_append p name = p @ [name]"

fun is_relative_to :: "path \<Rightarrow> path \<Rightarrow> bool" where
  "is_relative_to p [] = True"
| "is_relative_to [] (r # root) = False"
| "is_relative_to (x # p) (r # root) = (if x \<noteq> r then False else is_relative_to p root)"

text \<open>\<open>path::extension\<close> of the last element.\<close>

definition path_extension :: "path \<Rightarrow> string" where
  "path_extension p =
     (let name = (if p = [] then [] else last p)
      in if name = ''.'' \<or> name = ''..'' then []
         else case sv_rfind (CHR ''.'') name of None \<Rightarrow> [] | Some i \<Rightarrow> if i = 0 then [] else drop i name)"

definition to_lower :: "string \<Rightarrow> string" where
  "to_lower v = map tolower v"

definition content_type_mappings :: "(string \<times> string) list" where
  "content_type_mappings =
     [(''.html'', ''text/html; charset=utf-8''), (''.htm'', ''text/html; charset=utf-8''),
      (''.css'', ''text/css; charset=utf-8''), (''.js'', ''text/javascript; charset=utf-8''),
      (''.mjs'', ''text/javascript; charset=utf-8''), (''.json'', ''application/json; charset=utf-8''),
      (''.map'', ''application/json; charset=utf-8''), (''.txt'', ''text/plain; charset=utf-8''),
      (''.svg'', ''image/svg+xml''), (''.png'', ''image/png''), (''.jpg'', ''image/jpeg''), (''.jpeg'', ''image/jpeg''),
      (''.gif'', ''image/gif''), (''.webp'', ''image/webp''), (''.ico'', ''image/x-icon''), (''.wasm'', ''application/wasm''),
      (''.pdf'', ''application/pdf''), (''.xml'', ''application/xml; charset=utf-8'')]"

definition content_type_for_extension :: "string \<Rightarrow> string" where
  "content_type_for_extension extension =
     (case map_of content_type_mappings extension of Some t \<Rightarrow> t | None \<Rightarrow> ''application/octet-stream'')"

section \<open>The name of the file in the request\<close>

definition is_hidden_component :: "string \<Rightarrow> bool" where
  "is_hidden_component v \<longleftrightarrow> v \<noteq> [] \<and> hd v = CHR ''.''"

text \<open>The loop of \<open>hidden_allowed\<close>, with the index of the first component it looks at.\<close>

fun hidden_loop :: "hidden_file_policy \<Rightarrow> nat \<Rightarrow> string list \<Rightarrow> bool" where
  "hidden_loop policy i [] = True"
| "hidden_loop policy i (c # cs) =
     (if \<not> is_hidden_component c then hidden_loop policy (Suc i) cs
      else if policy = Hidden_allow_well_known \<and> i = 0 \<and> c = ''.well-known'' then hidden_loop policy (Suc i) cs
      else False)"

definition hidden_allowed :: "string list \<Rightarrow> hidden_file_policy \<Rightarrow> bool" where
  "hidden_allowed components policy = (if policy = Hidden_allow then True else hidden_loop policy 0 components)"

definition is_safe_component :: "string \<Rightarrow> bool" where
  "is_safe_component v =
     (if v = [] \<or> v = ''.'' \<or> v = ''..'' \<or> contains_path_separator v \<or> sv_find (CHR 0x00) v \<noteq> None then False else True)"

function pattern_segments :: "string \<Rightarrow> string list" where
  "pattern_segments pattern =
     (if pattern = [] then []
      else let next = sv_find (CHR ''/'') pattern;
               segment = sv_until pattern next;
               here = (if segment \<noteq> [] then [segment] else [])
           in case next of None \<Rightarrow> here | Some i \<Rightarrow> here @ pattern_segments (drop (Suc i) pattern))"
  by pat_completeness auto
termination
  by (relation "measure length") (auto dest: sv_find_less)

declare pattern_segments.simps [simp del]

definition request_tail_components :: "request \<Rightarrow> static_file_options \<Rightarrow> string list option" where
  "request_tail_components req opts =
     (let pattern = pattern_segments (rq_pattern req);
          wildcard = CHR ''*'' # sf_path_param opts
      in case index_of (\<lambda>s. s = wildcard) pattern of
           None \<Rightarrow> None
         | Some prefix_size \<Rightarrow>
             let request_segments = rq_decoded_segments req
             in if prefix_size > length request_segments then None
                else let components = drop prefix_size request_segments
                     in if \<not> list_all is_safe_component components then None
                        else if \<not> hidden_allowed components (sf_hidden_files opts) then None
                        else Some components)"

section \<open>Resolving it\<close>

text \<open>A failure carries the error code the caller finds, if one was set.\<close>

fun walk_components :: "file_system \<Rightarrow> symlink_policy \<Rightarrow> path \<Rightarrow> string list \<Rightarrow> fs_error option + path" where
  "walk_components fs symlinks candidate [] = Inr candidate"
| "walk_components fs symlinks candidate (component # components) =
     (let candidate = path_append candidate component
      in if symlinks = Symlinks_reject then
           (case fs_is_symlink fs candidate of
              Inl ec \<Rightarrow> Inl (Some ec)
            | Inr True \<Rightarrow> Inl None
            | Inr False \<Rightarrow> walk_components fs symlinks candidate components)
         else walk_components fs symlinks candidate components)"

definition resolve_existing_target :: "file_system \<Rightarrow> path \<Rightarrow> string list \<Rightarrow> symlink_policy \<Rightarrow> fs_error option + path" where
  "resolve_existing_target fs root components symlinks =
     (case fs_canonical fs root of
        Inl ec \<Rightarrow> Inl (Some ec)
      | Inr canonical_root \<Rightarrow>
          (case walk_components fs symlinks canonical_root components of
             Inl ec \<Rightarrow> Inl ec
           | Inr candidate \<Rightarrow>
               (case fs_canonical fs candidate of
                  Inl ec \<Rightarrow> Inl (Some ec)
                | Inr canonical_candidate \<Rightarrow>
                    if \<not> is_relative_to canonical_candidate canonical_root then Inl None else Inr canonical_candidate)))"

section \<open>Conditional requests\<close>

text \<open>\<open>std::hex\<close> prints a negative \<open>long long\<close> as its 64 bits.\<close>

definition make_etag :: "nat \<Rightarrow> int \<Rightarrow> string" where
  "make_etag n modified =
     ''W/'' @ [CHR 0x22] @ print_number 16 n @ ''-'' @ print_number 16 (nat (modified mod 2 ^ 64)) @ [CHR 0x22]"

definition c_isspace :: "char \<Rightarrow> bool" where
  "c_isspace c \<longleftrightarrow> ord c = 32 \<or> (9 \<le> ord c \<and> ord c \<le> 13)"

definition trim_space :: "string \<Rightarrow> string" where
  "trim_space v = rev (dropWhile c_isspace (rev (dropWhile c_isspace v)))"

function if_none_match_matches :: "string \<Rightarrow> string \<Rightarrow> bool" where
  "if_none_match_matches header etag =
     (let next = sv_find (CHR '','') header;
          item = trim_space (sv_until header next)
      in if item = ''*'' \<or> item = etag then True
         else case next of None \<Rightarrow> False | Some i \<Rightarrow> if_none_match_matches (drop (Suc i) header) etag)"
  by pat_completeness auto
termination
  by (relation "measure (\<lambda>(header, etag). length header)") (auto dest: sv_find_less [OF sym])

declare if_none_match_matches.simps [simp del]

definition is_not_modified :: "request \<Rightarrow> string \<Rightarrow> int option \<Rightarrow> bool" where
  "is_not_modified req etag modified =
     (let if_none_match = rq_header req ''if-none-match''
      in if if_none_match \<noteq> [] \<and> etag \<noteq> [] then if_none_match_matches if_none_match etag
         else case modified of
                None \<Rightarrow> False
              | Some t \<Rightarrow>
                  let if_modified_since = rq_header req ''if-modified-since''
                  in if if_modified_since = [] then False
                     else case parse_http_date if_modified_since of None \<Rightarrow> False | Some since \<Rightarrow> since \<ge> t)"

section \<open>Copying a file to a stream\<close>

text \<open>A \<open>std::ifstream\<close>: what has not been read yet, and its state bits; \<open>ifs_fail\<close> stands for the fail and the bad bit.\<close>

record ifstream =
  ifs_open :: bool
  ifs_rest :: string
  ifs_broken :: bool
  ifs_eof :: bool
  ifs_fail :: bool

definition ifs_read :: "nat \<Rightarrow> ifstream \<Rightarrow> string \<times> ifstream" where
  "ifs_read n f =
     (if n \<le> length (ifs_rest f) then (take n (ifs_rest f), f\<lparr>ifs_rest := drop n (ifs_rest f)\<rparr>)
      else if ifs_broken f then ([], f\<lparr>ifs_rest := [], ifs_fail := True\<rparr>)
      else (ifs_rest f, f\<lparr>ifs_rest := [], ifs_eof := True, ifs_fail := True\<rparr>))"

text \<open>
  A sender: its file, the size of its buffer, the pieces its stream has accepted and how often it has ended the stream. The file is
  known by its path, which the code does not keep.
\<close>

record file_sender =
  sd_path :: path
  sd_file :: ifstream
  sd_chunk :: nat
  sd_written :: "string list"
  sd_ends :: nat

type_synonym stream_answers = "string list \<Rightarrow> string \<Rightarrow> stream_write_result"

definition sender_close :: "file_sender \<Rightarrow> file_sender" where
  "sender_close s = (if ifs_open (sd_file s) then s\<lparr>sd_file := (sd_file s)\<lparr>ifs_open := False\<rparr>\<rparr> else s)"

definition sender_end :: "file_sender \<Rightarrow> file_sender" where
  "sender_end s = (sender_close s)\<lparr>sd_ends := sd_ends s + 1\<rparr>"

text \<open>The loop of \<open>send_more\<close>; the answer of the stream to a write may depend on all that was written before.\<close>

function send_loop :: "stream_answers \<Rightarrow> file_sender \<Rightarrow> file_sender" where
  "send_loop answers s =
     (if ifs_fail (sd_file s) then (if ifs_eof (sd_file s) then sender_end s else s)
      else
        let (data, f) = ifs_read (sd_chunk s) (sd_file s);
            s = s\<lparr>sd_file := f\<rparr>
        in if data = [] then (if ifs_eof f then sender_end s else s)
           else
             let r = answers (sd_written s) data
             in if \<not> accepted r then sender_close s
                else
                  let s = s\<lparr>sd_written := sd_written s @ [data]\<rparr>
                  in if \<not> should_continue r then s else send_loop answers s)"
  by pat_completeness auto
termination
  by (relation "measure (\<lambda>(answers, s). length (ifs_rest (sd_file s)))") (auto simp: ifs_read_def split: if_splits)

declare send_loop.simps [simp del]

definition send_more :: "stream_answers \<Rightarrow> bool \<Rightarrow> file_sender \<Rightarrow> file_sender" where
  "send_more answers active s =
     (if \<not> ifs_open (sd_file s) \<or> \<not> active then sender_close s else send_loop answers s)"

text \<open>The callbacks of the stream; a drain is told with whether the stream is still active.\<close>

datatype sender_event = On_drain bool | On_cancel | On_error

fun sender_step :: "stream_answers \<Rightarrow> file_sender \<Rightarrow> sender_event \<Rightarrow> file_sender" where
  "sender_step answers s (On_drain active) = send_more answers active s"
| "sender_step answers s On_cancel = sender_close s"
| "sender_step answers s On_error = sender_close s"

definition make_file_sender :: "path \<Rightarrow> string \<times> bool \<Rightarrow> nat \<Rightarrow> file_sender" where
  "make_file_sender p file chunk_size =
     \<lparr>sd_path = p, sd_file = \<lparr>ifs_open = True, ifs_rest = fst file, ifs_broken = snd file, ifs_eof = False, ifs_fail = False\<rparr>,
      sd_chunk = chunk_size, sd_written = [], sd_ends = 0\<rparr>"

text \<open>\<open>start\<close> installs the callbacks on the response and sends what the stream takes.\<close>

definition sender_start :: "stream_answers \<Rightarrow> file_sender \<Rightarrow> response_state \<Rightarrow> response_state \<times> file_sender" where
  "sender_start answers s res =
     (let res = streaming_on_error (streaming_on_cancel (streaming_on_drain res))
      in (res, send_more answers (stream_lock res) s))"

section \<open>The handler\<close>

record static_file_handler =
  sh_root :: path
  sh_options :: static_file_options

definition new_static_file_handler :: "file_system \<Rightarrow> path \<Rightarrow> static_file_options \<Rightarrow> res_exn + static_file_handler" where
  "new_static_file_handler fs root opts =
     (if root = [] then Inl (Invalid_argument ''static file root must not be empty'')
      else if fs_status fs root \<noteq> Inr Directory then Inl (Invalid_argument ''static file root must be an existing directory'')
      else Inr \<lparr>sh_root = root, sh_options = opts\<rparr>)"

definition set_handler_options :: "static_file_options \<Rightarrow> static_file_handler \<Rightarrow> static_file_handler" where
  "set_handler_options opts h = h\<lparr>sh_options := opts\<rparr>"

text \<open>The other setters of a handler call that of its options.\<close>

definition handler_setter :: "(static_file_options \<Rightarrow> options_result) \<Rightarrow> static_file_handler \<Rightarrow> res_exn + static_file_handler" where
  "handler_setter setter h = map_sum id (\<lambda>opts. set_handler_options opts h) (setter (sh_options h))"

definition then_res :: "'e + 'a \<Rightarrow> ('a \<Rightarrow> 'e + 'b) \<Rightarrow> 'e + 'b" where
  "then_res r f = (case r of Inl e \<Rightarrow> Inl e | Inr x \<Rightarrow> f x)"

definition plain_answer :: "nat \<Rightarrow> string \<Rightarrow> response_state \<Rightarrow> res_result" where
  "plain_answer n body res =
     then_res (response_status n res) (\<lambda>res.
     then_res (response_type ''text/plain; charset=utf-8'' res) (\<lambda>res. response_text body res))"

definition file_not_found :: "response_state \<Rightarrow> res_result" where
  "file_not_found = plain_answer 404 (''Not Found'' @ [CHR 0x0A])"

definition file_internal_error :: "response_state \<Rightarrow> res_result" where
  "file_internal_error = plain_answer 500 (''Internal Server Error'' @ [CHR 0x0A])"

definition set_header_unless_present :: "string \<Rightarrow> string \<Rightarrow> response_state \<Rightarrow> res_result" where
  "set_header_unless_present name v res =
     (if \<not> headers_contains (rs_headers res) name then response_header name v res else Inr res)"

text \<open>How the search for a file ends when there is none: the answer that is sent.\<close>

datatype refusal = Refuse_not_found | Refuse_internal

definition refusal_of :: "fs_error option \<Rightarrow> refusal" where
  "refusal_of ec = (if ec = Some Permission_denied then Refuse_internal else Refuse_not_found)"

definition refuse :: "refusal \<Rightarrow> response_state \<Rightarrow> res_result" where
  "refuse r = (case r of Refuse_not_found \<Rightarrow> file_not_found | Refuse_internal \<Rightarrow> file_internal_error)"

definition target_status :: "file_system \<Rightarrow> static_file_handler \<Rightarrow> string list \<Rightarrow> refusal + path \<times> file_type" where
  "target_status fs h components =
     (case resolve_existing_target fs (sh_root h) components (sf_symlinks (sh_options h)) of
        Inl ec \<Rightarrow> Inl (refusal_of ec)
      | Inr target \<Rightarrow> (case fs_status fs target of Inl ec \<Rightarrow> Inl Refuse_internal | Inr st \<Rightarrow> Inr (target, st)))"

definition locate_file :: "file_system \<Rightarrow> static_file_handler \<Rightarrow> request \<Rightarrow> refusal + path" where
  "locate_file fs h req =
     (case request_tail_components req (sh_options h) of
        None \<Rightarrow> Inl Refuse_not_found
      | Some components \<Rightarrow>
          then_res (target_status fs h components) (\<lambda>(target, st).
          then_res
            (if st = Directory then
               (case sf_index_file (sh_options h) of
                  None \<Rightarrow> Inl Refuse_not_found
                | Some index \<Rightarrow>
                    let indexed_components = components @ [index]
                    in if \<not> hidden_allowed indexed_components (sf_hidden_files (sh_options h)) then Inl Refuse_not_found
                       else target_status fs h indexed_components)
             else Inr (target, st))
            (\<lambda>(target, st). if st \<noteq> Regular_file then Inl Refuse_not_found else Inr target)))"

text \<open>The headers a file has, whether it is sent or not modified.\<close>

definition validator_headers ::
    "static_file_options \<Rightarrow> string \<Rightarrow> int option \<Rightarrow> response_state \<Rightarrow> res_result" where
  "validator_headers opts etag modified res =
     then_res (case sf_cache_control opts of None \<Rightarrow> Inr res | Some v \<Rightarrow> set_header_unless_present ''cache-control'' v res) (\<lambda>res.
     then_res (if etag \<noteq> [] then response_header ''etag'' etag res else Inr res) (\<lambda>res.
     then_res (case modified of Some t \<Rightarrow> if sf_last_modified opts then response_header ''last-modified'' (format_http_date t) res else Inr res
                              | None \<Rightarrow> Inr res) (\<lambda>res.
     if sf_nosniff opts then set_header_unless_present ''x-content-type-options'' ''nosniff'' res else Inr res)))"

definition answer_not_modified :: "static_file_options \<Rightarrow> string \<Rightarrow> int option \<Rightarrow> response_state \<Rightarrow> res_result" where
  "answer_not_modified opts etag modified res =
     then_res (response_status 304 res) (\<lambda>res.
     then_res (validator_headers opts etag modified res) response_end)"

definition answer_headers ::
    "static_file_options \<Rightarrow> path \<Rightarrow> nat \<Rightarrow> string \<Rightarrow> int option \<Rightarrow> response_state \<Rightarrow> res_result" where
  "answer_headers opts target n etag modified res =
     then_res (set_header_unless_present ''content-type'' (content_type_for_extension (to_lower (path_extension target))) res) (\<lambda>res.
     then_res (response_header ''content-length'' (print_number 10 n) res) (\<lambda>res.
     validator_headers opts etag modified res))"

type_synonym serve_result = "res_exn \<times> response_state + response_state \<times> file_sender option"

definition no_sender :: "res_result \<Rightarrow> serve_result" where
  "no_sender r = map_sum id (\<lambda>res. (res, None)) r"

definition file_modified :: "file_system \<Rightarrow> path \<Rightarrow> int option" where
  "file_modified fs target = (case fs_modified fs target of Inl ec \<Rightarrow> None | Inr t \<Rightarrow> Some t)"

definition file_etag :: "static_file_options \<Rightarrow> nat \<Rightarrow> int option \<Rightarrow> string" where
  "file_etag opts n modified = (case modified of Some t \<Rightarrow> if sf_etag opts then make_etag n t else [] | None \<Rightarrow> [])"

definition serve_static_file ::
    "stream_answers \<Rightarrow> file_system \<Rightarrow> static_file_handler \<Rightarrow> request \<Rightarrow> response_state \<Rightarrow> serve_result" where
  "serve_static_file answers fs h req res =
     (let opts = sh_options h
      in case locate_file fs h req of
           Inl r \<Rightarrow> no_sender (refuse r res)
         | Inr target \<Rightarrow>
             (case fs_size fs target of
                Inl ec \<Rightarrow> no_sender (file_internal_error res)
              | Inr n \<Rightarrow>
                  let modified = file_modified fs target;
                      etag = file_etag opts n modified
                  in if (etag \<noteq> [] \<or> modified \<noteq> None) \<and> is_not_modified req etag modified
                     then no_sender (answer_not_modified opts etag modified res)
                     else
                       (case fs_open fs target of
                          None \<Rightarrow> no_sender (file_internal_error res)
                        | Some file \<Rightarrow>
                            then_res (answer_headers opts target n etag modified res) (\<lambda>res.
                            then_res (response_stream res) (\<lambda>res.
                              let (res, sender) = sender_start answers (make_file_sender target file (sf_chunk_size opts)) res
                              in Inr (res, Some sender))))))"

end
