(* ===== verification/Static_Files_Props.thy ===== *)
theory Static_Files_Props
  imports Static_Files
begin

text \<open>
  What the handler of static files promises: the options it can be given, that a file which is sent lies below the root, that
  a sender copies its file exactly and comes to its end, and that a client which sends the validators of an answer back is told that the file
  is not modified.
\<close>

section \<open>Options\<close>

datatype static_setter =
    Path_param string | Index_file string | No_index_file | Hidden_files hidden_file_policy | Symlinks symlink_policy
  | Cache_control string | No_cache_control | Etag bool | Last_modified bool | Nosniff bool | Chunk_size nat

fun apply_setter :: "static_setter \<Rightarrow> static_file_options \<Rightarrow> options_result" where
  "apply_setter (Path_param v) = set_path_param v"
| "apply_setter (Index_file v) = set_index_file v"
| "apply_setter No_index_file = set_no_index_file"
| "apply_setter (Hidden_files v) = set_hidden_files v"
| "apply_setter (Symlinks v) = set_symlinks v"
| "apply_setter (Cache_control v) = set_cache_control v"
| "apply_setter No_cache_control = set_no_cache_control"
| "apply_setter (Etag v) = set_etag v"
| "apply_setter (Last_modified v) = set_last_modified v"
| "apply_setter (Nosniff v) = set_nosniff v"
| "apply_setter (Chunk_size v) = set_chunk_size v"

text \<open>A setter that throws leaves the options as they are.\<close>

definition static_step :: "static_file_options \<Rightarrow> static_setter \<Rightarrow> static_file_options" where
  "static_step opts v = (case apply_setter v opts of Inl e \<Rightarrow> opts | Inr opts' \<Rightarrow> opts')"

definition static_options_ok :: "static_file_options \<Rightarrow> bool" where
  "static_options_ok opts \<longleftrightarrow>
     require_path_param (sf_path_param opts) \<and> (\<forall>v. sf_index_file opts = Some v \<longrightarrow> is_safe_component v) \<and> 0 < sf_chunk_size opts"

lemmas static_setter_defs = set_path_param_def set_index_file_def set_no_index_file_def set_hidden_files_def set_symlinks_def
  set_cache_control_def set_no_cache_control_def set_etag_def set_last_modified_def set_nosniff_def set_chunk_size_def

lemma require_index_file_safe: "require_index_file v = is_safe_component v"
  by (auto simp: require_index_file_def is_safe_component_def)

interpretation static_setters: inv_machine static_step static_options_ok
proof
  fix opts e
  assume "static_options_ok opts"
  then show "static_options_ok (static_step opts e)"
    by (cases e) (auto simp: static_step_def static_setter_defs static_options_ok_def require_index_file_safe)
qed

lemma default_static_options_ok: "static_options_ok default_static_options"
proof -
  have "require_path_param ''path''" "is_safe_component ''index.html''" by code_simp+
  then show ?thesis by (simp add: static_options_ok_def default_static_options_def)
qed

lemmas static_options_reachable = static_setters.run_inv [OF default_static_options_ok]

section \<open>Below the root\<close>

lemma is_relative_to_iff: "is_relative_to p root \<longleftrightarrow> take (length root) p = root"
  by (induction p root rule: is_relative_to.induct) auto

lemma safe_component_iff:
  "is_safe_component c \<longleftrightarrow>
     c \<noteq> [] \<and> c \<noteq> ''.'' \<and> c \<noteq> ''..'' \<and> CHR ''/'' \<notin> set c \<and> CHR 0x5C \<notin> set c \<and> CHR 0x00 \<notin> set c"
  by (auto simp: is_safe_component_def contains_path_separator_def)

text \<open>A hidden component that is let through.\<close>

definition hidden_exempt :: "hidden_file_policy \<Rightarrow> nat \<Rightarrow> string \<Rightarrow> bool" where
  "hidden_exempt policy i c \<longleftrightarrow> policy = Hidden_allow \<or> policy = Hidden_allow_well_known \<and> i = 0 \<and> c = ''.well-known''"

lemma hidden_loop_exempt:
  "hidden_loop policy i cs \<Longrightarrow> k < length cs \<Longrightarrow> is_hidden_component (cs ! k) \<Longrightarrow> hidden_exempt policy (i + k) (cs ! k)"
proof (induction policy i cs arbitrary: k rule: hidden_loop.induct)
  case (2 policy i c cs)
  show ?case
  proof (cases k)
    case 0
    with 2(3,5) show ?thesis by (auto simp: hidden_exempt_def split: if_splits)
  next
    case (Suc j)
    have "hidden_exempt policy (Suc i + j) (cs ! j)"
    proof (cases "is_hidden_component c")
      case True
      then have "policy = Hidden_allow_well_known \<and> i = 0 \<and> c = ''.well-known''" "hidden_loop policy (Suc i) cs"
        using 2(3) by (auto split: if_splits)
      with 2(2) [of j] True 2(4,5) Suc show ?thesis by simp
    next
      case False
      with 2(1) [of j] 2(3-5) Suc show ?thesis by simp
    qed
    with Suc show ?thesis by simp
  qed
qed simp

lemma hidden_allowed_exempt:
  "hidden_allowed cs policy \<Longrightarrow> k < length cs \<Longrightarrow> is_hidden_component (cs ! k) \<Longrightarrow> hidden_exempt policy k (cs ! k)"
  using hidden_loop_exempt [of policy 0 cs k] by (auto simp: hidden_allowed_def hidden_exempt_def split: if_splits)

lemma walk_components_path:
  assumes "walk_components fs symlinks p cs = Inr q"
  shows "q = p @ cs" and "symlinks = Symlinks_reject \<Longrightarrow> k < length cs \<Longrightarrow> fs_is_symlink fs (p @ take (Suc k) cs) = Inr False"
proof -
  have "q = p @ cs \<and> (\<forall>k < length cs. symlinks = Symlinks_reject \<longrightarrow> fs_is_symlink fs (p @ take (Suc k) cs) = Inr False)"
    using assms
  proof (induction fs symlinks p cs rule: walk_components.induct)
    case (2 fs symlinks p c cs)
    have rest: "walk_components fs symlinks (p @ [c]) cs = Inr q"
      and here: "symlinks = Symlinks_reject \<longrightarrow> fs_is_symlink fs (p @ [c]) = Inr False"
      using 2(3) by (auto simp: path_append_def Let_def split: if_splits sum.splits bool.splits)
    have "q = (p @ [c]) @ cs \<and> (\<forall>k < length cs. symlinks = Symlinks_reject \<longrightarrow> fs_is_symlink fs ((p @ [c]) @ take (Suc k) cs) = Inr False)"
    proof (cases "symlinks = Symlinks_reject")
      case True
      with 2(1) [OF refl True, unfolded path_append_def] here rest show ?thesis by blast
    next
      case False
      with 2(2) [OF refl] rest show ?thesis by (simp add: path_append_def)
    qed
    then show ?case using here by (auto simp: less_Suc_eq_0_disj)
  qed simp
  then show "q = p @ cs" and "symlinks = Symlinks_reject \<Longrightarrow> k < length cs \<Longrightarrow> fs_is_symlink fs (p @ take (Suc k) cs) = Inr False"
    by auto
qed

text \<open>What is known of a path that stands for a list of components.\<close>

definition resolves :: "file_system \<Rightarrow> path \<Rightarrow> symlink_policy \<Rightarrow> string list \<Rightarrow> path \<Rightarrow> bool" where
  "resolves fs root symlinks components target \<longleftrightarrow>
     (\<exists>root'. fs_canonical fs root = Inr root' \<and> fs_canonical fs (root' @ components) = Inr target \<and> take (length root') target = root' \<and>
        (symlinks = Symlinks_reject \<longrightarrow> (\<forall>k < length components. fs_is_symlink fs (root' @ take (Suc k) components) = Inr False)))"

lemma resolve_existing_target_resolves:
  "resolve_existing_target fs root components symlinks = Inr target \<Longrightarrow> resolves fs root symlinks components target"
  by (auto simp: resolve_existing_target_def resolves_def is_relative_to_iff split: sum.splits if_splits
      dest: walk_components_path)

lemma request_tail_components_visible:
  assumes "request_tail_components req opts = Some cs"
  shows "list_all is_safe_component cs" and "hidden_allowed cs (sf_hidden_files opts)"
  using assms by (auto simp: request_tail_components_def Let_def split: option.splits if_splits)

lemma target_status_resolves:
  assumes "target_status fs h cs = Inr (target, st)"
  shows "resolves fs (sh_root h) (sf_symlinks (sh_options h)) cs target" and "fs_status fs target = Inr st"
  using assms by (auto simp: target_status_def split: sum.splits intro: resolve_existing_target_resolves)

lemma then_res_Inr: "then_res r f = Inr y \<longleftrightarrow> (\<exists>x. r = Inr x \<and> f x = Inr y)"
  by (auto simp: then_res_def split: sum.splits)

lemma then_res_simps [simp]: "then_res (Inr x) f = f x" "then_res (Inl e) f = Inl e"
  by (simp_all add: then_res_def)

lemma locate_file_components:
  assumes "static_options_ok (sh_options h)" and "locate_file fs h req = Inr target"
  shows "\<exists>cs. resolves fs (sh_root h) (sf_symlinks (sh_options h)) cs target \<and> fs_status fs target = Inr Regular_file \<and>
    list_all is_safe_component cs \<and> hidden_allowed cs (sf_hidden_files (sh_options h))"
proof -
  obtain cs where cs: "request_tail_components req (sh_options h) = Some cs"
    using assms(2) by (auto simp: locate_file_def split: option.splits)
  note tail = request_tail_components_visible [OF cs]
  obtain p st where first: "target_status fs h cs = Inr (p, st)"
    using assms(2) cs by (auto simp: locate_file_def then_res_Inr)
  show ?thesis
  proof (cases "st = Directory")
    case True
    then obtain index where index: "sf_index_file (sh_options h) = Some index"
        "hidden_allowed (cs @ [index]) (sf_hidden_files (sh_options h))" "target_status fs h (cs @ [index]) = Inr (target, Regular_file)"
      using assms(2) cs first by (auto simp: locate_file_def then_res_Inr Let_def split: option.splits if_splits)
    moreover have "is_safe_component index" using assms(1) index by (simp add: static_options_ok_def)
    ultimately show ?thesis using target_status_resolves [OF index(3)] tail by (intro exI [of _ "cs @ [index]"]) simp
  next
    case False
    then have "target_status fs h cs = Inr (target, Regular_file)"
      using assms(2) cs first by (auto simp: locate_file_def then_res_Inr split: if_splits)
    then show ?thesis using target_status_resolves tail by (intro exI [of _ cs]) blast
  qed
qed

section \<open>Senders\<close>

definition sender_inv :: "path \<Rightarrow> nat \<Rightarrow> string \<Rightarrow> file_sender \<Rightarrow> bool" where
  "sender_inv p n content s \<longleftrightarrow>
     sd_path s = p \<and> sd_chunk s = n \<and> list_all (\<lambda>piece. piece \<noteq> [] \<and> length piece \<le> n) (sd_written s) \<and>
     take (length (concat (sd_written s))) content = concat (sd_written s) \<and>
     (ifs_eof (sd_file s) \<longrightarrow> ifs_fail (sd_file s)) \<and>
     (ifs_open (sd_file s) \<longrightarrow> sd_ends s = 0 \<and>
        (\<not> ifs_fail (sd_file s) \<longrightarrow> concat (sd_written s) @ ifs_rest (sd_file s) = content) \<and>
        (ifs_eof (sd_file s) \<longrightarrow> concat (sd_written s) = content)) \<and>
     sd_ends s \<le> 1 \<and> (sd_ends s = 1 \<longrightarrow> concat (sd_written s) = content)"

lemma sender_close_simps [simp]:
  "ifs_open (sd_file (sender_close s)) = False" "ifs_fail (sd_file (sender_close s)) = ifs_fail (sd_file s)"
  "ifs_eof (sd_file (sender_close s)) = ifs_eof (sd_file s)" "sd_written (sender_close s) = sd_written s"
  "sd_ends (sender_close s) = sd_ends s" "sd_path (sender_close s) = sd_path s" "sd_chunk (sender_close s) = sd_chunk s"
  by (simp_all add: sender_close_def)

lemma sender_close_inv: "sender_inv p n content s \<Longrightarrow> sender_inv p n content (sender_close s)"
  by (simp add: sender_inv_def)

lemma sender_end_inv:
  "sender_inv p n content s \<Longrightarrow> ifs_open (sd_file s) \<Longrightarrow> ifs_eof (sd_file s) \<Longrightarrow> sender_inv p n content (sender_end s)"
  by (simp add: sender_inv_def sender_end_def)

text \<open>One read: the sender before it, and the sender once the stream has accepted what was read.\<close>

lemma ifs_read_cases:
  assumes "ifs_read n f = (data, f')"
  obtains (full) "n \<le> length (ifs_rest f)" "data = take n (ifs_rest f)" "f' = f\<lparr>ifs_rest := drop n (ifs_rest f)\<rparr>"
    | (broken) "length (ifs_rest f) < n" "ifs_broken f" "data = []" "f' = f\<lparr>ifs_rest := [], ifs_fail := True\<rparr>"
    | (short) "length (ifs_rest f) < n" "\<not> ifs_broken f" "data = ifs_rest f" "f' = f\<lparr>ifs_rest := [], ifs_eof := True, ifs_fail := True\<rparr>"
  using assms by (auto simp: ifs_read_def not_le split: if_splits)

lemma ifs_read_inv:
  assumes inv: "sender_inv p n content s" and fine: "ifs_open (sd_file s)" "\<not> ifs_fail (sd_file s)"
    and read: "ifs_read (sd_chunk s) (sd_file s) = (data, f)"
  shows "data \<noteq> [] \<Longrightarrow> sender_inv p n content (s\<lparr>sd_file := f, sd_written := sd_written s @ [data]\<rparr>)"
    and "data \<noteq> [] \<Longrightarrow> sender_inv p n content (sender_close (s\<lparr>sd_file := f\<rparr>))"
    and "data = [] \<Longrightarrow> sender_inv p n content (s\<lparr>sd_file := f\<rparr>)"
    and "ifs_open f"
proof -
  have rest: "content = concat (sd_written s) @ ifs_rest (sd_file s)" "\<not> ifs_eof (sd_file s)" "sd_chunk s = n" "sd_ends s = 0"
    using inv fine by (auto simp: sender_inv_def)
  show "data \<noteq> [] \<Longrightarrow> sender_inv p n content (s\<lparr>sd_file := f, sd_written := sd_written s @ [data]\<rparr>)"
    using read
  proof (cases rule: ifs_read_cases)
    case full
    then show "data \<noteq> [] \<Longrightarrow> ?thesis" using inv fine rest by (auto simp: sender_inv_def)
  next
    case broken
    then show "data \<noteq> [] \<Longrightarrow> ?thesis" by simp
  next
    case short
    then show "data \<noteq> [] \<Longrightarrow> ?thesis" using inv fine rest by (auto simp: sender_inv_def)
  qed
  show "data \<noteq> [] \<Longrightarrow> sender_inv p n content (sender_close (s\<lparr>sd_file := f\<rparr>))"
    using read inv rest by (cases rule: ifs_read_cases) (auto simp: sender_inv_def)
  show "data = [] \<Longrightarrow> sender_inv p n content (s\<lparr>sd_file := f\<rparr>)"
    using read inv rest fine by (cases rule: ifs_read_cases) (auto simp: sender_inv_def)
  show "ifs_open f" using read fine by (cases rule: ifs_read_cases) auto
qed

lemma send_loop_inv: "sender_inv p n content s \<Longrightarrow> ifs_open (sd_file s) \<Longrightarrow> sender_inv p n content (send_loop answers s)"
proof (induction answers s rule: send_loop.induct)
  case (1 answers s)
  obtain data f where read: "ifs_read (sd_chunk s) (sd_file s) = (data, f)" by fastforce
  show ?case
  proof (cases "ifs_fail (sd_file s)")
    case True
    then show ?thesis using "1.prems" sender_end_inv by (simp add: send_loop.simps [of answers s])
  next
    case False
    note step = ifs_read_inv [OF "1.prems" False read]
    let ?s = "s\<lparr>sd_file := f, sd_written := sd_written s @ [data]\<rparr>"
    have "sender_inv p n content (send_loop answers ?s)"
      if "data \<noteq> []" "accepted (answers (sd_written s) data)" "should_continue (answers (sd_written s) data)"
      using "1.IH" [OF False read [symmetric] refl refl that(1) refl _ refl] that step by simp
    then show ?thesis using step False sender_end_inv
      by (simp add: send_loop.simps [of answers s] read Let_def)
  qed
qed

interpretation sending: inv_machine "sender_step answers" "sender_inv p n content" for answers p n content
proof
  fix s e
  assume "sender_inv p n content s"
  then show "sender_inv p n content (sender_step answers s e)"
    by (cases e) (simp_all add: send_more_def sender_close_inv send_loop_inv)
qed

lemma make_file_sender_inv: "sender_inv p n content (make_file_sender p (content, broken) n)"
  by (simp add: sender_inv_def make_file_sender_def)

lemma send_more_inv: "sender_inv p n content s \<Longrightarrow> sender_inv p n content (send_more answers active s)"
  using sending.step_inv [of p n content s answers "On_drain active"] by simp

text \<open>How many more times a sender may have to be called: its reads, as long as the stream accepts what it is given.\<close>

definition sender_todo :: "file_sender \<Rightarrow> nat" where
  "sender_todo s = (if ifs_fail (sd_file s) then 0 else Suc (length (ifs_rest (sd_file s)) div sd_chunk s))"

text \<open>A sender that goes on: its file is open and reads well.\<close>

definition sender_going :: "file_sender \<Rightarrow> bool" where
  "sender_going s \<longleftrightarrow>
     ifs_open (sd_file s) \<and> \<not> ifs_broken (sd_file s) \<and> (ifs_fail (sd_file s) \<longrightarrow> ifs_eof (sd_file s)) \<and> sd_ends s = 0 \<and> 0 < sd_chunk s"

lemma div_after_chunk: "0 < n \<Longrightarrow> n \<le> k \<Longrightarrow> (k - n) div n < k div n" for n k :: nat
  by (simp add: le_div_geq)

lemma ifs_read_going:
  assumes "sender_going s" and "\<not> ifs_fail (sd_file s)" and "ifs_read (sd_chunk s) (sd_file s) = (data, f)"
  shows "sender_going (s\<lparr>sd_file := f, sd_written := w\<rparr>)" and "sender_todo (s\<lparr>sd_file := f, sd_written := w\<rparr>) < sender_todo s"
    and "data = [] \<Longrightarrow> ifs_eof f"
proof -
  show "sender_going (s\<lparr>sd_file := f, sd_written := w\<rparr>)" using assms(3,1,2) by (cases rule: ifs_read_cases) (auto simp: sender_going_def)
  show "sender_todo (s\<lparr>sd_file := f, sd_written := w\<rparr>) < sender_todo s"
    using assms(3,1,2) by (cases rule: ifs_read_cases) (auto simp: sender_going_def sender_todo_def div_after_chunk)
  show "data = [] \<Longrightarrow> ifs_eof f" using assms(3,1,2) by (cases rule: ifs_read_cases) (auto simp: sender_going_def)
qed

lemma send_loop_progress:
  assumes "\<forall>w d. accepted (answers w d)" and "sender_going s"
  shows "sd_ends (send_loop answers s) = 1 \<and> \<not> ifs_open (sd_file (send_loop answers s)) \<or>
    sender_going (send_loop answers s) \<and> sender_todo (send_loop answers s) < sender_todo s"
  using assms(2)
proof (induction "sender_todo s" arbitrary: s rule: less_induct)
  case less
  obtain data f where read: "ifs_read (sd_chunk s) (sd_file s) = (data, f)" by fastforce
  have zero: "sd_ends s = 0" using less.prems by (simp add: sender_going_def)
  show ?case
  proof (cases "ifs_fail (sd_file s)")
    case True
    then show ?thesis using less.prems zero
      by (simp add: send_loop.simps [of answers s] sender_end_def sender_going_def)
  next
    case False
    let ?s = "s\<lparr>sd_file := f, sd_written := sd_written s @ [data]\<rparr>"
    note step = ifs_read_going(1,2) [OF less.prems False read, of "sd_written s @ [data]"]
    show ?thesis
    proof (cases "data = [] \<or> \<not> should_continue (answers (sd_written s) data)")
      case True
      then show ?thesis using step False zero ifs_read_going(3) [OF less.prems False read]
        by (auto simp: send_loop.simps [of answers s] read sender_end_def Let_def assms(1))
    next
      case go: False
      have "send_loop answers s = send_loop answers ?s"
        using go False by (simp add: send_loop.simps [of answers s] read Let_def assms(1))
      with less.hyps [OF step(2,1)] step(2) show ?thesis by auto
    qed
  qed
qed

lemma sender_drains:
  assumes "\<forall>w d. accepted (answers w d)" and "sender_going s \<and> sender_todo s < k \<or> sd_ends s = 1 \<and> \<not> ifs_open (sd_file s)"
  shows "sd_ends (foldl (sender_step answers) s (replicate k (On_drain True))) = 1"
  using assms(2)
proof (induction k arbitrary: s)
  case 0
  then show ?case by simp
next
  case (Suc k)
  have "sender_going (send_more answers True s) \<and> sender_todo (send_more answers True s) < k \<or>
      sd_ends (send_more answers True s) = 1 \<and> \<not> ifs_open (sd_file (send_more answers True s))"
  proof (cases "sender_going s")
    case True
    then have "send_more answers True s = send_loop answers s" by (simp add: send_more_def sender_going_def)
    with True Suc.prems send_loop_progress [OF assms(1) True] show ?thesis by (auto simp: sender_going_def)
  next
    case False
    with Suc.prems show ?thesis by (auto simp: send_more_def)
  qed
  then show ?case using Suc.IH by simp
qed

text \<open>C21: Whatever the stream answers and in whatever order it drains, is cancelled or fails, a sender has written a prefix of its file, in
  pieces that are not empty and fit its buffer, and has ended its stream at most once, and then only when it had written the
  whole file.
\<close>

theorem file_sender_exact:
  "let s = foldl (sender_step answers) (send_more answers active (make_file_sender p (content, broken) n)) es
   in take (length (concat (sd_written s))) content = concat (sd_written s)
    \<and> list_all (\<lambda>piece. piece \<noteq> [] \<and> length piece \<le> n) (sd_written s)
    \<and> (sd_ends s = 0 \<or> sd_ends s = 1 \<and> concat (sd_written s) = content)"
proof -
  have "sender_inv p n content (foldl (sender_step answers) (send_more answers active (make_file_sender p (content, broken) n)) es)"
    by (intro sending.run_inv send_more_inv make_file_sender_inv)
  then show ?thesis by (auto simp: sender_inv_def Let_def le_Suc_eq)
qed

text \<open>C31: When the stream accepts every piece and drains after each time it has pushed back, a sender whose file can be read writes the whole
  file and ends the stream: one more drain than the number of full buffers in the file is enough, however often the
  stream pushes back.
\<close>

theorem file_sender_completes:
  assumes "\<forall>w d. accepted (answers w d)" and "0 < n" and "length content div n < k"
  shows "let s = foldl (sender_step answers) (send_more answers True (make_file_sender p (content, False) n)) (replicate k (On_drain True))
    in sd_ends s = 1 \<and> concat (sd_written s) = content"
proof -
  let ?s = "make_file_sender p (content, False) n"
  let ?final = "foldl (sender_step answers) (send_more answers True ?s) (replicate k (On_drain True))"
  have going: "sender_going ?s" using assms(2) by (simp add: sender_going_def make_file_sender_def)
  have "sender_todo ?s = Suc (length content div n)" "send_more answers True ?s = send_loop answers ?s"
    by (simp_all add: sender_todo_def make_file_sender_def send_more_def)
  with send_loop_progress [OF assms(1) going] assms(3) have "sd_ends ?final = 1" by (intro sender_drains assms(1)) auto
  moreover have "sender_inv p n content ?final" by (intro sending.run_inv send_more_inv make_file_sender_inv)
  ultimately show ?thesis by (simp add: sender_inv_def Let_def)
qed

section \<open>Answers with a file\<close>

lemma send_more_path [simp]: "sd_path (send_more answers active s) = sd_path s"
proof -
  have "sd_path (send_loop answers s) = sd_path s"
  proof (induction answers s rule: send_loop.induct)
    case (1 answers s)
    obtain data f where read: "ifs_read (sd_chunk s) (sd_file s) = (data, f)" by fastforce
    show ?case
      using "1.IH" [OF _ read [symmetric] refl refl _ refl _ refl]
      by (simp add: send_loop.simps [of answers s] read sender_end_def Let_def)
  qed
  then show ?thesis by (simp add: send_more_def)
qed

lemma streaming_callbacks_headers [simp]:
  "rs_headers (streaming_on_error res) = rs_headers res" "rs_headers (streaming_on_cancel res) = rs_headers res"
  "rs_headers (streaming_on_drain res) = rs_headers res"
  by (simp_all add: streaming_on_error_def streaming_on_cancel_def streaming_on_drain_def)

lemma no_sender_None [simp]: "no_sender r \<noteq> Inr (res, Some s)"
  by (cases r) (simp_all add: no_sender_def)

lemma serve_static_file_Some:
  assumes "serve_static_file answers fs h req res = Inr (res', Some sender)"
  obtains n bytes headed where "locate_file fs h req = Inr (sd_path sender)" and "fs_size fs (sd_path sender) = Inr n"
    and "fs_open fs (sd_path sender) = Some bytes" and "rs_headers res' = rs_headers headed"
    and "answer_headers (sh_options h) (sd_path sender) n
           (file_etag (sh_options h) n (file_modified fs (sd_path sender))) (file_modified fs (sd_path sender)) res = Inr headed"
proof -
  obtain target where target: "locate_file fs h req = Inr target"
    using assms by (cases "locate_file fs h req") (simp_all add: serve_static_file_def)
  obtain n where n: "fs_size fs target = Inr n"
    using assms target by (cases "fs_size fs target") (simp_all add: serve_static_file_def)
  obtain bytes where opened: "fs_open fs target = Some bytes"
    using assms target n by (cases "fs_open fs target") (simp_all add: serve_static_file_def Let_def split: if_splits)
  let ?headers = "answer_headers (sh_options h) target n (file_etag (sh_options h) n (file_modified fs target)) (file_modified fs target) res"
  obtain res1 res2 where res: "?headers = Inr res1" "response_stream res1 = Inr res2"
      "res' = fst (sender_start answers (make_file_sender target bytes (sf_chunk_size (sh_options h))) res2)"
      "sender = snd (sender_start answers (make_file_sender target bytes (sf_chunk_size (sh_options h))) res2)"
    using assms target n opened by (auto simp: serve_static_file_def then_res_Inr Let_def case_prod_beta split: if_splits)
  have "sd_path sender = target" "rs_headers res' = rs_headers res2"
    using res(3,4) by (auto simp: sender_start_def Let_def make_file_sender_def)
  moreover have "rs_headers res2 = rs_headers res1" using res(2) by (auto simp: response_stream_def split: if_splits)
  ultimately show thesis using target n opened res(1) by (intro that [of n bytes res1]) simp_all
qed

text \<open>C13: A file that the handler sends is a regular file below the root, for every file system and every request, and for options
  that were set by any calls of their setters. Its path is the canonical form of the root followed by components that are not empty,
  not \<open>.\<close> or \<open>..\<close>, and contain no separator and no null byte; a hidden component is among them only if the policy lets it
  through; and if symbolic links are rejected, none of the paths on the way is one.
\<close>

theorem static_files_confined:
  assumes "sh_options h = foldl static_step default_static_options setters"
    and "serve_static_file answers fs h req res = Inr (res', Some sender)"
  shows "\<exists>root components.
      fs_canonical fs (sh_root h) = Inr root
    \<and> fs_canonical fs (root @ components) = Inr (sd_path sender)
    \<and> take (length root) (sd_path sender) = root
    \<and> fs_status fs (sd_path sender) = Inr Regular_file
    \<and> (\<forall>c \<in> set components. c \<noteq> [] \<and> c \<noteq> ''.'' \<and> c \<noteq> ''..'' \<and> CHR ''/'' \<notin> set c \<and> CHR 0x5C \<notin> set c \<and> CHR 0x00 \<notin> set c)
    \<and> (\<forall>i < length components. hd (components ! i) = CHR ''.'' \<longrightarrow>
         sf_hidden_files (sh_options h) = Hidden_allow \<or>
         sf_hidden_files (sh_options h) = Hidden_allow_well_known \<and> i = 0 \<and> components ! i = ''.well-known'')
    \<and> (sf_symlinks (sh_options h) = Symlinks_reject \<longrightarrow>
         (\<forall>k < length components. fs_is_symlink fs (root @ take (Suc k) components) = Inr False))"
proof -
  have "static_options_ok (sh_options h)" unfolding assms(1) by (rule static_options_reachable)
  moreover have "locate_file fs h req = Inr (sd_path sender)" using assms(2) by (rule serve_static_file_Some)
  ultimately obtain cs where cs: "resolves fs (sh_root h) (sf_symlinks (sh_options h)) cs (sd_path sender)"
      "fs_status fs (sd_path sender) = Inr Regular_file" "list_all is_safe_component cs" "hidden_allowed cs (sf_hidden_files (sh_options h))"
    using locate_file_components by blast
  then obtain root where root: "fs_canonical fs (sh_root h) = Inr root" "fs_canonical fs (root @ cs) = Inr (sd_path sender)"
      "take (length root) (sd_path sender) = root"
      "sf_symlinks (sh_options h) = Symlinks_reject \<longrightarrow> (\<forall>k < length cs. fs_is_symlink fs (root @ take (Suc k) cs) = Inr False)"
    by (auto simp: resolves_def)
  have safe: "\<forall>c \<in> set cs. c \<noteq> [] \<and> c \<noteq> ''.'' \<and> c \<noteq> ''..'' \<and> CHR ''/'' \<notin> set c \<and> CHR 0x5C \<notin> set c \<and> CHR 0x00 \<notin> set c"
    using cs(3) by (simp add: list_all_iff safe_component_iff)
  have "hd (cs ! i) = CHR ''.'' \<longrightarrow> sf_hidden_files (sh_options h) = Hidden_allow \<or>
      sf_hidden_files (sh_options h) = Hidden_allow_well_known \<and> i = 0 \<and> cs ! i = ''.well-known''" if "i < length cs" for i
    using hidden_allowed_exempt [OF cs(4) that] safe nth_mem [OF that] unfolding hidden_exempt_def is_hidden_component_def by blast
  with root safe cs(2) show ?thesis by blast
qed

section \<open>Revalidation\<close>

lemma etag_no_comma: "CHR '','' \<notin> set (make_etag n t)"
proof -
  have "CHR '','' \<notin> set (print_number 16 k)" for k
    using number_digits [of 16 "CHR '',''" k] by (auto simp: digit_of_def Let_def)
  then show ?thesis by (simp add: make_etag_def)
qed

lemma trim_etag [simp]: "trim_space (make_etag n t) = make_etag n t"
  by (simp add: trim_space_def make_etag_def c_isspace_def)

lemma etag_matches_itself: "if_none_match_matches (make_etag n t) (make_etag n t)"
  using etag_no_comma [of n t] by (subst if_none_match_matches.simps) (simp add: sv_until_def)

lemma make_etag_nonempty [simp]: "make_etag n t \<noteq> []"
  by (simp add: make_etag_def)

lemma header_names_apart [simp]:
  "\<not> names_equal ''cache-control'' ''etag''" "\<not> names_equal ''cache-control'' ''last-modified''"
  "\<not> names_equal ''x-content-type-options'' ''etag''" "\<not> names_equal ''x-content-type-options'' ''last-modified''"
  "\<not> names_equal ''last-modified'' ''etag''" "\<not> names_equal ''etag'' ''last-modified''"
  "\<not> names_equal ''content-type'' ''etag''" "\<not> names_equal ''content-type'' ''last-modified''"
  "\<not> names_equal ''content-length'' ''etag''" "\<not> names_equal ''content-length'' ''last-modified''"
  "\<not> names_equal ''if-modified-since'' ''if-none-match''" "names_equal ''etag'' ''etag''"
  "names_equal ''last-modified'' ''last-modified''" "names_equal ''if-none-match'' ''if-none-match''"
  "names_equal ''if-modified-since'' ''if-modified-since''"
  by code_simp+

text \<open>The headers of an answer that has not been committed can be set, and the validators are then those of the file.\<close>

lemma set_header_unless_present_Inr:
  assumes "\<not> rs_headers_committed res"
  obtains hs where "set_header_unless_present name v res = Inr (res\<lparr>rs_headers := hs\<rparr>)"
    and "\<And>k. \<not> names_equal name k \<Longrightarrow> headers_get hs k = headers_get (rs_headers res) k"
proof (cases "headers_contains (rs_headers res) name")
  case True
  then show thesis by (intro that [of "rs_headers res"]) (simp_all add: set_header_unless_present_def)
next
  case False
  then show thesis using assms
    by (intro that [of "headers_set (rs_headers res) name v"])
      (simp_all add: set_header_unless_present_def response_header_def header_store.lookup_put)
qed

lemma maybe_header_Inr:
  assumes "\<not> rs_headers_committed res"
  obtains hs where "(if b then response_header name v res else Inr res) = Inr (res\<lparr>rs_headers := hs\<rparr>)"
    and "\<And>k. headers_get hs k = (if b \<and> names_equal name k then v else headers_get (rs_headers res) k)"
proof
  show "(if b then response_header name v res else Inr res) =
      Inr (res\<lparr>rs_headers := if b then headers_set (rs_headers res) name v else rs_headers res\<rparr>)"
    using assms by (simp add: response_header_def)
qed (simp add: header_store.lookup_put)

lemma validator_headers_Inr:
  assumes open_head: "\<not> rs_headers_committed res"
  obtains hs where "validator_headers opts etag modified res = Inr (res\<lparr>rs_headers := hs\<rparr>)"
    and "headers_get hs ''etag'' = (if etag \<noteq> [] then etag else headers_get (rs_headers res) ''etag'')"
    and "headers_get hs ''last-modified'' =
           (if modified \<noteq> None \<and> sf_last_modified opts then format_http_date (the modified) else headers_get (rs_headers res) ''last-modified'')"
proof -
  obtain h1 where h1: "(case sf_cache_control opts of None \<Rightarrow> Inr res | Some v \<Rightarrow> set_header_unless_present ''cache-control'' v res) =
      Inr (res\<lparr>rs_headers := h1\<rparr>)" "\<And>k. \<not> names_equal ''cache-control'' k \<Longrightarrow> headers_get h1 k = headers_get (rs_headers res) k"
  proof (cases "sf_cache_control opts")
    case None
    then show thesis by (intro that [of "rs_headers res"]) simp_all
  next
    case (Some v)
    then show thesis using set_header_unless_present_Inr [OF open_head, of "''cache-control''" v] that by auto
  qed
  let ?r1 = "res\<lparr>rs_headers := h1\<rparr>"
  have c1: "\<not> rs_headers_committed ?r1" using open_head by simp
  obtain h2 where h2: "(if etag \<noteq> [] then response_header ''etag'' etag ?r1 else Inr ?r1) = Inr (?r1\<lparr>rs_headers := h2\<rparr>)"
      "\<And>k. headers_get h2 k = (if etag \<noteq> [] \<and> names_equal ''etag'' k then etag else headers_get (rs_headers ?r1) k)"
    using maybe_header_Inr [OF c1, of "etag \<noteq> []" "''etag''" etag] by blast
  let ?r2 = "?r1\<lparr>rs_headers := h2\<rparr>"
  have c2: "\<not> rs_headers_committed ?r2" using open_head by simp
  let ?b = "modified \<noteq> None \<and> sf_last_modified opts"
  obtain h3 where h3: "(if ?b then response_header ''last-modified'' (format_http_date (the modified)) ?r2 else Inr ?r2) = Inr (?r2\<lparr>rs_headers := h3\<rparr>)"
      "\<And>k. headers_get h3 k = (if ?b \<and> names_equal ''last-modified'' k then format_http_date (the modified) else headers_get (rs_headers ?r2) k)"
    using maybe_header_Inr [OF c2, of ?b "''last-modified''" "format_http_date (the modified)"] by blast
  let ?r3 = "?r2\<lparr>rs_headers := h3\<rparr>"
  have c3: "\<not> rs_headers_committed ?r3" using open_head by simp
  obtain h4 where h4: "(if sf_nosniff opts then set_header_unless_present ''x-content-type-options'' ''nosniff'' ?r3 else Inr ?r3) =
      Inr (?r3\<lparr>rs_headers := h4\<rparr>)" "\<And>k. \<not> names_equal ''x-content-type-options'' k \<Longrightarrow> headers_get h4 k = headers_get h3 k"
  proof (cases "sf_nosniff opts")
    case True
    then show thesis using set_header_unless_present_Inr [OF c3, of "''x-content-type-options''" "''nosniff''"] that by auto
  next
    case False
    then show thesis by (intro that [of h3]) simp_all
  qed
  have third: "(case modified of Some t \<Rightarrow> if sf_last_modified opts then response_header ''last-modified'' (format_http_date t) ?r2 else Inr ?r2
      | None \<Rightarrow> Inr ?r2) = Inr (?r2\<lparr>rs_headers := h3\<rparr>)"
    using h3(1) by (cases modified) (auto split: if_splits)
  have "validator_headers opts etag modified res = Inr (?r3\<lparr>rs_headers := h4\<rparr>)"
    unfolding validator_headers_def h1(1) then_res_simps h2(1) third h4(1) ..
  then show thesis by (intro that [of h4]) (simp_all add: h1(2) h2(2) h3(2) h4(2))
qed

lemma answer_headers_validators:
  assumes "answer_headers opts target n etag modified res = Inr headed"
    and "\<not> rs_headers_committed res" "headers_get (rs_headers res) ''etag'' = []" "headers_get (rs_headers res) ''last-modified'' = []"
  shows "headers_get (rs_headers headed) ''etag'' = etag"
    and "headers_get (rs_headers headed) ''last-modified'' =
      (if modified \<noteq> None \<and> sf_last_modified opts then format_http_date (the modified) else [])"
proof -
  obtain h1 where h1:
      "set_header_unless_present ''content-type'' (content_type_for_extension (to_lower (path_extension target))) res = Inr (res\<lparr>rs_headers := h1\<rparr>)"
      "\<And>k. \<not> names_equal ''content-type'' k \<Longrightarrow> headers_get h1 k = headers_get (rs_headers res) k"
    using set_header_unless_present_Inr [OF assms(2)] by blast
  let ?h2 = "headers_set h1 ''content-length'' (print_number 10 n)"
  have "response_header ''content-length'' (print_number 10 n) (res\<lparr>rs_headers := h1\<rparr>) = Inr (res\<lparr>rs_headers := ?h2\<rparr>)"
    using assms(2) by (simp add: response_header_def)
  then have last_step: "validator_headers opts etag modified (res\<lparr>rs_headers := ?h2\<rparr>) = Inr headed"
    using assms(1) by (simp add: answer_headers_def h1(1))
  let ?r = "res\<lparr>rs_headers := ?h2\<rparr>"
  have "\<not> rs_headers_committed ?r" using assms(2) by simp
  then obtain hs where hs: "validator_headers opts etag modified ?r = Inr (?r\<lparr>rs_headers := hs\<rparr>)"
      "headers_get hs ''etag'' = (if etag \<noteq> [] then etag else headers_get (rs_headers ?r) ''etag'')"
      "headers_get hs ''last-modified'' =
         (if modified \<noteq> None \<and> sf_last_modified opts then format_http_date (the modified) else headers_get (rs_headers ?r) ''last-modified'')"
    by (rule validator_headers_Inr)
  have "rs_headers headed = hs" using last_step hs(1) by auto
  then show "headers_get (rs_headers headed) ''etag'' = etag"
    and "headers_get (rs_headers headed) ''last-modified'' =
      (if modified \<noteq> None \<and> sf_last_modified opts then format_http_date (the modified) else [])"
    using hs(2,3) assms(3,4) by (simp_all add: header_store.lookup_put h1(2))
qed

text \<open>A request that carries the validators of an earlier answer.\<close>

definition revalidation :: "request \<Rightarrow> headers \<Rightarrow> request" where
  "revalidation req hs =
     req\<lparr>rq_headers := headers_set (headers_set (rq_headers req) ''if-none-match'' (headers_get hs ''etag''))
                        ''if-modified-since'' (headers_get hs ''last-modified'')\<rparr>"

lemma request_tail_components_headers [simp]:
  "request_tail_components (req\<lparr>rq_headers := hs\<rparr>) opts = request_tail_components req opts"
  by (simp add: request_tail_components_def Let_def split: option.split)

lemma locate_revalidation [simp]: "locate_file fs h (revalidation req hs) = locate_file fs h req"
  by (simp add: locate_file_def revalidation_def)

lemma revalidation_headers [simp]:
  "rq_header (revalidation req hs) ''if-none-match'' = headers_get hs ''etag''"
  "rq_header (revalidation req hs) ''if-modified-since'' = headers_get hs ''last-modified''"
  by (simp_all add: revalidation_def rq_header_def header_store.lookup_put)

lemma answer_not_modified_new:
  obtains hs where "answer_not_modified opts etag modified new_response = Inr (new_response\<lparr>rs_status := 304, rs_headers := hs, rs_ended := True\<rparr>)"
proof -
  let ?res = "new_response\<lparr>rs_status := 304\<rparr>"
  have "\<not> rs_headers_committed ?res" by (simp add: new_response_def)
  from validator_headers_Inr [OF this, of opts etag modified] obtain hs where
      "validator_headers opts etag modified ?res = Inr (?res\<lparr>rs_headers := hs\<rparr>)" .
  then show thesis
    by (intro that [of hs]) (simp add: answer_not_modified_def response_status_def response_end_def rs_complete_def rs_active_def new_response_def)
qed

lemma format_http_date_nonempty [simp]: "format_http_date t \<noteq> []"
  by (simp add: format_http_date_def put_http_date_def)


section \<open>A directory with one file\<close>

definition demo_fs :: file_system where
  "demo_fs = \<lparr>fs_canonical = Inr, fs_is_symlink = (\<lambda>p. Inr False),
     fs_status = (\<lambda>p. if p = [''/'', ''srv''] then Inr Directory else if p = [''/'', ''srv'', ''a.txt''] then Inr Regular_file
                      else Inl (Other_fs_error 2)),
     fs_size = (\<lambda>p. Inr 5), fs_modified = (\<lambda>p. Inr 65), fs_open = (\<lambda>p. Some (''hello'', False))\<rparr>"

definition demo_static_options :: static_file_options where
  "demo_static_options = \<lparr>sf_path_param = ''path'', sf_index_file = Some ''index.html'', sf_hidden_files = Hidden_reject,
     sf_symlinks = Symlinks_reject, sf_cache_control = Some ''no-cache'', sf_etag = True, sf_last_modified = False, sf_nosniff = True,
     sf_chunk_size = 4\<rparr>"

definition demo_static_handler :: static_file_handler where
  "demo_static_handler = \<lparr>sh_root = [''/'', ''srv''], sh_options = demo_static_options\<rparr>"

definition demo_file_request :: "string \<Rightarrow> request" where
  "demo_file_request name =
     (make_request method_get (''/files/'' @ name) (''/files/'' @ name) [] [] [] [(''path'', name)] [''files'', name])\<lparr>rq_pattern := ''/files/*path''\<rparr>"

text \<open>A stream that takes everything and pushes back after every piece.\<close>

definition slow_stream :: stream_answers where
  "slow_stream w d = swr_backpressure"

lemma demo_options_set:
  "sh_options demo_static_handler = foldl static_step default_static_options [Symlinks Symlinks_reject, Last_modified False, Chunk_size 4]"
  by (simp add: demo_static_handler_def demo_static_options_def default_static_options_def static_step_def static_setter_defs)

definition demo_served :: "response_state \<times> file_sender" where
  "demo_served =
     (new_response\<lparr>rs_headers := [(''content-type'', ''text/plain; charset=utf-8''), (''content-length'', ''5''), (''cache-control'', ''no-cache''),
          (''etag'', ''W/'' @ [CHR 0x22] @ ''5-41'' @ [CHR 0x22]), (''x-content-type-options'', ''nosniff'')],
        rs_streaming := True, rs_on_cancel := True, rs_on_drain := True, rs_on_error := True\<rparr>,
      \<lparr>sd_path = [''/'', ''srv'', ''a.txt''], sd_file = \<lparr>ifs_open = True, ifs_rest = ''o'', ifs_broken = False, ifs_eof = False, ifs_fail = False\<rparr>,
       sd_chunk = 4, sd_written = [''hell''], sd_ends = 0\<rparr>)"

lemma demo_serves:
  "serve_static_file slow_stream demo_fs demo_static_handler (demo_file_request ''a.txt'') new_response =
     Inr (fst demo_served, Some (snd demo_served))"
  by code_simp

text \<open>A name that points out of the directory, and one that is hidden, are not found.\<close>

lemma demo_refuses:
  "locate_file demo_fs demo_static_handler (demo_file_request ''..'') = Inl Refuse_not_found"
  "locate_file demo_fs demo_static_handler (demo_file_request ''.env'') = Inl Refuse_not_found"
  by code_simp+

theorem static_files_confined_witness:
  "\<exists>root components.
      fs_canonical demo_fs (sh_root demo_static_handler) = Inr root
    \<and> fs_canonical demo_fs (root @ components) = Inr (sd_path (snd demo_served))
    \<and> take (length root) (sd_path (snd demo_served)) = root"
  using static_files_confined [OF demo_options_set demo_serves] by blast

theorem file_sender_completes_witness:
  "let s = foldl (sender_step slow_stream) (send_more slow_stream True (make_file_sender [''a''] (''hello'', False) 4)) (replicate 2 (On_drain True))
   in sd_ends s = 1 \<and> concat (sd_written s) = ''hello''"
  using file_sender_completes [of slow_stream 4 "''hello''" 2 "[''a'']"] by (simp add: slow_stream_def swr_backpressure_def)


end
